(* ===== verification/Prelude.thy ===== *)
theory Prelude
  imports Complex_Main "HOL-Library.Word"
begin

text \<open>
  The prelude of the development: the error values that stand for the JavaScript
  exceptions the modelled code throws, the sequencing of fallible steps, the
  collections of simplification rules the component theories fill, and the generic
  lemmas on lists, bits and words they share.
\<close>

unbundle bit_operations_syntax

section \<open>Errors\<close>

text \<open>
  A thrown exception is a value on the left of a sum.  The constructor is the exception's
  class, its argument the message.
\<close>

datatype jserr = RangeError string | TypeError string | JsError string | YamlError string
  | UriError string

definition bindE :: "'e + 'a \<Rightarrow> ('a \<Rightarrow> 'e + 'b) \<Rightarrow> 'e + 'b" where
  "bindE m f = (case m of Inl e \<Rightarrow> Inl e | Inr a \<Rightarrow> f a)"

definition thenE :: "'e + unit \<Rightarrow> 'e + 'b \<Rightarrow> 'e + 'b" where
  "thenE m k = (case m of Inl e \<Rightarrow> Inl e | Inr _ \<Rightarrow> k)"

definition throw_if :: "bool \<Rightarrow> 'e \<Rightarrow> 'e + unit" where
  "throw_if c e = (if c then Inl e else Inr ())"

lemma bindE_simps [simp]: "bindE (Inl e) f = Inl e" "bindE (Inr a) f = f a"
  by (simp_all add: bindE_def)

lemma thenE_simps [simp]: "thenE (Inl e) k = Inl e" "thenE (Inr u) k = k"
  by (simp_all add: thenE_def)

lemma throw_if_simps [simp]: "throw_if True e = Inl e" "throw_if False e = Inr ()"
  by (simp_all add: throw_if_def)

lemma bindE_eq_Inr: "bindE m f = Inr b \<longleftrightarrow> (\<exists>a. m = Inr a \<and> f a = Inr b)"
  by (cases m) auto

lemma thenE_eq_Inr: "thenE m k = Inr b \<longleftrightarrow> m = Inr () \<and> k = Inr b"
  by (cases m) auto

lemma throw_if_eq_Inr [simp]: "throw_if c e = Inr u \<longleftrightarrow> \<not> c"
  by (simp add: throw_if_def)

lemma throw_if_eq_Inl [simp]: "throw_if c e = Inl e' \<longleftrightarrow> c \<and> e = e'"
  by (simp add: throw_if_def)

text \<open>\<open>bit_eval\<close> gathers the rules that read a single bit of a composed integer.\<close>

named_theorems bit_eval

lemmas [bit_eval] = bit_and_iff bit_or_iff bit_xor_iff bit_push_bit_iff bit_drop_bit_eq
  bit_take_bit_iff bit_signed_take_bit_iff bit_take_bit_iff

lemma signed_or [simp]:
  "signed_take_bit n (signed_take_bit n p OR q) = signed_take_bit n (p OR q :: int)"
  "signed_take_bit n (p OR signed_take_bit n q) = signed_take_bit n (p OR q :: int)"
  by (rule bit_eqI, simp add: bit_eval)+

lemma or_signed: "signed_take_bit n p OR signed_take_bit n q = signed_take_bit n (p OR q :: int)"
  by (rule bit_eqI) (simp add: bit_eval)

section \<open>Octets\<close>

type_synonym octet = "8 word"

lemma uint_octet_bounds: "0 \<le> uint (b :: octet)" "uint (b :: octet) < 256"
  using uint_lt2p [of b] by simp_all

lemma uint_octet_ge [simp]: "n \<le> 0 \<Longrightarrow> n \<le> uint (b :: octet)"
  by (rule order_trans [OF _ uint_octet_bounds(1)])

lemma uint_octet_mod [simp]: "uint (b :: octet) mod 256 = uint b"
  using uint_octet_bounds [of b] by simp

lemma uint_octet_word_of_int: "uint (word_of_int k :: octet) = k mod 256"
  by (simp add: uint_word_of_int)

lemma octet_uint_inverse [simp]: "(word_of_int (uint b) :: octet) = b"
  by (fact word_of_int_uint)

text \<open>Octets enter arithmetic as integers: the embedding \<open>of_int (uint b)\<close> stays as it is.\<close>

declare of_int_uint [simp del]

lemma octet_of_digit [simp]: "(word_of_int (q * 256 + uint b) :: octet) = b"
  by (rule word_uint_eqI) (simp only: uint_octet_word_of_int, simp)

text \<open>A little-endian and a big-endian number read from a list of octets.\<close>

fun le_val :: "octet list \<Rightarrow> int" where
  "le_val [] = 0"
| "le_val (b # bs) = uint b + 256 * le_val bs"

definition be_val :: "octet list \<Rightarrow> int" where
  "be_val bs = le_val (rev bs)"

text \<open>The \<open>n\<close> low octets of a number, least significant first.\<close>

fun le_octets :: "nat \<Rightarrow> int \<Rightarrow> octet list" where
  "le_octets 0 v = []"
| "le_octets (Suc n) v = word_of_int v # le_octets n (v div 256)"

definition be_octets :: "nat \<Rightarrow> int \<Rightarrow> octet list" where
  "be_octets n v = rev (le_octets n v)"

lemma length_le_octets [simp]: "length (le_octets n v) = n"
  by (induction n arbitrary: v) auto

lemma length_be_octets [simp]: "length (be_octets n v) = n"
  by (simp add: be_octets_def)

lemma le_val_nonneg: "0 \<le> le_val bs"
  by (induction bs) auto

lemma digit_bound: "u < 256 \<Longrightarrow> x < p \<Longrightarrow> u + 256 * x < 256 * (p :: int)"
  by linarith

lemma le_val_bound: "le_val bs < 256 ^ length bs"
  by (induction bs) (simp_all add: digit_bound uint_octet_bounds)

lemma le_val_le_octets: "le_val (le_octets n v) = v mod 256 ^ n"
proof (induction n arbitrary: v)
  case (Suc n)
  have "v mod (256 * 256 ^ n) = v mod 256 + 256 * (v div 256 mod 256 ^ n)"
    by (subst zmod_zmult2_eq) (simp_all add: mult.commute add.commute)
  then show ?case using Suc by (simp add: uint_octet_word_of_int)
qed simp

lemma be_val_be_octets: "be_val (be_octets n v) = v mod 256 ^ n"
  by (simp add: be_val_def be_octets_def le_val_le_octets)

lemma le_octets_le_val: "le_octets (length bs) (le_val bs) = bs"
proof (induction bs)
  case (Cons b bs)
  have "(uint b + 256 * le_val bs) div 256 = le_val bs"
    using uint_octet_bounds [of b] by (simp add: div_pos_pos_trivial)
  moreover have "(word_of_int (uint b + 256 * le_val bs) :: octet) = b"
    by (rule word_uint_eqI) (simp only: uint_word_of_int, simp)
  ultimately show ?case using Cons by simp
qed simp

lemma be_octets_be_val: "be_octets (length bs) (be_val bs) = bs"
  using le_octets_le_val [of "rev bs"] by (simp add: be_octets_def be_val_def)

text \<open>Appending an octet at the most significant end, and the big-endian reading of a prefix.\<close>

lemma be_val_snoc: "be_val (bs @ [b]) = uint b + 256 * be_val bs"
  by (simp add: be_val_def)

lemma be_val_take_Suc:
  "j < length bs \<Longrightarrow> be_val (take (Suc j) bs) = uint (bs ! j) + 256 * be_val (take j bs)"
  by (simp add: take_Suc_conv_app_nth be_val_snoc)

lemma octet_or_shift: "0 \<le> v \<Longrightarrow> uint (b :: octet) + 256 * v = uint b OR push_bit 8 v"
proof -
  have "push_bit 8 v OR uint b = push_bit 8 v + uint b"
  proof (rule disjunctive_add [symmetric])
    show "\<not> bit (push_bit 8 v) n \<or> \<not> bit (uint b) n" for n
      by (simp add: bit_eval bit_uint_iff)
  qed
  then show ?thesis by (simp add: push_bit_eq_mult or.commute)
qed

lemma le_val_or: "le_val (b # bs) = uint b OR push_bit 8 (le_val bs)"
  by (simp add: octet_or_shift le_val_nonneg)

text \<open>Two's complement: the reading of \<open>Suc n\<close> bits with a sign.\<close>

lemma signed_take_bit_cases:
  assumes "0 \<le> v" "v < (2 :: int) ^ Suc n"
  shows "signed_take_bit n v = (if v < 2 ^ n then v else v - 2 ^ Suc n)"
proof (cases "v < 2 ^ n")
  case True
  have "- (2 ^ n) \<le> v" using assms(1) by (rule order_trans [rotated]) simp
  then show ?thesis using True by (simp add: signed_take_bit_int_eq_self)
next
  case False
  have "signed_take_bit n v = (v + 2 ^ n) mod 2 ^ Suc n - 2 ^ n"
    by (simp only: signed_take_bit_eq_take_bit_shift take_bit_eq_mod)
  also have "(v + 2 ^ n) mod 2 ^ Suc n = (v + 2 ^ n - 2 ^ Suc n) mod 2 ^ Suc n"
    by (simp only: minus_mod_self2)
  also have "\<dots> = v + 2 ^ n - 2 ^ Suc n" using assms False by (intro mod_pos_pos_trivial) auto
  finally show ?thesis using False by simp
qed

text \<open>A quotient splits into its next digit and the quotient above it.\<close>

lemma div_digit:
  assumes "0 \<le> (b :: int)" "0 \<le> c"
  shows "x div b = x div (b * c) * c + x div b mod c"
  using div_mult_mod_eq [of "x div b" c] assms by (simp add: zdiv_zmult2_eq)

lemma digit_add_div: "0 \<le> r \<Longrightarrow> r < b \<Longrightarrow> (q * b + r) div b = (q :: int)"
  by (simp add: div_pos_pos_trivial)

lemma digit_add_mod: "0 \<le> r \<Longrightarrow> r < b \<Longrightarrow> (q * b + r) mod b = (r :: int)"
  by (simp add: mod_pos_pos_trivial)

section \<open>Lists\<close>

text \<open>A run of elements written over a list from a position on.\<close>

definition splice :: "'a list \<Rightarrow> nat \<Rightarrow> 'a list \<Rightarrow> 'a list" where
  "splice xs i ys = take i xs @ ys @ drop (i + length ys) xs"

lemma length_splice [simp]: "i + length ys \<le> length xs \<Longrightarrow> length (splice xs i ys) = length xs"
  by (simp add: splice_def)

lemma splice_Nil [simp]: "splice xs i [] = xs"
  by (simp add: splice_def)

lemma splice_Cons:
  "i + length ys < length xs \<Longrightarrow> splice xs i (y # ys) = splice (xs[i := y]) (Suc i) ys"
  by (simp add: splice_def upd_conv_take_nth_drop take_Suc_conv_app_nth min_def)
    (simp add: add.commute)

lemma splice_snoc:
  "i + length ys < length xs \<Longrightarrow> splice xs i (ys @ [y]) = (splice xs i ys)[i + length ys := y]"
  by (simp add: splice_def list_update_append Cons_nth_drop_Suc [symmetric] min_def)

lemma nth_splice:
  "i + length ys \<le> length xs \<Longrightarrow> j < length xs \<Longrightarrow>
     splice xs i ys ! j = (if i \<le> j \<and> j < i + length ys then ys ! (j - i) else xs ! j)"
  by (auto simp: splice_def nth_append min_def)

lemma take_drop_splice [simp]:
  "i + length ys \<le> length xs \<Longrightarrow> take (length ys) (drop i (splice xs i ys)) = ys"
  by (simp add: splice_def)

end
