(* ===== verification/JsNumber.thy ===== *)
theory JsNumber
  imports Prelude
begin

text \<open>
  The numbers of JavaScript as the modelled code uses them: the conversions ToInt32,
  ToUint32 and ToUint8, the bitwise operators, and arithmetic and comparison with the
  values that are not finite numbers.

  A finite number is a rational: every finite double is one, and the modelled code stays
  where double arithmetic is exact (sums and products below \<open>2 ^ 53\<close>, quotients by powers
  of two).  The two zeros are one value.  \<open>Undef\<close> is the value \<open>undefined\<close>, which an
  absent array element or argument yields and which the operators convert to \<open>NaN\<close>.
\<close>

datatype jnum = Undef | NaN | PInf | NInf | Num rat

text \<open>The integers among them.\<close>

definition JInt :: "int \<Rightarrow> jnum" where
  "JInt n = Num (of_int n)"

section \<open>Conversions\<close>

text \<open>Truncation towards zero.\<close>

definition rtrunc :: "rat \<Rightarrow> int" where
  "rtrunc r = (if r < 0 then - \<lfloor>- r\<rfloor> else \<lfloor>r\<rfloor>)"

definition int_part :: "jnum \<Rightarrow> int" where
  "int_part x = (case x of Num r \<Rightarrow> rtrunc r | _ \<Rightarrow> 0)"

definition to_int32 :: "jnum \<Rightarrow> int" where
  "to_int32 x = signed_take_bit 31 (int_part x)"

definition to_uint32 :: "jnum \<Rightarrow> int" where
  "to_uint32 x = take_bit 32 (int_part x)"

definition to_uint8 :: "jnum \<Rightarrow> octet" where
  "to_uint8 x = word_of_int (int_part x)"

text \<open>The unary plus: \<open>undefined\<close> becomes \<open>NaN\<close>.\<close>

definition to_number :: "jnum \<Rightarrow> jnum" where
  "to_number x = (if x = Undef then NaN else x)"

text \<open>\<open>isFinite\<close>, and the truth value of a number.\<close>

definition is_finite :: "jnum \<Rightarrow> bool" where
  "is_finite x = (case x of Num _ \<Rightarrow> True | _ \<Rightarrow> False)"

definition num_truthy :: "jnum \<Rightarrow> bool" where
  "num_truthy x = (case x of Undef \<Rightarrow> False | NaN \<Rightarrow> False | Num r \<Rightarrow> r \<noteq> 0 | _ \<Rightarrow> True)"

section \<open>Bitwise operators\<close>

definition js_and :: "jnum \<Rightarrow> jnum \<Rightarrow> jnum" where
  "js_and a b = JInt (to_int32 a AND to_int32 b)"

definition js_or :: "jnum \<Rightarrow> jnum \<Rightarrow> jnum" where
  "js_or a b = JInt (to_int32 a OR to_int32 b)"

text \<open>\<open><<\<close>, \<open>>>\<close> and \<open>>>>\<close>; the code only shifts by literal counts below 32.\<close>

definition js_shl :: "jnum \<Rightarrow> nat \<Rightarrow> jnum" where
  "js_shl a k = JInt (signed_take_bit 31 (push_bit k (to_int32 a)))"

definition js_sar :: "jnum \<Rightarrow> nat \<Rightarrow> jnum" where
  "js_sar a k = JInt (drop_bit k (to_int32 a))"

definition js_shr :: "jnum \<Rightarrow> nat \<Rightarrow> jnum" where
  "js_shr a k = JInt (drop_bit k (to_uint32 a))"

section \<open>Arithmetic and comparison\<close>

fun js_neg :: "jnum \<Rightarrow> jnum" where
  "js_neg (Num x) = Num (- x)"
| "js_neg PInf = NInf"
| "js_neg NInf = PInf"
| "js_neg _ = NaN"

fun js_add :: "jnum \<Rightarrow> jnum \<Rightarrow> jnum" where
  "js_add (Num x) (Num y) = Num (x + y)"
| "js_add (Num x) PInf = PInf"
| "js_add PInf (Num y) = PInf"
| "js_add PInf PInf = PInf"
| "js_add (Num x) NInf = NInf"
| "js_add NInf (Num y) = NInf"
| "js_add NInf NInf = NInf"
| "js_add _ _ = NaN"

definition js_sub :: "jnum \<Rightarrow> jnum \<Rightarrow> jnum" where
  "js_sub a b = js_add a (js_neg b)"

text \<open>Multiplication and division by a positive integer.\<close>

fun js_mul_pos :: "jnum \<Rightarrow> int \<Rightarrow> jnum" where
  "js_mul_pos (Num x) m = Num (x * of_int m)"
| "js_mul_pos PInf m = PInf"
| "js_mul_pos NInf m = NInf"
| "js_mul_pos _ m = NaN"

fun js_div_pos :: "jnum \<Rightarrow> int \<Rightarrow> jnum" where
  "js_div_pos (Num x) m = Num (x / of_int m)"
| "js_div_pos PInf m = PInf"
| "js_div_pos NInf m = NInf"
| "js_div_pos _ m = NaN"

fun js_less :: "jnum \<Rightarrow> jnum \<Rightarrow> bool" where
  "js_less (Num x) (Num y) = (x < y)"
| "js_less (Num x) PInf = True"
| "js_less NInf (Num y) = True"
| "js_less NInf PInf = True"
| "js_less _ _ = False"

definition js_ge :: "jnum \<Rightarrow> jnum \<Rightarrow> bool" where
  "js_ge a b \<longleftrightarrow> js_less b a \<or> (a = b \<and> a \<noteq> Undef \<and> a \<noteq> NaN)"

section \<open>Rules\<close>

lemma rtrunc_of_int [simp]: "rtrunc (of_int n) = n"
  by (simp add: rtrunc_def flip: of_int_minus)

lemma rtrunc_numeral [simp]:
  "rtrunc 0 = 0" "rtrunc 1 = 1" "rtrunc (- 1) = - 1"
  "rtrunc (numeral k) = numeral k" "rtrunc (- numeral k) = - numeral k"
  by (simp_all add: rtrunc_def)

lemma floor_rat_numeral [simp]:
  "\<lfloor>numeral a / numeral b :: rat\<rfloor> = numeral a div numeral b"
  "\<lfloor>- (numeral a / numeral b) :: rat\<rfloor> = - numeral a div numeral b"
  using floor_divide_of_int_eq [of "numeral a" "numeral b", where ?'a = rat]
    floor_divide_of_int_eq [of "- numeral a" "numeral b", where ?'a = rat]
  by simp_all

lemma rtrunc_div:
  assumes "0 < m"
  shows "rtrunc (of_int n / of_int m) = (if n < 0 then - ((- n) div m) else n div m)"
proof -
  have "(of_int n / of_int m :: rat) < 0 \<longleftrightarrow> n < 0"
    using assms by (simp add: divide_less_0_iff)
  moreover have "\<lfloor>of_int n / of_int m :: rat\<rfloor> = n div m"
    by (rule floor_divide_of_int_eq)
  moreover have "\<lfloor>- (of_int n / of_int m) :: rat\<rfloor> = (- n) div m"
    using floor_divide_of_int_eq [of "- n" m, where ?'a = rat] by simp
  ultimately show ?thesis by (simp add: rtrunc_def)
qed

lemma int_part_simps [simp]:
  "int_part (JInt n) = n" "int_part (Num r) = rtrunc r" "int_part Undef = 0" "int_part NaN = 0"
  "int_part PInf = 0" "int_part NInf = 0"
  by (simp_all add: int_part_def JInt_def)

lemma to_int32_simps [simp]:
  "to_int32 (JInt n) = signed_take_bit 31 n" "to_int32 (Num r) = signed_take_bit 31 (rtrunc r)"
  "to_int32 Undef = 0" "to_int32 NaN = 0" "to_int32 PInf = 0" "to_int32 NInf = 0"
  by (simp_all add: to_int32_def)

lemma to_uint32_simps [simp]:
  "to_uint32 (JInt n) = take_bit 32 n" "to_uint32 (Num r) = take_bit 32 (rtrunc r)"
  "to_uint32 Undef = 0" "to_uint32 NaN = 0" "to_uint32 PInf = 0" "to_uint32 NInf = 0"
  by (simp_all add: to_uint32_def)

lemma to_uint8_simps [simp]:
  "to_uint8 (JInt n) = word_of_int n" "to_uint8 (Num r) = word_of_int (rtrunc r)"
  "to_uint8 Undef = 0" "to_uint8 NaN = 0" "to_uint8 PInf = 0" "to_uint8 NInf = 0"
  by (simp_all add: to_uint8_def)

lemma JInt_eq_iff [simp]: "JInt a = JInt b \<longleftrightarrow> a = b"
  by (simp add: JInt_def)

lemma JInt_distinct [simp]:
  "JInt n \<noteq> Undef" "JInt n \<noteq> NaN" "JInt n \<noteq> PInf" "JInt n \<noteq> NInf"
  "Undef \<noteq> JInt n" "NaN \<noteq> JInt n" "PInf \<noteq> JInt n" "NInf \<noteq> JInt n"
  by (simp_all add: JInt_def)

lemma JInt_arith [simp]:
  "js_neg (JInt a) = JInt (- a)" "js_add (JInt a) (JInt b) = JInt (a + b)"
  "js_sub (JInt a) (JInt b) = JInt (a - b)" "js_mul_pos (JInt a) m = JInt (a * m)"
  by (simp_all add: JInt_def js_sub_def)

lemma JInt_order [simp]:
  "js_less (JInt a) (JInt b) \<longleftrightarrow> a < b" "js_ge (JInt a) (JInt b) \<longleftrightarrow> b \<le> a"
  by (auto simp: JInt_def js_ge_def)

lemma JInt_unary [simp]:
  "to_number (JInt n) = JInt n" "is_finite (JInt n)" "num_truthy (JInt n) \<longleftrightarrow> n \<noteq> 0"
  by (simp_all add: JInt_def to_number_def is_finite_def num_truthy_def)

lemma js_less_NaN [simp]:
  "\<not> js_less NaN x" "\<not> js_less x NaN" "\<not> js_less Undef x" "\<not> js_less x Undef"
  by (cases x; simp)+

lemma int_part_div [simp]:
  "0 < m \<Longrightarrow> int_part (js_div_pos (JInt n) m) = (if n < 0 then - ((- n) div m) else n div m)"
  by (simp add: JInt_def rtrunc_div)

lemma to_int32_bounds: "- (2 ^ 31) \<le> to_int32 x" "to_int32 x < 2 ^ 31"
  unfolding to_int32_def
  by (rule signed_take_bit_int_greater_eq_minus_exp, rule signed_take_bit_int_less_exp)

lemma to_int32_id: "- (2 ^ 31) \<le> n \<Longrightarrow> n < 2 ^ 31 \<Longrightarrow> signed_take_bit 31 n = (n :: int)"
  by (simp add: signed_take_bit_int_eq_self)

text \<open>
  Bitwise operators as arithmetic, where the operands are in range: a mask is a remainder,
  a shift a division or a product, an \<open>OR\<close> of disjoint bits a sum.
\<close>

named_theorems js_arith

lemma take_bit_to_int32: "k \<le> 31 \<Longrightarrow> take_bit k (signed_take_bit 31 (x :: int)) = take_bit k x"
  by (rule bit_eqI) (auto simp: bit_eval)

lemma js_and_mask:
  assumes "k \<le> 31"
  shows "js_and (JInt x) (JInt (2 ^ k - 1)) = JInt (x mod 2 ^ k)"
proof -
  have "signed_take_bit 31 (mask k :: int) = mask k"
    using assms power_increasing [of k 31 "2 :: int"]
    by (intro signed_take_bit_int_eq_self)
      (auto simp: mask_eq_exp_minus_1 intro: order_less_le_trans [of _ 0])
  moreover have "signed_take_bit 31 x AND mask k = x mod 2 ^ k"
    using assms by (simp add: take_bit_to_int32 flip: take_bit_eq_mask take_bit_eq_mod)
  ultimately show ?thesis by (simp add: js_and_def mask_eq_exp_minus_1)
qed

lemma js_and_masks [js_arith]:
  "js_and (JInt x) (JInt 255) = JInt (x mod 256)" "js_and (JInt x) (JInt 127) = JInt (x mod 128)"
  "js_and (JInt x) (JInt 63) = JInt (x mod 64)" "js_and (JInt x) (JInt 31) = JInt (x mod 32)"
  "js_and (JInt x) (JInt 15) = JInt (x mod 16)" "js_and (JInt x) (JInt 1023) = JInt (x mod 1024)"
  using js_and_mask [of 8 x] js_and_mask [of 7 x] js_and_mask [of 6 x] js_and_mask [of 5 x]
    js_and_mask [of 4 x] js_and_mask [of 10 x] by simp_all

lemma js_sar_div [js_arith]:
  "- (2 ^ 31) \<le> x \<Longrightarrow> x < 2 ^ 31 \<Longrightarrow> js_sar (JInt x) k = JInt (x div 2 ^ k)"
  by (simp add: js_sar_def signed_take_bit_int_eq_self drop_bit_eq_div)

lemma js_shr_div [js_arith]: "0 \<le> x \<Longrightarrow> x < 2 ^ 32 \<Longrightarrow> js_shr (JInt x) k = JInt (x div 2 ^ k)"
  by (simp add: js_shr_def take_bit_int_eq_self drop_bit_eq_div)

lemma js_shl_mult [js_arith]:
  assumes "0 \<le> x" "x * 2 ^ k < 2 ^ 31"
  shows "js_shl (JInt x) k = JInt (x * 2 ^ k)"
proof -
  have "x \<le> x * 2 ^ k" using assms(1) by (simp add: mult_le_cancel_left1)
  with assms show ?thesis
    by (simp add: js_shl_def signed_take_bit_int_eq_self push_bit_eq_mult)
qed

lemma or_disjoint:
  assumes "p mod 2 ^ k = 0" "0 \<le> q" "q < 2 ^ k"
  shows "p OR q = p + (q :: int)"
proof -
  have "\<not> bit p n \<or> \<not> bit q n" for n
  proof (cases "n < k")
    case True
    then have "bit p n \<longleftrightarrow> bit (take_bit k p) n" by (simp add: bit_eval)
    then show ?thesis using assms(1) by (simp add: take_bit_eq_mod)
  next
    case False
    have "bit q n \<longleftrightarrow> bit (take_bit k q) n"
      using assms by (simp add: take_bit_int_eq_self)
    then show ?thesis using False by (simp add: bit_eval)
  qed
  then show ?thesis by (simp add: disjunctive_add)
qed

lemma js_or_add:
  assumes "p mod 2 ^ k = 0" "0 \<le> q" "q < 2 ^ k" "- (2 ^ 31) \<le> p" "p < 2 ^ 31" "q < 2 ^ 31"
  shows "js_or (JInt p) (JInt q) = JInt (p + q)"
  using assms by (simp add: js_or_def signed_take_bit_int_eq_self or_disjoint)

lemma js_or_commute: "js_or a b = js_or b a"
  by (simp add: js_or_def or.commute)

lemma js_sar_and_octet:
  assumes "0 \<le> x" "x < 2 ^ 31" "k \<le> 16"
  shows "js_sar (js_and (JInt x) (JInt (255 * 2 ^ k))) k = JInt (x div 2 ^ k mod 256)"
proof -
  have p: "(2 :: int) ^ k \<le> 2 ^ 16" using assms(3) by (intro power_increasing) auto
  have r: "signed_take_bit 31 (255 * 2 ^ k :: int) = 255 * 2 ^ k"
    using p by (intro signed_take_bit_int_eq_self) (auto intro: order_trans [of _ 0])
  have x: "signed_take_bit 31 x = x" using assms by (simp add: signed_take_bit_int_eq_self)
  define y where "y = x AND (255 * 2 ^ k)"
  have "0 \<le> y" "y \<le> x" using assms(1) by (simp_all add: y_def AND_upper1)
  then have y: "signed_take_bit 31 y = y" using assms by (simp add: signed_take_bit_int_eq_self)
  have "drop_bit k (255 * 2 ^ k :: int) = 255" by (simp add: drop_bit_eq_div)
  then have "drop_bit k y = drop_bit k x AND 255" by (simp add: y_def)
  also have "\<dots> = take_bit 8 (drop_bit k x)" by (simp add: take_bit_eq_mask mask_eq_exp_minus_1)
  finally have "drop_bit k y = x div 2 ^ k mod 256" by (simp add: drop_bit_eq_div take_bit_eq_mod)
  then show ?thesis
    unfolding js_and_def js_sar_def to_int32_simps r x y_def [symmetric] y by simp
qed

text \<open>Without a range: the operators work on the low 32 bits, the stores on the low 8.\<close>

lemma js_or_low: "js_or (JInt p) (JInt q) = JInt (signed_take_bit 31 (p OR q))"
  by (simp add: js_or_def or_signed)

lemma js_shl_low: "js_shl (JInt p) k = JInt (signed_take_bit 31 (push_bit k p))"
  unfolding js_shl_def to_int32_simps JInt_eq_iff
  by (cases "k = 0"; rule bit_eqI) (auto simp: bit_eval min_def)

lemma to_uint8_and_255 [simp]: "to_uint8 (js_and x (JInt 255)) = to_uint8 x"
proof -
  have "js_and x (JInt 255) = js_and x (JInt (mask 8))" by (simp add: mask_eq_exp_minus_1)
  also have "to_uint8 \<dots> = to_uint8 x"
    unfolding js_and_def to_uint8_simps to_uint8_def to_int32_def int_part_simps
    by (rule bit_eqI) (auto simp: bit_eval bit_word_of_int_iff bit_mask_iff)
  finally show ?thesis .
qed

lemma to_uint8_shr: "k \<le> 24 \<Longrightarrow> to_uint8 (js_shr (JInt v) k) = word_of_int (v div 2 ^ k)"
  by (rule bit_eqI)
    (auto simp: js_shr_def bit_word_of_int_iff bit_eval simp flip: drop_bit_eq_div)

lemma to_uint8_div: "0 \<le> v \<Longrightarrow> 0 < m \<Longrightarrow> to_uint8 (js_div_pos (JInt v) m) = word_of_int (v div m)"
  by (simp add: to_uint8_def)

end
