(* ===== verification/JsString.thy ===== *)
theory JsString
  imports JsNumber
begin

text \<open>
  The strings of JavaScript: lists of 16-bit code units, with the methods of
  \<open>String.prototype\<close> the modelled code calls.  String literals of the source are written
  \<open>js ''...''\<close>.
\<close>

type_synonym jstr = "16 word list"

definition js :: "string \<Rightarrow> jstr" where
  "js s = map of_char s"

abbreviation code :: "16 word \<Rightarrow> int" where
  "code c \<equiv> uint c"

lemma word_of_code [simp]: "word_of_int (code c) = c"
  by (fact word_of_int_uint)

text \<open>\<open>String.fromCharCode\<close> converts with ToUint16.\<close>

definition from_char_code :: "jnum \<Rightarrow> 16 word" where
  "from_char_code x = word_of_int (int_part x)"

section \<open>Access by position\<close>

definition char_at :: "jstr \<Rightarrow> int \<Rightarrow> jstr" where
  "char_at s i = (if 0 \<le> i \<and> i < int (length s) then [s ! nat i] else [])"

definition char_code_at :: "jstr \<Rightarrow> int \<Rightarrow> jnum" where
  "char_code_at s i = (if 0 \<le> i \<and> i < int (length s) then JInt (code (s ! nat i)) else NaN)"

text \<open>\<open>s.slice(a, b)\<close> with bounds that are not negative.\<close>

definition str_slice :: "jstr \<Rightarrow> nat \<Rightarrow> nat \<Rightarrow> jstr" where
  "str_slice s a b = take (b - a) (drop a s)"

section \<open>Searching\<close>

definition starts_with :: "jstr \<Rightarrow> jstr \<Rightarrow> bool" where
  "starts_with p s \<longleftrightarrow> take (length p) s = p"

fun find_at :: "nat \<Rightarrow> jstr \<Rightarrow> jstr \<Rightarrow> int" where
  "find_at k [] p = (if p = [] then int k else -1)"
| "find_at k (c # s) p = (if starts_with p (c # s) then int k else find_at (Suc k) s p)"

text \<open>\<open>s.indexOf(p)\<close> and \<open>s.indexOf(p, from)\<close>.\<close>

definition index_of :: "jstr \<Rightarrow> jstr \<Rightarrow> int" where
  "index_of s p = find_at 0 s p"

definition index_of_from :: "jstr \<Rightarrow> jstr \<Rightarrow> nat \<Rightarrow> int" where
  "index_of_from s p k = (let k' = min k (length s) in find_at k' (drop k' s) p)"

section \<open>Case and white space\<close>

text \<open>
  \<open>toLowerCase\<close> on the ASCII letters.  The modelled code compares the result with ASCII
  words without the letter k only; no code unit outside ASCII has a lower-case mapping to a
  single ASCII letter but U+212A, which maps to k, so the comparisons come out the same.
\<close>

definition lower_unit :: "16 word \<Rightarrow> 16 word" where
  "lower_unit c = (if 65 \<le> code c \<and> code c \<le> 90 then c + 32 else c)"

definition to_lower :: "jstr \<Rightarrow> jstr" where
  "to_lower s = map lower_unit s"

text \<open>WhiteSpace and LineTerminator, the code units \<open>trim\<close> removes.\<close>

definition is_space :: "16 word \<Rightarrow> bool" where
  "is_space c \<longleftrightarrow> c \<in> {9, 10, 11, 12, 13, 32, 160, 0x1680, 0x2028, 0x2029, 0x202F, 0x205F,
     0x3000, 0xFEFF} \<or> (0x2000 \<le> code c \<and> code c \<le> 0x200A)"

definition trim :: "jstr \<Rightarrow> jstr" where
  "trim s = rev (dropWhile is_space (rev (dropWhile is_space s)))"

section \<open>Rules\<close>

lemma js_Nil [simp]: "js [] = []" and js_Cons: "js (c # s) = of_char c # js s"
  by (simp_all add: js_def)

lemma length_js [simp]: "length (js s) = length s"
  by (simp add: js_def)

lemma from_char_code_JInt [simp]: "from_char_code (JInt n) = word_of_int n"
  by (simp add: from_char_code_def)

lemma code_bounds [simp]: "0 \<le> code c" "code c < 65536"
  using uint_lt2p [of c] by simp_all

lemma length_to_lower [simp]: "length (to_lower s) = length s"
  by (simp add: to_lower_def)

lemma code_lower_unit:
  "code (lower_unit c) = (if 65 \<le> code c \<and> code c \<le> 90 then code c + 32 else code c)"
  by (simp add: lower_unit_def uint_word_ariths)

lemma lower_unit_idem [simp]: "lower_unit (lower_unit c) = lower_unit c"
  using code_lower_unit [of c] by (simp add: lower_unit_def [of "lower_unit c"])

lemma to_lower_idem [simp]: "to_lower (to_lower s) = to_lower s"
  by (simp add: to_lower_def)

lemma starts_with_append [simp]: "starts_with p (p @ s)"
  by (simp add: starts_with_def)

lemma starts_with_iff: "starts_with p s \<longleftrightarrow> (\<exists>t. s = p @ t)"
  by (auto simp: starts_with_def) (metis append_take_drop_id)

text \<open>A search either fails, or gives the first position the pattern occurs at.\<close>

lemma find_at_cases:
  "find_at k s p = -1 \<and> (\<forall>j \<le> length s. \<not> starts_with p (drop j s)) \<or>
   (\<exists>j \<le> length s. find_at k s p = int (k + j) \<and> starts_with p (drop j s) \<and>
      (\<forall>i < j. \<not> starts_with p (drop i s)))"
proof (induction s arbitrary: k)
  case Nil
  show ?case by (auto simp: starts_with_def)
next
  case (Cons c s)
  show ?case
  proof (cases "starts_with p (c # s)")
    case True
    then show ?thesis by (intro disjI2 exI [of _ 0]) auto
  next
    case False
    note nostart = this
    from Cons.IH [of "Suc k"] show ?thesis
    proof
      assume "find_at (Suc k) s p = -1 \<and> (\<forall>j \<le> length s. \<not> starts_with p (drop j s))"
      then show ?thesis using nostart by (auto simp: drop_Cons' elim!: allE)
    next
      assume "\<exists>j \<le> length s. find_at (Suc k) s p = int (Suc k + j) \<and> starts_with p (drop j s) \<and>
        (\<forall>i < j. \<not> starts_with p (drop i s))"
      then obtain j where "j \<le> length s" "find_at (Suc k) s p = int (Suc k + j)"
        "starts_with p (drop j s)" "\<forall>i < j. \<not> starts_with p (drop i s)" by blast
      then show ?thesis using nostart
        by (intro disjI2 exI [of _ "Suc j"]) (auto simp: drop_Cons')
    qed
  qed
qed

lemma index_of_prefix: "index_of s p = 0 \<longleftrightarrow> starts_with p s"
  using find_at_cases [of 0 s p] by (auto simp: index_of_def) (metis drop0 gr0I)

end
