(* ===== verification/OctetStore.thy ===== *)
theory OctetStore
  imports Prelude
begin

text \<open>
  What the readers and writers of numbers and text need from the memory under a buffer: single
  octets are assigned one at a time, and a run of assignments, in whichever order, is a splice
  of the octets shown.
\<close>

locale octet_store =
  fixes upd :: "'h \<Rightarrow> nat \<Rightarrow> octet \<Rightarrow> 'h"
    and run :: "'h \<Rightarrow> nat \<Rightarrow> octet list \<Rightarrow> 'h"
    and lst :: "'h \<Rightarrow> octet list"
    and ok :: "'h \<Rightarrow> bool"
    and size_of :: nat
  assumes ok_upd: "ok (upd h k v) \<longleftrightarrow> ok h"
    and length_lst: "ok h \<Longrightarrow> length (lst h) = size_of"
    and run_Nil: "ok h \<Longrightarrow> run h k [] = h"
    and run_Cons: "ok h \<Longrightarrow> k + length vs < size_of \<Longrightarrow>
      run h k (v # vs) = run (upd h k v) (Suc k) vs"
    and upd_swap: "i \<noteq> j \<Longrightarrow> upd (upd h i v) j w = upd (upd h j w) i v"
    and lst_run: "ok h \<Longrightarrow> k + length vs \<le> size_of \<Longrightarrow> lst (run h k vs) = splice (lst h) k vs"
begin

lemma upd_one: "ok h \<Longrightarrow> k < size_of \<Longrightarrow> upd h k v = run h k [v]"
  by (simp add: run_Cons run_Nil ok_upd)

lemma upd_past_run:
  "ok h \<Longrightarrow> k + length vs \<le> size_of \<Longrightarrow> j < k \<Longrightarrow> upd (run h k vs) j w = run (upd h j w) k vs"
proof (induction vs arbitrary: h k)
  case Nil
  then show ?case by (simp add: run_Nil ok_upd)
next
  case (Cons v vs)
  then show ?case by (simp add: run_Cons ok_upd upd_swap [of j k])
qed

text \<open>The last octet of a run may come first or last, and so may the first.\<close>

lemma run_first_last:
  "ok h \<Longrightarrow> k + length vs < size_of \<Longrightarrow> run h k (v # vs) = upd (run h (Suc k) vs) k v"
  by (simp add: run_Cons upd_past_run)

lemma run_snoc:
  "ok h \<Longrightarrow> k + length vs < size_of \<Longrightarrow> run h k (vs @ [v]) = upd (run h k vs) (k + length vs) v"
proof (induction vs arbitrary: h k)
  case Nil
  then show ?case by (simp add: run_Nil upd_one)
next
  case (Cons w vs)
  then show ?case by (simp add: run_Cons ok_upd)
qed

lemma upd_beyond_run:
  "ok h \<Longrightarrow> k + length vs \<le> j \<Longrightarrow> j < size_of \<Longrightarrow> run (upd h j w) k vs = upd (run h k vs) j w"
proof (induction vs arbitrary: h k)
  case Nil
  then show ?case by (simp add: run_Nil ok_upd)
next
  case (Cons v vs)
  then show ?case by (simp add: run_Cons ok_upd upd_swap [of j k])
qed

text \<open>Descending assignment: the last octet first, then the rest of the run.\<close>

lemma run_last_first:
  "ok h \<Longrightarrow> k + length vs < size_of \<Longrightarrow> run (upd h (k + length vs) v) k vs = run h k (vs @ [v])"
  by (simp add: upd_beyond_run run_snoc)

lemma ok_run: "ok h \<Longrightarrow> k + length vs \<le> size_of \<Longrightarrow> ok (run h k vs)"
  by (induction vs arbitrary: h k) (simp_all add: run_Nil run_Cons ok_upd)

lemma upd_two:
  assumes "ok h" "Suc k < size_of"
  shows "upd (upd h k a) (Suc k) b = run h k [a, b]" "upd (upd h (Suc k) b) k a = run h k [a, b]"
  subgoal using assms by (simp add: run_Cons run_Nil ok_upd)
  subgoal using assms by (simp add: run_first_last run_Nil)
  done

lemma upd_four:
  assumes "ok h" "k + 3 < size_of"
  shows "upd (upd (upd (upd h k a) (Suc k) b) (Suc (Suc k)) c) (Suc (Suc (Suc k))) d
      = run h k [a, b, c, d]"
    and "upd (upd (upd (upd h (Suc (Suc (Suc k))) d) (Suc (Suc k)) c) (Suc k) b) k a
      = run h k [a, b, c, d]"
  subgoal using assms by (simp add: run_Cons run_Nil ok_upd)
  subgoal using assms by (simp add: run_first_last run_Nil)
  done

lemma read_back:
  "ok h \<Longrightarrow> k + length vs \<le> size_of \<Longrightarrow> take (length vs) (drop k (lst (run h k vs))) = vs"
  by (simp add: lst_run length_lst)

lemma read_beside:
  "ok h \<Longrightarrow> k + length vs \<le> size_of \<Longrightarrow> j < size_of \<Longrightarrow> j < k \<or> k + length vs \<le> j \<Longrightarrow>
     lst (run h k vs) ! j = lst h ! j"
  by (auto simp: lst_run length_lst nth_splice)

end

end
