(* ===== verification/BufferStore.thy ===== *)
theory BufferStore
  imports JsString OctetStore
begin

text \<open>
  The state of the buffer module (\<open>swagger-ui.js\<close>, module 14): array buffers in a store, and
  \<open>Buffer\<close> objects as views on them, so that \<open>slice\<close> shares memory with its source as
  \<open>subarray\<close> does.  The model is the module with \<open>Buffer.TYPED_ARRAY_SUPPORT\<close> true, which
  every engine with conforming typed arrays computes.

  The store (\<open>heap\<close>) holds the array buffers ever allocated, and counts the objects created,
  whose numbers are their identities.  An element read beyond the length is \<open>undefined\<close>, an
  element written there is ignored, and a value written is reduced with ToUint8.
\<close>

section \<open>State\<close>

record heap =
  mem :: "octet list list"
  objs :: nat

text \<open>The property \<open>parent\<close>: absent, the pool marker \<open>rootParent\<close>, or a buffer's identity.\<close>

datatype parent = NoParent | RootParent | ParentBuf nat

record buffer =
  b_id :: nat
  b_addr :: nat
  b_off :: nat
  b_len :: nat
  b_parent :: parent

definition wf_buffer :: "heap \<Rightarrow> buffer \<Rightarrow> bool" where
  "wf_buffer h b \<longleftrightarrow> b_addr b < length (mem h) \<and> b_off b + b_len b \<le> length (mem h ! b_addr b)
     \<and> b_len b < 0x7fffffff \<and> b_id b < objs h"

text \<open>The octets a buffer shows.\<close>

definition octets :: "heap \<Rightarrow> buffer \<Rightarrow> octet list" where
  "octets h b = take (b_len b) (drop (b_off b) (mem h ! b_addr b))"

section \<open>Elements\<close>

text \<open>\<open>b[i]\<close> for an integer and for any number \<open>i\<close>.\<close>

definition elem :: "heap \<Rightarrow> buffer \<Rightarrow> int \<Rightarrow> jnum" where
  "elem h b i = (if 0 \<le> i \<and> i < int (b_len b) then JInt (uint (octets h b ! nat i)) else Undef)"

definition elem_num :: "heap \<Rightarrow> buffer \<Rightarrow> jnum \<Rightarrow> jnum" where
  "elem_num h b x = (case x of Num r \<Rightarrow> if of_int \<lfloor>r\<rfloor> = r then elem h b \<lfloor>r\<rfloor> else Undef | _ \<Rightarrow> Undef)"

definition set_octet :: "heap \<Rightarrow> buffer \<Rightarrow> nat \<Rightarrow> octet \<Rightarrow> heap" where
  "set_octet h b k v =
     h\<lparr>mem := (mem h)[b_addr b := (mem h ! b_addr b)[b_off b + k := v]]\<rparr>"

text \<open>\<open>b[i] = v\<close>.\<close>

definition put_elem :: "heap \<Rightarrow> buffer \<Rightarrow> int \<Rightarrow> jnum \<Rightarrow> heap" where
  "put_elem h b i v = (if 0 \<le> i \<and> i < int (b_len b) then set_octet h b (nat i) (to_uint8 v) else h)"

definition put_elem_num :: "heap \<Rightarrow> buffer \<Rightarrow> jnum \<Rightarrow> jnum \<Rightarrow> heap" where
  "put_elem_num h b x v = (case x of Num r \<Rightarrow> if of_int \<lfloor>r\<rfloor> = r then put_elem h b \<lfloor>r\<rfloor> v else h | _ \<Rightarrow> h)"

text \<open>A run of octets over the buffer from position \<open>k\<close> on: what the writers achieve.\<close>

definition put_octets :: "heap \<Rightarrow> buffer \<Rightarrow> nat \<Rightarrow> octet list \<Rightarrow> heap" where
  "put_octets h b k vs =
     h\<lparr>mem := (mem h)[b_addr b := splice (mem h ! b_addr b) (b_off b + k) vs]\<rparr>"

section \<open>Allocation\<close>

definition kMaxLength :: int where
  "kMaxLength = 0x7fffffff"

definition poolSize :: nat where
  "poolSize = 8192"

definition checked :: "jnum \<Rightarrow> jserr + int" where
  "checked n = thenE (throw_if (js_ge n (JInt kMaxLength))
       (RangeError ''Attempt to allocate Buffer larger than maximum size: 0x7fffffff bytes''))
     (Inr (to_int32 n))"

text \<open>\<open>Buffer._augment(new Uint8Array(n))\<close>: fresh zeroed memory, and the object on it.\<close>

definition allocate :: "heap \<Rightarrow> nat \<Rightarrow> buffer \<times> heap" where
  "allocate h n =
     (let fromPool = n \<noteq> 0 \<and> n \<le> poolSize div 2 in
      (\<lparr>b_id = objs h, b_addr = length (mem h), b_off = 0, b_len = n,
        b_parent = (if fromPool then RootParent else NoParent)\<rparr>,
       h\<lparr>mem := mem h @ [replicate n 0], objs := Suc (objs h)\<rparr>))"

definition fromNumber :: "heap \<Rightarrow> jnum \<Rightarrow> jserr + buffer \<times> heap" where
  "fromNumber h n =
     (if js_less n (JInt 0) then Inr (allocate h 0)
      else bindE (checked n) (\<lambda>k. Inr (allocate h (nat k))))"

text \<open>\<open>for (i = 0; i < length; i += 1) that[i] = array[i] & 255\<close>.\<close>

fun store_masked :: "heap \<Rightarrow> buffer \<Rightarrow> int \<Rightarrow> jnum list \<Rightarrow> heap" where
  "store_masked h b i [] = h"
| "store_masked h b i (x # xs) = store_masked (put_elem h b i (js_and x (JInt 255))) b (i + 1) xs"

definition fromArray :: "heap \<Rightarrow> jnum list \<Rightarrow> jserr + buffer \<times> heap" where
  "fromArray h xs =
     bindE (checked (JInt (int (length xs)))) (\<lambda>n.
       let (b, h') = allocate h (nat n) in Inr (b, store_masked h' b 0 xs))"

section \<open>Views\<close>

text \<open>
  \<open>slice(start, end)\<close>: both bounds go through \<open>~~\<close>, count from the end when negative and
  are clamped; the result is a \<open>subarray\<close>.
\<close>

definition clamp_bound :: "int \<Rightarrow> int \<Rightarrow> int" where
  "clamp_bound len i =
     (if i < 0 then (let i' = i + len in if i' < 0 then 0 else i') else if i > len then len else i)"

definition slice :: "heap \<Rightarrow> buffer \<Rightarrow> jnum \<Rightarrow> jnum \<Rightarrow> buffer \<times> heap" where
  "slice h b start end' =
     (let len = int (b_len b);
          s = clamp_bound len (to_int32 start);
          e0 = clamp_bound len (if end' = Undef then len else to_int32 end');
          e = (if e0 < s then s else e0);
          n = nat (e - s)
      in (\<lparr>b_id = objs h, b_addr = b_addr b, b_off = b_off b + nat s, b_len = n,
           b_parent = (if n = 0 then NoParent
                       else if b_parent b = NoParent then ParentBuf (b_id b) else b_parent b)\<rparr>,
          h\<lparr>objs := Suc (objs h)\<rparr>))"

section \<open>Comparison\<close>

text \<open>\<open>while (i < len) { if (a[i] !== b[i]) break; ++i }\<close>.\<close>

function first_diff :: "octet list \<Rightarrow> octet list \<Rightarrow> nat \<Rightarrow> nat \<Rightarrow> nat" where
  "first_diff xs ys len i =
     (if i < len then (if xs ! i \<noteq> ys ! i then i else first_diff xs ys len (Suc i)) else i)"
  by pat_completeness auto
termination
  by (relation "measure (\<lambda>(xs, ys, len, i). len - i)") auto

definition compare :: "heap \<Rightarrow> buffer \<Rightarrow> buffer \<Rightarrow> int" where
  "compare h a b =
     (if b_id a = b_id b then 0
      else
        let x = int (b_len a); y = int (b_len b);
            len = min (b_len a) (b_len b);
            i = first_diff (octets h a) (octets h b) len 0;
            x' = (if i \<noteq> len then uint (octets h a ! i) else x);
            y' = (if i \<noteq> len then uint (octets h b ! i) else y)
        in if x' < y' then -1 else if y' < x' then 1 else 0)"

definition equals :: "heap \<Rightarrow> buffer \<Rightarrow> buffer \<Rightarrow> bool" where
  "equals h a b \<longleftrightarrow> b_id a = b_id b \<or> compare h a b = 0"

section \<open>Copying\<close>

text \<open>
  \<open>copy\<close>: the arguments after its defaults, its early exits and its clamping are either
  an error, nothing to copy, or the start in the target, the start in the source, and the end.
\<close>

definition copy_args ::
  "int \<Rightarrow> int \<Rightarrow> jnum \<Rightarrow> jnum \<Rightarrow> jnum \<Rightarrow> jserr + (jnum \<times> jnum \<times> jnum) option" where
  "copy_args this_len target_len targetStart0 start0 end0 =
     (let start = (if \<not> num_truthy start0 then JInt 0 else start0);
          end1 = (if \<not> num_truthy end0 \<and> end0 \<noteq> JInt 0 then JInt this_len else end0);
          ts1 = (if js_ge targetStart0 (JInt target_len) then JInt target_len else targetStart0);
          ts = (if \<not> num_truthy ts1 then JInt 0 else ts1);
          end2 = (if js_less (JInt 0) end1 \<and> js_less end1 start then start else end1)
      in if end2 = start then Inr None
         else if target_len = 0 \<or> this_len = 0 then Inr None
         else if js_less ts (JInt 0) then Inl (RangeError ''targetStart out of bounds'')
         else if js_less start (JInt 0) \<or> js_ge start (JInt this_len)
           then Inl (RangeError ''sourceStart out of bounds'')
         else if js_less end2 (JInt 0) then Inl (RangeError ''sourceEnd out of bounds'')
         else
           let end3 = (if js_less (JInt this_len) end2 then JInt this_len else end2);
               end4 = (if js_less (js_sub (JInt target_len) ts) (js_sub end3 start)
                       then js_add (js_sub (JInt target_len) ts) start else end3)
           in Inr (Some (ts, start, end4)))"

text \<open>
  The three loops: descending and ascending assignments of single elements, and the bulk
  \<open>set\<close> of a typed array, which reads its source first.
\<close>

text \<open>\<open>for (i = len - 1; i >= 0; i--)\<close>, after \<open>k\<close> turns with \<open>n\<close> to go.\<close>

fun copy_down :: "heap \<Rightarrow> buffer \<Rightarrow> buffer \<Rightarrow> jnum \<Rightarrow> jnum \<Rightarrow> jnum \<Rightarrow> nat \<Rightarrow> nat \<Rightarrow> heap" where
  "copy_down h this target ts s len k 0 = h"
| "copy_down h this target ts s len k (Suc n) =
     (let i = js_sub len (JInt (int k + 1)) in
      copy_down (put_elem_num h target (js_add i ts) (elem_num h this (js_add i s)))
        this target ts s len (Suc k) n)"

fun copy_up :: "heap \<Rightarrow> buffer \<Rightarrow> buffer \<Rightarrow> jnum \<Rightarrow> jnum \<Rightarrow> nat \<Rightarrow> nat \<Rightarrow> heap" where
  "copy_up h this target ts s i 0 = h"
| "copy_up h this target ts s i (Suc n) =
     copy_up (put_elem_num h target (js_add (JInt (int i)) ts)
                (elem_num h this (js_add (JInt (int i)) s))) this target ts s (Suc i) n"

definition copy_set :: "heap \<Rightarrow> buffer \<Rightarrow> buffer \<Rightarrow> nat \<Rightarrow> nat \<Rightarrow> nat \<Rightarrow> heap" where
  "copy_set h this target ts s e = put_octets h target ts (take (e - s) (drop s (octets h this)))"

text \<open>The number of turns of \<open>for (i = 0; i < len; i++)\<close> and of the descending loop.\<close>

definition turns_up :: "jnum \<Rightarrow> nat" where
  "turns_up len = (case len of Num r \<Rightarrow> nat \<lceil>r\<rceil> | _ \<Rightarrow> 0)"

definition turns_down :: "jnum \<Rightarrow> nat" where
  "turns_down len = (case len of Num r \<Rightarrow> nat \<lfloor>r\<rfloor> | _ \<Rightarrow> 0)"

definition copy :: "heap \<Rightarrow> buffer \<Rightarrow> buffer \<Rightarrow> jnum \<Rightarrow> jnum \<Rightarrow> jnum \<Rightarrow> jserr + jnum \<times> heap" where
  "copy h this target targetStart start0 end0 =
     bindE (copy_args (int (b_len this)) (int (b_len target)) targetStart start0 end0) (\<lambda>r.
       case r of
         None \<Rightarrow> Inr (JInt 0, h)
       | Some (ts, start, end') \<Rightarrow>
           let len = js_sub end' start in
           Inr (len,
             if b_id this = b_id target \<and> js_less start ts \<and> js_less ts end'
             then copy_down h this target ts start len 0 (turns_down len)
             else if js_less len (JInt 1000) then copy_up h this target ts start 0 (turns_up len)
             else copy_set h this target (nat (int_part ts)) (nat (int_part start))
                    (nat (int_part (js_add start len)))))"

section \<open>Buffers from buffers\<close>

definition fromBuffer :: "heap \<Rightarrow> buffer \<Rightarrow> jserr + buffer \<times> heap" where
  "fromBuffer h src =
     bindE (checked (JInt (int (b_len src)))) (\<lambda>n.
       let (b, h') = allocate h (nat n) in
       bindE (copy h' src b (JInt 0) (JInt 0) (JInt n)) (\<lambda>(_, h''). Inr (b, h'')))"

text \<open>\<open>concat(list, length)\<close>, its loop over the items after the allocation.\<close>

fun concat_into :: "heap \<Rightarrow> buffer \<Rightarrow> nat \<Rightarrow> buffer list \<Rightarrow> jserr + heap" where
  "concat_into h buf pos [] = Inr h"
| "concat_into h buf pos (item # items) =
     bindE (copy h item buf (JInt (int pos)) Undef Undef) (\<lambda>(_, h').
       concat_into h' buf (pos + b_len item) items)"

definition concat_buffers :: "heap \<Rightarrow> buffer list \<Rightarrow> jnum \<Rightarrow> jserr + buffer \<times> heap" where
  "concat_buffers h list len =
     (if list = [] then fromNumber h (JInt 0)
      else let n = (if len = Undef then JInt (int (sum_list (map b_len list))) else len) in
        bindE (fromNumber h n) (\<lambda>(buf, h').
          bindE (concat_into h' buf 0 list) (\<lambda>h''. Inr (buf, h''))))"

text \<open>\<open>SlowBuffer\<close> deletes the property \<open>parent\<close> of what \<open>Buffer\<close> builds.\<close>

definition slow_buffer :: "buffer \<Rightarrow> buffer" where
  "slow_buffer b = b\<lparr>b_parent := NoParent\<rparr>"

text \<open>The data of \<open>toJSON\<close>, and the memory \<open>toArrayBuffer\<close> answers: that of a fresh copy.\<close>

definition toJSON_data :: "heap \<Rightarrow> buffer \<Rightarrow> int list" where
  "toJSON_data h b = map uint (octets h b)"

definition toArrayBuffer :: "heap \<Rightarrow> buffer \<Rightarrow> jserr + nat \<times> heap" where
  "toArrayBuffer h b = bindE (fromBuffer h b) (\<lambda>(c, h'). Inr (b_addr c, h'))"

section \<open>Laws of the store\<close>

lemma length_octets [simp]: "wf_buffer h b \<Longrightarrow> length (octets h b) = b_len b"
  by (auto simp: octets_def wf_buffer_def)

lemma octets_nth:
  "wf_buffer h b \<Longrightarrow> k < b_len b \<Longrightarrow> octets h b ! k = mem h ! b_addr b ! (b_off b + k)"
  by (auto simp: octets_def wf_buffer_def)

lemma wf_set_octet [simp]: "wf_buffer (set_octet h b k v) c \<longleftrightarrow> wf_buffer h c"
  by (cases "b_addr b = b_addr c") (auto simp: wf_buffer_def set_octet_def)

lemma wf_put_elem [simp]: "wf_buffer (put_elem h b i v) c \<longleftrightarrow> wf_buffer h c"
  by (simp add: put_elem_def)

lemma octets_set_octet:
  "wf_buffer h b \<Longrightarrow> k < b_len b \<Longrightarrow> octets (set_octet h b k v) b = (octets h b)[k := v]"
  by (simp add: octets_def set_octet_def wf_buffer_def drop_update_swap take_update_swap)

lemma octets_set_octet_other:
  "b_addr b \<noteq> b_addr c \<Longrightarrow> octets (set_octet h b k v) c = octets h c"
  by (simp add: octets_def set_octet_def)

lemma elem_in [simp]:
  "0 \<le> i \<Longrightarrow> i < int (b_len b) \<Longrightarrow> elem h b i = JInt (uint (octets h b ! nat i))"
  by (simp add: elem_def)

lemma elem_out: "i < 0 \<or> int (b_len b) \<le> i \<Longrightarrow> elem h b i = Undef"
  by (auto simp: elem_def)

lemma elem_num_JInt [simp]: "elem_num h b (JInt i) = elem h b i"
  by (simp add: elem_num_def JInt_def)

lemma put_elem_num_JInt [simp]: "put_elem_num h b (JInt i) v = put_elem h b i v"
  by (simp add: put_elem_num_def JInt_def)

lemma objs_set_octet [simp]: "objs (set_octet h b k v) = objs h"
  by (simp add: set_octet_def)

lemma set_octet_swap:
  "i \<noteq> j \<Longrightarrow> set_octet (set_octet h b i v) b j w = set_octet (set_octet h b j w) b i v"
  by (cases "b_addr b < length (mem h)")
    (auto simp: set_octet_def list_update_swap list_update_beyond)

lemma put_octets_Nil: "wf_buffer h b \<Longrightarrow> put_octets h b k [] = h"
  by (simp add: put_octets_def)

lemma put_octets_Cons:
  "wf_buffer h b \<Longrightarrow> k + length vs < b_len b \<Longrightarrow>
     put_octets h b k (v # vs) = put_octets (set_octet h b k v) b (Suc k) vs"
  by (simp add: put_octets_def set_octet_def wf_buffer_def splice_Cons)

lemma octets_put_octets:
  "wf_buffer h b \<Longrightarrow> k + length vs \<le> b_len b \<Longrightarrow>
     octets (put_octets h b k vs) b = splice (octets h b) k vs"
proof (induction vs arbitrary: h k)
  case Nil
  then show ?case by (simp add: put_octets_Nil)
next
  case (Cons v vs)
  then show ?case by (simp add: put_octets_Cons octets_set_octet splice_Cons)
qed

interpretation buf: octet_store "\<lambda>h k v. set_octet h b k v" "\<lambda>h k vs. put_octets h b k vs"
  "\<lambda>h. octets h b" "\<lambda>h. wf_buffer h b" "b_len b" for b
  by unfold_locales
    (simp_all add: put_octets_Nil put_octets_Cons octets_put_octets set_octet_swap)

end
