(* ===== verification/BufferNum.thy ===== *)
theory BufferNum
  imports BufferStore
begin

text \<open>
  The readers and writers of integers of the buffer module (\<open>readUInt8\<close> to \<open>writeInt32BE\<close>),
  with the checks that \<open>noAssert\<close> turns off.  The specification is the number the octets of a
  field denote (\<open>le_val\<close>, \<open>be_val\<close>, and two's complement over them) and the octets of a
  number (\<open>le_octets\<close>, \<open>be_octets\<close>).

  Arguments are numbers (\<open>jnum\<close>); a field beyond the buffer reads as \<open>undefined\<close>, so the
  results of unchecked reads are those JavaScript computes.  The variable-width operations are
  exact as long as double arithmetic is, which covers the documented widths up to six octets.
\<close>

section \<open>Checks\<close>

definition integral :: "jnum \<Rightarrow> bool" where
  "integral x = (case x of Num r \<Rightarrow> of_int \<lfloor>r\<rfloor> = r | _ \<Rightarrow> False)"

definition checkOffset :: "jnum \<Rightarrow> int \<Rightarrow> int \<Rightarrow> jserr + unit" where
  "checkOffset offset ext len =
     thenE (throw_if (\<not> integral offset \<or> js_less offset (JInt 0)) (RangeError ''offset is not uint''))
      (throw_if (js_less (JInt len) (js_add offset (JInt ext)))
        (RangeError ''Trying to access beyond buffer length''))"

definition checkInt :: "buffer \<Rightarrow> jnum \<Rightarrow> int \<Rightarrow> int \<Rightarrow> jnum \<Rightarrow> jnum \<Rightarrow> jserr + unit" where
  "checkInt b value offset ext max' min' =
     thenE (throw_if (js_less max' value \<or> js_less value min') (RangeError ''value is out of bounds''))
      (throw_if (int (b_len b) < offset + ext) (RangeError ''index out of range''))"

text \<open>\<open>if (!noAssert) check; rest\<close>.\<close>

definition asserting :: "bool \<Rightarrow> jserr + unit \<Rightarrow> 'a \<Rightarrow> jserr + 'a" where
  "asserting noAssert check r = (if noAssert then Inr r else thenE check (Inr r))"

text \<open>\<open>Math.pow(2, k)\<close>.\<close>

definition pow2 :: "int \<Rightarrow> jnum" where
  "pow2 k = (if 0 \<le> k then JInt (2 ^ nat k) else Num (1 / 2 ^ nat (- k)))"

section \<open>Readers\<close>

function readUIntLE_loop ::
  "heap \<Rightarrow> buffer \<Rightarrow> int \<Rightarrow> int \<Rightarrow> int \<Rightarrow> int \<Rightarrow> jnum \<Rightarrow> jnum \<times> int" where
  "readUIntLE_loop h b o' n i mul val =
     (if i + 1 < n
      then readUIntLE_loop h b o' n (i + 1) (mul * 0x100)
             (js_add val (js_mul_pos (elem h b (o' + (i + 1))) (mul * 0x100)))
      else (val, mul))"
  by pat_completeness auto
termination
  by (relation "measure (\<lambda>(h, b, o', n, i, mul, val). nat (n - i))") auto

definition readUIntLE :: "heap \<Rightarrow> buffer \<Rightarrow> jnum \<Rightarrow> jnum \<Rightarrow> bool \<Rightarrow> jserr + jnum" where
  "readUIntLE h b offset byteLength noAssert =
     (let o' = to_int32 offset; n = to_int32 byteLength in
      asserting noAssert (checkOffset (JInt o') n (int (b_len b)))
        (fst (readUIntLE_loop h b o' n 0 1 (elem h b o'))))"

function readUIntBE_loop ::
  "heap \<Rightarrow> buffer \<Rightarrow> int \<Rightarrow> int \<Rightarrow> int \<Rightarrow> jnum \<Rightarrow> jnum \<times> int" where
  "readUIntBE_loop h b o' k mul val =
     (if k > 0
      then readUIntBE_loop h b o' (k - 1) (mul * 0x100)
             (js_add val (js_mul_pos (elem h b (o' + (k - 1))) (mul * 0x100)))
      else (val, mul))"
  by pat_completeness auto
termination
  by (relation "measure (\<lambda>(h, b, o', k, mul, val). nat k)") auto

definition readUIntBE :: "heap \<Rightarrow> buffer \<Rightarrow> jnum \<Rightarrow> jnum \<Rightarrow> bool \<Rightarrow> jserr + jnum" where
  "readUIntBE h b offset byteLength noAssert =
     (let o' = to_int32 offset; n = to_int32 byteLength in
      asserting noAssert (checkOffset (JInt o') n (int (b_len b)))
        (fst (readUIntBE_loop h b o' (n - 1) 1 (elem h b (o' + (n - 1))))))"

definition readUInt8 :: "heap \<Rightarrow> buffer \<Rightarrow> jnum \<Rightarrow> bool \<Rightarrow> jserr + jnum" where
  "readUInt8 h b offset noAssert =
     asserting noAssert (checkOffset offset 1 (int (b_len b))) (elem_num h b offset)"

text \<open>\<open>this[offset + k]\<close>.\<close>

definition elem_at :: "heap \<Rightarrow> buffer \<Rightarrow> jnum \<Rightarrow> int \<Rightarrow> jnum" where
  "elem_at h b offset k = elem_num h b (js_add offset (JInt k))"

definition readUInt16LE :: "heap \<Rightarrow> buffer \<Rightarrow> jnum \<Rightarrow> bool \<Rightarrow> jserr + jnum" where
  "readUInt16LE h b offset noAssert =
     asserting noAssert (checkOffset offset 2 (int (b_len b)))
       (js_or (elem_num h b offset) (js_shl (elem_at h b offset 1) 8))"

definition readUInt16BE :: "heap \<Rightarrow> buffer \<Rightarrow> jnum \<Rightarrow> bool \<Rightarrow> jserr + jnum" where
  "readUInt16BE h b offset noAssert =
     asserting noAssert (checkOffset offset 2 (int (b_len b)))
       (js_or (js_shl (elem_num h b offset) 8) (elem_at h b offset 1))"

definition readUInt32LE :: "heap \<Rightarrow> buffer \<Rightarrow> jnum \<Rightarrow> bool \<Rightarrow> jserr + jnum" where
  "readUInt32LE h b offset noAssert =
     asserting noAssert (checkOffset offset 4 (int (b_len b)))
       (js_add (js_or (js_or (elem_num h b offset) (js_shl (elem_at h b offset 1) 8))
                      (js_shl (elem_at h b offset 2) 16))
               (js_mul_pos (elem_at h b offset 3) 0x1000000))"

definition readUInt32BE :: "heap \<Rightarrow> buffer \<Rightarrow> jnum \<Rightarrow> bool \<Rightarrow> jserr + jnum" where
  "readUInt32BE h b offset noAssert =
     asserting noAssert (checkOffset offset 4 (int (b_len b)))
       (js_add (js_mul_pos (elem_num h b offset) 0x1000000)
               (js_or (js_or (js_shl (elem_at h b offset 1) 16) (js_shl (elem_at h b offset 2) 8))
                      (elem_at h b offset 3)))"

definition readIntLE :: "heap \<Rightarrow> buffer \<Rightarrow> jnum \<Rightarrow> jnum \<Rightarrow> bool \<Rightarrow> jserr + jnum" where
  "readIntLE h b offset byteLength noAssert =
     (let o' = to_int32 offset; n = to_int32 byteLength in
      asserting noAssert (checkOffset (JInt o') n (int (b_len b)))
        (let (val, mul) = readUIntLE_loop h b o' n 0 1 (elem h b o') in
         if js_ge val (JInt (mul * 0x80)) then js_sub val (pow2 (8 * n)) else val))"

definition readIntBE :: "heap \<Rightarrow> buffer \<Rightarrow> jnum \<Rightarrow> jnum \<Rightarrow> bool \<Rightarrow> jserr + jnum" where
  "readIntBE h b offset byteLength noAssert =
     (let o' = to_int32 offset; n = to_int32 byteLength in
      asserting noAssert (checkOffset (JInt o') n (int (b_len b)))
        (let (val, mul) = readUIntBE_loop h b o' (n - 1) 1 (elem h b (o' + (n - 1))) in
         if js_ge val (JInt (mul * 0x80)) then js_sub val (pow2 (8 * n)) else val))"

definition readInt8 :: "heap \<Rightarrow> buffer \<Rightarrow> jnum \<Rightarrow> bool \<Rightarrow> jserr + jnum" where
  "readInt8 h b offset noAssert =
     asserting noAssert (checkOffset offset 1 (int (b_len b)))
       (let x = elem_num h b offset in
        if \<not> num_truthy (js_and x (JInt 0x80)) then x
        else js_neg (js_add (js_sub (JInt 0xFF) x) (JInt 1)))"

text \<open>\<open>(val & 0x8000) ? val | 0xFFFF0000 : val\<close>.\<close>

definition sign_extend16 :: "jnum \<Rightarrow> jnum" where
  "sign_extend16 val =
     (if num_truthy (js_and val (JInt 0x8000)) then js_or val (JInt 0xFFFF0000) else val)"

definition readInt16LE :: "heap \<Rightarrow> buffer \<Rightarrow> jnum \<Rightarrow> bool \<Rightarrow> jserr + jnum" where
  "readInt16LE h b offset noAssert =
     asserting noAssert (checkOffset offset 2 (int (b_len b)))
       (sign_extend16 (js_or (elem_num h b offset) (js_shl (elem_at h b offset 1) 8)))"

definition readInt16BE :: "heap \<Rightarrow> buffer \<Rightarrow> jnum \<Rightarrow> bool \<Rightarrow> jserr + jnum" where
  "readInt16BE h b offset noAssert =
     asserting noAssert (checkOffset offset 2 (int (b_len b)))
       (sign_extend16 (js_or (elem_at h b offset 1) (js_shl (elem_num h b offset) 8)))"

definition readInt32LE :: "heap \<Rightarrow> buffer \<Rightarrow> jnum \<Rightarrow> bool \<Rightarrow> jserr + jnum" where
  "readInt32LE h b offset noAssert =
     asserting noAssert (checkOffset offset 4 (int (b_len b)))
       (js_or (js_or (js_or (elem_num h b offset) (js_shl (elem_at h b offset 1) 8))
                     (js_shl (elem_at h b offset 2) 16)) (js_shl (elem_at h b offset 3) 24))"

definition readInt32BE :: "heap \<Rightarrow> buffer \<Rightarrow> jnum \<Rightarrow> bool \<Rightarrow> jserr + jnum" where
  "readInt32BE h b offset noAssert =
     asserting noAssert (checkOffset offset 4 (int (b_len b)))
       (js_or (js_or (js_or (js_shl (elem_num h b offset) 24) (js_shl (elem_at h b offset 1) 16))
                     (js_shl (elem_at h b offset 2) 8)) (elem_at h b offset 3))"

section \<open>Writers\<close>

text \<open>A writer answers the offset after the field, and the heap.\<close>

type_synonym written = "jserr + int \<times> heap"

function writeUIntLE_loop :: "heap \<Rightarrow> buffer \<Rightarrow> int \<Rightarrow> int \<Rightarrow> jnum \<Rightarrow> int \<Rightarrow> int \<Rightarrow> heap" where
  "writeUIntLE_loop h b o' n value i mul =
     (if i + 1 < n
      then writeUIntLE_loop
             (put_elem h b (o' + (i + 1)) (js_and (js_div_pos value (mul * 0x100)) (JInt 0xFF)))
             b o' n value (i + 1) (mul * 0x100)
      else h)"
  by pat_completeness auto
termination
  by (relation "measure (\<lambda>(h, b, o', n, value, i, mul). nat (n - i))") auto

definition writeUIntLE :: "heap \<Rightarrow> buffer \<Rightarrow> jnum \<Rightarrow> jnum \<Rightarrow> jnum \<Rightarrow> bool \<Rightarrow> written" where
  "writeUIntLE h b value0 offset byteLength noAssert =
     (let value = to_number value0; o' = to_int32 offset; n = to_int32 byteLength in
      asserting noAssert (checkInt b value o' n (pow2 (8 * n)) (JInt 0))
        (o' + n,
         writeUIntLE_loop (put_elem h b o' (js_and value (JInt 0xFF))) b o' n value 0 1))"

function writeUIntBE_loop :: "heap \<Rightarrow> buffer \<Rightarrow> int \<Rightarrow> jnum \<Rightarrow> int \<Rightarrow> int \<Rightarrow> heap" where
  "writeUIntBE_loop h b o' value i mul =
     (if i - 1 \<ge> 0
      then writeUIntBE_loop
             (put_elem h b (o' + (i - 1)) (js_and (js_div_pos value (mul * 0x100)) (JInt 0xFF)))
             b o' value (i - 1) (mul * 0x100)
      else h)"
  by pat_completeness auto
termination
  by (relation "measure (\<lambda>(h, b, o', value, i, mul). nat i)") auto

definition writeUIntBE :: "heap \<Rightarrow> buffer \<Rightarrow> jnum \<Rightarrow> jnum \<Rightarrow> jnum \<Rightarrow> bool \<Rightarrow> written" where
  "writeUIntBE h b value0 offset byteLength noAssert =
     (let value = to_number value0; o' = to_int32 offset; n = to_int32 byteLength in
      asserting noAssert (checkInt b value o' n (pow2 (8 * n)) (JInt 0))
        (o' + n,
         writeUIntBE_loop (put_elem h b (o' + (n - 1)) (js_and value (JInt 0xFF))) b o' value (n - 1) 1))"

definition writeUInt8 :: "heap \<Rightarrow> buffer \<Rightarrow> jnum \<Rightarrow> jnum \<Rightarrow> bool \<Rightarrow> written" where
  "writeUInt8 h b value0 offset noAssert =
     (let value = to_number value0; o' = to_int32 offset in
      asserting noAssert (checkInt b value o' 1 (JInt 0xFF) (JInt 0)) (o' + 1, put_elem h b o' value))"

text \<open>The assignments of the typed-array branches, in their order.\<close>

definition put16_LE :: "heap \<Rightarrow> buffer \<Rightarrow> int \<Rightarrow> jnum \<Rightarrow> heap" where
  "put16_LE h b o' value = put_elem (put_elem h b o' value) b (o' + 1) (js_shr value 8)"

definition put16_BE :: "heap \<Rightarrow> buffer \<Rightarrow> int \<Rightarrow> jnum \<Rightarrow> heap" where
  "put16_BE h b o' value = put_elem (put_elem h b o' (js_shr value 8)) b (o' + 1) value"

definition put32_BE :: "heap \<Rightarrow> buffer \<Rightarrow> int \<Rightarrow> jnum \<Rightarrow> heap" where
  "put32_BE h b o' value =
     put_elem (put_elem (put_elem (put_elem h b o' (js_shr value 24))
       b (o' + 1) (js_shr value 16)) b (o' + 2) (js_shr value 8)) b (o' + 3) value"

definition writeUInt16LE :: "heap \<Rightarrow> buffer \<Rightarrow> jnum \<Rightarrow> jnum \<Rightarrow> bool \<Rightarrow> written" where
  "writeUInt16LE h b value0 offset noAssert =
     (let value = to_number value0; o' = to_int32 offset in
      asserting noAssert (checkInt b value o' 2 (JInt 0xFFFF) (JInt 0)) (o' + 2, put16_LE h b o' value))"

definition writeUInt16BE :: "heap \<Rightarrow> buffer \<Rightarrow> jnum \<Rightarrow> jnum \<Rightarrow> bool \<Rightarrow> written" where
  "writeUInt16BE h b value0 offset noAssert =
     (let value = to_number value0; o' = to_int32 offset in
      asserting noAssert (checkInt b value o' 2 (JInt 0xFFFF) (JInt 0)) (o' + 2, put16_BE h b o' value))"

definition writeUInt32LE :: "heap \<Rightarrow> buffer \<Rightarrow> jnum \<Rightarrow> jnum \<Rightarrow> bool \<Rightarrow> written" where
  "writeUInt32LE h b value0 offset noAssert =
     (let value = to_number value0; o' = to_int32 offset in
      asserting noAssert (checkInt b value o' 4 (JInt 0xFFFFFFFF) (JInt 0))
        (o' + 4,
         put_elem (put_elem (put_elem (put_elem h b (o' + 3) (js_shr value 24))
           b (o' + 2) (js_shr value 16)) b (o' + 1) (js_shr value 8)) b o' value))"

definition writeUInt32BE :: "heap \<Rightarrow> buffer \<Rightarrow> jnum \<Rightarrow> jnum \<Rightarrow> bool \<Rightarrow> written" where
  "writeUInt32BE h b value0 offset noAssert =
     (let value = to_number value0; o' = to_int32 offset in
      asserting noAssert (checkInt b value o' 4 (JInt 0xFFFFFFFF) (JInt 0)) (o' + 4, put32_BE h b o' value))"

text \<open>
  The signed writers of variable width do not convert \<open>byteLength\<close>; the model takes an
  integer.  \<open>(value / mul) >> 0\<close> truncates towards zero, and \<open>sub\<close> is taken off.
\<close>

function writeIntLE_loop ::
  "heap \<Rightarrow> buffer \<Rightarrow> int \<Rightarrow> int \<Rightarrow> jnum \<Rightarrow> int \<Rightarrow> int \<Rightarrow> int \<Rightarrow> heap" where
  "writeIntLE_loop h b o' n value sub i mul =
     (if i + 1 < n
      then writeIntLE_loop
             (put_elem h b (o' + (i + 1))
                (js_and (js_sub (js_sar (js_div_pos value (mul * 0x100)) 0) (JInt sub)) (JInt 0xFF)))
             b o' n value sub (i + 1) (mul * 0x100)
      else h)"
  by pat_completeness auto
termination
  by (relation "measure (\<lambda>(h, b, o', n, value, sub, i, mul). nat (n - i))") auto

definition writeIntLE :: "heap \<Rightarrow> buffer \<Rightarrow> jnum \<Rightarrow> jnum \<Rightarrow> int \<Rightarrow> bool \<Rightarrow> written" where
  "writeIntLE h b value0 offset n noAssert =
     (let value = to_number value0; o' = to_int32 offset;
          limit = pow2 (8 * n - 1); sub = (if js_less value (JInt 0) then 1 else 0) in
      asserting noAssert (checkInt b value o' n (js_sub limit (JInt 1)) (js_neg limit))
        (o' + n,
         writeIntLE_loop (put_elem h b o' (js_and value (JInt 0xFF))) b o' n value sub 0 1))"

function writeIntBE_loop ::
  "heap \<Rightarrow> buffer \<Rightarrow> int \<Rightarrow> jnum \<Rightarrow> int \<Rightarrow> int \<Rightarrow> int \<Rightarrow> heap" where
  "writeIntBE_loop h b o' value sub i mul =
     (if i - 1 \<ge> 0
      then writeIntBE_loop
             (put_elem h b (o' + (i - 1))
                (js_and (js_sub (js_sar (js_div_pos value (mul * 0x100)) 0) (JInt sub)) (JInt 0xFF)))
             b o' value sub (i - 1) (mul * 0x100)
      else h)"
  by pat_completeness auto
termination
  by (relation "measure (\<lambda>(h, b, o', value, sub, i, mul). nat i)") auto

definition writeIntBE :: "heap \<Rightarrow> buffer \<Rightarrow> jnum \<Rightarrow> jnum \<Rightarrow> int \<Rightarrow> bool \<Rightarrow> written" where
  "writeIntBE h b value0 offset n noAssert =
     (let value = to_number value0; o' = to_int32 offset;
          limit = pow2 (8 * n - 1); sub = (if js_less value (JInt 0) then 1 else 0) in
      asserting noAssert (checkInt b value o' n (js_sub limit (JInt 1)) (js_neg limit))
        (o' + n,
         writeIntBE_loop (put_elem h b (o' + (n - 1)) (js_and value (JInt 0xFF))) b o' value sub (n - 1) 1))"

definition writeInt8 :: "heap \<Rightarrow> buffer \<Rightarrow> jnum \<Rightarrow> jnum \<Rightarrow> bool \<Rightarrow> written" where
  "writeInt8 h b value0 offset noAssert =
     (let value = to_number value0; o' = to_int32 offset;
          value' = (if js_less value (JInt 0) then js_add (js_add (JInt 0xFF) value) (JInt 1) else value) in
      asserting noAssert (checkInt b value o' 1 (JInt 0x7F) (JInt (- 0x80))) (o' + 1, put_elem h b o' value'))"

definition writeInt16LE :: "heap \<Rightarrow> buffer \<Rightarrow> jnum \<Rightarrow> jnum \<Rightarrow> bool \<Rightarrow> written" where
  "writeInt16LE h b value0 offset noAssert =
     (let value = to_number value0; o' = to_int32 offset in
      asserting noAssert (checkInt b value o' 2 (JInt 0x7FFF) (JInt (- 0x8000))) (o' + 2, put16_LE h b o' value))"

definition writeInt16BE :: "heap \<Rightarrow> buffer \<Rightarrow> jnum \<Rightarrow> jnum \<Rightarrow> bool \<Rightarrow> written" where
  "writeInt16BE h b value0 offset noAssert =
     (let value = to_number value0; o' = to_int32 offset in
      asserting noAssert (checkInt b value o' 2 (JInt 0x7FFF) (JInt (- 0x8000))) (o' + 2, put16_BE h b o' value))"

definition writeInt32LE :: "heap \<Rightarrow> buffer \<Rightarrow> jnum \<Rightarrow> jnum \<Rightarrow> bool \<Rightarrow> written" where
  "writeInt32LE h b value0 offset noAssert =
     (let value = to_number value0; o' = to_int32 offset in
      asserting noAssert (checkInt b value o' 4 (JInt 0x7FFFFFFF) (JInt (- 0x80000000)))
        (o' + 4,
         put_elem (put_elem (put_elem (put_elem h b o' value) b (o' + 1) (js_shr value 8))
           b (o' + 2) (js_shr value 16)) b (o' + 3) (js_shr value 24)))"

definition writeInt32BE :: "heap \<Rightarrow> buffer \<Rightarrow> jnum \<Rightarrow> jnum \<Rightarrow> bool \<Rightarrow> written" where
  "writeInt32BE h b value0 offset noAssert =
     (let value = to_number value0; o' = to_int32 offset;
          value' = (if js_less value (JInt 0)
                    then js_add (js_add (JInt 0xFFFFFFFF) value) (JInt 1) else value) in
      asserting noAssert (checkInt b value o' 4 (JInt 0x7FFFFFFF) (JInt (- 0x80000000)))
        (o' + 4, put32_BE h b o' value'))"

text \<open>
  The loops that the module runs instead where typed arrays are missing; the number of turns is
  \<open>Math.min(buf.length - offset, 2)\<close>, or 4.
\<close>

fun objectWriteUInt16_loop :: "heap \<Rightarrow> buffer \<Rightarrow> jnum \<Rightarrow> int \<Rightarrow> bool \<Rightarrow> nat \<Rightarrow> nat \<Rightarrow> heap" where
  "objectWriteUInt16_loop h b value o' littleEndian i 0 = h"
| "objectWriteUInt16_loop h b value o' littleEndian i (Suc n) =
     (let k = (if littleEndian then i else 1 - i) * 8 in
      objectWriteUInt16_loop
        (put_elem h b (o' + int i) (js_shr (js_and value (js_shl (JInt 0xFF) k)) k))
        b value o' littleEndian (Suc i) n)"

definition objectWriteUInt16 :: "heap \<Rightarrow> buffer \<Rightarrow> jnum \<Rightarrow> int \<Rightarrow> bool \<Rightarrow> heap" where
  "objectWriteUInt16 h b value o' littleEndian =
     (let value' = (if js_less value (JInt 0)
                    then js_add (js_add (JInt 0xFFFF) value) (JInt 1) else value) in
      objectWriteUInt16_loop h b value' o' littleEndian 0 (nat (min (int (b_len b) - o') 2)))"

fun objectWriteUInt32_loop :: "heap \<Rightarrow> buffer \<Rightarrow> jnum \<Rightarrow> int \<Rightarrow> bool \<Rightarrow> nat \<Rightarrow> nat \<Rightarrow> heap" where
  "objectWriteUInt32_loop h b value o' littleEndian i 0 = h"
| "objectWriteUInt32_loop h b value o' littleEndian i (Suc n) =
     (let k = (if littleEndian then i else 3 - i) * 8 in
      objectWriteUInt32_loop
        (put_elem h b (o' + int i) (js_and (js_shr value k) (JInt 0xFF)))
        b value o' littleEndian (Suc i) n)"

definition objectWriteUInt32 :: "heap \<Rightarrow> buffer \<Rightarrow> jnum \<Rightarrow> int \<Rightarrow> bool \<Rightarrow> heap" where
  "objectWriteUInt32 h b value o' littleEndian =
     (let value' = (if js_less value (JInt 0)
                    then js_add (js_add (JInt 0xFFFFFFFF) value) (JInt 1) else value) in
      objectWriteUInt32_loop h b value' o' littleEndian 0 (nat (min (int (b_len b) - o') 4)))"

declare readUIntLE_loop.simps [simp del] readUIntBE_loop.simps [simp del]
  writeUIntLE_loop.simps [simp del] writeUIntBE_loop.simps [simp del]
  writeIntLE_loop.simps [simp del] writeIntBE_loop.simps [simp del]

section \<open>Fields\<close>

text \<open>The \<open>n\<close> octets from position \<open>k\<close> on.\<close>

definition field :: "heap \<Rightarrow> buffer \<Rightarrow> nat \<Rightarrow> nat \<Rightarrow> octet list" where
  "field h b k n = take n (drop k (octets h b))"

lemma length_field [simp]: "wf_buffer h b \<Longrightarrow> k + n \<le> b_len b \<Longrightarrow> length (field h b k n) = n"
  by (simp add: field_def)

lemma field_1: "wf_buffer h b \<Longrightarrow> k < b_len b \<Longrightarrow> field h b k 1 = [octets h b ! k]"
  by (simp add: field_def take_Suc_conv_app_nth hd_drop_conv_nth)

lemma field_Suc:
  "wf_buffer h b \<Longrightarrow> k < b_len b \<Longrightarrow> field h b k (Suc n) = octets h b ! k # field h b (Suc k) n"
  by (simp add: field_def Cons_nth_drop_Suc [symmetric])

lemma field_2:
  "wf_buffer h b \<Longrightarrow> k + 2 \<le> b_len b \<Longrightarrow> field h b k 2 = [octets h b ! k, octets h b ! Suc k]"
  using field_Suc [of h b k 1] field_1 [of h b "Suc k"] by (simp add: numeral_2_eq_2)

lemma field_4:
  "wf_buffer h b \<Longrightarrow> k + 4 \<le> b_len b \<Longrightarrow> field h b k 4 =
     [octets h b ! k, octets h b ! (k + 1), octets h b ! (k + 2), octets h b ! (k + 3)]"
  using field_Suc [of h b k 3] field_Suc [of h b "Suc k" 2] field_2 [of h b "k + 2"]
  by (simp add: numeral_eq_Suc)

lemma integral_JInt [simp]: "integral (JInt i)"
  by (simp add: integral_def JInt_def)

lemma checkOffset_JInt: "checkOffset (JInt i) n len =
  (if i < 0 then Inl (RangeError ''offset is not uint'')
   else if len < i + n then Inl (RangeError ''Trying to access beyond buffer length'')
   else Inr ())"
  by (simp add: checkOffset_def)

lemma asserting_checkOffset [simp]:
  "0 \<le> i \<Longrightarrow> i + n \<le> len \<Longrightarrow> asserting a (checkOffset (JInt i) n len) r = Inr r"
  by (simp add: asserting_def checkOffset_JInt)

lemma elem_num_field [simp]:
  "k < b_len b \<Longrightarrow> elem_num h b (JInt (int k)) = JInt (uint (octets h b ! k))"
  by simp

lemma elem_at_field [simp]:
  "0 \<le> j \<Longrightarrow> k + nat j < b_len b \<Longrightarrow>
     elem_at h b (JInt (int k)) j = JInt (uint (octets h b ! (k + nat j)))"
  by (simp add: elem_at_def nat_add_distrib)

section \<open>What the readers read\<close>

lemma le_val_2: "le_val [x, y] = uint x OR push_bit 8 (uint y)"
  by (simp add: octet_or_shift)

lemma le_val_3: "le_val [x, y, z] = uint x OR push_bit 8 (uint y) OR push_bit 16 (uint z)"
  by (simp add: le_val_or del: le_val.simps(2))

lemma le_val_4: "le_val [x, y, z, w] =
  uint x OR push_bit 8 (uint y) OR push_bit 16 (uint z) OR push_bit 24 (uint w)"
  by (simp add: le_val_or del: le_val.simps(2))

lemma le_val_signed_id:
  assumes "length bs \<le> 3"
  shows "signed_take_bit 31 (le_val bs) = le_val bs"
proof -
  have "(256 :: int) ^ length bs \<le> 256 ^ 3" using assms by (intro power_increasing) auto
  then show ?thesis using le_val_bound [of bs] le_val_nonneg [of bs]
    by (intro signed_take_bit_int_eq_self) (simp_all add: order_trans [of _ 0])
qed

lemma join_2: "js_or (JInt (uint x)) (js_shl (JInt (uint y)) 8) = JInt (le_val [x, y])"
  using le_val_signed_id [of "[x, y]"] by (simp only: js_or_low js_shl_low signed_or le_val_2) simp

lemma join_3:
  "js_or (js_or (JInt (uint x)) (js_shl (JInt (uint y)) 8)) (js_shl (JInt (uint z)) 16)
     = JInt (le_val [x, y, z])"
  using le_val_signed_id [of "[x, y, z]"] by (simp only: js_or_low js_shl_low signed_or le_val_3 or.assoc) simp

lemma join_4:
  "js_or (js_or (js_or (JInt (uint x)) (js_shl (JInt (uint y)) 8)) (js_shl (JInt (uint z)) 16))
     (js_shl (JInt (uint w)) 24) = JInt (signed_take_bit 31 (le_val [x, y, z, w]))"
  by (simp only: js_or_low js_shl_low signed_or le_val_4 or.assoc)

lemma join_2_rev: "js_or (js_shl (JInt (uint y)) 8) (JInt (uint x)) = JInt (le_val [x, y])"
  using join_2 by (simp add: js_or_commute)

lemma join_3_rev:
  "js_or (js_or (js_shl (JInt (uint z)) 16) (js_shl (JInt (uint y)) 8)) (JInt (uint x))
     = JInt (le_val [x, y, z])"
  using le_val_signed_id [of "[x, y, z]"]
  by (simp only: js_or_low js_shl_low signed_or le_val_3)
    (simp add: or.assoc or.commute or.left_commute)

lemma join_4_rev:
  "js_or (js_or (js_or (js_shl (JInt (uint w)) 24) (js_shl (JInt (uint z)) 16))
     (js_shl (JInt (uint y)) 8)) (JInt (uint x)) = JInt (signed_take_bit 31 (le_val [x, y, z, w]))"
  by (simp only: js_or_low js_shl_low signed_or le_val_4)
    (simp add: or.assoc or.commute or.left_commute)

lemma div_eq_1: "(m :: int) \<le> v \<Longrightarrow> v < 2 * m \<Longrightarrow> v div m = 1"
  using digit_add_div [of "v - m" m 1] by simp

lemma sign_extend16_val:
  assumes "0 \<le> v" "v < 65536"
  shows "sign_extend16 (JInt v) = JInt (signed_take_bit 15 v)"
proof -
  have v31: "signed_take_bit 31 v = v" using assms by (simp add: signed_take_bit_int_eq_self)
  have "bit v 15 \<longleftrightarrow> \<not> v < 32768"
    using assms by (cases "v < 32768") (simp_all add: bit_iff_odd div_pos_pos_trivial div_eq_1)
  moreover have "v AND 32768 = 0 \<longleftrightarrow> \<not> bit v 15"
    using and_exp_eq_0_iff_not_bit [of v 15] by simp
  ultimately have t: "num_truthy (js_and (JInt v) (JInt 0x8000)) \<longleftrightarrow> \<not> v < 32768"
    by (simp add: js_and_def v31)
  have "js_or (JInt v) (JInt 0xFFFF0000) = JInt (v - 65536)"
    using js_or_add [of "- 65536" 16 v] assms
    by (simp add: js_or_def or.commute signed_take_bit_int_eq_self)
  then show ?thesis
    using signed_take_bit_cases [of v 15] assms by (simp add: sign_extend16_def t)
qed

text \<open>
  Every reader of fixed width answers the number its field denotes, little- or big-endian,
  unsigned or in two's complement.
\<close>

lemmas field_read = field_1 [simplified] field_2 field_4 elem_num_field elem_at_field
  asserting_checkOffset be_val_def

lemma readUInt8_field: "wf_buffer h b \<Longrightarrow> k + 1 \<le> b_len b \<Longrightarrow>
  readUInt8 h b (JInt (int k)) a = Inr (JInt (le_val (field h b k 1)))"
  by (simp add: readUInt8_def field_read)

lemma readUInt16LE_field: "wf_buffer h b \<Longrightarrow> k + 2 \<le> b_len b \<Longrightarrow>
  readUInt16LE h b (JInt (int k)) a = Inr (JInt (le_val (field h b k 2)))"
  by (simp add: readUInt16LE_def field_read join_2 del: le_val.simps)

lemma readUInt16BE_field: "wf_buffer h b \<Longrightarrow> k + 2 \<le> b_len b \<Longrightarrow>
  readUInt16BE h b (JInt (int k)) a = Inr (JInt (be_val (field h b k 2)))"
  by (simp add: readUInt16BE_def field_read join_2_rev del: le_val.simps)

lemma le_val_4_high: "le_val [x, y, z, w] = le_val [x, y, z] + 0x1000000 * uint w"
  by simp

lemma readUInt32LE_field: "wf_buffer h b \<Longrightarrow> k + 4 \<le> b_len b \<Longrightarrow>
  readUInt32LE h b (JInt (int k)) a = Inr (JInt (le_val (field h b k 4)))"
  by (simp add: readUInt32LE_def field_read join_3 le_val_4_high del: le_val.simps)

lemma readUInt32BE_field: "wf_buffer h b \<Longrightarrow> k + 4 \<le> b_len b \<Longrightarrow>
  readUInt32BE h b (JInt (int k)) a = Inr (JInt (be_val (field h b k 4)))"
  by (simp add: readUInt32BE_def field_read join_3_rev le_val_4_high del: le_val.simps)

lemma readInt32LE_field: "wf_buffer h b \<Longrightarrow> k + 4 \<le> b_len b \<Longrightarrow>
  readInt32LE h b (JInt (int k)) a = Inr (JInt (signed_take_bit 31 (le_val (field h b k 4))))"
  by (simp add: readInt32LE_def field_read join_4 del: le_val.simps)

lemma readInt32BE_field: "wf_buffer h b \<Longrightarrow> k + 4 \<le> b_len b \<Longrightarrow>
  readInt32BE h b (JInt (int k)) a = Inr (JInt (signed_take_bit 31 (be_val (field h b k 4))))"
  by (simp add: readInt32BE_def field_read join_4_rev del: le_val.simps)

lemma le_val_bound_2: "0 \<le> le_val [x, y]" "le_val [x, y] < 65536"
  using le_val_nonneg [of "[x, y]"] le_val_bound [of "[x, y]"] by (simp_all del: le_val.simps)

lemma readInt16LE_field: "wf_buffer h b \<Longrightarrow> k + 2 \<le> b_len b \<Longrightarrow>
  readInt16LE h b (JInt (int k)) a = Inr (JInt (signed_take_bit 15 (le_val (field h b k 2))))"
  by (simp add: readInt16LE_def field_read join_2 sign_extend16_val le_val_bound_2
      del: le_val.simps)

lemma readInt16BE_field: "wf_buffer h b \<Longrightarrow> k + 2 \<le> b_len b \<Longrightarrow>
  readInt16BE h b (JInt (int k)) a = Inr (JInt (signed_take_bit 15 (be_val (field h b k 2))))"
  by (simp add: readInt16BE_def field_read join_2 sign_extend16_val le_val_bound_2
      del: le_val.simps)

lemma readInt8_field:
  assumes "wf_buffer h b" "k + 1 \<le> b_len b"
  shows "readInt8 h b (JInt (int k)) a = Inr (JInt (signed_take_bit 7 (le_val (field h b k 1))))"
proof -
  define v where "v = uint (octets h b ! k)"
  have v: "0 \<le> v" "v < 256" by (simp_all add: v_def uint_octet_bounds)
  have "bit v 7 \<longleftrightarrow> \<not> v < 128"
    using v by (cases "v < 128") (simp_all add: bit_iff_odd div_pos_pos_trivial div_eq_1)
  moreover have "v AND 128 = 0 \<longleftrightarrow> \<not> bit v 7"
    using and_exp_eq_0_iff_not_bit [of v 7] by simp
  moreover have "signed_take_bit 31 v = v" using v by (simp add: signed_take_bit_int_eq_self)
  ultimately have "num_truthy (js_and (JInt v) (JInt 0x80)) \<longleftrightarrow> \<not> v < 128"
    by (simp add: js_and_def)
  then show ?thesis
    using assms signed_take_bit_cases [of v 7] v
    by (simp add: readInt8_def field_read v_def [symmetric] Let_def)
qed

section \<open>Variable width\<close>

lemma elem_nat [simp]: "k < b_len b \<Longrightarrow> elem h b (int k) = JInt (uint (octets h b ! k))"
  by simp

lemma elem_eq: "i = int k \<Longrightarrow> k < b_len b \<Longrightarrow> elem h b i = JInt (uint (octets h b ! k))"
  by simp

lemma readUIntLE_loop_val:
  assumes "wf_buffer h b" "k + n \<le> b_len b" "i < n"
  shows "readUIntLE_loop h b (int k) (int n) (int i) mul (JInt v) =
    (JInt (v + mul * 256 * le_val (field h b (k + i + 1) (n - i - 1))), mul * 256 ^ (n - i - 1))"
  using assms(3)
proof (induction "n - i - 1" arbitrary: i mul v)
  case 0
  then show ?case by (simp add: readUIntLE_loop.simps [of h b "int k" "int n" "int i"] field_def)
next
  case (Suc d)
  let ?x = "uint (octets h b ! (k + i + 1))"
  have lt: "int i + 1 < int n" and d: "d = n - Suc i - 1" and i: "Suc i < n" using Suc.hyps(2) by auto
  have "elem h b (int k + (int i + 1)) = JInt ?x"
    by (rule elem_eq) (use assms(2) i in simp_all)
  then have "readUIntLE_loop h b (int k) (int n) (int i) mul (JInt v) =
      readUIntLE_loop h b (int k) (int n) (int (Suc i)) (mul * 256) (JInt (v + ?x * (mul * 256)))"
    using lt by (subst readUIntLE_loop.simps) (simp add: add.commute)
  also have "\<dots> = (JInt (v + ?x * (mul * 256)
      + mul * 256 * 256 * le_val (field h b (k + Suc i + 1) (n - Suc i - 1))),
      mul * 256 * 256 ^ (n - Suc i - 1))"
    by (rule Suc.hyps(1) [OF d i])
  also have "field h b (k + i + 1) (n - i - 1)
      = octets h b ! (k + i + 1) # field h b (k + Suc i + 1) (n - Suc i - 1)"
    using field_Suc [of h b "k + i + 1" "n - Suc i - 1"] assms i by (simp add: Suc_diff_Suc)
  moreover have "(256 :: int) ^ (n - i - 1) = 256 * 256 ^ (n - Suc i - 1)"
    using Suc.hyps(2) d by (metis power_Suc)
  ultimately show ?case by (simp add: algebra_simps)
qed

lemma readUIntBE_loop_val:
  assumes "wf_buffer h b" "k + j \<le> b_len b"
  shows "readUIntBE_loop h b (int k) (int j) mul (JInt v) =
    (JInt (v + mul * 256 * be_val (field h b k j)), mul * 256 ^ j)"
  using assms(2)
proof (induction j arbitrary: mul v)
  case 0
  then show ?case by (subst readUIntBE_loop.simps) (simp add: field_def be_val_def)
next
  case (Suc j)
  let ?x = "uint (octets h b ! (k + j))"
  have "elem h b (int k + (int (Suc j) - 1)) = JInt ?x"
    by (rule elem_eq) (use Suc.prems in simp_all)
  then have "readUIntBE_loop h b (int k) (int (Suc j)) mul (JInt v) =
      readUIntBE_loop h b (int k) (int j) (mul * 256) (JInt (v + ?x * (mul * 256)))"
    by (subst readUIntBE_loop.simps) simp
  moreover have "be_val (field h b k (Suc j)) = ?x + 256 * be_val (field h b k j)"
    using be_val_take_Suc [of j "drop k (octets h b)"] assms(1) Suc.prems
    by (simp add: field_def add.commute)
  ultimately show ?case using Suc by (simp add: algebra_simps)
qed

lemma to_int32_small: "k < 0x80000000 \<Longrightarrow> to_int32 (JInt (int k)) = int k"
  by (simp add: signed_take_bit_int_eq_self)

lemma readUIntLE_field:
  assumes "wf_buffer h b" "k + n \<le> b_len b" "0 < n"
  shows "readUIntLE h b (JInt (int k)) (JInt (int n)) a = Inr (JInt (le_val (field h b k n)))"
proof -
  have "k < 0x80000000" "n < 0x80000000" using assms by (auto simp: wf_buffer_def)
  moreover have "field h b k n = octets h b ! k # field h b (Suc k) (n - 1)"
    using field_Suc [of h b k "n - 1"] assms by simp
  ultimately show ?thesis
    using assms readUIntLE_loop_val [of h b k n 0 1]
    by (simp add: readUIntLE_def to_int32_small Let_def del: to_int32_simps)
qed

lemma field_be_step:
  assumes "wf_buffer h b" "k + Suc j \<le> b_len b"
  shows "be_val (field h b k (Suc j)) = uint (octets h b ! (k + j)) + 256 * be_val (field h b k j)"
  using be_val_take_Suc [of j "drop k (octets h b)"] assms by (simp add: field_def add.commute)

lemma readUIntBE_field:
  assumes "wf_buffer h b" "k + n \<le> b_len b" "0 < n"
  shows "readUIntBE h b (JInt (int k)) (JInt (int n)) a = Inr (JInt (be_val (field h b k n)))"
proof -
  define j where "j = n - 1"
  have n: "n = Suc j" "int n - 1 = int j" using assms(3) by (simp_all add: j_def)
  have lt: "k < 0x80000000" "n < 0x80000000" using assms by (auto simp: wf_buffer_def)
  have "elem h b (int k + int j) = JInt (uint (octets h b ! (k + j)))"
    by (rule elem_eq) (use assms n in simp_all)
  moreover have "be_val (field h b k n) = uint (octets h b ! (k + j)) + 256 * be_val (field h b k j)"
    unfolding n(1) by (rule field_be_step) (use assms n in simp_all)
  moreover have "readUIntBE_loop h b (int k) (int j) 1 (JInt v) =
      (JInt (v + 256 * be_val (field h b k j)), 256 ^ j)" for v
    using readUIntBE_loop_val [of h b k j 1] assms n by simp
  ultimately show ?thesis
    using assms(2) by (simp add: readUIntBE_def to_int32_small [OF lt(1)] to_int32_small [OF lt(2)]
        Let_def n(2) del: to_int32_simps)
qed

lemma pow256: "(256 :: int) ^ n = 2 ^ (8 * n)"
  by (simp add: power_mult)

text \<open>The last step of the signed readers: subtract \<open>2 ^ (8 * n)\<close> from \<open>mul * 0x80\<close> on.\<close>

lemma sign_step:
  assumes "0 < n" "0 \<le> v" "v < 256 ^ n"
  shows "(if js_ge (JInt v) (JInt (256 ^ (n - 1) * 0x80)) then js_sub (JInt v) (pow2 (8 * int n))
    else JInt v) = JInt (signed_take_bit (8 * n - 1) v)"
proof -
  have S: "Suc (8 * n - 1) = 8 * n" using assms(1) by simp
  have "(256 :: int) ^ (n - 1) * 128 = 2 ^ (8 * (n - 1) + 7)"
    by (simp only: pow256 power_add) simp
  also have "8 * (n - 1) + 7 = 8 * n - 1" using assms(1) by simp
  finally have m: "(256 :: int) ^ (n - 1) * 128 = 2 ^ (8 * n - 1)" .
  have M: "(2 :: int) ^ (8 * n) = 2 * 2 ^ (8 * n - 1)" by (metis S power_Suc)
  have p: "pow2 (8 * int n) = JInt (2 * 2 ^ (8 * n - 1))"
    unfolding M [symmetric] by (simp add: pow2_def nat_mult_distrib)
  have "v < 2 ^ Suc (8 * n - 1)" using assms(3) by (simp only: S pow256)
  from signed_take_bit_cases [OF assms(2) this] show ?thesis
    unfolding m p by (simp add: JInt_order)
qed

lemma readIntLE_field:
  assumes "wf_buffer h b" "k + n \<le> b_len b" "0 < n"
  shows "readIntLE h b (JInt (int k)) (JInt (int n)) a =
    Inr (JInt (signed_take_bit (8 * n - 1) (le_val (field h b k n))))"
proof -
  have lt: "k < 0x80000000" "n < 0x80000000" using assms by (auto simp: wf_buffer_def)
  have "field h b k n = octets h b ! k # field h b (Suc k) (n - 1)"
    using field_Suc [of h b k "n - 1"] assms by simp
  then have "readUIntLE_loop h b (int k) (int n) 0 1 (elem h b (int k))
      = (JInt (le_val (field h b k n)), 256 ^ (n - 1))"
    using readUIntLE_loop_val [of h b k n 0 1] assms by simp
  then show ?thesis
    using sign_step [of n "le_val (field h b k n)"] le_val_bound [of "field h b k n"] assms
    by (simp add: readIntLE_def to_int32_small [OF lt(1)] to_int32_small [OF lt(2)] Let_def
        le_val_nonneg del: to_int32_simps)
qed

lemma readIntBE_field:
  assumes "wf_buffer h b" "k + n \<le> b_len b" "0 < n"
  shows "readIntBE h b (JInt (int k)) (JInt (int n)) a =
    Inr (JInt (signed_take_bit (8 * n - 1) (be_val (field h b k n))))"
proof -
  define j where "j = n - 1"
  have n: "n = Suc j" "int n - 1 = int j" using assms(3) by (simp_all add: j_def)
  have lt: "k < 0x80000000" "n < 0x80000000" using assms by (auto simp: wf_buffer_def)
  have "elem h b (int k + int j) = JInt (uint (octets h b ! (k + j)))"
    by (rule elem_eq) (use assms n in simp_all)
  moreover have "be_val (field h b k n) = uint (octets h b ! (k + j)) + 256 * be_val (field h b k j)"
    unfolding n(1) by (rule field_be_step) (use assms n in simp_all)
  ultimately have L: "readUIntBE_loop h b (int k) (int j) 1 (elem h b (int k + int j))
      = (JInt (be_val (field h b k n)), 256 ^ j)"
    using readUIntBE_loop_val [of h b k j 1] assms(1,2) unfolding n(1) by simp
  have b: "0 \<le> be_val (field h b k n)" "be_val (field h b k n) < 256 ^ n"
    using le_val_bound [of "rev (field h b k n)"] assms by (simp_all add: be_val_def le_val_nonneg)
  show ?thesis
    using sign_step [OF assms(3) b, folded j_def] L assms(2)
    by (simp add: readIntBE_def to_int32_small [OF lt(1)] to_int32_small [OF lt(2)] Let_def n(2)
        del: to_int32_simps)
qed

section \<open>What the writers write\<close>

lemma put_elem_nat [simp]:
  "k < b_len b \<Longrightarrow> put_elem h b (int k) v = set_octet h b k (to_uint8 v)"
  by (simp add: put_elem_def)

lemma put_elem_eq:
  "i = int k \<Longrightarrow> k < b_len b \<Longrightarrow> put_elem h b i v = set_octet h b k (to_uint8 v)"
  by simp

lemma le_octets_fixed:
  "le_octets 1 v = [word_of_int v]"
  "le_octets 2 v = [word_of_int v, word_of_int (v div 256)]"
  "le_octets 4 v = [word_of_int v, word_of_int (v div 256), word_of_int (v div 65536),
     word_of_int (v div 16777216)]"
  by (simp_all add: numeral_eq_Suc flip: zdiv_zmult2_eq)

lemma put16_LE_octets:
  assumes "wf_buffer h b" "k + 2 \<le> b_len b"
  shows "put16_LE h b (int k) (JInt v) = put_octets h b k (le_octets 2 v)"
  using assms buf.upd_two(1) [of h b k "word_of_int v" "word_of_int (v div 256)"]
    put_elem_eq [of "int k + 1" "Suc k" b]
  by (simp add: put16_LE_def le_octets_fixed to_uint8_shr)

lemma put16_BE_octets:
  assumes "wf_buffer h b" "k + 2 \<le> b_len b"
  shows "put16_BE h b (int k) (JInt v) = put_octets h b k (be_octets 2 v)"
  using assms buf.upd_two(1) [of h b k "word_of_int (v div 256)" "word_of_int v"]
    put_elem_eq [of "int k + 1" "Suc k" b]
  by (simp add: put16_BE_def be_octets_def le_octets_fixed to_uint8_shr)

lemma put32_steps:
  assumes "k + 4 \<le> b_len b"
  shows "put_elem h b (int k + 1) x = set_octet h b (Suc k) (to_uint8 x)"
    "put_elem h b (int k + 2) x = set_octet h b (Suc (Suc k)) (to_uint8 x)"
    "put_elem h b (int k + 3) x = set_octet h b (Suc (Suc (Suc k))) (to_uint8 x)"
  using assms by (auto intro: put_elem_eq)

lemma put32_BE_octets:
  assumes "wf_buffer h b" "k + 4 \<le> b_len b"
  shows "put32_BE h b (int k) (JInt v) = put_octets h b k (be_octets 4 v)"
  using assms
  by (simp add: put32_BE_def be_octets_def le_octets_fixed to_uint8_shr put32_steps
      buf.upd_four(1))

lemma asserting_pass: "a \<or> check = Inr () \<Longrightarrow> asserting a check r = Inr r"
  by (auto simp: asserting_def)

lemma checkInt_pass:
  "checkInt b (JInt v) (int k) n (JInt hi) (JInt lo) = Inr () \<longleftrightarrow>
     lo \<le> v \<and> v \<le> hi \<and> int k + n \<le> int (b_len b)"
  by (auto simp: checkInt_def thenE_eq_Inr)

lemma to_int32_offset: "wf_buffer h b \<Longrightarrow> k < b_len b \<Longrightarrow> to_int32 (JInt (int k)) = int k"
  by (rule to_int32_small) (simp add: wf_buffer_def)

lemmas write_rules = asserting_pass checkInt_pass to_int32_offset Let_def

text \<open>
  A value in range, or any value when the check is off, ends up as the octets of its field;
  nothing else changes.  The octets are taken modulo the width.
\<close>

lemma writeUInt8_field: "wf_buffer h b \<Longrightarrow> k + 1 \<le> b_len b \<Longrightarrow> a \<or> 0 \<le> v \<and> v \<le> 0xFF \<Longrightarrow>
  writeUInt8 h b (JInt v) (JInt (int k)) a = Inr (int k + 1, put_octets h b k (le_octets 1 v))"
  by (simp add: writeUInt8_def write_rules le_octets_fixed [simplified] buf.upd_one
      del: to_int32_simps)

lemma writeUInt16LE_field: "wf_buffer h b \<Longrightarrow> k + 2 \<le> b_len b \<Longrightarrow> a \<or> 0 \<le> v \<and> v \<le> 0xFFFF \<Longrightarrow>
  writeUInt16LE h b (JInt v) (JInt (int k)) a = Inr (int k + 2, put_octets h b k (le_octets 2 v))"
  by (simp add: writeUInt16LE_def write_rules put16_LE_octets del: to_int32_simps)

lemma writeUInt16BE_field: "wf_buffer h b \<Longrightarrow> k + 2 \<le> b_len b \<Longrightarrow> a \<or> 0 \<le> v \<and> v \<le> 0xFFFF \<Longrightarrow>
  writeUInt16BE h b (JInt v) (JInt (int k)) a = Inr (int k + 2, put_octets h b k (be_octets 2 v))"
  by (simp add: writeUInt16BE_def write_rules put16_BE_octets del: to_int32_simps)

lemma writeUInt32LE_field: "wf_buffer h b \<Longrightarrow> k + 4 \<le> b_len b \<Longrightarrow> a \<or> 0 \<le> v \<and> v \<le> 0xFFFFFFFF \<Longrightarrow>
  writeUInt32LE h b (JInt v) (JInt (int k)) a = Inr (int k + 4, put_octets h b k (le_octets 4 v))"
  by (simp add: writeUInt32LE_def write_rules put32_steps buf.upd_four(2)
      le_octets_fixed to_uint8_shr del: to_int32_simps)

lemma writeUInt32BE_field: "wf_buffer h b \<Longrightarrow> k + 4 \<le> b_len b \<Longrightarrow> a \<or> 0 \<le> v \<and> v \<le> 0xFFFFFFFF \<Longrightarrow>
  writeUInt32BE h b (JInt v) (JInt (int k)) a = Inr (int k + 4, put_octets h b k (be_octets 4 v))"
  by (simp add: writeUInt32BE_def write_rules put32_BE_octets del: to_int32_simps)

lemma writeInt16LE_field:
  "wf_buffer h b \<Longrightarrow> k + 2 \<le> b_len b \<Longrightarrow> a \<or> - 0x8000 \<le> v \<and> v \<le> 0x7FFF \<Longrightarrow>
  writeInt16LE h b (JInt v) (JInt (int k)) a = Inr (int k + 2, put_octets h b k (le_octets 2 v))"
  by (simp add: writeInt16LE_def write_rules put16_LE_octets del: to_int32_simps)

lemma writeInt16BE_field:
  "wf_buffer h b \<Longrightarrow> k + 2 \<le> b_len b \<Longrightarrow> a \<or> - 0x8000 \<le> v \<and> v \<le> 0x7FFF \<Longrightarrow>
  writeInt16BE h b (JInt v) (JInt (int k)) a = Inr (int k + 2, put_octets h b k (be_octets 2 v))"
  by (simp add: writeInt16BE_def write_rules put16_BE_octets del: to_int32_simps)

lemma writeInt32LE_field:
  "wf_buffer h b \<Longrightarrow> k + 4 \<le> b_len b \<Longrightarrow> a \<or> - 0x80000000 \<le> v \<and> v \<le> 0x7FFFFFFF \<Longrightarrow>
  writeInt32LE h b (JInt v) (JInt (int k)) a = Inr (int k + 4, put_octets h b k (le_octets 4 v))"
  by (simp add: writeInt32LE_def write_rules put32_steps buf.upd_four(1)
      le_octets_fixed to_uint8_shr del: to_int32_simps)

text \<open>Adding \<open>2 ^ (8 * n)\<close> to a negative value does not change its octets.\<close>

lemma word_of_int_add_256: "(word_of_int (v + 256 * m) :: octet) = word_of_int v"
  by (simp only: word_of_int_eq_iff) (simp add: take_bit_eq_mod)

lemma le_octets_add: "le_octets n (v + 256 ^ n * m) = le_octets n v"
proof (induction n arbitrary: v)
  case (Suc n)
  have "(v + 256 * (256 ^ n * m)) div 256 = v div 256 + 256 ^ n * m" by simp
  moreover note word_of_int_add_256 [of v "256 ^ n * m"] Suc [of "v div 256"]
  ultimately show ?case by (simp only: le_octets.simps power_Suc mult.assoc)
qed simp

lemma octet_256 [simp]: "(256 :: octet) = 0"
  by (rule word_uint_eqI) simp

lemma writeInt8_field:
  "wf_buffer h b \<Longrightarrow> k + 1 \<le> b_len b \<Longrightarrow> a \<or> - 0x80 \<le> v \<and> v \<le> 0x7F \<Longrightarrow>
  writeInt8 h b (JInt v) (JInt (int k)) a = Inr (int k + 1, put_octets h b k (le_octets 1 v))"
  by (simp add: writeInt8_def write_rules le_octets_fixed [simplified] buf.upd_one add.commute
      del: to_int32_simps)

lemma writeInt32BE_field:
  "wf_buffer h b \<Longrightarrow> k + 4 \<le> b_len b \<Longrightarrow> a \<or> - 0x80000000 \<le> v \<and> v \<le> 0x7FFFFFFF \<Longrightarrow>
  writeInt32BE h b (JInt v) (JInt (int k)) a = Inr (int k + 4, put_octets h b k (be_octets 4 v))"
  using le_octets_add [of 4 v 1]
  by (simp add: writeInt32BE_def write_rules put32_BE_octets be_octets_def add.commute
      del: to_int32_simps)

section \<open>Writers of variable width\<close>

text \<open>
  The octets above the lowest, as the loops compute them: a floor for a value that is not
  negative, and a truncated quotient less one for a negative one.
\<close>

definition high_digit :: "int \<Rightarrow> int \<Rightarrow> int" where
  "high_digit v m = (if v < 0 then - ((- v) div m) - 1 else v div m)"

lemma minus_one_div:
  assumes "0 < m"
  shows "(- x - 1) div m = - (x div m) - (1 :: int)"
proof (rule int_div_pos_eq)
  show "- x - 1 = m * (- (x div m) - 1) + (m - x mod m - 1)"
    using mult_div_mod_eq [of m x] by (simp add: algebra_simps)
qed (use assms pos_mod_bound [of m x] pos_mod_sign [of m x] in linarith)+

lemma high_digit_step: "0 < m \<Longrightarrow> high_digit v (m * 256) = high_digit v m div 256"
  by (simp add: high_digit_def minus_one_div zdiv_zmult2_eq)

text \<open>The number whose octets the signed writers store.\<close>

definition stored :: "int \<Rightarrow> int" where
  "stored v = (if v < 0 \<and> v mod 256 = 0 then v - 256 else v)"

lemma stored_octets: "le_octets (Suc n) (stored v) = word_of_int v # le_octets n (high_digit v 256)"
proof -
  have 1: "(word_of_int (stored v) :: octet) = word_of_int v"
    using word_of_int_add_256 [of v "-1"] by (simp add: stored_def)
  have "v < 0 \<Longrightarrow> - ((- v) div 256) - 1 = stored v div 256"
    using zdiv_zminus1_eq_if [of 256 v] div_mult_self1 [of 256 v "-1"] by (simp add: stored_def)
  then have "high_digit v 256 = stored v div 256"
    by (simp add: high_digit_def stored_def)
  with 1 show ?thesis by simp
qed

lemma signed_octet:
  assumes "0 < m"
  shows "to_uint8 (js_and (js_sub (js_sar (js_div_pos (JInt v) m) 0)
      (JInt (if v < 0 then 1 else 0))) (JInt 0xFF)) = word_of_int (high_digit v m)"
proof -
  let ?q = "if v < 0 then - ((- v) div m) else v div m"
  have "js_sar (js_div_pos (JInt v) m) 0 = JInt (signed_take_bit 31 ?q)"
    using assms unfolding js_sar_def to_int32_def by (simp del: to_int32_simps)
  moreover have "(word_of_int (signed_take_bit 31 ?q) :: octet) = word_of_int ?q"
    by (simp only: word_of_int_eq_iff) (simp add: take_bit_signed_take_bit)
  ultimately show ?thesis by (simp add: high_digit_def)
qed

lemma unsigned_octet: "0 \<le> v \<Longrightarrow> 0 < m \<Longrightarrow>
  to_uint8 (js_and (js_div_pos (JInt v) m) (JInt 0xFF)) = word_of_int (high_digit v m)"
  by (simp add: to_uint8_div high_digit_def)

lemma le_octets_high: "0 < m \<Longrightarrow> le_octets (Suc n) (high_digit v m) =
  word_of_int (high_digit v m) # le_octets n (high_digit v (m * 256))"
  by (simp add: high_digit_step)

lemma be_octets_Suc: "be_octets (Suc n) v = be_octets n (v div 256) @ [word_of_int v]"
  by (simp add: be_octets_def)

text \<open>One turn of each loop.\<close>

lemma writeUIntLE_turn:
  assumes "Suc i < n" "k + n \<le> b_len b" "0 \<le> v" "0 < m"
  shows "writeUIntLE_loop h b (int k) (int n) (JInt v) (int i) m =
    writeUIntLE_loop (set_octet h b (k + Suc i) (word_of_int (high_digit v (m * 256))))
      b (int k) (int n) (JInt v) (int (Suc i)) (m * 256)"
  using assms put_elem_eq [of "int k + (int i + 1)" "k + Suc i" b]
  by (subst writeUIntLE_loop.simps) (simp add: unsigned_octet add.commute del: to_uint8_and_255)

lemma writeIntLE_turn:
  assumes "Suc i < n" "k + n \<le> b_len b" "0 < m"
  shows "writeIntLE_loop h b (int k) (int n) (JInt v) (if v < 0 then 1 else 0) (int i) m =
    writeIntLE_loop (set_octet h b (k + Suc i) (word_of_int (high_digit v (m * 256))))
      b (int k) (int n) (JInt v) (if v < 0 then 1 else 0) (int (Suc i)) (m * 256)"
  using assms put_elem_eq [of "int k + (int i + 1)" "k + Suc i" b] signed_octet [of "m * 256" v]
  by (subst writeIntLE_loop.simps) (simp add: add.commute del: to_uint8_and_255 split del: if_split)

lemma writeUIntBE_turn:
  assumes "k + Suc j \<le> b_len b" "0 \<le> v" "0 < m"
  shows "writeUIntBE_loop h b (int k) (JInt v) (int (Suc j)) m =
    writeUIntBE_loop (set_octet h b (k + j) (word_of_int (high_digit v (m * 256))))
      b (int k) (JInt v) (int j) (m * 256)"
  using assms put_elem_eq [of "int k + int j" "k + j" b]
  by (subst writeUIntBE_loop.simps) (simp add: unsigned_octet del: to_uint8_and_255)

lemma writeIntBE_turn:
  assumes "k + Suc j \<le> b_len b" "0 < m"
  shows "writeIntBE_loop h b (int k) (JInt v) (if v < 0 then 1 else 0) (int (Suc j)) m =
    writeIntBE_loop (set_octet h b (k + j) (word_of_int (high_digit v (m * 256))))
      b (int k) (JInt v) (if v < 0 then 1 else 0) (int j) (m * 256)"
  using assms put_elem_eq [of "int k + int j" "k + j" b] signed_octet [of "m * 256" v]
  by (subst writeIntBE_loop.simps) (simp del: to_uint8_and_255 split del: if_split)

text \<open>A run of turns, upwards from position \<open>i\<close> and downwards to position 0.\<close>

lemma ascending_turns:
  assumes turn: "\<And>h i m. Suc i < n \<Longrightarrow> 0 < m \<Longrightarrow>
      F h i m = F (set_octet h b (k + Suc i) (word_of_int (high_digit v (m * 256)))) (Suc i) (m * 256)"
    and stop: "\<And>h m. F h (n - 1) m = h"
  shows "wf_buffer h b \<Longrightarrow> k + n \<le> b_len b \<Longrightarrow> i < n \<Longrightarrow> 0 < m \<Longrightarrow>
    F h i m = put_octets h b (k + Suc i) (le_octets (n - Suc i) (high_digit v (m * 256)))"
proof (induction "n - Suc i" arbitrary: h i m)
  case 0
  then have "i = n - 1" by simp
  then show ?case using stop 0 by (simp add: put_octets_Nil)
next
  case (Suc d)
  then have lt: "Suc i < n" and d: "d = n - Suc (Suc i)" "n - Suc i = Suc d" by simp_all
  have "F h i m = put_octets (set_octet h b (k + Suc i) (word_of_int (high_digit v (m * 256))))
      b (k + Suc (Suc i)) (le_octets d (high_digit v (m * 256 * 256)))"
    using turn [OF lt Suc.prems(4)] Suc.hyps(1) [OF d(1)] Suc.prems lt d(1) by simp
  then show ?case
    using Suc.prems lt d by (simp only: d(2) le_octets_high) (simp add: put_octets_Cons)
qed

lemma descending_turns:
  assumes turn: "\<And>h j m. k + Suc j \<le> b_len b \<Longrightarrow> 0 < m \<Longrightarrow>
      F h (Suc j) m = F (set_octet h b (k + j) (word_of_int (high_digit v (m * 256)))) j (m * 256)"
    and stop: "\<And>h m. F h 0 m = h"
  shows "wf_buffer h b \<Longrightarrow> k + j \<le> b_len b \<Longrightarrow> 0 < m \<Longrightarrow>
    F h j m = put_octets h b k (be_octets j (high_digit v (m * 256)))"
proof (induction j arbitrary: h m)
  case 0
  then show ?case using stop by (simp add: put_octets_Nil be_octets_def)
next
  case (Suc j)
  let ?w = "word_of_int (high_digit v (m * 256)) :: octet"
  have "F h (Suc j) m = put_octets (set_octet h b (k + j) ?w) b k
      (be_octets j (high_digit v (m * 256 * 256)))"
    using turn Suc by simp
  also have "\<dots> = put_octets h b k (be_octets j (high_digit v (m * 256 * 256)) @ [?w])"
    using buf.run_last_first [of h b k "be_octets j (high_digit v (m * 256 * 256))" ?w] Suc.prems
    by simp
  also have "be_octets j (high_digit v (m * 256 * 256)) @ [?w] = be_octets (Suc j) (high_digit v (m * 256))"
    using Suc.prems(3) by (simp only: be_octets_Suc high_digit_step [of "m * 256"] mult_pos_pos zero_less_numeral)
  finally show ?case .
qed

lemma put_octets_first: "wf_buffer h b \<Longrightarrow> k + Suc n \<le> b_len b \<Longrightarrow>
  put_octets (set_octet h b k w) b (Suc k) (le_octets n v) = put_octets h b k (w # le_octets n v)"
  by (simp add: put_octets_Cons)

lemma put_octets_last: "wf_buffer h b \<Longrightarrow> k + Suc n \<le> b_len b \<Longrightarrow>
  put_octets (set_octet h b (k + n) w) b k (be_octets n v) = put_octets h b k (be_octets n v @ [w])"
  using buf.run_last_first [of h b k "be_octets n v" w] by simp

lemma stored_octets_be: "be_octets (Suc n) (stored v) = be_octets n (high_digit v 256) @ [word_of_int v]"
  using stored_octets [of n v] by (simp add: be_octets_def)

lemma width_Suc: "0 < n \<Longrightarrow> \<exists>m. n = Suc m \<and> int n - 1 = int m"
  by (intro exI [of _ "n - 1"]) auto

lemma stored_nonneg: "0 \<le> v \<Longrightarrow> stored v = v"
  by (simp add: stored_def)

lemma writeUIntLE_field:
  assumes "wf_buffer h b" "k + n \<le> b_len b" "0 < n" "0 \<le> v" "a \<or> v \<le> 256 ^ n"
  shows "writeUIntLE h b (JInt v) (JInt (int k)) (JInt (int n)) a =
    Inr (int (k + n), put_octets h b k (le_octets n v))"
proof -
  obtain m where m: "n = Suc m" "int n - 1 = int m" using width_Suc assms(3) by blast
  have lt: "k < 0x80000000" "n < 0x80000000" using assms by (auto simp: wf_buffer_def)
  have stop: "writeUIntLE_loop h b (int k) (int n) (JInt v) (int (n - 1)) m' = h" for h m'
    using assms by (subst writeUIntLE_loop.simps) simp
  have "writeUIntLE_loop (set_octet h b k (word_of_int v)) b (int k) (int n) (JInt v) 0 1 =
      put_octets h b k (le_octets n v)"
    using ascending_turns [of n "\<lambda>h i m. writeUIntLE_loop h b (int k) (int n) (JInt v) (int i) m" b k v
        "set_octet h b k (word_of_int v)" 0 1, OF writeUIntLE_turn stop] assms
      stored_octets [of m v] put_octets_first [of h b k m]
    by (simp add: m stored_nonneg del: le_octets.simps)
  then show ?thesis
    using assms by (simp add: writeUIntLE_def to_int32_small [OF lt(1)] to_int32_small [OF lt(2)]
        Let_def asserting_pass checkInt_pass pow2_def nat_mult_distrib power_mult del: to_int32_simps)
qed

lemma writeUIntBE_field:
  assumes "wf_buffer h b" "k + n \<le> b_len b" "0 < n" "0 \<le> v" "a \<or> v \<le> 256 ^ n"
  shows "writeUIntBE h b (JInt v) (JInt (int k)) (JInt (int n)) a =
    Inr (int (k + n), put_octets h b k (be_octets n v))"
proof -
  obtain m where m: "n = Suc m" "int n - 1 = int m" using width_Suc assms(3) by blast
  have lt: "k < 0x80000000" "n < 0x80000000" using assms by (auto simp: wf_buffer_def)
  have stop: "writeUIntBE_loop h b (int k) (JInt v) (int 0) m' = h" for h m'
    by (subst writeUIntBE_loop.simps) simp
  have "writeUIntBE_loop (set_octet h b (k + m) (word_of_int v)) b (int k) (JInt v) (int m) 1 =
      put_octets h b k (be_octets n v)"
    using descending_turns [of k b "\<lambda>h j m. writeUIntBE_loop h b (int k) (JInt v) (int j) m" v
        "set_octet h b (k + m) (word_of_int v)" m 1, OF writeUIntBE_turn stop] assms
      stored_octets_be [of m v] put_octets_last [of h b k m]
    by (simp add: m stored_nonneg)
  moreover have "put_elem h b (int k + int m) (js_and (JInt v) (JInt 255)) =
      set_octet h b (k + m) (word_of_int v)"
    using put_elem_eq [of "int k + int m" "k + m" b] assms m by simp
  ultimately show ?thesis
    using assms by (simp add: writeUIntBE_def to_int32_small [OF lt(1)] to_int32_small [OF lt(2)]
        Let_def m(2) asserting_pass checkInt_pass pow2_def nat_mult_distrib power_mult
        del: to_int32_simps)
qed

lemma writeIntLE_field:
  assumes "wf_buffer h b" "k + n \<le> b_len b" "0 < n"
    "a \<or> - (2 ^ (8 * n - 1)) \<le> v \<and> v < 2 ^ (8 * n - 1)"
  shows "writeIntLE h b (JInt v) (JInt (int k)) (int n) a =
    Inr (int (k + n), put_octets h b k (le_octets n (stored v)))"
proof -
  obtain m where m: "n = Suc m" "int n - 1 = int m" using width_Suc assms(3) by blast
  have lt: "k < 0x80000000" using assms by (auto simp: wf_buffer_def)
  let ?sub = "if v < 0 then 1 else 0"
  have stop: "writeIntLE_loop h b (int k) (int n) (JInt v) ?sub (int (n - 1)) m' = h" for h m'
    using assms by (subst writeIntLE_loop.simps) simp
  have "writeIntLE_loop (set_octet h b k (word_of_int v)) b (int k) (int n) (JInt v) ?sub 0 1 =
      put_octets h b k (le_octets n (stored v))"
    using ascending_turns [of n "\<lambda>h i m. writeIntLE_loop h b (int k) (int n) (JInt v) ?sub (int i) m"
        b k v "set_octet h b k (word_of_int v)" 0 1, OF writeIntLE_turn stop] assms
      stored_octets [of m v] put_octets_first [of h b k m]
    by (simp add: m del: le_octets.simps split del: if_split)
  moreover have "pow2 (8 * int n - 1) = JInt (2 ^ (8 * n - 1))"
    using assms(3) by (simp add: pow2_def nat_diff_distrib nat_mult_distrib)
  ultimately show ?thesis
    using assms by (simp add: writeIntLE_def to_int32_small [OF lt] Let_def asserting_pass
        checkInt_pass JInt_order del: to_int32_simps split del: if_split)
qed

lemma writeIntBE_field:
  assumes "wf_buffer h b" "k + n \<le> b_len b" "0 < n"
    "a \<or> - (2 ^ (8 * n - 1)) \<le> v \<and> v < 2 ^ (8 * n - 1)"
  shows "writeIntBE h b (JInt v) (JInt (int k)) (int n) a =
    Inr (int (k + n), put_octets h b k (be_octets n (stored v)))"
proof -
  obtain m where m: "n = Suc m" "int n - 1 = int m" using width_Suc assms(3) by blast
  have lt: "k < 0x80000000" using assms by (auto simp: wf_buffer_def)
  let ?sub = "if v < 0 then 1 else 0"
  have stop: "writeIntBE_loop h b (int k) (JInt v) ?sub (int 0) m' = h" for h m'
    by (subst writeIntBE_loop.simps) simp
  have "writeIntBE_loop (set_octet h b (k + m) (word_of_int v)) b (int k) (JInt v) ?sub (int m) 1 =
      put_octets h b k (be_octets n (stored v))"
    using descending_turns [of k b "\<lambda>h j m. writeIntBE_loop h b (int k) (JInt v) ?sub (int j) m" v
        "set_octet h b (k + m) (word_of_int v)" m 1, OF writeIntBE_turn stop] assms
      stored_octets_be [of m v] put_octets_last [of h b k m]
    by (simp add: m split del: if_split)
  moreover have "put_elem h b (int k + int m) (js_and (JInt v) (JInt 255)) =
      set_octet h b (k + m) (word_of_int v)"
    using put_elem_eq [of "int k + int m" "k + m" b] assms m by simp
  moreover have "pow2 (8 * int n - 1) = JInt (2 ^ (8 * n - 1))"
    using assms(3) by (simp add: pow2_def nat_diff_distrib nat_mult_distrib)
  ultimately show ?thesis
    using assms by (simp add: writeIntBE_def to_int32_small [OF lt] Let_def m(2) asserting_pass
        checkInt_pass JInt_order del: to_int32_simps split del: if_split)
qed

section \<open>Round trips\<close>

text \<open>
  A write succeeds, answers the offset after its field, the read gives the value back, and no
  octet outside the field changes.
\<close>

definition round_trips ::
  "heap \<Rightarrow> buffer \<Rightarrow> nat \<Rightarrow> nat \<Rightarrow> written \<Rightarrow> (heap \<Rightarrow> jserr + jnum) \<Rightarrow> int \<Rightarrow> bool" where
  "round_trips h b k n w r v \<longleftrightarrow> (case w of Inl _ \<Rightarrow> False | Inr (next, h') \<Rightarrow>
     next = int (k + n) \<and> wf_buffer h' b \<and> r h' = Inr (JInt v)
       \<and> take k (octets h' b) = take k (octets h b)
       \<and> drop (k + n) (octets h' b) = drop (k + n) (octets h b))"

lemma field_put_octets:
  "wf_buffer h b \<Longrightarrow> k + n \<le> b_len b \<Longrightarrow> length vs = n \<Longrightarrow> field (put_octets h b k vs) b k n = vs"
  using buf.read_back [of h b k vs] by (simp add: field_def)

lemma round_trips_iff:
  assumes "wf_buffer h b" "k + n \<le> b_len b" "length vs = n"
    and "w = Inr (int (k + n), put_octets h b k vs)"
    and "r (put_octets h b k vs) = Inr (JInt (f (field (put_octets h b k vs) b k n)))"
  shows "round_trips h b k n w r v \<longleftrightarrow> f vs = v"
proof -
  have "wf_buffer (put_octets h b k vs) b" using assms by (intro buf.ok_run) auto
  moreover have "octets (put_octets h b k vs) b = splice (octets h b) k vs"
    using assms by (intro octets_put_octets) auto
  ultimately show ?thesis
    using assms by (simp add: round_trips_def field_put_octets) (simp add: splice_def min_def)
qed

lemma unsigned_value: "0 \<le> v \<Longrightarrow> v < 256 ^ n \<Longrightarrow> v mod 256 ^ n = (v :: int)"
  by (rule mod_pos_pos_trivial)

lemma signed_value:
  assumes "0 < n" "- (2 ^ (8 * n - 1)) \<le> v" "v < 2 ^ (8 * n - 1)"
  shows "signed_take_bit (8 * n - 1) (v mod 256 ^ n) = (v :: int)"
proof -
  have "v mod 256 ^ n = take_bit (Suc (8 * n - 1)) v"
    using assms(1) by (simp add: take_bit_eq_mod power_mult)
  then show ?thesis using assms(2,3)
    by (simp add: signed_take_bit_take_bit signed_take_bit_int_eq_self)
qed

lemma wf_put_octets:
  "wf_buffer h b \<Longrightarrow> k + length vs \<le> b_len b \<Longrightarrow> wf_buffer (put_octets h b k vs) b"
  by (rule buf.ok_run)

lemma unsigned_parts:
  assumes "wf_buffer h b" "0 \<le> v"
  shows "k + 1 \<le> b_len b \<Longrightarrow> v < 2 ^ 8 \<Longrightarrow> round_trips h b k 1
      (writeUInt8 h b (JInt v) (JInt (int k)) False) (\<lambda>h. readUInt8 h b (JInt (int k)) False) v"
    and "k + 2 \<le> b_len b \<Longrightarrow> v < 2 ^ 16 \<Longrightarrow> round_trips h b k 2
      (writeUInt16LE h b (JInt v) (JInt (int k)) False) (\<lambda>h. readUInt16LE h b (JInt (int k)) False) v"
    and "k + 2 \<le> b_len b \<Longrightarrow> v < 2 ^ 16 \<Longrightarrow> round_trips h b k 2
      (writeUInt16BE h b (JInt v) (JInt (int k)) False) (\<lambda>h. readUInt16BE h b (JInt (int k)) False) v"
    and "k + 4 \<le> b_len b \<Longrightarrow> v < 2 ^ 32 \<Longrightarrow> round_trips h b k 4
      (writeUInt32LE h b (JInt v) (JInt (int k)) False) (\<lambda>h. readUInt32LE h b (JInt (int k)) False) v"
    and "k + 4 \<le> b_len b \<Longrightarrow> v < 2 ^ 32 \<Longrightarrow> round_trips h b k 4
      (writeUInt32BE h b (JInt v) (JInt (int k)) False) (\<lambda>h. readUInt32BE h b (JInt (int k)) False) v"
  using assms
  by (subst round_trips_iff [where vs = "le_octets 1 v" and f = le_val]
      round_trips_iff [where vs = "le_octets 2 v" and f = le_val]
      round_trips_iff [where vs = "be_octets 2 v" and f = be_val]
      round_trips_iff [where vs = "le_octets 4 v" and f = le_val]
      round_trips_iff [where vs = "be_octets 4 v" and f = be_val];
    simp add: writeUInt8_field writeUInt16LE_field writeUInt16BE_field writeUInt32LE_field
      writeUInt32BE_field readUInt8_field readUInt16LE_field readUInt16BE_field readUInt32LE_field
      readUInt32BE_field wf_put_octets le_val_le_octets be_val_be_octets
      del: le_octets.simps le_val.simps)+

lemma signed_parts:
  assumes "wf_buffer h b" 
  shows "k + 1 \<le> b_len b \<Longrightarrow> - (2 ^ 7) \<le> v \<Longrightarrow> v < 2 ^ 7 \<Longrightarrow> round_trips h b k 1
      (writeInt8 h b (JInt v) (JInt (int k)) False) (\<lambda>h. readInt8 h b (JInt (int k)) False) v"
    and "k + 2 \<le> b_len b \<Longrightarrow> - (2 ^ 15) \<le> v \<Longrightarrow> v < 2 ^ 15 \<Longrightarrow> round_trips h b k 2
      (writeInt16LE h b (JInt v) (JInt (int k)) False) (\<lambda>h. readInt16LE h b (JInt (int k)) False) v"
    and "k + 2 \<le> b_len b \<Longrightarrow> - (2 ^ 15) \<le> v \<Longrightarrow> v < 2 ^ 15 \<Longrightarrow> round_trips h b k 2
      (writeInt16BE h b (JInt v) (JInt (int k)) False) (\<lambda>h. readInt16BE h b (JInt (int k)) False) v"
    and "k + 4 \<le> b_len b \<Longrightarrow> - (2 ^ 31) \<le> v \<Longrightarrow> v < 2 ^ 31 \<Longrightarrow> round_trips h b k 4
      (writeInt32LE h b (JInt v) (JInt (int k)) False) (\<lambda>h. readInt32LE h b (JInt (int k)) False) v"
    and "k + 4 \<le> b_len b \<Longrightarrow> - (2 ^ 31) \<le> v \<Longrightarrow> v < 2 ^ 31 \<Longrightarrow> round_trips h b k 4
      (writeInt32BE h b (JInt v) (JInt (int k)) False) (\<lambda>h. readInt32BE h b (JInt (int k)) False) v"
  using assms signed_value [of 1 v] signed_value [of 2 v] signed_value [of 4 v]
  by (subst round_trips_iff [where vs = "le_octets 1 v" and f = "\<lambda>x. signed_take_bit 7 (le_val x)"]
      round_trips_iff [where vs = "le_octets 2 v" and f = "\<lambda>x. signed_take_bit 15 (le_val x)"]
      round_trips_iff [where vs = "be_octets 2 v" and f = "\<lambda>x. signed_take_bit 15 (be_val x)"]
      round_trips_iff [where vs = "le_octets 4 v" and f = "\<lambda>x. signed_take_bit 31 (le_val x)"]
      round_trips_iff [where vs = "be_octets 4 v" and f = "\<lambda>x. signed_take_bit 31 (be_val x)"];
    simp add: writeInt8_field writeInt16LE_field writeInt16BE_field writeInt32LE_field
      writeInt32BE_field readInt8_field readInt16LE_field readInt16BE_field readInt32LE_field
      readInt32BE_field wf_put_octets le_val_le_octets be_val_be_octets
      del: le_octets.simps le_val.simps)+

text \<open>
  Unsigned round trip at the fixed widths: for every value in range and every field inside
  the buffer, \<open>writeUIntN\<close> followed by \<open>readUIntN\<close> gives the value back, in both
  byte orders, and the octets beside the field stay.
\<close>

theorem unsigned_round_trip:
  assumes "wf_buffer h b" "0 \<le> v"
  shows "(k + 1 \<le> b_len b \<and> v < 2 ^ 8 \<longrightarrow> round_trips h b k 1
        (writeUInt8 h b (JInt v) (JInt (int k)) False) (\<lambda>h. readUInt8 h b (JInt (int k)) False) v) \<and>
    (k + 2 \<le> b_len b \<and> v < 2 ^ 16 \<longrightarrow> round_trips h b k 2
        (writeUInt16LE h b (JInt v) (JInt (int k)) False) (\<lambda>h. readUInt16LE h b (JInt (int k)) False) v) \<and>
    (k + 2 \<le> b_len b \<and> v < 2 ^ 16 \<longrightarrow> round_trips h b k 2
        (writeUInt16BE h b (JInt v) (JInt (int k)) False) (\<lambda>h. readUInt16BE h b (JInt (int k)) False) v) \<and>
    (k + 4 \<le> b_len b \<and> v < 2 ^ 32 \<longrightarrow> round_trips h b k 4
        (writeUInt32LE h b (JInt v) (JInt (int k)) False) (\<lambda>h. readUInt32LE h b (JInt (int k)) False) v) \<and>
    (k + 4 \<le> b_len b \<and> v < 2 ^ 32 \<longrightarrow> round_trips h b k 4
        (writeUInt32BE h b (JInt v) (JInt (int k)) False) (\<lambda>h. readUInt32BE h b (JInt (int k)) False) v)"
  by (intro conjI impI; elim conjE; rule unsigned_parts [OF assms]; assumption)

definition sample_heap :: heap where
  "sample_heap = \<lparr>mem = [[1, 2, 3, 4, 5, 6, 7, 8, 9, 10]], objs = 1\<rparr>"

definition sample :: buffer where
  "sample = \<lparr>b_id = 0, b_addr = 0, b_off = 1, b_len = 8, b_parent = NoParent\<rparr>"

lemma wf_sample [simp]: "wf_buffer sample_heap sample" and b_len_sample [simp]: "b_len sample = 8"
  by (simp_all add: wf_buffer_def sample_heap_def sample_def)

theorem unsigned_round_trip_witness:
  "round_trips sample_heap sample 3 4
     (writeUInt32BE sample_heap sample (JInt 0xDEADBEEF) (JInt 3) False)
     (\<lambda>h. readUInt32BE h sample (JInt 3) False) 0xDEADBEEF"
  using unsigned_round_trip [of sample_heap sample "0xDEADBEEF" 3] by simp

text \<open>
  Signed round trip at the fixed widths: two's complement values in range come back
  through \<open>writeIntN\<close> and \<open>readIntN\<close>, in both byte orders, and nothing else changes.
\<close>

theorem signed_round_trip:
  assumes "wf_buffer h b"
  shows "(k + 1 \<le> b_len b \<and> - (2 ^ 7) \<le> v \<and> v < 2 ^ 7 \<longrightarrow> round_trips h b k 1
        (writeInt8 h b (JInt v) (JInt (int k)) False) (\<lambda>h. readInt8 h b (JInt (int k)) False) v) \<and>
    (k + 2 \<le> b_len b \<and> - (2 ^ 15) \<le> v \<and> v < 2 ^ 15 \<longrightarrow> round_trips h b k 2
        (writeInt16LE h b (JInt v) (JInt (int k)) False) (\<lambda>h. readInt16LE h b (JInt (int k)) False) v) \<and>
    (k + 2 \<le> b_len b \<and> - (2 ^ 15) \<le> v \<and> v < 2 ^ 15 \<longrightarrow> round_trips h b k 2
        (writeInt16BE h b (JInt v) (JInt (int k)) False) (\<lambda>h. readInt16BE h b (JInt (int k)) False) v) \<and>
    (k + 4 \<le> b_len b \<and> - (2 ^ 31) \<le> v \<and> v < 2 ^ 31 \<longrightarrow> round_trips h b k 4
        (writeInt32LE h b (JInt v) (JInt (int k)) False) (\<lambda>h. readInt32LE h b (JInt (int k)) False) v) \<and>
    (k + 4 \<le> b_len b \<and> - (2 ^ 31) \<le> v \<and> v < 2 ^ 31 \<longrightarrow> round_trips h b k 4
        (writeInt32BE h b (JInt v) (JInt (int k)) False) (\<lambda>h. readInt32BE h b (JInt (int k)) False) v)"
  by (intro conjI impI; elim conjE; rule signed_parts [OF assms]; assumption)

theorem signed_round_trip_witness:
  "round_trips sample_heap sample 0 2
     (writeInt16LE sample_heap sample (JInt (- 2)) (JInt 0) False)
     (\<lambda>h. readInt16LE h sample (JInt 0) False) (- 2)"
  using signed_round_trip [of sample_heap sample 0 "- 2"] by simp

text \<open>
  Unsigned round trip at variable width, for the widths whose values double arithmetic
  holds exactly: \<open>writeUIntLE\<close> and \<open>writeUIntBE\<close> of one to six octets are undone by
  the readers of the same width.
\<close>

theorem unsigned_width_round_trip:
  assumes "wf_buffer h b" "k + n \<le> b_len b" "0 < n" "n \<le> 6" "0 \<le> v" "v < 256 ^ n"
  shows "round_trips h b k n (writeUIntLE h b (JInt v) (JInt (int k)) (JInt (int n)) False)
      (\<lambda>h. readUIntLE h b (JInt (int k)) (JInt (int n)) False) v \<and>
    round_trips h b k n (writeUIntBE h b (JInt v) (JInt (int k)) (JInt (int n)) False)
      (\<lambda>h. readUIntBE h b (JInt (int k)) (JInt (int n)) False) v"
  using assms
  by (intro conjI; subst round_trips_iff [where vs = "le_octets n v" and f = le_val]
      round_trips_iff [where vs = "be_octets n v" and f = be_val];
    simp add: writeUIntLE_field writeUIntBE_field readUIntLE_field readUIntBE_field wf_put_octets
      le_val_le_octets be_val_be_octets)

theorem unsigned_width_round_trip_witness:
  "round_trips sample_heap sample 2 6
     (writeUIntBE sample_heap sample (JInt 0x010203040506) (JInt 2) (JInt 6) False)
     (\<lambda>h. readUIntBE h sample (JInt 2) (JInt 6) False) 0x010203040506"
  using unsigned_width_round_trip [of sample_heap sample 2 6 "0x010203040506"] by simp

lemma stored_differs:
  assumes "1 < n" "v < 0" "v mod 256 = 0"
  shows "signed_take_bit (8 * n - 1) (stored v mod 256 ^ n) \<noteq> v"
proof
  assume e: "signed_take_bit (8 * n - 1) (stored v mod 256 ^ n) = v"
  have S: "Suc (8 * n - 1) = 8 * n" using assms(1) by simp
  have "v mod 256 ^ n = take_bit (8 * n) (signed_take_bit (8 * n - 1) (stored v mod 256 ^ n))"
    unfolding e by (simp add: take_bit_eq_mod power_mult)
  also have "\<dots> = take_bit (8 * n) (stored v mod 256 ^ n)"
    by (simp only: take_bit_signed_take_bit S order_refl)
  also have "\<dots> = take_bit (8 * n) (stored v)"
    by (simp add: take_bit_eq_mod power_mult)
  also have "\<dots> = (v - 256) mod 256 ^ n"
    using assms by (simp add: stored_def take_bit_eq_mod power_mult)
  finally have "(256 :: int) ^ n dvd 256" by (simp add: mod_eq_dvd_iff)
  then have "(256 :: int) ^ n \<le> 256 ^ 1" by (auto dest: zdvd_imp_le)
  then show False using assms(1) by (simp only: power_increasing_iff)
qed

text \<open>
  Signed round trip at variable width: a value in range comes back exactly when it is not
  negative, is not a multiple of 256, or has one octet only.  The negative multiples of 256 are
  stored as the number 256 below them, since the loop takes 1 off every quotient of a negative
  value, rounded or not.
\<close>

theorem signed_width_round_trip:
  assumes "wf_buffer h b" "k + n \<le> b_len b" "0 < n" "n \<le> 6"
    "- (2 ^ (8 * n - 1)) \<le> v" "v < 2 ^ (8 * n - 1)"
  shows "(round_trips h b k n (writeIntLE h b (JInt v) (JInt (int k)) (int n) False)
       (\<lambda>h. readIntLE h b (JInt (int k)) (JInt (int n)) False) v \<longleftrightarrow> 0 \<le> v \<or> v mod 256 \<noteq> 0 \<or> n = 1) \<and>
    (round_trips h b k n (writeIntBE h b (JInt v) (JInt (int k)) (int n) False)
       (\<lambda>h. readIntBE h b (JInt (int k)) (JInt (int n)) False) v \<longleftrightarrow> 0 \<le> v \<or> v mod 256 \<noteq> 0 \<or> n = 1)"
proof -
  let ?s = "signed_take_bit (8 * n - 1) (stored v mod 256 ^ n)"
  have "?s = v \<longleftrightarrow> 0 \<le> v \<or> v mod 256 \<noteq> 0 \<or> n = 1"
  proof (cases "v < 0 \<and> v mod 256 = 0")
    case True
    have "n = 1 \<Longrightarrow> stored v mod 256 ^ n = v mod 256 ^ n" by (simp add: stored_def)
    then show ?thesis using True stored_differs [of n v] signed_value [of n v] assms
      by (cases "n = 1") auto
  next
    case False
    then show ?thesis using signed_value [of n v] assms by (auto simp: stored_def)
  qed
  moreover have "round_trips h b k n (writeIntLE h b (JInt v) (JInt (int k)) (int n) False)
       (\<lambda>h. readIntLE h b (JInt (int k)) (JInt (int n)) False) v \<longleftrightarrow> ?s = v"
    using assms
    by (subst round_trips_iff [where vs = "le_octets n (stored v)"
          and f = "\<lambda>x. signed_take_bit (8 * n - 1) (le_val x)"])
      (simp_all add: writeIntLE_field readIntLE_field wf_put_octets le_val_le_octets)
  moreover have "round_trips h b k n (writeIntBE h b (JInt v) (JInt (int k)) (int n) False)
       (\<lambda>h. readIntBE h b (JInt (int k)) (JInt (int n)) False) v \<longleftrightarrow> ?s = v"
    using assms
    by (subst round_trips_iff [where vs = "be_octets n (stored v)"
          and f = "\<lambda>x. signed_take_bit (8 * n - 1) (be_val x)"])
      (simp_all add: writeIntBE_field readIntBE_field wf_put_octets be_val_be_octets)
  ultimately show ?thesis by (intro conjI) (simp_all only:)
qed

theorem signed_width_round_trip_witness:
  "\<not> round_trips sample_heap sample 0 2 (writeIntLE sample_heap sample (JInt (- 256)) (JInt 0) 2 False)
     (\<lambda>h. readIntLE h sample (JInt 0) (JInt 2) False) (- 256) \<and>
   round_trips sample_heap sample 0 2 (writeIntLE sample_heap sample (JInt (- 255)) (JInt 0) 2 False)
     (\<lambda>h. readIntLE h sample (JInt 0) (JInt 2) False) (- 255)"
  using signed_width_round_trip [of sample_heap sample 0 2 "- 256"]
    signed_width_round_trip [of sample_heap sample 0 2 "- 255"] by simp

section \<open>Errors\<close>

text \<open>The outcome of a checked read of \<open>n\<close> octets at an integer offset.\<close>

definition read_refused :: "int \<Rightarrow> int \<Rightarrow> int \<Rightarrow> jserr option" where
  "read_refused i n len =
     (if i < 0 then Some (RangeError ''offset is not uint'')
      else if len < i + n then Some (RangeError ''Trying to access beyond buffer length'')
      else None)"

lemma asserting_read_refused:
  "asserting False (checkOffset (JInt i) n len) r = Inl e \<longleftrightarrow> read_refused i n len = Some e"
  by (auto simp: read_refused_def asserting_def checkOffset_JInt)

lemma read_refused_iff:
  "0 \<le> n \<Longrightarrow> 0 \<le> len \<Longrightarrow> read_refused i n len = None \<longleftrightarrow> (\<exists>k. i = int k \<and> int k + n \<le> len)"
  by (auto simp: read_refused_def intro: exI [of _ "nat i"])

text \<open>
  Refused reads: a checked reader of fixed width throws exactly at a negative offset, or
  where its field passes the end of the buffer, and then the \<open>RangeError\<close> of
  \<open>checkOffset\<close> for that case, whatever the buffer holds.
\<close>

theorem reads_refused:
  "(readUInt8 h b (JInt i) False = Inl e \<longleftrightarrow> read_refused i 1 (int (b_len b)) = Some e) \<and>
    (readInt8 h b (JInt i) False = Inl e \<longleftrightarrow> read_refused i 1 (int (b_len b)) = Some e) \<and>
    (readUInt16LE h b (JInt i) False = Inl e \<longleftrightarrow> read_refused i 2 (int (b_len b)) = Some e) \<and>
    (readUInt16BE h b (JInt i) False = Inl e \<longleftrightarrow> read_refused i 2 (int (b_len b)) = Some e) \<and>
    (readInt16LE h b (JInt i) False = Inl e \<longleftrightarrow> read_refused i 2 (int (b_len b)) = Some e) \<and>
    (readInt16BE h b (JInt i) False = Inl e \<longleftrightarrow> read_refused i 2 (int (b_len b)) = Some e) \<and>
    (readUInt32LE h b (JInt i) False = Inl e \<longleftrightarrow> read_refused i 4 (int (b_len b)) = Some e) \<and>
    (readUInt32BE h b (JInt i) False = Inl e \<longleftrightarrow> read_refused i 4 (int (b_len b)) = Some e) \<and>
    (readInt32LE h b (JInt i) False = Inl e \<longleftrightarrow> read_refused i 4 (int (b_len b)) = Some e) \<and>
    (readInt32BE h b (JInt i) False = Inl e \<longleftrightarrow> read_refused i 4 (int (b_len b)) = Some e)"
  by (simp only: readUInt8_def readInt8_def readUInt16LE_def readUInt16BE_def readInt16LE_def
      readInt16BE_def readUInt32LE_def readUInt32BE_def readInt32LE_def readInt32BE_def
      asserting_read_refused simp_thms)

text \<open>
  \<open>checkInt\<close> lets a write pass when the value is between the bounds and the end of the field
  is inside the buffer; it does not look at the sign of the offset.
\<close>

lemma asserting_checkInt:
  "asserting False (checkInt b (JInt v) i n (JInt hi) (JInt lo)) r =
    (if v < lo \<or> hi < v then Inl (RangeError ''value is out of bounds'')
     else if int (b_len b) < i + n then Inl (RangeError ''index out of range'')
     else Inr r)"
  by (auto simp: asserting_def checkInt_def)

lemma to_int32_word:
  "- (2 ^ 31) \<le> i \<Longrightarrow> i < 2 ^ 31 \<Longrightarrow> to_int32 (JInt i) = i"
  by (simp add: to_int32_id)

text \<open>
  Refused writes: a value outside the range of its width or a field that passes the end of
  the buffer is refused, and the memory is left alone, by all the unsigned writers of fixed
  width, and at the same bounds by the signed ones.
\<close>

theorem writes_refused:
  assumes "- (2 ^ 31) \<le> i" "i < 2 ^ 31"
  shows "((\<exists>e. writeUInt8 h b (JInt v) (JInt i) False = Inl e) \<longleftrightarrow> v \<notin> {0..0xFF} \<or> int (b_len b) < i + 1) \<and>
    ((\<exists>e. writeInt8 h b (JInt v) (JInt i) False = Inl e) \<longleftrightarrow> v \<notin> {- 0x80..0x7F} \<or> int (b_len b) < i + 1) \<and>
    ((\<exists>e. writeUInt16LE h b (JInt v) (JInt i) False = Inl e) \<longleftrightarrow> v \<notin> {0..0xFFFF} \<or> int (b_len b) < i + 2) \<and>
    ((\<exists>e. writeUInt16BE h b (JInt v) (JInt i) False = Inl e) \<longleftrightarrow> v \<notin> {0..0xFFFF} \<or> int (b_len b) < i + 2) \<and>
    ((\<exists>e. writeInt16LE h b (JInt v) (JInt i) False = Inl e) \<longleftrightarrow> v \<notin> {- 0x8000..0x7FFF} \<or> int (b_len b) < i + 2) \<and>
    ((\<exists>e. writeInt16BE h b (JInt v) (JInt i) False = Inl e) \<longleftrightarrow> v \<notin> {- 0x8000..0x7FFF} \<or> int (b_len b) < i + 2) \<and>
    ((\<exists>e. writeUInt32LE h b (JInt v) (JInt i) False = Inl e) \<longleftrightarrow> v \<notin> {0..0xFFFFFFFF} \<or> int (b_len b) < i + 4) \<and>
    ((\<exists>e. writeUInt32BE h b (JInt v) (JInt i) False = Inl e) \<longleftrightarrow> v \<notin> {0..0xFFFFFFFF} \<or> int (b_len b) < i + 4) \<and>
    ((\<exists>e. writeInt32LE h b (JInt v) (JInt i) False = Inl e) \<longleftrightarrow>
       v \<notin> {- 0x80000000..0x7FFFFFFF} \<or> int (b_len b) < i + 4) \<and>
    ((\<exists>e. writeInt32BE h b (JInt v) (JInt i) False = Inl e) \<longleftrightarrow>
       v \<notin> {- 0x80000000..0x7FFFFFFF} \<or> int (b_len b) < i + 4)"
  unfolding writeUInt8_def writeInt8_def writeUInt16LE_def writeUInt16BE_def writeInt16LE_def
    writeInt16BE_def writeUInt32LE_def writeUInt32BE_def writeInt32LE_def writeInt32BE_def
  by (simp only: Let_def JInt_unary(1) to_int32_word [OF assms] asserting_checkInt) auto

theorem writes_refused_witness:
  "(\<exists>e. writeUInt16LE sample_heap sample (JInt 0x10000) (JInt 0) False = Inl e)"
  using writes_refused [of 0 sample_heap sample "0x10000"] by simp

text \<open>
  A write at a negative offset passes the check: \<open>writeUInt8\<close> answers the next offset
  and stores nothing, where \<open>readUInt8\<close> throws.
\<close>

theorem negative_offset_write:
  assumes "- (2 ^ 31) \<le> i" "i < 0" "0 \<le> v" "v \<le> 0xFF"
  shows "writeUInt8 h b (JInt v) (JInt i) False = Inr (i + 1, h) \<and>
    readUInt8 h b (JInt i) False = Inl (RangeError ''offset is not uint'')"
proof -
  have "to_int32 (JInt i) = i" using assms by (intro to_int32_word) auto
  then show ?thesis
    using assms unfolding writeUInt8_def readUInt8_def
    by (simp only: Let_def JInt_unary(1) asserting_checkInt)
      (simp add: put_elem_def asserting_def checkOffset_JInt)
qed

theorem negative_offset_write_witness:
  "writeUInt8 sample_heap sample (JInt 7) (JInt (- 5)) False = Inr (- 4, sample_heap)"
  using negative_offset_write [of "- 5" 7 sample_heap sample] by simp

text \<open>
  The upper bound of the unsigned writers of variable width is one too high: they accept
  \<open>256 ^ n\<close>, which does not fit, and store zeros.
\<close>

theorem unsigned_width_overflow:
  assumes "wf_buffer h b" "k + n \<le> b_len b" "0 < n"
  shows "writeUIntLE h b (JInt (256 ^ n)) (JInt (int k)) (JInt (int n)) False
      = Inr (int (k + n), put_octets h b k (replicate n 0)) \<and>
    writeUIntBE h b (JInt (256 ^ n)) (JInt (int k)) (JInt (int n)) False
      = Inr (int (k + n), put_octets h b k (replicate n 0))"
proof -
  have "le_octets n 0 = replicate n 0" by (induction n) auto
  then have "le_octets n (256 ^ n) = replicate n 0" using le_octets_add [of n 0 1] by simp
  then show ?thesis using assms by (simp add: writeUIntLE_field writeUIntBE_field be_octets_def)
qed

theorem unsigned_width_overflow_witness:
  "writeUIntLE sample_heap sample (JInt (256 ^ 3)) (JInt 1) (JInt 3) False
     = Inr (4, put_octets sample_heap sample 1 [0, 0, 0])"
  using unsigned_width_overflow [of sample_heap sample 1 3] by (simp add: numeral_eq_Suc)

section \<open>The loops for engines without typed arrays\<close>

lemma masked_octet:
  assumes "k = 0 \<or> k = 8"
  shows "to_uint8 (js_shr (js_and (JInt v) (js_shl (JInt 0xFF) k)) k) = word_of_int (v div 2 ^ k)"
proof -
  have "js_shl (JInt 0xFF) k = js_shl (JInt (mask 8)) k" by (simp add: mask_eq_exp_minus_1)
  moreover have "to_uint8 (js_shr (js_and (JInt v) (js_shl (JInt (mask 8)) k)) k) = word_of_int (v div 2 ^ k)"
    using assms by (intro bit_eqI)
      (auto simp: js_shr_def js_and_def js_shl_def bit_word_of_int_iff bit_eval bit_mask_iff
        simp flip: drop_bit_eq_div)
  ultimately show ?thesis by simp
qed

definition unsign :: "nat \<Rightarrow> int \<Rightarrow> int" where
  "unsign n v = (if v < 0 then 256 ^ n + v else v)"

lemma le_octets_unsign: "le_octets n (unsign n v) = le_octets n v"
  using le_octets_add [of n v 1] by (simp add: unsign_def add.commute)

lemma object16_octets:
  assumes "wf_buffer h b" "k + 2 \<le> b_len b"
  shows "objectWriteUInt16_loop h b (JInt v) (int k) True 0 (Suc (Suc 0))
      = put_octets h b k (le_octets 2 v)"
    and "objectWriteUInt16_loop h b (JInt v) (int k) False 0 (Suc (Suc 0))
      = put_octets h b k (be_octets 2 v)"
  using assms masked_octet [of 0 v] masked_octet [of 8 v] put_elem_eq [of "int k + 1" "Suc k" b]
    buf.upd_two(1) [of h b k]
  by (simp_all add: Let_def le_octets_fixed be_octets_def)

lemma object32_octets:
  assumes "wf_buffer h b" "k + 4 \<le> b_len b"
  shows "objectWriteUInt32_loop h b (JInt v) (int k) True 0 (Suc (Suc (Suc (Suc 0))))
      = put_octets h b k (le_octets 4 v)"
    and "objectWriteUInt32_loop h b (JInt v) (int k) False 0 (Suc (Suc (Suc (Suc 0))))
      = put_octets h b k (be_octets 4 v)"
  using assms to_uint8_shr [of _ v] buf.upd_four(1) [of h b k]
  by (simp_all add: Let_def le_octets_fixed be_octets_def put32_steps add.commute [of 1 "int k"])

declare objectWriteUInt16_loop.simps [simp del] objectWriteUInt32_loop.simps [simp del]

lemma object_write_octets:
  assumes "wf_buffer h b"
  shows "k + 2 \<le> b_len b \<Longrightarrow> objectWriteUInt16 h b (JInt v) (int k) True = put_octets h b k (le_octets 2 v)"
    and "k + 2 \<le> b_len b \<Longrightarrow> objectWriteUInt16 h b (JInt v) (int k) False = put_octets h b k (be_octets 2 v)"
    and "k + 4 \<le> b_len b \<Longrightarrow> objectWriteUInt32 h b (JInt v) (int k) True = put_octets h b k (le_octets 4 v)"
    and "k + 4 \<le> b_len b \<Longrightarrow> objectWriteUInt32 h b (JInt v) (int k) False = put_octets h b k (be_octets 4 v)"
proof -
  have v: "le_octets 2 (if v < 0 then 65536 + v else v) = le_octets 2 v"
    "le_octets 4 (if v < 0 then 4294967296 + v else v) = le_octets 4 v"
    using le_octets_unsign [of 2 v, unfolded unsign_def, simplified power2_eq_square]
      le_octets_unsign [of 4 v] by (simp_all add: unsign_def del: le_octets.simps split: if_splits)
  have 2: "k + 2 \<le> b_len b \<Longrightarrow> nat (min (int (b_len b) - int k) 2) = Suc (Suc 0)" by simp
  have 4: "k + 4 \<le> b_len b \<Longrightarrow> nat (min (int (b_len b) - int k) 4) = Suc (Suc (Suc (Suc 0)))" by simp
  have val: "(if js_less (JInt v) (JInt 0) then js_add (js_add (JInt 0xFFFF) (JInt v)) (JInt 1) else JInt v)
      = JInt (if v < 0 then 65536 + v else v)"
    "(if js_less (JInt v) (JInt 0) then js_add (js_add (JInt 0xFFFFFFFF) (JInt v)) (JInt 1) else JInt v)
      = JInt (if v < 0 then 4294967296 + v else v)" by simp_all
  show "k + 2 \<le> b_len b \<Longrightarrow> objectWriteUInt16 h b (JInt v) (int k) True = put_octets h b k (le_octets 2 v)"
    "k + 2 \<le> b_len b \<Longrightarrow> objectWriteUInt16 h b (JInt v) (int k) False = put_octets h b k (be_octets 2 v)"
    "k + 4 \<le> b_len b \<Longrightarrow> objectWriteUInt32 h b (JInt v) (int k) True = put_octets h b k (le_octets 4 v)"
    "k + 4 \<le> b_len b \<Longrightarrow> objectWriteUInt32 h b (JInt v) (int k) False = put_octets h b k (be_octets 4 v)"
    using assms by (simp_all only: objectWriteUInt16_def objectWriteUInt32_def Let_def val 2 4
        object16_octets object32_octets be_octets_def v)
qed

text \<open>
  The two implementations of the 16- and 32-bit writers agree: for any integer and a field
  inside the buffer, the loops \<open>objectWriteUInt16\<close> and \<open>objectWriteUInt32\<close> that run without
  typed arrays leave the memory that the typed-array branches leave.
\<close>

theorem object_write_agrees:
  assumes "wf_buffer h b"
  shows "(k + 2 \<le> b_len b \<longrightarrow>
      objectWriteUInt16 h b (JInt v) (int k) True = put16_LE h b (int k) (JInt v) \<and>
      objectWriteUInt16 h b (JInt v) (int k) False = put16_BE h b (int k) (JInt v)) \<and>
    (k + 4 \<le> b_len b \<longrightarrow>
      writeUInt32LE h b (JInt v) (JInt (int k)) True
        = Inr (int k + 4, objectWriteUInt32 h b (JInt v) (int k) True) \<and>
      objectWriteUInt32 h b (JInt v) (int k) False = put32_BE h b (int k) (JInt v))"
  using assms by (intro conjI impI)
    (simp_all only: object_write_octets put16_LE_octets put16_BE_octets put32_BE_octets
      writeUInt32LE_field simp_thms)

theorem object_write_agrees_witness:
  "objectWriteUInt16 sample_heap sample (JInt (- 2)) 3 True
     = put16_LE sample_heap sample 3 (JInt (- 2))"
  using object_write_agrees [of sample_heap sample 3 "- 2"] by simp

end
