(* ===== verification/BufferViews.thy ===== *)
theory BufferViews
  imports BufferNum
begin

text \<open>
  What the operations of \<open>BufferStore\<close> achieve: allocation gives fresh zeroed memory and
  leaves the other buffers alone, a slice is a view on its source, comparison is the
  lexicographic order, a copy moves octets as \<open>memmove\<close> does (but for overlapping views),
  and concatenation appends.
\<close>

section \<open>Allocation\<close>

lemma allocate_facts:
  assumes "allocate h n = (b, h')" "n < 0x7fffffff"
  shows "wf_buffer h' b" "octets h' b = replicate n 0" "b_len b = n" "b_id b = objs h"
    "b_addr b = length (mem h)" "b_off b = 0"
    "mem h' = mem h @ [replicate n 0]" "objs h' = Suc (objs h)"
  using assms by (auto simp: allocate_def Let_def wf_buffer_def octets_def)

lemma allocate_others:
  assumes "allocate h n = (b, h')" "wf_buffer h c"
  shows "wf_buffer h' c" "octets h' c = octets h c" "b_addr b \<noteq> b_addr c" "b_id b \<noteq> b_id c"
  using assms by (auto simp: allocate_def Let_def wf_buffer_def octets_def nth_append)

lemma checked_JInt: "checked (JInt n) =
  (if kMaxLength \<le> n then Inl (RangeError ''Attempt to allocate Buffer larger than maximum size: 0x7fffffff bytes'')
   else Inr (signed_take_bit 31 n))"
  by (simp add: checked_def)

lemma checked_length: "n < 0x7fffffff \<Longrightarrow> checked (JInt (int n)) = Inr (int n)"
  by (simp add: checked_JInt kMaxLength_def signed_take_bit_int_eq_self)

text \<open>
  \<open>new Buffer(n)\<close>: a negative length gives an empty buffer, a length from
  \<open>0x7fffffff\<close> on is refused, and any other integer gives a well-formed buffer of that length
  whose octets are zero, on memory no existing buffer shares.
\<close>

theorem new_buffer:
  "(n < 0 \<longrightarrow> fromNumber h (JInt n) = Inr (allocate h 0)) \<and>
   (0x7fffffff \<le> n \<longrightarrow> (\<exists>m. fromNumber h (JInt n) = Inl (RangeError m))) \<and>
   (0 \<le> n \<and> n < 0x7fffffff \<longrightarrow> (\<exists>b h'. fromNumber h (JInt n) = Inr (b, h') \<and> wf_buffer h' b \<and>
      octets h' b = replicate (nat n) 0 \<and>
      (\<forall>c. wf_buffer h c \<longrightarrow> wf_buffer h' c \<and> octets h' c = octets h c \<and> b_addr b \<noteq> b_addr c)))"
proof (intro conjI impI)
  assume n: "0 \<le> n \<and> n < 0x7fffffff"
  obtain b h' where a: "allocate h (nat n) = (b, h')" by fastforce
  have lt: "nat n < 0x7fffffff" using n by (simp add: nat_less_iff)
  have "fromNumber h (JInt n) = Inr (b, h')"
    using a n checked_length [of "nat n"] by (simp add: fromNumber_def nat_less_iff)
  with allocate_facts [OF a lt] allocate_others [OF a] show
    "\<exists>b h'. fromNumber h (JInt n) = Inr (b, h') \<and> wf_buffer h' b \<and> octets h' b = replicate (nat n) 0 \<and>
      (\<forall>c. wf_buffer h c \<longrightarrow> wf_buffer h' c \<and> octets h' c = octets h c \<and> b_addr b \<noteq> b_addr c)"
    by blast
qed (simp_all add: fromNumber_def checked_JInt kMaxLength_def)

theorem new_buffer_witness:
  "\<exists>b h'. fromNumber sample_heap (JInt 5) = Inr (b, h') \<and> octets h' b = [0, 0, 0, 0, 0]"
  using new_buffer [of 5 sample_heap] by (auto simp: numeral_eq_Suc)

lemma store_masked_octets:
  assumes "wf_buffer h b" "k + length xs \<le> b_len b"
  shows "store_masked h b (int k) xs = put_octets h b k (map to_uint8 xs)"
  using assms
proof (induction xs arbitrary: h k)
  case (Cons x xs)
  then show ?case using put_elem_nat [of k b h "js_and x (JInt 255)"] Cons.IH [of "set_octet h b k (to_uint8 x)" "Suc k"]
    by (simp add: put_octets_Cons add.commute)
qed (simp add: put_octets_Nil)

text \<open>
  \<open>new Buffer(array)\<close> keeps the elements modulo 256: the octets of the new buffer are
  ToUint8 of the array's numbers, in order, and the existing buffers keep theirs.
\<close>

theorem buffer_from_array:
  assumes "length xs < 0x7fffffff"
  shows "\<exists>b h'. fromArray h xs = Inr (b, h') \<and> wf_buffer h' b \<and> octets h' b = map to_uint8 xs \<and>
    (\<forall>c. wf_buffer h c \<longrightarrow> octets h' c = octets h c)"
proof -
  obtain b h1 where a: "allocate h (length xs) = (b, h1)" by fastforce
  note facts = allocate_facts [OF a assms]
  have f: "fromArray h xs = Inr (b, put_octets h1 b 0 (map to_uint8 xs))"
    using a assms store_masked_octets [of h1 b 0 xs] facts
    by (simp add: fromArray_def checked_length)
  have "octets (put_octets h1 b 0 (map to_uint8 xs)) b = map to_uint8 xs"
    using facts(1-3) octets_put_octets [of h1 b 0 "map to_uint8 xs"] by (simp add: splice_def)
  moreover have "octets (put_octets h1 b 0 (map to_uint8 xs)) c = octets h c" if "wf_buffer h c" for c
    using allocate_others [OF a that] by (simp add: octets_def put_octets_def)
  ultimately show ?thesis using f facts(1,3) buf.ok_run [of h1 b 0 "map to_uint8 xs"] by auto
qed

theorem buffer_from_array_witness:
  "\<exists>b h'. fromArray sample_heap [JInt 1, JInt 257, JInt (- 1), Undef] = Inr (b, h') \<and>
     octets h' b = [1, 1, 255, 0]"
  using buffer_from_array [of "[JInt 1, JInt 257, JInt (- 1), Undef]" sample_heap] by auto

section \<open>Slices\<close>

lemma clamp_bound_range: "0 \<le> len \<Longrightarrow> 0 \<le> clamp_bound len i \<and> clamp_bound len i \<le> len"
  by (auto simp: clamp_bound_def Let_def)

text \<open>
  Where a bound is in a buffer of length \<open>n\<close>: \<open>i\<close> octets from the beginning, or \<open>- i\<close> from the end,
  but not outside.
\<close>

definition at_bound :: "nat \<Rightarrow> int \<Rightarrow> nat" where
  "at_bound n i = (if 0 \<le> i then min (nat i) n else n - nat (- i))"

definition slice_start :: "buffer \<Rightarrow> jnum \<Rightarrow> nat" where
  "slice_start b start = at_bound (b_len b) (to_int32 start)"

definition slice_end :: "buffer \<Rightarrow> jnum \<Rightarrow> jnum \<Rightarrow> nat" where
  "slice_end b start end' = max (slice_start b start)
     (if end' = Undef then b_len b else at_bound (b_len b) (to_int32 end'))"

lemma clamp_at_bound: "nat (clamp_bound (int n) i) = at_bound n i"
  by (auto simp: clamp_bound_def at_bound_def Let_def)

lemma at_bound_length: "at_bound n (int n) = n" "at_bound n i \<le> n"
  by (auto simp: at_bound_def)

lemma slice_bounds: "slice_start b s \<le> slice_end b s e" "slice_end b s e \<le> b_len b"
  using at_bound_length by (simp_all add: slice_start_def slice_end_def)

lemma slice_clamped:
  "slice_start b s = nat (clamp_bound (int (b_len b)) (to_int32 s))"
  "slice_end b s e = max (nat (clamp_bound (int (b_len b)) (to_int32 s)))
     (nat (clamp_bound (int (b_len b)) (if e = Undef then int (b_len b) else to_int32 e)))"
  by (simp_all add: slice_start_def slice_end_def clamp_at_bound at_bound_length)

lemma slice_fields:
  assumes "slice h b s e = (c, h')"
  shows "b_addr c = b_addr b" "b_off c = b_off b + slice_start b s"
    "b_len c = slice_end b s e - slice_start b s" "mem h' = mem h" "objs h' = Suc (objs h)"
    "b_id c = objs h"
  using assms clamp_bound_range [of "int (b_len b)"]
  by (auto simp: slice_def Let_def slice_clamped max_def nat_diff_distrib)

text \<open>
  C36. \<open>slice\<close> gives a well-formed view: negative bounds count from the end, both are clamped
  to the buffer, the octets are those between them, and an octet written through the view shows
  in the source at the shifted position.
\<close>

theorem slice_is_view:
  assumes "wf_buffer h b" "slice h b s e = (c, h')"
  shows "wf_buffer h' c \<and>
    octets h' c = take (slice_end b s e - slice_start b s) (drop (slice_start b s) (octets h b)) \<and>
    (\<forall>k < b_len c. \<forall>v. octets (put_elem h' c (int k) v) b
       = (octets h b)[slice_start b s + k := to_uint8 v])"
proof (intro conjI allI impI)
  note f = slice_fields [OF assms(2)]
  note bd = slice_bounds [of b s e]
  show "wf_buffer h' c" using assms(1) f bd by (auto simp: wf_buffer_def)
  show "octets h' c = take (slice_end b s e - slice_start b s) (drop (slice_start b s) (octets h b))"
    using bd by (simp add: octets_def f drop_take add.commute min_def)
  fix k v assume k: "k < b_len c"
  have "wf_buffer h' b" using assms(1) f by (auto simp: wf_buffer_def)
  moreover have "put_elem h' c (int k) v = set_octet h' b (slice_start b s + k) (to_uint8 v)"
    using k by (simp add: set_octet_def f add.assoc)
  moreover have "octets h' b = octets h b" by (simp add: octets_def f)
  ultimately show "octets (put_elem h' c (int k) v) b = (octets h b)[slice_start b s + k := to_uint8 v]"
    using k bd f(3) by (simp add: octets_set_octet)
qed

theorem slice_is_view_witness:
  "octets (snd (slice sample_heap sample (JInt (- 3)) Undef))
     (fst (slice sample_heap sample (JInt (- 3)) Undef)) = [7, 8, 9]"
  using slice_is_view [OF wf_sample prod.collapse [symmetric], of "JInt (- 3)" Undef]
  by (simp add: slice_start_def slice_end_def at_bound_def)
    (simp add: octets_def sample_heap_def sample_def)

section \<open>Comparison\<close>

text \<open>The lexicographic comparison of two lists of octets, as a sign.\<close>

fun lex_sign :: "octet list \<Rightarrow> octet list \<Rightarrow> int" where
  "lex_sign [] [] = 0"
| "lex_sign [] (y # ys) = -1"
| "lex_sign (x # xs) [] = 1"
| "lex_sign (x # xs) (y # ys) =
     (if uint x < uint y then -1 else if uint y < uint x then 1 else lex_sign xs ys)"

lemma lex_sign_antisym: "lex_sign ys xs = - lex_sign xs ys"
  by (induction xs ys rule: lex_sign.induct) auto

lemma uint_octet_eq [simp]: "uint x = uint y \<longleftrightarrow> x = (y :: octet)"
  by (simp add: word_uint_eq_iff)

lemma lex_sign_eq: "lex_sign xs ys = 0 \<longleftrightarrow> xs = ys"
  by (induction xs ys rule: lex_sign.induct) (auto simp: not_less_iff_gr_or_eq)

lemma lex_sign_trans: "lex_sign xs ys \<le> 0 \<Longrightarrow> lex_sign ys zs \<le> 0 \<Longrightarrow> lex_sign xs zs \<le> 0"
proof (induction xs ys arbitrary: zs rule: lex_sign.induct)
  case 1
  then show ?case by simp
next
  case (2 y ys)
  then show ?case by (cases zs) simp_all
next
  case (3 x xs)
  then show ?case by simp
next
  case (4 x xs y ys)
  show ?case
  proof (cases zs)
    case Nil
    then show ?thesis using "4.prems" by simp
  next
    case (Cons z zs')
    have "uint x < uint y \<or> uint x = uint y \<and> lex_sign xs ys \<le> 0"
      using "4.prems"(1) by (simp add: not_less_iff_gr_or_eq split: if_splits)
    moreover have "uint y < uint z \<or> uint y = uint z \<and> lex_sign ys zs' \<le> 0"
      using "4.prems"(2) Cons by (simp add: not_less_iff_gr_or_eq split: if_splits)
    ultimately have "uint x < uint z \<or> uint x = uint z \<and> lex_sign xs zs' \<le> 0"
      using "4.IH" [of zs'] by (elim disjE conjE; simp)
    then show ?thesis using Cons by auto
  qed
qed

declare first_diff.simps [simp del]

lemma first_diff_spec:
  assumes "len \<le> length xs" "len \<le> length ys" "i \<le> len" "take i xs = take i ys"
  shows "first_diff xs ys len i \<le> len \<and>
    take (first_diff xs ys len i) xs = take (first_diff xs ys len i) ys \<and>
    (first_diff xs ys len i < len \<longrightarrow> xs ! first_diff xs ys len i \<noteq> ys ! first_diff xs ys len i)"
  using assms
proof (induction xs ys len i rule: first_diff.induct)
  case (1 xs ys len i)
  then show ?case
    by (subst (1 2 3 4 5 6) first_diff.simps) (auto simp: take_Suc_conv_app_nth)
qed

lemma lex_sign_prefix:
  "lex_sign (ps @ xs) (ps @ ys) = lex_sign xs ys"
  by (induction ps) auto

lemma lex_sign_diff:
  assumes "i < length xs" "i < length ys" "take i xs = take i ys" "xs ! i \<noteq> ys ! i"
  shows "lex_sign xs ys = (if uint (xs ! i) < uint (ys ! i) then -1 else 1)"
proof -
  have "xs = take i xs @ xs ! i # drop (Suc i) xs" "ys = take i xs @ ys ! i # drop (Suc i) ys"
    using id_take_nth_drop [OF assms(1)] id_take_nth_drop [OF assms(2)] assms(3) by simp_all
  then have "lex_sign xs ys = lex_sign (xs ! i # drop (Suc i) xs) (ys ! i # drop (Suc i) ys)"
    using lex_sign_prefix by metis
  then show ?thesis using assms(4) by (auto simp: not_less_iff_gr_or_eq)
qed

lemma lex_sign_lengths:
  assumes "take (min (length xs) (length ys)) xs = take (min (length xs) (length ys)) ys"
  shows "lex_sign xs ys = (if length xs < length ys then -1 else if length ys < length xs then 1 else 0)"
  using assms by (induction xs ys rule: lex_sign.induct) auto

lemma compare_lex:
  assumes "wf_buffer h a" "wf_buffer h b" "b_id a = b_id b \<longrightarrow> a = b"
  shows "compare h a b = lex_sign (octets h a) (octets h b)"
proof (cases "b_id a = b_id b")
  case True
  then show ?thesis using assms(3) lex_sign_eq by (simp add: compare_def)
next
  case False
  let ?len = "min (b_len a) (b_len b)"
  let ?i = "first_diff (octets h a) (octets h b) ?len 0"
  have d: "?i \<le> ?len" "take ?i (octets h a) = take ?i (octets h b)"
    "?i < ?len \<longrightarrow> octets h a ! ?i \<noteq> octets h b ! ?i"
    using first_diff_spec [of ?len "octets h a" "octets h b" 0] assms by simp_all
  show ?thesis
  proof (cases "?i < ?len")
    case True
    with d lex_sign_diff [of ?i "octets h a" "octets h b"] assms False show ?thesis
      by (auto simp: compare_def Let_def not_less_iff_gr_or_eq)
  next
    case False': False
    then have i: "?i = ?len" using d(1) by linarith
    with d(2) lex_sign_lengths [of "octets h a" "octets h b"] assms False show ?thesis
      unfolding compare_def Let_def i by simp
  qed
qed

text \<open>
  \<open>Buffer.compare\<close> is the lexicographic order of the octets: it is zero exactly on equal
  contents, changes sign with its arguments, and is transitive; \<open>equals\<close> is equality of the
  contents.  (\<open>b_id\<close> is object identity: two references with one identity are one object.)
\<close>

theorem compare_order:
  assumes "\<forall>x \<in> {a, b, c}. wf_buffer h x" "\<forall>x \<in> {a, b, c}. \<forall>y \<in> {a, b, c}. b_id x = b_id y \<longrightarrow> x = y"
  shows "compare h a b = lex_sign (octets h a) (octets h b) \<and>
    (compare h a b = 0 \<longleftrightarrow> octets h a = octets h b) \<and>
    compare h b a = - compare h a b \<and>
    (compare h a b \<le> 0 \<longrightarrow> compare h b c \<le> 0 \<longrightarrow> compare h a c \<le> 0) \<and>
    (equals h a b \<longleftrightarrow> octets h a = octets h b)"
proof -
  have e: "compare h x y = lex_sign (octets h x) (octets h y)" if "x \<in> {a, b, c}" "y \<in> {a, b, c}" for x y
    using compare_lex [of h x y] assms that by blast
  note ab = e [of a b, simplified] and ba = e [of b a, simplified] and bc = e [of b c, simplified]
    and ac = e [of a c, simplified]
  have "equals h a b \<longleftrightarrow> octets h a = octets h b"
    using ab assms(2) lex_sign_eq by (auto simp: equals_def)
  then show ?thesis
    unfolding ab ba bc ac using lex_sign_eq lex_sign_antisym lex_sign_trans by blast
qed

definition sample2 :: buffer where
  "sample2 = \<lparr>b_id = 1, b_addr = 1, b_off = 0, b_len = 3, b_parent = NoParent\<rparr>"

definition sample_heap2 :: heap where
  "sample_heap2 = \<lparr>mem = [[1, 2, 3, 4, 5, 6, 7, 8, 9, 10], [2, 3, 5]], objs = 2\<rparr>"

lemma wf_samples [simp]: "wf_buffer sample_heap2 sample" "wf_buffer sample_heap2 sample2"
  by (simp_all add: wf_buffer_def sample_heap2_def sample_def sample2_def)

lemma octets_samples:
  "octets sample_heap2 sample = [2, 3, 4, 5, 6, 7, 8, 9]" "octets sample_heap2 sample2 = [2, 3, 5]"
  by (simp_all add: octets_def sample_heap2_def sample_def sample2_def)

theorem compare_order_witness: "compare sample_heap2 sample sample2 = -1"
proof -
  have "b_id sample \<noteq> b_id sample2" by (simp add: sample_def sample2_def)
  then have "compare sample_heap2 sample sample2
      = lex_sign (octets sample_heap2 sample) (octets sample_heap2 sample2)"
    by (intro compare_order [of sample sample2 sample2, THEN conjunct1]) auto
  then show ?thesis by (simp add: octets_samples)
qed

section \<open>Copying\<close>

text \<open>
  Ascending assignment is right when no octet still to be read is overwritten before: the
  memories differ, or the target does not start inside the source run above its start.
\<close>

definition ascending_safe :: "buffer \<Rightarrow> nat \<Rightarrow> buffer \<Rightarrow> nat \<Rightarrow> nat \<Rightarrow> bool" where
  "ascending_safe this s target ts n \<longleftrightarrow> b_addr this \<noteq> b_addr target
     \<or> b_off target + ts \<le> b_off this + s \<or> b_off this + s + n \<le> b_off target + ts"

lemma octets_set_octet_any:
  assumes "wf_buffer h this" "wf_buffer h target" "k < b_len target" "m < b_len this"
  shows "octets (set_octet h target k w) this ! m =
    (if b_addr this = b_addr target \<and> b_off target + k = b_off this + m then w else octets h this ! m)"
proof -
  have "octets (set_octet h target k w) this ! m
      = mem (set_octet h target k w) ! b_addr this ! (b_off this + m)"
    using assms by (intro octets_nth) simp_all
  then show ?thesis using assms octets_nth [of h this m]
    by (auto simp: set_octet_def wf_buffer_def nth_list_update)
qed

lemma copy_up_octets:
  assumes "wf_buffer h this" "wf_buffer h target" "ascending_safe this s target ts (i + n)"
    "ts + i + n \<le> b_len target" "s + i + n \<le> b_len this"
  shows "copy_up h this target (JInt (int ts)) (JInt (int s)) i n =
    put_octets h target (ts + i) (take n (drop (s + i) (octets h this)))"
  using assms
proof (induction n arbitrary: h i)
  case 0
  then show ?case by (simp add: put_octets_Nil)
next
  case (Suc n)
  let ?x = "octets h this ! (s + i)" and ?h = "set_octet h target (ts + i) (octets h this ! (s + i))"
  have rest: "take n (drop (s + Suc i) (octets ?h this)) = take n (drop (s + Suc i) (octets h this))"
    using Suc.prems by (intro nth_equalityI)
      (auto simp: octets_set_octet_any ascending_safe_def)
  have "copy_up h this target (JInt (int ts)) (JInt (int s)) i (Suc n) =
      copy_up ?h this target (JInt (int ts)) (JInt (int s)) (Suc i) n"
    using Suc.prems put_elem_eq [of "int i + int ts" "ts + i" target h]
      elem_eq [of "int i + int s" "s + i" this h] by simp
  also have "\<dots> = put_octets ?h target (ts + Suc i) (take n (drop (s + Suc i) (octets h this)))"
    using Suc.IH [of ?h "Suc i"] Suc.prems rest by simp
  also have "\<dots> = put_octets h target (ts + i) (?x # take n (drop (s + Suc i) (octets h this)))"
    using Suc.prems by (simp add: put_octets_Cons)
  also have "?x # take n (drop (s + Suc i) (octets h this)) = take (Suc n) (drop (s + i) (octets h this))"
    using Suc.prems by (simp add: Cons_nth_drop_Suc [symmetric])
  finally show ?case .
qed

lemma copy_down_octets:
  assumes "wf_buffer h b" "s < ts" "ts + n \<le> b_len b" "int len = int k + int n"
  shows "copy_down h b b (JInt (int ts)) (JInt (int s)) (JInt (int len)) k n =
    put_octets h b ts (take n (drop s (octets h b)))"
  using assms
proof (induction n arbitrary: h k)
  case 0
  then show ?case by (simp add: put_octets_Nil)
next
  case (Suc n)
  let ?x = "octets h b ! (s + n)" and ?h = "set_octet h b (ts + n) (octets h b ! (s + n))"
  have rest: "take n (drop s (octets ?h b)) = take n (drop s (octets h b))"
    using Suc.prems by (intro nth_equalityI) (auto simp: octets_set_octet)
  have i: "int len - (int k + 1) = int n" using Suc.prems by simp
  have "copy_down h b b (JInt (int ts)) (JInt (int s)) (JInt (int len)) k (Suc n) =
      copy_down ?h b b (JInt (int ts)) (JInt (int s)) (JInt (int len)) (Suc k) n"
    using Suc.prems put_elem_eq [of "int n + int ts" "ts + n" b h]
      elem_eq [of "int n + int s" "s + n" b h] by (simp add: Let_def i)
  also have "\<dots> = put_octets ?h b ts (take n (drop s (octets h b)))"
    using Suc.IH [of ?h "Suc k"] Suc.prems rest by simp
  also have "\<dots> = put_octets h b ts (take n (drop s (octets h b)) @ [?x])"
    using Suc.prems buf.run_last_first [of h b ts "take n (drop s (octets h b))" ?x] by simp
  also have "take n (drop s (octets h b)) @ [?x] = take (Suc n) (drop s (octets h b))"
    using Suc.prems by (simp add: take_Suc_conv_app_nth)
  finally show ?case .
qed

lemma turns_JInt [simp]: "turns_up (JInt n) = nat n" "turns_down (JInt n) = nat n"
  by (simp_all add: turns_up_def turns_down_def JInt_def)

lemma copy_args_in_range:
  assumes "s < e" "e \<le> len" "ts < tlen"
  shows "copy_args (int len) (int tlen) (JInt (int ts)) (JInt (int s)) (JInt (int e)) =
    Inr (Some (JInt (int ts), JInt (int s), JInt (int (s + min (e - s) (tlen - ts)))))"
  using assms by (auto simp: copy_args_def Let_def of_nat_diff split: split_min)

text \<open>
  C37. \<open>copy\<close> moves octets: with the start and end of a non-empty source run in range and the
  target start inside the target, it copies as many octets as both sides hold, answers their
  number, and the target ends up with the octets the source run had before, within one buffer
  in either direction and between buffers whose views do not overlap forwards.
\<close>

theorem copy_moves:
  assumes "wf_buffer h this" "wf_buffer h target" "s < e" "e \<le> b_len this" "ts < b_len target"
    and "n = min (e - s) (b_len target - ts)"
    and "this = target \<or> b_id this \<noteq> b_id target \<and> ascending_safe this s target ts n"
  shows "copy h this target (JInt (int ts)) (JInt (int s)) (JInt (int e)) =
    Inr (JInt (int n), put_octets h target ts (take n (drop s (octets h this))))"
proof -
  have n: "s + n \<le> b_len this" "ts + n \<le> b_len target" using assms(3-6) by auto
  have args: "copy_args (int (b_len this)) (int (b_len target)) (JInt (int ts)) (JInt (int s)) (JInt (int e))
      = Inr (Some (JInt (int ts), JInt (int s), JInt (int (s + n))))"
    using copy_args_in_range [OF assms(3-5)] assms(6) by simp
  show ?thesis
  proof (cases "b_id this = b_id target \<and> s < ts \<and> ts < s + n")
    case True
    then have "this = target" using assms(7) by auto
    then show ?thesis using args True n copy_down_octets [OF assms(2), of s ts n n 0]
      by (simp add: copy_def)
  next
    case False
    then have "ascending_safe this s target ts n" using assms(7)
      by (auto simp: ascending_safe_def)
    then have "copy_up h this target (JInt (int ts)) (JInt (int s)) 0 n =
        put_octets h target ts (take n (drop s (octets h this)))"
      using copy_up_octets [of h this target s ts 0 n] assms(1,2) n by simp
    then show ?thesis using args False by (auto simp: copy_def copy_set_def Let_def nat_add_distrib)
  qed
qed

lemma octets_sample: "octets sample_heap sample = [2, 3, 4, 5, 6, 7, 8, 9]"
  by (simp add: octets_def sample_heap_def sample_def)

theorem copy_moves_witness:
  "copy sample_heap sample sample (JInt 2) (JInt 0) (JInt 5) =
     Inr (JInt 5, put_octets sample_heap sample 2 [2, 3, 4, 5, 6])"
  using copy_moves [of sample_heap sample sample 0 5 2 5] by (simp add: octets_sample)

lemma copy_up_smears:
  assumes "wf_buffer h this" "wf_buffer h target" "b_addr this = b_addr target"
    "b_off target = b_off this + 1" "i + n \<le> b_len target" "i + n \<le> b_len this"
    "0 < n \<longrightarrow> octets h this ! i = x"
  shows "copy_up h this target (JInt 0) (JInt 0) i n = put_octets h target i (replicate n x)"
  using assms
proof (induction n arbitrary: h i)
  case 0
  then show ?case by (simp add: put_octets_Nil)
next
  case (Suc n)
  let ?h = "set_octet h target i x"
  have "octets ?h this ! Suc i = x" if "0 < n"
    using Suc.prems that by (subst octets_set_octet_any) simp_all
  then have "copy_up ?h this target (JInt 0) (JInt 0) (Suc i) n
      = put_octets ?h target (Suc i) (replicate n x)"
    using Suc.IH [of ?h "Suc i"] Suc.prems by simp
  then show ?case using Suc.prems by (simp add: put_octets_Cons)
qed

text \<open>
  Overlapping views: between two distinct buffer objects on the same memory, the target one
  octet above the source, a copy of fewer than 1000 octets overwrites what it has yet to read,
  and the target ends up filled with the first octet.  (From 1000 octets on the copy goes through
  the typed array's \<open>set\<close> and is right.)
\<close>

theorem copy_overlap_smears:
  assumes "wf_buffer h this" "wf_buffer h target" "b_id this \<noteq> b_id target"
    "b_addr this = b_addr target" "b_off target = b_off this + 1"
    "b_len this = n" "b_len target = n" "0 < n" "n < 1000"
  shows "copy h this target (JInt 0) (JInt 0) (JInt (int n)) =
    Inr (JInt (int n), put_octets h target 0 (replicate n (octets h this ! 0)))"
  using assms copy_args_in_range [of 0 n n 0 n] copy_up_smears [of h this target 0 n "octets h this ! 0"]
  by (simp add: copy_def)

definition view1 :: buffer where
  "view1 = \<lparr>b_id = 0, b_addr = 0, b_off = 1, b_len = 4, b_parent = NoParent\<rparr>"

definition view2 :: buffer where
  "view2 = \<lparr>b_id = 1, b_addr = 0, b_off = 2, b_len = 4, b_parent = NoParent\<rparr>"

lemma views: "wf_buffer sample_heap2 view1" "wf_buffer sample_heap2 view2" "b_id view1 \<noteq> b_id view2"
  "b_addr view1 = b_addr view2" "b_off view2 = b_off view1 + 1" "b_len view1 = 4" "b_len view2 = 4"
  "octets sample_heap2 view1 ! 0 = 2"
  by (simp_all add: wf_buffer_def octets_def sample_heap2_def view1_def view2_def)

theorem copy_overlap_smears_witness:
  "copy sample_heap2 view1 view2 (JInt 0) (JInt 0) (JInt 4) =
     Inr (JInt 4, put_octets sample_heap2 view2 0 [2, 2, 2, 2])"
  using copy_overlap_smears [OF views(1-7)] views(8) by (simp add: numeral_eq_Suc)

lemma copy_args_JInt: "copy_args len tlen (JInt ts) (JInt s) (JInt e) =
  (if e = s \<or> 0 < e \<and> e < s \<or> tlen = 0 \<or> len = 0 then Inr None
   else if min ts tlen < 0 then Inl (RangeError ''targetStart out of bounds'')
   else if s < 0 \<or> len \<le> s then Inl (RangeError ''sourceStart out of bounds'')
   else if e < 0 then Inl (RangeError ''sourceEnd out of bounds'')
   else Inr (Some (JInt (min ts tlen), JInt s,
     JInt (if tlen - min ts tlen < min e len - s then tlen - min ts tlen + s else min e len))))"
proof -
  have a: "(if \<not> num_truthy (JInt s) then JInt 0 else JInt s) = JInt s"
    "(if \<not> num_truthy (JInt e) \<and> JInt e \<noteq> JInt 0 then JInt len else JInt e) = JInt e"
    "(if js_ge (JInt ts) (JInt tlen) then JInt tlen else JInt ts) = JInt (min ts tlen)"
    "(if \<not> num_truthy (JInt (min ts tlen)) then JInt 0 else JInt (min ts tlen)) = JInt (min ts tlen)"
    "(if js_less (JInt len) (JInt e) then JInt len else JInt e) = JInt (min e len)" by auto
  show ?thesis
    unfolding copy_args_def a Let_def by (auto simp: js_ge_def)
qed

text \<open>
  \<open>copy\<close> checks its bounds: for integer arguments it throws exactly when both buffers are
  not empty, the run is not empty, and the target start is negative, the source start lies
  outside the source, or the end is negative.
\<close>

theorem copy_errors:
  "(\<exists>e. copy h this target (JInt ts) (JInt s) (JInt e') = Inl e) \<longleftrightarrow>
     0 < b_len this \<and> 0 < b_len target \<and> e' \<noteq> s \<and> \<not> (0 < e' \<and> e' < s) \<and>
     (ts < 0 \<or> s < 0 \<or> int (b_len this) \<le> s \<or> e' < 0)"
  by (auto simp: copy_def copy_args_JInt Let_def)

section \<open>Concatenation\<close>

lemma copy_defaults:
  "copy h item buf ts Undef Undef = copy h item buf ts (JInt 0) (JInt (int (b_len item)))"
  by (simp add: copy_def copy_args_def num_truthy_def)

lemma copy_whole:
  assumes "wf_buffer h item" "wf_buffer h buf" "b_addr item \<noteq> b_addr buf" "b_id item \<noteq> b_id buf"
    "pos + b_len item \<le> b_len buf"
  shows "copy h item buf (JInt (int pos)) Undef Undef =
    Inr (JInt (int (b_len item)), put_octets h buf pos (octets h item))"
proof (cases "b_len item = 0")
  case True
  then have "octets h item = []" using assms(1) by (metis length_0_conv length_octets)
  with True assms(2) show ?thesis
    unfolding copy_defaults by (simp add: copy_def copy_args_JInt put_octets_Nil)
next
  case False
  then show ?thesis
    using assms copy_moves [of h item buf 0 "b_len item" pos "b_len item"]
    by (simp add: copy_defaults ascending_safe_def)
qed

lemma put_octets_append:
  assumes "wf_buffer h b" "k + length xs + length ys \<le> b_len b"
  shows "put_octets (put_octets h b k xs) b (k + length xs) ys = put_octets h b k (xs @ ys)"
  using assms
proof (induction xs arbitrary: h k)
  case Nil
  then show ?case by (simp add: put_octets_Nil)
next
  case (Cons x xs)
  then show ?case using Cons.IH [of "set_octet h b k x" "Suc k"] by (simp add: put_octets_Cons)
qed

lemma octets_put_octets_other:
  "b_addr b \<noteq> b_addr c \<Longrightarrow> octets (put_octets h b k vs) c = octets h c"
  by (simp add: octets_def put_octets_def)

lemma wf_put_octets_other:
  "b_addr b \<noteq> b_addr c \<Longrightarrow> wf_buffer (put_octets h b k vs) c = wf_buffer h c"
  by (simp add: wf_buffer_def put_octets_def)

lemma concat_into_octets:
  assumes "wf_buffer h buf" "pos + sum_list (map b_len items) \<le> b_len buf"
    "\<forall>c \<in> set items. wf_buffer h c \<and> b_addr c \<noteq> b_addr buf \<and> b_id c \<noteq> b_id buf"
  shows "concat_into h buf pos items = Inr (put_octets h buf pos (concat (map (octets h) items)))"
  using assms
proof (induction items arbitrary: h pos)
  case Nil
  then show ?case by (simp add: put_octets_Nil)
next
  case (Cons item items)
  let ?h = "put_octets h buf pos (octets h item)"
  have item: "wf_buffer h item" "b_addr item \<noteq> b_addr buf" "b_id item \<noteq> b_id buf"
    using Cons.prems(3) by simp_all
  have others: "\<forall>c \<in> set items. octets ?h c = octets h c \<and> wf_buffer ?h c"
  proof
    fix c assume c: "c \<in> set items"
    with Cons.prems(3) have "b_addr buf \<noteq> b_addr c" "wf_buffer h c" by auto
    then show "octets ?h c = octets h c \<and> wf_buffer ?h c"
      by (simp add: octets_put_octets_other wf_put_octets_other)
  qed
  have "concat_into h buf pos (item # items) = concat_into ?h buf (pos + b_len item) items"
    using copy_whole [OF item(1) Cons.prems(1) item(2,3)] Cons.prems(2) by simp
  also have "\<dots> = Inr (put_octets ?h buf (pos + b_len item) (concat (map (octets ?h) items)))"
    using Cons.prems item others by (intro Cons.IH) (auto simp: wf_put_octets)
  also have "map (octets ?h) items = map (octets h) items" using others by simp
  also have "put_octets ?h buf (pos + b_len item) (concat (map (octets h) items)) =
      put_octets h buf pos (octets h item @ concat (map (octets h) items))"
  proof -
    have "length (concat (map (octets h) items)) = sum_list (map b_len items)"
      using Cons.prems(3) by (induction items) simp_all
    then show ?thesis
      using put_octets_append [of h buf pos "octets h item" "concat (map (octets h) items)"]
        Cons.prems(1,2) item(1) by simp
  qed
  finally show ?case by simp
qed

text \<open>
  \<open>Buffer.concat(list)\<close> gives a fresh buffer that shows the octets of the listed buffers
  one after the other, and leaves those buffers as they are.
\<close>

theorem concat_appends:
  assumes "list \<noteq> []" "\<forall>c \<in> set list. wf_buffer h c" "sum_list (map b_len list) < 0x7fffffff"
  shows "\<exists>b h'. concat_buffers h list Undef = Inr (b, h') \<and> wf_buffer h' b \<and>
    octets h' b = concat (map (octets h) list) \<and>
    (\<forall>c. wf_buffer h c \<longrightarrow> octets h' c = octets h c \<and> b_addr b \<noteq> b_addr c)"
proof -
  let ?n = "sum_list (map b_len list)"
  obtain b h1 where a: "allocate h ?n = (b, h1)" by fastforce
  note new = allocate_facts [OF a assms(3)] and old = allocate_others [OF a]
  have map: "map (octets h1) list = map (octets h) list" using assms(2) old(2) by simp
  have len: "length (concat (map (octets h) list)) = ?n"
    using assms(2) by (induction list) simp_all
  have into: "concat_into h1 b 0 list = Inr (put_octets h1 b 0 (concat (map (octets h) list)))"
    unfolding map [symmetric] using new assms(2) old by (intro concat_into_octets) fastforce+
  have "concat_buffers h list Undef = Inr (b, put_octets h1 b 0 (concat (map (octets h) list)))"
    using assms a into by (simp add: concat_buffers_def fromNumber_def checked_length)
  moreover have "wf_buffer (put_octets h1 b 0 (concat (map (octets h) list))) b"
    using new len by (intro wf_put_octets) simp_all
  moreover have "octets (put_octets h1 b 0 (concat (map (octets h) list))) b = concat (map (octets h) list)"
    using new(1-3) len octets_put_octets [of h1 b 0 "concat (map (octets h) list)"]
    by (simp add: splice_def)
  ultimately show ?thesis using old by (auto simp: octets_put_octets_other)
qed

theorem concat_appends_witness:
  "\<exists>b h'. concat_buffers sample_heap2 [sample2, sample, sample2] Undef = Inr (b, h') \<and>
     octets h' b = [2, 3, 5, 2, 3, 4, 5, 6, 7, 8, 9, 2, 3, 5]"
proof -
  have "b_len sample2 = 3" by (simp add: sample2_def)
  then show ?thesis
    using concat_appends [of "[sample2, sample, sample2]" sample_heap2] octets_samples by auto
qed

end
