(* ===== verification/Codec.thy ===== *)
theory Codec
  imports Prelude
begin

text \<open>
  The contract of an encoding: what the encoder writes, the decoder reads back.  Base64,
  hexadecimal, Latin-1, UTF-8 and UTF-16LE of the buffer module all satisfy it, each on its
  own set of valid inputs; the consequences are proved once, here.
\<close>

locale codec =
  fixes enc :: "'a \<Rightarrow> 'b" and dec :: "'b \<Rightarrow> 'e + 'a" and valid :: "'a \<Rightarrow> bool"
  assumes dec_enc: "valid x \<Longrightarrow> dec (enc x) = Inr x"
begin

lemma enc_inj: "valid x \<Longrightarrow> valid y \<Longrightarrow> enc x = enc y \<longleftrightarrow> x = y"
  using dec_enc by (metis sum.inject(2))

lemma enc_inj_on: "inj_on enc {x. valid x}"
  by (auto intro: inj_onI simp: enc_inj)

lemma enc_dec_canonical: "y = enc x \<Longrightarrow> valid x \<Longrightarrow> \<exists>x'. dec y = Inr x' \<and> enc x' = y"
  using dec_enc by blast

end

text \<open>An encoding whose output length depends on the input length only.\<close>

locale sized_codec = codec enc dec valid
  for enc :: "'a list \<Rightarrow> 'b list" and dec :: "'b list \<Rightarrow> 'e + 'a list" and valid +
  fixes size_of :: "nat \<Rightarrow> nat"
  assumes length_enc: "length (enc x) = size_of (length x)"
begin

lemma dec_shorter: "valid x \<Longrightarrow> size_of (length x) = length y \<Longrightarrow> y = enc x \<Longrightarrow> dec y = Inr x"
  by (simp add: dec_enc)

lemma length_enc_cong: "length x = length x' \<Longrightarrow> length (enc x) = length (enc x')"
  by (simp add: length_enc)

end

end
