(* ===== verification/Utf8.thy ===== *)
theory Utf8
  imports BufferViews Codec
begin

text \<open>
  UTF-8 in the buffer module: \<open>utf8ToBytes\<close>, which turns the code units of a string into
  octets, and \<open>utf8Slice\<close> with \<open>decodeCodePointsArray\<close>, which turns octets into code
  units.  The specification is the UTF-8 and UTF-16 forms of a Unicode scalar value; both
  functions are compared with it.

  The bitwise operators work on numbers far below \<open>2 ^ 31\<close> here, so they are the operators of
  \<open>int\<close>.
\<close>

section \<open>Encoding\<close>

text \<open>
  The budget \<open>units\<close>: \<open>None\<close> is \<open>Infinity\<close>, which also stands for an absent budget and
  for 0 (\<open>units || Infinity\<close>).
\<close>

type_synonym budget = "int option"

definition budget_of :: "int \<Rightarrow> budget" where
  "budget_of units = (if units = 0 then None else Some units)"

definition spend :: "budget \<Rightarrow> int \<Rightarrow> budget" where
  "spend u k = map_option (\<lambda>n. n - k) u"

definition overdrawn :: "budget \<Rightarrow> bool" where
  "overdrawn u = (case u of None \<Rightarrow> False | Some n \<Rightarrow> n < 0)"

text \<open>The octets pushed for a code point, and those of U+FFFD, pushed if the budget allows.\<close>

definition code_point_octets :: "int \<Rightarrow> octet list" where
  "code_point_octets c =
     (if c < 0x80 then [word_of_int c]
      else if c < 0x800 then
        [word_of_int (drop_bit 6 c OR 0xC0), word_of_int ((c AND 0x3F) OR 0x80)]
      else if c < 0x10000 then
        [word_of_int (drop_bit 12 c OR 0xE0), word_of_int ((drop_bit 6 c AND 0x3F) OR 0x80),
         word_of_int ((c AND 0x3F) OR 0x80)]
      else
        [word_of_int (drop_bit 18 c OR 0xF0), word_of_int ((drop_bit 12 c AND 0x3F) OR 0x80),
         word_of_int ((drop_bit 6 c AND 0x3F) OR 0x80), word_of_int ((c AND 0x3F) OR 0x80)])"

definition replacement :: "budget \<Rightarrow> octet list" where
  "replacement u = (if overdrawn u then [] else [0xEF, 0xBF, 0xBD])"

text \<open>\<open>leadSurrogate - 0xD800 << 10 | codePoint - 0xDC00 | 0x10000\<close>.\<close>

definition surrogate_pair :: "int \<Rightarrow> int \<Rightarrow> int" where
  "surrogate_pair lead c = (push_bit 10 (lead - 0xD800) OR (c - 0xDC00)) OR 0x10000"

text \<open>
  The loop over the code units; the state is \<open>leadSurrogate\<close> and the budget.  The branch that
  throws \<open>Invalid code point\<close> has no counterpart: a code unit or a pair is below
  \<open>0x110000\<close> (lemma \<open>surrogate_pair_bound\<close>).
\<close>

fun utf8_loop :: "jstr \<Rightarrow> int option \<Rightarrow> budget \<Rightarrow> octet list" where
  "utf8_loop [] lead u = []"
| "utf8_loop (x # s) lead u =
     (let c = code x;
          encode_utf8 = (\<lambda>c u. let bs = code_point_octets c; u' = spend u (int (length bs)) in
            if overdrawn u' then [] else bs @ utf8_loop s None u')
      in
      if 0xD7FF < c \<and> c < 0xE000 then
        (case lead of
           None \<Rightarrow>
             if 0xDBFF < c \<or> s = []
             then replacement (spend u 3) @ utf8_loop s None (spend u 3)
             else utf8_loop s (Some c) u
         | Some l \<Rightarrow>
             if c < 0xDC00 then replacement (spend u 3) @ utf8_loop s (Some c) (spend u 3)
             else encode_utf8 (surrogate_pair l c) u)
      else
        (case lead of
           None \<Rightarrow> encode_utf8 c u
         | Some l \<Rightarrow> replacement (spend u 3) @ encode_utf8 c (spend u 3)))"

definition utf8ToBytes :: "jstr \<Rightarrow> budget \<Rightarrow> octet list" where
  "utf8ToBytes string u = utf8_loop string None u"

section \<open>Decoding\<close>

text \<open>\<open>(b & 0xC0) === 0x80\<close>.\<close>

definition is_cont :: "octet \<Rightarrow> bool" where
  "is_cont b \<longleftrightarrow> uint b AND 0xC0 = 0x80"

definition bytesPerSequence :: "octet \<Rightarrow> nat" where
  "bytesPerSequence b = (if uint b > 0xEF then 4 else if uint b > 0xDF then 3 else if uint b > 0xBF then 2 else 1)"

text \<open>The code point of the sequence that starts with \<open>b\<close>, if there is a valid one.\<close>

definition sequence_code_point :: "octet \<Rightarrow> octet list \<Rightarrow> int option" where
  "sequence_code_point b bs =
     (if Suc (length bs) < bytesPerSequence b then None
      else if bytesPerSequence b = 1 then (if uint b < 0x80 then Some (uint b) else None)
      else if bytesPerSequence b = 2 then
        (let t = push_bit 6 (uint b AND 0x1F) OR (uint (bs ! 0) AND 0x3F) in
         if is_cont (bs ! 0) \<and> t > 0x7F then Some t else None)
      else if bytesPerSequence b = 3 then
        (let t = (push_bit 12 (uint b AND 0xF) OR push_bit 6 (uint (bs ! 0) AND 0x3F))
               OR (uint (bs ! 1) AND 0x3F) in
         if is_cont (bs ! 0) \<and> is_cont (bs ! 1) \<and> t > 0x7FF \<and> (t < 0xD800 \<or> t > 0xDFFF)
         then Some t else None)
      else
        (let t = ((push_bit 18 (uint b AND 0xF) OR push_bit 12 (uint (bs ! 0) AND 0x3F))
               OR push_bit 6 (uint (bs ! 1) AND 0x3F)) OR (uint (bs ! 2) AND 0x3F) in
         if is_cont (bs ! 0) \<and> is_cont (bs ! 1) \<and> is_cont (bs ! 2) \<and> t > 0xFFFF \<and> t < 0x110000
         then Some t else None))"

text \<open>The code units pushed for a code point: a surrogate pair beyond \<open>0xFFFF\<close>.\<close>

definition code_point_units :: "int \<Rightarrow> int list" where
  "code_point_units c =
     (if c > 0xFFFF
      then let d = c - 0x10000 in [(drop_bit 10 d AND 0x3FF) OR 0xD800, 0xDC00 OR (d AND 0x3FF)]
      else [c])"

function utf8_units :: "octet list \<Rightarrow> int list" where
  "utf8_units [] = []"
| "utf8_units (b # bs) =
     (case sequence_code_point b bs of
        None \<Rightarrow> 0xFFFD # utf8_units bs
      | Some c \<Rightarrow> code_point_units c @ utf8_units (drop (bytesPerSequence b - 1) bs))"
  by pat_completeness auto
termination
  by (relation "measure length") auto

text \<open>\<open>decodeCodePointsArray\<close>: \<open>String.fromCharCode\<close> in chunks of \<open>0x1000\<close>.\<close>

definition MAX_ARGUMENTS_LENGTH :: nat where
  "MAX_ARGUMENTS_LENGTH = 0x1000"

function decode_chunks :: "int list \<Rightarrow> jstr" where
  "decode_chunks cs =
     (if cs = [] then []
      else map word_of_int (take MAX_ARGUMENTS_LENGTH cs) @ decode_chunks (drop MAX_ARGUMENTS_LENGTH cs))"
  by pat_completeness auto
termination
  by (relation "measure length") (auto simp: MAX_ARGUMENTS_LENGTH_def)

definition decodeCodePointsArray :: "int list \<Rightarrow> jstr" where
  "decodeCodePointsArray codePoints =
     (if length codePoints \<le> MAX_ARGUMENTS_LENGTH then map word_of_int codePoints
      else decode_chunks codePoints)"

definition utf8Slice :: "octet list \<Rightarrow> nat \<Rightarrow> nat \<Rightarrow> jstr" where
  "utf8Slice buf start end' = decodeCodePointsArray (utf8_units (drop start (take end' buf)))"

declare decode_chunks.simps [simp del]

lemma decode_chunks_map: "decode_chunks cs = map word_of_int cs"
proof (induction cs rule: decode_chunks.induct)
  case (1 cs)
  then show ?case
    by (subst decode_chunks.simps) (auto simp flip: map_append)
qed

lemma decodeCodePointsArray_map: "decodeCodePointsArray cs = map word_of_int cs"
  by (simp add: decodeCodePointsArray_def decode_chunks_map)

section \<open>Specification\<close>

text \<open>Unicode scalar values, their UTF-16 form, and the length of their UTF-8 form.\<close>

definition scalar :: "int \<Rightarrow> bool" where
  "scalar c \<longleftrightarrow> 0 \<le> c \<and> c < 0x110000 \<and> \<not> (0xD800 \<le> c \<and> c < 0xE000)"

definition utf16 :: "int \<Rightarrow> jstr" where
  "utf16 c = (if c < 0x10000 then [word_of_int c]
     else [word_of_int (0xD800 + (c - 0x10000) div 0x400), word_of_int (0xDC00 + (c - 0x10000) mod 0x400)])"

text \<open>UTF-8 as arithmetic.\<close>

definition utf8 :: "int \<Rightarrow> octet list" where
  "utf8 c = (if c < 0x80 then [word_of_int c]
     else if c < 0x800 then [word_of_int (0xC0 + c div 64), word_of_int (0x80 + c mod 64)]
     else if c < 0x10000 then
       [word_of_int (0xE0 + c div 4096), word_of_int (0x80 + c div 64 mod 64), word_of_int (0x80 + c mod 64)]
     else
       [word_of_int (0xF0 + c div 262144), word_of_int (0x80 + c div 4096 mod 64),
        word_of_int (0x80 + c div 64 mod 64), word_of_int (0x80 + c mod 64)])"

section \<open>Bits and sums\<close>

lemma and_mask_mod: "x AND 0x3F = x mod (64 :: int)" "x AND 0x1F = x mod 32" "x AND 0xF = x mod 16"
  "x AND 0x3FF = x mod 1024"
  using take_bit_eq_mask [of 6 x] take_bit_eq_mask [of 5 x] take_bit_eq_mask [of 4 x]
    take_bit_eq_mask [of 10 x] by (simp_all add: take_bit_eq_mod mask_eq_exp_minus_1)

lemma drop_bits: "drop_bit 6 x = x div (64 :: int)" "drop_bit 12 x = x div 4096"
  "drop_bit 18 x = x div 262144" "drop_bit 10 x = x div 1024"
  by (simp_all add: drop_bit_eq_div)

lemma or_marks:
  "0 \<le> q \<Longrightarrow> q < 64 \<Longrightarrow> q OR 0x80 = 0x80 + (q :: int)"
  "0 \<le> q \<Longrightarrow> q < 32 \<Longrightarrow> q OR 0xC0 = 0xC0 + q"
  "0 \<le> q \<Longrightarrow> q < 16 \<Longrightarrow> q OR 0xE0 = 0xE0 + q"
  "0 \<le> q \<Longrightarrow> q < 8 \<Longrightarrow> q OR 0xF0 = 0xF0 + q"
  "0 \<le> q \<Longrightarrow> q < 1024 \<Longrightarrow> q OR 0xD800 = 0xD800 + q"
  "0 \<le> q \<Longrightarrow> q < 1024 \<Longrightarrow> 0xDC00 OR q = 0xDC00 + q"
  using or_disjoint [of "0x80" 6 q] or_disjoint [of "0xC0" 5 q] or_disjoint [of "0xE0" 4 q]
    or_disjoint [of "0xF0" 3 q] or_disjoint [of "0xD800" 10 q] or_disjoint [of "0xDC00" 10 q]
  by (simp_all add: or.commute)

lemma div_range:
  assumes "0 \<le> c" "c < m * k" "0 < m"
  shows "0 \<le> c div m \<and> c div m < (k :: int)"
proof -
  have "m * (c div m) \<le> c"
    using mult_div_mod_eq [of m c] pos_mod_sign [OF assms(3), of c] by linarith
  then have "m * (c div m) < m * k" using assms(2) by (rule order_le_less_trans)
  then show ?thesis using assms by (simp add: pos_imp_zdiv_nonneg_iff mult_less_cancel_left_pos)
qed

lemma code_point_octets_utf8:
  assumes "0 \<le> c" "c < 0x110000"
  shows "code_point_octets c = utf8 c"
  using assms div_range [of c 64 32] div_range [of c 4096 16] div_range [of c 262144 8]
  by (simp add: code_point_octets_def utf8_def drop_bits and_mask_mod or_marks)

lemma length_utf8: "length (utf8 c) = (if c < 0x80 then 1 else if c < 0x800 then 2 else if c < 0x10000 then 3 else 4)"
  by (simp add: utf8_def)

lemma utf8_not_Nil [simp]: "utf8 c \<noteq> []"
  by (simp add: utf8_def)

section \<open>Decoding what is encoded\<close>

lemma uint_octet_small: "0 \<le> x \<Longrightarrow> x < 256 \<Longrightarrow> uint (word_of_int x :: octet) = x"
  by (simp only: uint_octet_word_of_int mod_pos_pos_trivial)

lemma continuation:
  assumes "0 \<le> r" "r < 64"
  shows "is_cont (word_of_int (0x80 + r))" "uint (word_of_int (0x80 + r) :: octet) AND 0x3F = r"
proof -
  have u: "uint (word_of_int (0x80 + r) :: octet) = 0x80 + r"
    using assms by (intro uint_octet_small) auto
  have "r AND 0xC0 = 0"
  proof (rule bit_eqI)
    fix n
    have "bit r n \<longleftrightarrow> bit (take_bit 6 r) n" using assms by (simp add: take_bit_int_eq_self)
    moreover have "\<not> bit (push_bit 6 3 :: int) n" if "n < 6" using that by (simp only: bit_push_bit_iff) simp
    moreover have "push_bit 6 3 = (0xC0 :: int)" by (simp add: push_bit_eq_mult)
    ultimately show "bit (r AND 0xC0) n = bit (0 :: int) n"
      by (auto simp: bit_and_iff bit_take_bit_iff)
  qed
  moreover have "(r OR 0x80) AND 0xC0 = (r AND 0xC0) OR (0x80 AND 0xC0)"
    by (simp only: bit.conj_disj_distrib2)
  ultimately show "is_cont (word_of_int (0x80 + r))"
    unfolding is_cont_def u using or_marks(1) [OF assms] by simp
  show "uint (word_of_int (0x80 + r) :: octet) AND 0x3F = r"
    unfolding u and_mask_mod using assms digit_add_mod [of r 64 2] by simp
qed

lemma lead_bits:
  "0 \<le> q \<Longrightarrow> q < 32 \<Longrightarrow> uint (word_of_int (0xC0 + q) :: octet) = 0xC0 + q"
  "0 \<le> q \<Longrightarrow> q < 16 \<Longrightarrow> uint (word_of_int (0xE0 + q) :: octet) = 0xE0 + q"
  "0 \<le> q \<Longrightarrow> q < 8 \<Longrightarrow> uint (word_of_int (0xF0 + q) :: octet) = 0xF0 + q"
  by (simp_all only: uint_octet_small)

lemma lead_masks:
  "0 \<le> q \<Longrightarrow> q < 32 \<Longrightarrow> (0xC0 + q) AND 0x1F = (q :: int)"
  "0 \<le> q \<Longrightarrow> q < 16 \<Longrightarrow> (0xE0 + q) AND 0xF = q"
  "0 \<le> q \<Longrightarrow> q < 8 \<Longrightarrow> (0xF0 + q) AND 0xF = q"
  using digit_add_mod [of q 32 6] digit_add_mod [of q 16 14] digit_add_mod [of q 16 15]
  by (simp_all add: and_mask_mod)

lemma join_bits:
  "0 \<le> (r :: int) \<Longrightarrow> r < 64 \<Longrightarrow> push_bit 6 a OR r = 64 * a + r"
  using or_disjoint [of "push_bit 6 a" 6 r] by (simp add: push_bit_eq_mult mult.commute)

lemma join_3_bits:
  assumes "0 \<le> (r :: int)" "r < 64" "0 \<le> s" "s < 64"
  shows "(push_bit 12 a OR push_bit 6 s) OR r = 4096 * a + 64 * s + r"
proof -
  have "push_bit 12 a OR push_bit 6 s = push_bit 6 (push_bit 6 a OR s)"
    by (simp add: push_bit_or push_bit_push_bit)
  then show ?thesis using join_bits [OF assms(1,2)] join_bits [OF assms(3,4)] by simp
qed

lemma join_4_bits:
  assumes "0 \<le> (r :: int)" "r < 64" "0 \<le> s" "s < 64" "0 \<le> t" "t < 64"
  shows "((push_bit 18 a OR push_bit 12 t) OR push_bit 6 s) OR r
    = 262144 * a + 4096 * t + 64 * s + r"
proof -
  have "(push_bit 18 a OR push_bit 12 t) OR push_bit 6 s = push_bit 6 ((push_bit 12 a OR push_bit 6 t) OR s)"
    by (simp add: push_bit_or push_bit_push_bit)
  then show ?thesis using join_bits [OF assms(1,2)] join_3_bits [OF assms(3-6)] by simp
qed

text \<open>A number below the next power of 64 is its digits.\<close>

lemma digits64:
  "(c :: int) = 64 * (c div 64) + c mod 64"
  "c = 4096 * (c div 4096) + 64 * (c div 64 mod 64) + c mod 64"
  "c = 262144 * (c div 262144) + 4096 * (c div 4096 mod 64) + 64 * (c div 64 mod 64) + c mod 64"
proof -
  show 1: "c = 64 * (c div 64) + c mod 64" by simp
  have 2: "c div 64 = 64 * (c div 4096) + c div 64 mod 64"
    using div_digit [of 64 64 c] by simp
  have 3: "c div 4096 = 64 * (c div 262144) + c div 4096 mod 64"
    using div_digit [of 4096 64 c] by simp
  show "c = 4096 * (c div 4096) + 64 * (c div 64 mod 64) + c mod 64" using 1 2 by linarith
  show "c = 262144 * (c div 262144) + 4096 * (c div 4096 mod 64) + 64 * (c div 64 mod 64) + c mod 64"
    using 1 2 3 by linarith
qed

lemma mod64_range [simp]: "0 \<le> (x :: int) mod 64" "x mod 64 < 64"
  by simp_all

lemma sequence_utf8:
  assumes "scalar c"
  shows "sequence_code_point (hd (utf8 c)) (tl (utf8 c) @ rest) = Some c
    \<and> bytesPerSequence (hd (utf8 c)) = length (utf8 c)"
proof -
  have c: "0 \<le> c" "c < 0x110000" using assms by (auto simp: scalar_def)
  consider "c < 0x80" | "0x80 \<le> c" "c < 0x800" | "0x800 \<le> c" "c < 0x10000" | "0x10000 \<le> c" by linarith
  then show ?thesis
  proof cases
    case 1
    then have "uint (word_of_int c :: octet) = c" using c by (intro uint_octet_small) auto
    with 1 show ?thesis by (simp add: utf8_def sequence_code_point_def bytesPerSequence_def)
  next
    case 2
    then have q: "0 \<le> c div 64" "c div 64 < 32" using div_range [of c 64 32] c by auto
    define x y :: octet where "x = word_of_int (0xC0 + c div 64)" and "y = word_of_int (0x80 + c mod 64)"
    have b: "utf8 c = [x, y]" using 2 by (simp add: utf8_def x_def y_def)
    have "uint x = 0xC0 + c div 64" "uint x AND 0x1F = c div 64" "is_cont y" "uint y AND 0x3F = c mod 64"
      unfolding x_def y_def using lead_bits(1) [OF q] lead_masks(1) [OF q] continuation [of "c mod 64"] by simp_all
    with 2 q digits64(1) [of c, symmetric] show ?thesis
      by (simp add: b sequence_code_point_def bytesPerSequence_def join_bits)
  next
    case 3
    then have q: "0 \<le> c div 4096" "c div 4096 < 16" using div_range [of c 4096 16] c by auto
    define x y z :: octet where "x = word_of_int (0xE0 + c div 4096)"
      and "y = word_of_int (0x80 + c div 64 mod 64)" and "z = word_of_int (0x80 + c mod 64)"
    have b: "utf8 c = [x, y, z]" using 3 by (simp add: utf8_def x_def y_def z_def)
    have "uint x = 0xE0 + c div 4096" "uint x AND 0xF = c div 4096" "is_cont y" "is_cont z"
      "uint y AND 0x3F = c div 64 mod 64" "uint z AND 0x3F = c mod 64"
      unfolding x_def y_def z_def using lead_bits(2) [OF q] lead_masks(2) [OF q]
        continuation [of "c mod 64"] continuation [of "c div 64 mod 64"] by simp_all
    moreover have "c < 0xD800 \<or> 0xDFFF < c" using assms by (auto simp: scalar_def)
    ultimately show ?thesis using 3 q digits64(2) [of c, symmetric]
      by (simp add: b sequence_code_point_def bytesPerSequence_def join_3_bits)
  next
    case 4
    define d0 d1 d2 d3 where d: "d0 = c mod 64" "d1 = c div 64 mod 64" "d2 = c div 4096 mod 64"
      "d3 = c div 262144"
    have q: "0 \<le> d3" "d3 < 8" using div_range [of c 262144 8] c by (auto simp: d)
    have r: "0 \<le> d0" "d0 < 64" "0 \<le> d1" "d1 < 64" "0 \<le> d2" "d2 < 64" by (simp_all add: d)
    define x w y z :: octet where xs: "x = word_of_int (0xF0 + d3)" "w = word_of_int (0x80 + d2)"
      "y = word_of_int (0x80 + d1)" "z = word_of_int (0x80 + d0)"
    have b: "utf8 c = [x, w, y, z]" using 4 by (simp add: utf8_def xs d)
    have e: "uint x = 0xF0 + d3" "uint x AND 0xF = d3" "is_cont w" "is_cont y" "is_cont z"
      "uint w AND 0x3F = d2" "uint y AND 0x3F = d1" "uint z AND 0x3F = d0"
      unfolding xs using lead_bits(3) [OF q] lead_masks(3) [OF q] continuation r by simp_all
    have "bytesPerSequence x = 4" using q by (simp add: bytesPerSequence_def e)
    moreover have "((push_bit 18 d3 OR push_bit 12 d2) OR push_bit 6 d1) OR d0 = c"
      using join_4_bits [OF r, of d3] digits64(3) [of c] by (simp only: d)
    ultimately show ?thesis using 4 c unfolding b
      by (simp add: sequence_code_point_def e(2-8))
  qed
qed

lemma utf8_units_Cons:
  assumes "scalar c"
  shows "utf8_units (utf8 c @ rest) = code_point_units c @ utf8_units rest"
proof -
  obtain b bs where b: "utf8 c = b # bs" by (cases "utf8 c") auto
  then have "sequence_code_point b (bs @ rest) = Some c" "drop (bytesPerSequence b - 1) (bs @ rest) = rest"
    using sequence_utf8 [OF assms, of rest] by simp_all
  then show ?thesis by (simp only: b append_Cons utf8_units.simps option.case)
qed

lemma utf8_units_utf8:
  "\<forall>c \<in> set cs. scalar c \<Longrightarrow> utf8_units (concat (map utf8 cs)) = concat (map code_point_units cs)"
  by (induction cs) (simp_all add: utf8_units_Cons)

lemma code_point_units_utf16:
  assumes "scalar c"
  shows "map word_of_int (code_point_units c) = utf16 c"
  using assms div_range [of "c - 0x10000" 1024 1024]
  by (auto simp: code_point_units_def utf16_def scalar_def Let_def drop_bits and_mask_mod or_marks)

section \<open>Encoding\<close>

text \<open>
  The code point \<open>utf8ToBytes\<close> makes of a pair: the offset into the supplementary planes
  and \<open>0x10000\<close> are joined with \<open>|\<close>, so an offset whose bit 16 is set stays as it is.
\<close>

definition merged :: "int \<Rightarrow> int" where
  "merged c = (if c < 0x10000 then c else (c - 0x10000) OR 0x10000)"

lemma or_bit16:
  assumes "0 \<le> d"
  shows "d OR 0x10000 = (if bit d 16 then d else d + (0x10000 :: int))"
proof -
  have n16: "bit (push_bit 16 1 :: int) n \<longleftrightarrow> n = 16" for n
    by (simp only: bit_push_bit_iff) (auto simp: bit_1_iff)
  have "d OR push_bit 16 1 = (if bit d 16 then d else d + push_bit 16 1)"
  proof (cases "bit d 16")
    case True
    have "d OR push_bit 16 1 = d"
      by (rule bit_eqI) (use True in \<open>auto simp only: bit_or_iff n16\<close>)
    with True show ?thesis by (simp only: if_True)
  next
    case False
    have "d OR push_bit 16 1 = d + push_bit 16 1"
      by (rule disjunctive_add [symmetric]) (use False in \<open>auto simp only: n16\<close>)
    with False show ?thesis by (simp only: if_False)
  qed
  then show ?thesis by (simp add: push_bit_eq_mult)
qed

lemma surrogate_pair_merged:
  assumes "0x10000 \<le> c"
  shows "surrogate_pair (0xD800 + (c - 0x10000) div 0x400) (0xDC00 + (c - 0x10000) mod 0x400) = merged c"
proof -
  let ?d = "c - 0x10000"
  have "push_bit 10 (?d div 0x400) OR ?d mod 0x400 = ?d"
    using or_disjoint [of "push_bit 10 (?d div 0x400)" 10 "?d mod 0x400"]
    by (simp add: push_bit_eq_mult)
  then show ?thesis using assms by (simp add: surrogate_pair_def merged_def)
qed

lemma merged_cases:
  assumes "0x10000 \<le> c"
  shows "merged c = (if odd (c div 0x10000) then c else c - 0x10000)"
proof -
  have "(c - 0x10000) div 0x10000 = c div 0x10000 - 1"
    using div_mult_self1 [of "0x10000" c "-1"] by simp
  then have "bit (c - 0x10000) 16 \<longleftrightarrow> even (c div 0x10000)" by (simp add: bit_iff_odd)
  then show ?thesis using assms or_bit16 [of "c - 0x10000"] by (simp add: merged_def)
qed

lemma surrogate_pair_bound:
  assumes "0xD800 \<le> l" "l < 0xDC00" "0xDC00 \<le> c" "c < 0xE000"
  shows "0 \<le> surrogate_pair l c \<and> surrogate_pair l c < 0x110000"
proof -
  let ?c = "0x10000 + 1024 * (l - 0xD800) + (c - 0xDC00)"
  have "(?c - 0x10000) div 0x400 = l - 0xD800" "(?c - 0x10000) mod 0x400 = c - 0xDC00"
    using assms digit_add_div [of "c - 0xDC00" 1024 "l - 0xD800"]
      digit_add_mod [of "c - 0xDC00" 1024 "l - 0xD800"] by (simp_all add: algebra_simps)
  then have "surrogate_pair l c = merged ?c"
    using surrogate_pair_merged [of ?c] assms by simp
  then show ?thesis using merged_cases [of ?c] assms by simp
qed

lemma unlimited [simp]: "spend None k = None" "overdrawn None = False" "replacement None = [0xEF, 0xBF, 0xBD]"
  by (simp_all add: spend_def overdrawn_def replacement_def)

lemma code_word_of_int: "0 \<le> c \<Longrightarrow> c < 0x10000 \<Longrightarrow> code (word_of_int c) = c"
  by (simp add: uint_word_of_int)

lemma utf8_loop_utf16:
  assumes "scalar c"
  shows "utf8_loop (utf16 c @ s) None None = utf8 (merged c) @ utf8_loop s None None"
proof (cases "c < 0x10000")
  case True
  then show ?thesis using assms
    by (auto simp: utf16_def scalar_def merged_def Let_def code_word_of_int code_point_octets_utf8)
next
  case False
  define q m where "q = (c - 0x10000) div 0x400" and "m = (c - 0x10000) mod 0x400"
  have d: "0 \<le> q" "q < 0x400" "0 \<le> m" "m < 0x400"
    using div_range [of "c - 0x10000" 1024 1024] assms False by (auto simp: scalar_def q_def m_def)
  have codes: "code (word_of_int (0xD800 + q)) = 0xD800 + q" "code (word_of_int (0xDC00 + m)) = 0xDC00 + m"
    using d by (intro code_word_of_int; simp)+
  have pair: "surrogate_pair (0xD800 + q) (0xDC00 + m) = merged c"
    using surrogate_pair_merged [of c] False by (simp add: q_def m_def)
  have "0 \<le> merged c \<and> merged c < 0x110000" using merged_cases [of c] assms False by (auto simp: scalar_def)
  moreover have "utf16 c = [word_of_int (0xD800 + q), word_of_int (0xDC00 + m)]"
    using False by (simp add: utf16_def q_def m_def)
  ultimately show ?thesis
    using d codes pair by (simp add: Let_def code_point_octets_utf8 del: of_int_add)
qed

lemma utf8_loop_all:
  "\<forall>c \<in> set cs. scalar c \<Longrightarrow>
     utf8_loop (concat (map utf16 cs)) None None = concat (map (\<lambda>c. utf8 (merged c)) cs)"
  by (induction cs) (simp_all add: utf8_loop_utf16)

text \<open>The form \<open>utf8ToBytes\<close> gives to the pairs of the even planes is not that of another scalar.\<close>

lemma merged_eq_iff: "scalar c \<Longrightarrow> merged c = c \<longleftrightarrow> c < 0x10000 \<or> odd (c div 0x10000)"
  using merged_cases [of c] by (cases "c < 0x10000") (auto simp: merged_def)

lemma utf8Slice_all:
  "\<forall>c \<in> set cs. scalar c \<Longrightarrow> utf8Slice (concat (map utf8 cs)) 0 (length (concat (map utf8 cs)))
     = concat (map utf16 cs)"
  by (simp add: utf8Slice_def decodeCodePointsArray_map utf8_units_utf8 map_concat
      code_point_units_utf16 cong: map_cong)

text \<open>
  Decoding: on the UTF-8 form of any sequence of Unicode scalar values, \<open>utf8Slice\<close> gives
  exactly their UTF-16 form, and from any start to any end at character boundaries.
\<close>

theorem utf8_decodes:
  assumes "\<forall>c \<in> set (as @ cs @ bs). scalar c"
  shows "utf8Slice (concat (map utf8 (as @ cs @ bs)))
      (length (concat (map utf8 as))) (length (concat (map utf8 (as @ cs)))) = concat (map utf16 cs)"
  using assms utf8Slice_all [of cs] by (simp add: utf8Slice_def)

theorem utf8_decodes_witness:
  "utf8Slice (concat (map utf8 [0x41, 0x20AC, 0x1F600])) 1 8 = utf16 0x20AC @ utf16 0x1F600"
  using utf8_decodes [of "[0x41]" "[0x20AC, 0x1F600]" "[]"]
  by (simp add: scalar_def utf8_def eval_nat_numeral)

text \<open>
  Encoding: \<open>utf8ToBytes\<close> of a well-formed UTF-16 string is the UTF-8 form of its
  scalar values wherever these are below \<open>0x10000\<close> or in an odd plane; it gives a scalar of an
  even supplementary plane the UTF-8 form of the value \<open>0x10000\<close> below it.
\<close>

theorem utf8_encodes:
  assumes "\<forall>c \<in> set cs. scalar c"
  shows "utf8ToBytes (concat (map utf16 cs)) None =
    concat (map (\<lambda>c. utf8 (if c < 0x10000 \<or> odd (c div 0x10000) then c else c - 0x10000)) cs)"
proof -
  have "merged c = (if c < 0x10000 \<or> odd (c div 0x10000) then c else c - 0x10000)" for c
    using merged_cases [of c] by (cases "c < 0x10000") (auto simp: merged_def)
  then show ?thesis using utf8_loop_all [OF assms] by (simp add: utf8ToBytes_def)
qed

theorem utf8_encodes_witness:
  "utf8ToBytes (utf16 0x41 @ utf16 0x1F600 @ utf16 0x20000) None = utf8 0x41 @ utf8 0x1F600 @ utf8 0x10000"
  using utf8_encodes [of "[0x41, 0x1F600, 0x20000]"] by (simp add: scalar_def)

lemma utf16_plane_below:
  assumes "0x20000 \<le> c" "c < 0x110000"
  shows "utf16 (c - 0x10000) \<noteq> utf16 c"
proof
  assume e: "utf16 (c - 0x10000) = utf16 c"
  define q where "q = (c - 0x10000) div 0x400"
  have q: "64 \<le> q" "q < 0x400"
    using div_range [of "c - 0x10000" 1024 1024] zdiv_mono1 [of "0x10000" "c - 0x10000" 1024] assms
    by (auto simp: q_def)
  have "(c - 0x20000) div 0x400 = q - 64"
    using div_mult_self1 [of 1024 "c - 0x10000" "- 64"] by (simp add: q_def)
  then have "word_of_int (0xD800 + (q - 64)) = (word_of_int (0xD800 + q) :: 16 word)"
    using e assms by (simp add: utf16_def q_def [symmetric] del: of_int_add of_int_diff)
  then have "code (word_of_int (0xD800 + (q - 64))) = code (word_of_int (0xD800 + q))" by (rule arg_cong)
  then show False using q by (simp add: code_word_of_int del: of_int_add of_int_diff)
qed

lemma even_plane: "0x10000 \<le> c \<Longrightarrow> even (c div 0x10000) \<Longrightarrow> 0x20000 \<le> (c :: int)"
  using digit_add_div [of "c - 0x10000" "0x10000" 1] by (cases "c < 0x20000") auto

lemma utf8Slice_utf8ToBytes:
  assumes "\<forall>c \<in> set cs. scalar c"
  shows "utf8Slice (utf8ToBytes (concat (map utf16 cs)) None) 0
    (length (utf8ToBytes (concat (map utf16 cs)) None)) = concat (map (\<lambda>c. utf16 (merged c)) cs)"
proof -
  have "scalar (merged c)" if "scalar c" for c
    using that merged_cases [of c] even_plane [of c]
    by (cases "c < 0x10000") (auto simp: scalar_def merged_def)
  then show ?thesis
    using utf8Slice_all [of "map merged cs"] utf8_loop_all [OF assms] assms
    by (auto simp: utf8ToBytes_def comp_def)
qed

lemma utf16_merged:
  assumes "scalar c"
  shows "length (utf16 (merged c)) = length (utf16 c)"
    "utf16 (merged c) = utf16 c \<longleftrightarrow> c < 0x10000 \<or> odd (c div 0x10000)"
proof -
  show "length (utf16 (merged c)) = length (utf16 c)"
    "utf16 (merged c) = utf16 c \<longleftrightarrow> c < 0x10000 \<or> odd (c div 0x10000)"
    using merged_cases [of c] utf16_plane_below [of c] even_plane [of c] assms
    by (cases "c < 0x10000"; auto simp: merged_def utf16_def scalar_def)+
qed

text \<open>
  C31. The UTF-8 round trip: encoding a well-formed string and decoding the octets gives the
  string back exactly when it holds no character of an even supplementary plane.
\<close>

theorem utf8_round_trip:
  assumes "\<forall>c \<in> set cs. scalar c"
  shows "utf8Slice (utf8ToBytes (concat (map utf16 cs)) None) 0
      (length (utf8ToBytes (concat (map utf16 cs)) None)) = concat (map utf16 cs) \<longleftrightarrow>
    (\<forall>c \<in> set cs. c < 0x10000 \<or> odd (c div 0x10000))"
  unfolding utf8Slice_utf8ToBytes [OF assms]
  using assms by (induction cs) (simp_all add: utf16_merged)

theorem utf8_round_trip_witness:
  "utf8Slice (utf8ToBytes (utf16 0x1F600 @ utf16 0x20AC) None) 0
     (length (utf8ToBytes (utf16 0x1F600 @ utf16 0x20AC) None)) = utf16 0x1F600 @ utf16 0x20AC \<and>
   utf8Slice (utf8ToBytes (utf16 0x20000) None) 0 (length (utf8ToBytes (utf16 0x20000) None)) \<noteq> utf16 0x20000"
  using utf8_round_trip [of "[0x1F600, 0x20AC]"] utf8_round_trip [of "[0x20000]"] by (simp add: scalar_def)

lemma utf8_loop_prefix:
  "\<forall>c \<in> set cs. scalar c \<Longrightarrow> utf8_loop (concat (map utf16 cs) @ s) None None
     = utf8_loop (concat (map utf16 cs)) None None @ utf8_loop s None None"
  by (induction cs) (simp_all add: utf8_loop_utf16)

text \<open>
  Lone lead surrogates at the end of a string: one of them becomes U+FFFD, and so do two,
  since a lead that follows a lead is kept waiting for its trail when the string ends.
\<close>

theorem utf8_trailing_leads:
  assumes "\<forall>c \<in> set cs. scalar c" "0xD800 \<le> code l" "code l < 0xDC00" "0xD800 \<le> code m" "code m < 0xDC00"
  shows "utf8ToBytes (concat (map utf16 cs) @ [l]) None
      = utf8ToBytes (concat (map utf16 cs)) None @ [0xEF, 0xBF, 0xBD] \<and>
    utf8ToBytes (concat (map utf16 cs) @ [l, m]) None
      = utf8ToBytes (concat (map utf16 cs)) None @ [0xEF, 0xBF, 0xBD]"
  using assms by (simp add: utf8ToBytes_def utf8_loop_prefix Let_def)

theorem utf8_trailing_leads_witness:
  "utf8ToBytes (utf16 0x41 @ [0xD801, 0xD802]) None = [0x41, 0xEF, 0xBF, 0xBD]"
  using utf8_trailing_leads [of "[0x41]" "0xD801" "0xD802"] utf8_loop_all [of "[0x41]"]
  by (simp add: scalar_def utf8_def merged_def utf8ToBytes_def)

end
