(* ===== verification/BufferText.thy ===== *)
theory BufferText
  imports Utf8 Base64
begin

text \<open>
  Text in buffers (\<open>swagger-ui.js\<close>, module 14): the encodings hexadecimal, ASCII, Latin-1
  (\<open>binary\<close>), UTF-16LE (\<open>ucs2\<close>) and base64, the dispatch on encoding names in
  \<open>byteLength\<close>, \<open>write\<close>, \<open>toString\<close> and \<open>isEncoding\<close>, and \<open>inspect\<close>, \<open>indexOf\<close>
  and \<open>fill\<close>.

  The slices work on the octets a buffer shows; the writes go through the store.
  A write that throws may have stored octets before: such operations answer the outcome and the
  heap side by side.  Messages that name a value keep their fixed part only.
\<close>

section \<open>Octets to text\<close>

definition hex_digit :: "int \<Rightarrow> 16 word" where
  "hex_digit n = (if n < 10 then word_of_int (48 + n) else word_of_int (87 + n))"

text \<open>\<open>toHex(n)\<close>, with \<open>n.toString(16)\<close> of an octet.\<close>

definition toHex :: "octet \<Rightarrow> jstr" where
  "toHex b = (let n = uint b in
     if n < 16 then js ''0'' @ [hex_digit n] else [hex_digit (n div 16), hex_digit (n mod 16)])"

definition hexSlice :: "octet list \<Rightarrow> int \<Rightarrow> int \<Rightarrow> jstr" where
  "hexSlice buf start0 end0 =
     (let len = int (length buf);
          start = (if start0 = 0 \<or> start0 < 0 then 0 else start0);
          end' = (if end0 = 0 \<or> end0 < 0 \<or> end0 > len then len else end0)
      in concat (map toHex (drop (nat start) (take (nat end') buf))))"

definition asciiSlice :: "octet list \<Rightarrow> nat \<Rightarrow> nat \<Rightarrow> jstr" where
  "asciiSlice buf start end' = map (\<lambda>b. word_of_int (uint b AND 0x7F)) (drop start (take end' buf))"

definition binarySlice :: "octet list \<Rightarrow> nat \<Rightarrow> nat \<Rightarrow> jstr" where
  "binarySlice buf start end' = map (\<lambda>b. word_of_int (uint b)) (drop start (take end' buf))"

text \<open>The octet after the last is \<open>undefined\<close>, the sum \<open>NaN\<close>, and its character the null.\<close>

fun utf16le_units :: "octet list \<Rightarrow> jstr" where
  "utf16le_units (a # b # bs) = word_of_int (uint a + uint b * 256) # utf16le_units bs"
| "utf16le_units [a] = [from_char_code (js_add (JInt (uint a)) (js_mul_pos Undef 256))]"
| "utf16le_units [] = []"

definition utf16leSlice :: "octet list \<Rightarrow> nat \<Rightarrow> nat \<Rightarrow> jstr" where
  "utf16leSlice buf start end' = utf16le_units (drop start (take end' buf))"

definition base64Slice :: "octet list \<Rightarrow> nat \<Rightarrow> nat \<Rightarrow> jstr" where
  "base64Slice buf start end' =
     (if start = 0 \<and> end' = length buf then uint8ToBase64 buf
      else uint8ToBase64 (drop start (take end' buf)))"

section \<open>Text to octets\<close>

definition asciiToBytes :: "jstr \<Rightarrow> octet list" where
  "asciiToBytes str = map (\<lambda>c. word_of_int (code c AND 0xFF)) str"

text \<open>\<open>utf16leToBytes(str, units)\<close>; an absent budget is \<open>undefined\<close>, and never negative.\<close>

fun utf16leToBytes :: "jstr \<Rightarrow> budget \<Rightarrow> octet list" where
  "utf16leToBytes [] u = []"
| "utf16leToBytes (c # str) u =
     (let u' = spend u 2 in
      if overdrawn u' then []
      else word_of_int (code c mod 256) # word_of_int (drop_bit 8 (code c)) # utf16leToBytes str u')"

text \<open>The characters \<open>[^+\/0-9A-Za-z-_]\<close> does not match.\<close>

definition base64_char :: "16 word \<Rightarrow> bool" where
  "base64_char c \<longleftrightarrow> code c = 43 \<or> code c = 47 \<or> code c = 45 \<or> code c = 95 \<or>
     (48 \<le> code c \<and> code c \<le> 57) \<or> (65 \<le> code c \<and> code c \<le> 90) \<or> (97 \<le> code c \<and> code c \<le> 122)"

text \<open>\<open>while (str.length % 4 !== 0) str = str + '='\<close>.\<close>

definition pad4 :: "jstr \<Rightarrow> jstr" where
  "pad4 str = str @ replicate ((4 - length str mod 4) mod 4) (of_char (CHR ''=''))"

definition base64clean :: "jstr \<Rightarrow> jstr" where
  "base64clean str0 = (let str = filter base64_char (trim str0) in
     if length str < 2 then [] else pad4 str)"

definition base64ToBytes :: "jstr \<Rightarrow> jserr + octet list" where
  "base64ToBytes str = b64ToByteArray (base64clean str)"

section \<open>Numbers in text\<close>

text \<open>
  \<open>parseInt(s, 16)\<close>: leading white space and a sign are skipped, then \<open>0x\<close>; the digits up to
  the first character that is none are read, and none at all gives \<open>NaN\<close>.
\<close>

definition hex_value :: "16 word \<Rightarrow> int option" where
  "hex_value c =
     (if 48 \<le> code c \<and> code c \<le> 57 then Some (code c - 48)
      else if 65 \<le> code c \<and> code c \<le> 70 then Some (code c - 55)
      else if 97 \<le> code c \<and> code c \<le> 102 then Some (code c - 87) else None)"

fun hex_number :: "jstr \<Rightarrow> int option \<Rightarrow> int option" where
  "hex_number [] acc = acc"
| "hex_number (c # s) acc =
     (case hex_value c of
        None \<Rightarrow> acc
      | Some d \<Rightarrow> hex_number s (Some ((case acc of None \<Rightarrow> 0 | Some n \<Rightarrow> n) * 16 + d)))"

definition parseInt16 :: "jstr \<Rightarrow> jnum" where
  "parseInt16 s0 =
     (let s1 = dropWhile is_space s0;
          neg = starts_with (js ''-'') s1;
          s2 = (if neg \<or> starts_with (js ''+'') s1 then tl s1 else s1);
          s3 = (if starts_with (js ''0x'') s2 \<or> starts_with (js ''0X'') s2 then drop 2 s2 else s2)
      in case hex_number s3 None of None \<Rightarrow> NaN | Some n \<Rightarrow> JInt (if neg then - n else n))"

section \<open>Writing\<close>

text \<open>\<open>blitBuffer(src, dst, offset, length)\<close>, from position \<open>i\<close> of the source on.\<close>

fun blitBuffer :: "heap \<Rightarrow> octet list \<Rightarrow> buffer \<Rightarrow> int \<Rightarrow> jnum \<Rightarrow> nat \<Rightarrow> nat \<times> heap" where
  "blitBuffer h [] dst offset len i = (i, h)"
| "blitBuffer h (x # src) dst offset len i =
     (if js_less (JInt (int i)) len \<and> int i + offset < int (b_len dst)
      then blitBuffer (put_elem h dst (int i + offset) (JInt (uint x))) src dst offset len (Suc i)
      else (i, h))"

text \<open>The loop of \<open>hexWrite\<close>, \<open>n\<close> turns to go.\<close>

fun hexWrite_loop :: "heap \<Rightarrow> buffer \<Rightarrow> jstr \<Rightarrow> int \<Rightarrow> nat \<Rightarrow> nat \<Rightarrow> (jserr + nat) \<times> heap" where
  "hexWrite_loop h buf string offset i 0 = (Inr i, h)"
| "hexWrite_loop h buf string offset i (Suc n) =
     (let parsed = parseInt16 (str_slice string (i * 2) (i * 2 + 2)) in
      if parsed = NaN then (Inl (JsError ''Invalid hex string''), h)
      else hexWrite_loop (put_elem h buf (offset + int i) parsed) buf string offset (Suc i) n)"

definition hexWrite :: "heap \<Rightarrow> buffer \<Rightarrow> jstr \<Rightarrow> int \<Rightarrow> jnum \<Rightarrow> (jserr + nat) \<times> heap" where
  "hexWrite h buf string offset length0 =
     (let remaining = int (b_len buf) - offset;
          length1 = (if \<not> num_truthy length0 then JInt remaining
                     else if js_less (JInt remaining) length0 then JInt remaining else length0);
          strLen = length string
      in if strLen mod 2 \<noteq> 0 then (Inl (JsError ''Invalid hex string''), h)
         else let length2 = (if js_less (JInt (int (strLen div 2))) length1
                             then JInt (int (strLen div 2)) else length1)
              in hexWrite_loop h buf string offset 0 (turns_up length2))"

definition utf8Write :: "heap \<Rightarrow> buffer \<Rightarrow> jstr \<Rightarrow> int \<Rightarrow> jnum \<Rightarrow> nat \<times> heap" where
  "utf8Write h buf string offset len =
     blitBuffer h (utf8ToBytes string (budget_of (int (b_len buf) - offset))) buf offset len 0"

definition asciiWrite :: "heap \<Rightarrow> buffer \<Rightarrow> jstr \<Rightarrow> int \<Rightarrow> jnum \<Rightarrow> nat \<times> heap" where
  "asciiWrite h buf string offset len = blitBuffer h (asciiToBytes string) buf offset len 0"

definition binaryWrite :: "heap \<Rightarrow> buffer \<Rightarrow> jstr \<Rightarrow> int \<Rightarrow> jnum \<Rightarrow> nat \<times> heap" where
  "binaryWrite h buf string offset len = asciiWrite h buf string offset len"

definition base64Write :: "heap \<Rightarrow> buffer \<Rightarrow> jstr \<Rightarrow> int \<Rightarrow> jnum \<Rightarrow> (jserr + nat) \<times> heap" where
  "base64Write h buf string offset len =
     (case base64ToBytes string of
        Inl e \<Rightarrow> (Inl e, h)
      | Inr src \<Rightarrow> (let (n, h') = blitBuffer h src buf offset len 0 in (Inr n, h')))"

definition ucs2Write :: "heap \<Rightarrow> buffer \<Rightarrow> jstr \<Rightarrow> int \<Rightarrow> jnum \<Rightarrow> nat \<times> heap" where
  "ucs2Write h buf string offset len =
     blitBuffer h (utf16leToBytes string (Some (int (b_len buf) - offset))) buf offset len 0"

section \<open>Encoding names\<close>

datatype encoding = Hex | Utf8 | Ascii | Binary | Base64 | Ucs2

text \<open>The \<open>switch\<close> of \<open>write\<close> and of \<open>slowToString\<close>, tried again in lower case.\<close>

definition encoding_case :: "jstr \<Rightarrow> encoding option" where
  "encoding_case s =
     (if s = js ''hex'' then Some Hex
      else if s = js ''utf8'' \<or> s = js ''utf-8'' then Some Utf8
      else if s = js ''ascii'' then Some Ascii
      else if s = js ''binary'' then Some Binary
      else if s = js ''base64'' then Some Base64
      else if s = js ''ucs2'' \<or> s = js ''ucs-2'' \<or> s = js ''utf16le'' \<or> s = js ''utf-16le'' then Some Ucs2
      else None)"

definition find_encoding :: "jstr \<Rightarrow> encoding option" where
  "find_encoding s = (case encoding_case s of None \<Rightarrow> encoding_case (to_lower s) | Some e \<Rightarrow> Some e)"

definition isEncoding :: "jstr \<Rightarrow> bool" where
  "isEncoding s \<longleftrightarrow> to_lower s \<in> set (map js [''hex'', ''utf8'', ''utf-8'', ''ascii'', ''binary'',
     ''base64'', ''raw'', ''ucs2'', ''ucs-2'', ''utf16le'', ''utf-16le''])"

text \<open>\<open>byteLength(string, encoding)\<close>; \<open>None\<close> from the table is the \<open>default\<close> branch.\<close>

definition byteLength_case :: "jstr \<Rightarrow> jstr \<Rightarrow> (jserr + nat) option" where
  "byteLength_case string e =
     (if e = js ''ascii'' \<or> e = js ''binary'' \<or> e = js ''raw'' \<or> e = js ''raws'' then Some (Inr (length string))
      else if e = js ''utf8'' \<or> e = js ''utf-8'' then Some (Inr (length (utf8ToBytes string None)))
      else if e = js ''ucs2'' \<or> e = js ''ucs-2'' \<or> e = js ''utf16le'' \<or> e = js ''utf-16le''
        then Some (Inr (length string * 2))
      else if e = js ''hex'' then Some (Inr (length string div 2))
      else if e = js ''base64'' then Some (bindE (base64ToBytes string) (\<lambda>bs. Inr (length bs)))
      else None)"

definition byteLength :: "jstr \<Rightarrow> jstr \<Rightarrow> jserr + nat" where
  "byteLength string e =
     (if string = [] then Inr 0
      else case byteLength_case string e of
        Some r \<Rightarrow> r
      | None \<Rightarrow> (case byteLength_case string (to_lower e) of
          Some r \<Rightarrow> r
        | None \<Rightarrow> Inr (length (utf8ToBytes string None))))"

section \<open>\<open>write\<close>\<close>

text \<open>
  An argument of \<open>write\<close>: absent, a number, or a string, which is an encoding's name (no name
  reads as a number, so \<open>isFinite\<close> of it is false and \<open>|\<close> makes it 0).
\<close>

datatype arg = Absent | NumArg jnum | StrArg jstr

definition arg_finite :: "arg \<Rightarrow> bool" where
  "arg_finite a = (case a of NumArg x \<Rightarrow> is_finite x | _ \<Rightarrow> False)"

definition arg_int32 :: "arg \<Rightarrow> int" where
  "arg_int32 a = (case a of NumArg x \<Rightarrow> to_int32 x | _ \<Rightarrow> 0)"

definition arg_number :: "arg \<Rightarrow> jnum" where
  "arg_number a = (case a of Absent \<Rightarrow> Undef | NumArg x \<Rightarrow> x | StrArg _ \<Rightarrow> NaN)"

text \<open>The four signatures: the encoding, the offset and the length they amount to.\<close>

definition write_args :: "buffer \<Rightarrow> arg \<Rightarrow> arg \<Rightarrow> arg \<Rightarrow> arg \<times> int \<times> jnum" where
  "write_args b offset len enc =
     (if offset = Absent then (StrArg (js ''utf8''), 0, JInt (int (b_len b)))
      else if len = Absent \<and> (case offset of StrArg _ \<Rightarrow> True | _ \<Rightarrow> False)
        then (offset, 0, JInt (int (b_len b)))
      else if arg_finite offset then
        (if arg_finite len
         then (if enc = Absent then StrArg (js ''utf8'') else enc, arg_int32 offset, JInt (arg_int32 len))
         else (len, arg_int32 offset, Undef))
      else (offset, arg_int32 len, arg_number enc))"

text \<open>The name an encoding argument gives: the default where it is falsy.\<close>

definition encoding_arg :: "arg \<Rightarrow> encoding option" where
  "encoding_arg a =
     (case a of
        Absent \<Rightarrow> Some Utf8
      | NumArg x \<Rightarrow> if num_truthy x then None else Some Utf8
      | StrArg s \<Rightarrow> if s = [] then Some Utf8 else find_encoding s)"

definition write_encoded ::
  "encoding \<Rightarrow> heap \<Rightarrow> buffer \<Rightarrow> jstr \<Rightarrow> int \<Rightarrow> jnum \<Rightarrow> (jserr + nat) \<times> heap" where
  "write_encoded e h b string offset len =
     (case e of
        Hex \<Rightarrow> hexWrite h b string offset len
      | Utf8 \<Rightarrow> (let (n, h') = utf8Write h b string offset len in (Inr n, h'))
      | Ascii \<Rightarrow> (let (n, h') = asciiWrite h b string offset len in (Inr n, h'))
      | Binary \<Rightarrow> (let (n, h') = binaryWrite h b string offset len in (Inr n, h'))
      | Base64 \<Rightarrow> base64Write h b string offset len
      | Ucs2 \<Rightarrow> (let (n, h') = ucs2Write h b string offset len in (Inr n, h')))"

definition buffer_write :: "heap \<Rightarrow> buffer \<Rightarrow> jstr \<Rightarrow> arg \<Rightarrow> arg \<Rightarrow> arg \<Rightarrow> (jserr + nat) \<times> heap" where
  "buffer_write h b string offset0 length0 enc0 =
     (let (enc, offset, length1) = write_args b offset0 length0 enc0;
          remaining = int (b_len b) - offset;
          len = (if length1 = Undef \<or> js_less (JInt remaining) length1 then JInt remaining else length1)
      in if (string \<noteq> [] \<and> (js_less len (JInt 0) \<or> offset < 0)) \<or> int (b_len b) < offset
         then (Inl (RangeError ''attempt to write outside buffer bounds''), h)
         else (case encoding_arg enc of
                 None \<Rightarrow> (Inl (TypeError ''Unknown encoding''), h)
               | Some e \<Rightarrow> write_encoded e h b string offset len))"

text \<open>\<open>new Buffer(string, encoding)\<close>; an absent name is the empty string.\<close>

definition fromString :: "heap \<Rightarrow> jstr \<Rightarrow> jstr \<Rightarrow> (jserr + buffer) \<times> heap" where
  "fromString h string encoding0 =
     (let enc = (if encoding0 = [] then js ''utf8'' else encoding0) in
      case byteLength string enc of
        Inl e \<Rightarrow> (Inl e, h)
      | Inr n \<Rightarrow>
          (let (b, h1) = allocate h n in
           case buffer_write h1 b string (StrArg enc) Absent Absent of
             (Inl e, h2) \<Rightarrow> (Inl e, h2)
           | (Inr _, h2) \<Rightarrow> (Inr b, h2)))"

section \<open>\<open>toString\<close>\<close>

definition slice_encoded :: "encoding \<Rightarrow> octet list \<Rightarrow> nat \<Rightarrow> nat \<Rightarrow> jstr" where
  "slice_encoded e buf start end' =
     (case e of
        Hex \<Rightarrow> hexSlice buf (int start) (int end')
      | Utf8 \<Rightarrow> utf8Slice buf start end'
      | Ascii \<Rightarrow> asciiSlice buf start end'
      | Binary \<Rightarrow> binarySlice buf start end'
      | Base64 \<Rightarrow> base64Slice buf start end'
      | Ucs2 \<Rightarrow> utf16leSlice buf start end')"

definition slowToString :: "octet list \<Rightarrow> jstr \<Rightarrow> jnum \<Rightarrow> jnum \<Rightarrow> jserr + jstr" where
  "slowToString buf encoding0 start0 end0 =
     (let len = int (length buf);
          start = max 0 (to_int32 start0);
          end1 = (if end0 = Undef \<or> end0 = PInf then len else to_int32 end0);
          end' = min end1 len
      in if end' \<le> start then Inr []
         else case find_encoding (if encoding0 = [] then js ''utf8'' else encoding0) of
           None \<Rightarrow> Inl (TypeError ''Unknown encoding'')
         | Some e \<Rightarrow> Inr (slice_encoded e buf (nat start) (nat end')))"

text \<open>\<open>toString()\<close> and \<open>toString(encoding, start, end)\<close>.\<close>

definition toString0 :: "octet list \<Rightarrow> jstr" where
  "toString0 buf = (if buf = [] then [] else utf8Slice buf 0 (length buf))"

definition toString :: "octet list \<Rightarrow> jstr \<Rightarrow> jnum \<Rightarrow> jnum \<Rightarrow> jserr + jstr" where
  "toString buf encoding0 start end' =
     (if buf = [] then Inr [] else slowToString buf encoding0 start end')"

text \<open>\<open>str.match(/.{2}/g).join(' ')\<close> of a hexadecimal string.\<close>

fun spaced_pairs :: "jstr \<Rightarrow> jstr" where
  "spaced_pairs (a # b # c # s) = a # b # of_char (CHR '' '') # spaced_pairs (c # s)"
| "spaced_pairs s = s"

definition INSPECT_MAX_BYTES :: nat where
  "INSPECT_MAX_BYTES = 50"

definition inspect :: "octet list \<Rightarrow> jstr" where
  "inspect buf =
     (let str = (if buf = [] then []
                 else case toString buf (js ''hex'') (JInt 0) (JInt (int INSPECT_MAX_BYTES)) of
                   Inl _ \<Rightarrow> []
                 | Inr s \<Rightarrow> spaced_pairs s @ (if length buf > INSPECT_MAX_BYTES then js '' ... '' else []))
      in js ''<Buffer '' @ str @ js ''>'')"

section \<open>\<open>indexOf\<close> and \<open>fill\<close>\<close>

text \<open>\<open>arrayIndexOf\<close>: \<open>n\<close> turns to go from position \<open>i\<close>; \<open>found\<close> is \<open>foundIndex\<close>.\<close>

fun arrayIndexOf_loop :: "octet list \<Rightarrow> jnum list \<Rightarrow> nat \<Rightarrow> nat \<Rightarrow> nat option \<Rightarrow> nat \<Rightarrow> int" where
  "arrayIndexOf_loop arr val offset i found 0 = -1"
| "arrayIndexOf_loop arr val offset i found (Suc n) =
     (let k = (case found of None \<Rightarrow> 0 | Some f \<Rightarrow> i - f) in
      if k < length val \<and> JInt (uint (arr ! (offset + i))) = val ! k
      then let f = (case found of None \<Rightarrow> i | Some f \<Rightarrow> f) in
        if i - f + 1 = length val then int (offset + f)
        else arrayIndexOf_loop arr val offset (Suc i) (Some f) n
      else arrayIndexOf_loop arr val offset (Suc i) None n)"

definition arrayIndexOf :: "octet list \<Rightarrow> jnum list \<Rightarrow> nat \<Rightarrow> int" where
  "arrayIndexOf arr val offset = arrayIndexOf_loop arr val offset 0 None (length arr - offset)"

datatype pattern = StrPat jstr | BufPat "octet list" | NumPat jnum | OtherPat

text \<open>\<open>indexOf(val, byteOffset)\<close>, the string case by \<open>String.prototype.indexOf\<close> of \<open>this.toString()\<close>.\<close>

definition indexOf :: "octet list \<Rightarrow> pattern \<Rightarrow> jnum \<Rightarrow> jserr + int" where
  "indexOf buf val byteOffset =
     (let o1 = (if js_less (JInt 0x7fffffff) byteOffset then JInt 0x7fffffff
                else if js_less byteOffset (JInt (- 0x80000000)) then JInt (- 0x80000000) else byteOffset);
          o2 = to_int32 o1; len = int (length buf)
      in if len = 0 then Inr (-1)
         else if o2 \<ge> len then Inr (-1)
         else let off = (if o2 < 0 then max (len + o2) 0 else o2) in
           case val of
             StrPat s \<Rightarrow> Inr (if s = [] then -1 else index_of_from (toString0 buf) s (nat off))
           | BufPat v \<Rightarrow> Inr (arrayIndexOf buf (map (\<lambda>b. JInt (uint b)) v) (nat off))
           | NumPat x \<Rightarrow> Inr (arrayIndexOf buf [x] (nat off))
           | OtherPat \<Rightarrow> Inl (TypeError ''val must be string, number or Buffer''))"

text \<open>\<open>fill(value, start, end)\<close> with integer bounds (0 where absent); a string is given by its octets.\<close>

datatype filler = NumFill jnum | StrFill jstr

fun fill_loop :: "heap \<Rightarrow> buffer \<Rightarrow> (nat \<Rightarrow> jnum) \<Rightarrow> nat \<Rightarrow> nat \<Rightarrow> heap" where
  "fill_loop h b value i 0 = h"
| "fill_loop h b value i (Suc n) = fill_loop (put_elem h b (int i) (value i)) b value (Suc i) n"

text \<open>The answer is whether \<open>this\<close> is returned (else \<open>undefined\<close>).\<close>

definition fill :: "heap \<Rightarrow> buffer \<Rightarrow> filler \<Rightarrow> int \<Rightarrow> int \<Rightarrow> jserr + bool \<times> heap" where
  "fill h b value start end0 =
     (let end' = (if end0 = 0 then int (b_len b) else end0) in
      if end' < start then Inl (RangeError ''end < start'')
      else if end' = start then Inr (False, h)
      else if b_len b = 0 then Inr (False, h)
      else if start < 0 \<or> start \<ge> int (b_len b) then Inl (RangeError ''start out of bounds'')
      else if end' < 0 \<or> end' > int (b_len b) then Inl (RangeError ''end out of bounds'')
      else Inr (True, fill_loop h b
        (\<lambda>i. case value of
           NumFill x \<Rightarrow> if num_truthy x then x else JInt 0
         | StrFill s \<Rightarrow> if s = [] then JInt 0
             else let bytes = utf8ToBytes s None in JInt (uint (bytes ! (i mod length bytes))))
        (nat start) (nat (end' - start))))"

section \<open>Each encoding undoes itself\<close>

lemma ascii_octet: "uint (word_of_int (code c AND 0xFF) :: octet) = code c mod 256"
  using take_bit_eq_mask [of 8 "code c"]
  by (simp add: uint_word_of_int take_bit_eq_mod mask_eq_exp_minus_1)

interpretation latin1: sized_codec asciiToBytes
  "\<lambda>bs. Inr (binarySlice bs 0 (length bs)) :: jserr + jstr" "\<lambda>s. \<forall>c \<in> set s. code c < 256" "\<lambda>n. n"
proof unfold_locales
  fix s :: jstr assume "\<forall>c \<in> set s. code c < 256"
  then show "(Inr (binarySlice (asciiToBytes s) 0 (length (asciiToBytes s))) :: jserr + jstr) = Inr s"
    by (simp add: binarySlice_def asciiToBytes_def ascii_octet map_idI)
qed (simp add: asciiToBytes_def)

interpretation ascii7: sized_codec asciiToBytes
  "\<lambda>bs. Inr (asciiSlice bs 0 (length bs)) :: jserr + jstr" "\<lambda>s. \<forall>c \<in> set s. code c < 128" "\<lambda>n. n"
proof unfold_locales
  fix s :: jstr assume s: "\<forall>c \<in> set s. code c < 128"
  have "x AND 0x7F = x mod 128" for x :: int
    using take_bit_eq_mask [of 7 x] by (simp add: take_bit_eq_mod mask_eq_exp_minus_1)
  then have "(word_of_int (uint (word_of_int (code c AND 0xFF) :: octet) AND 0x7F) :: 16 word) = c"
    if "code c < 128" for c using that unfolding ascii_octet by simp
  with s show "(Inr (asciiSlice (asciiToBytes s) 0 (length (asciiToBytes s))) :: jserr + jstr) = Inr s"
    unfolding asciiSlice_def asciiToBytes_def by (simp add: map_idI)
qed (simp add: asciiToBytes_def)

lemma utf16le_octets:
  "uint (word_of_int (code c mod 256) :: octet) + uint (word_of_int (drop_bit 8 (code c)) :: octet) * 256 = code c"
proof -
  have "0 \<le> code c div 256 \<and> code c div 256 < 256" using div_range [of "code c" 256 256] code_bounds [of c] by simp
  then show ?thesis by (simp add: uint_octet_small drop_bit_eq_div)
qed

interpretation ucs2: sized_codec "\<lambda>s. utf16leToBytes s None"
  "\<lambda>bs. Inr (utf16leSlice bs 0 (length bs)) :: jserr + jstr" "\<lambda>_. True" "\<lambda>n. 2 * n"
proof unfold_locales
  fix s :: jstr
  show "(Inr (utf16leSlice (utf16leToBytes s None) 0 (length (utf16leToBytes s None))) :: jserr + jstr) = Inr s"
    unfolding utf16leSlice_def by (induction s) (simp_all add: utf16le_octets)
  show "length (utf16leToBytes s None) = 2 * length s" by (induction s) simp_all
qed

text \<open>Hexadecimal digits.\<close>

lemma hex_value_digit:
  assumes "0 \<le> n" "n < 16"
  shows "hex_value (hex_digit n) = Some n"
proof -
  have "code (word_of_int (48 + n)) = 48 + n" "code (word_of_int (87 + n)) = 87 + n"
    using assms by (intro code_word_of_int; simp)+
  then show ?thesis using assms by (simp add: hex_value_def hex_digit_def del: of_int_add)
qed

lemma toHex_digits: "toHex b = [hex_digit (uint b div 16), hex_digit (uint b mod 16)]"
  by (simp add: toHex_def js_def hex_digit_def Let_def div_pos_pos_trivial mod_pos_pos_trivial)

lemma hex_digit_plain:
  assumes "0 \<le> n" "n < 16"
  shows "\<not> is_space (hex_digit n)" "hex_digit n \<noteq> 45" "hex_digit n \<noteq> 43"
    "hex_digit n \<noteq> 120" "hex_digit n \<noteq> 88"
proof -
  have "n \<in> set [0..15]" using assms by simp
  then have "n \<in> {0, 1, 2, 3, 4, 5, 6, 7, 8, 9, 10, 11, 12, 13, 14, 15}" by (simp add: upto_rec1)
  then show "\<not> is_space (hex_digit n)" "hex_digit n \<noteq> 45" "hex_digit n \<noteq> 43"
    "hex_digit n \<noteq> 120" "hex_digit n \<noteq> 88"
    by (auto simp: hex_digit_def is_space_def)
qed

lemma parse_toHex: "parseInt16 (toHex b) = JInt (uint b)"
proof -
  let ?p = "uint b div 16" and ?q = "uint b mod 16"
  have r: "0 \<le> ?p" "?p < 16" "0 \<le> ?q" "?q < 16"
    using div_range [of "uint b" 16 16] uint_octet_bounds [of b] by auto
  note plain = hex_digit_plain [OF r(1,2)] hex_digit_plain [OF r(3,4)]
  show ?thesis
    unfolding toHex_digits parseInt16_def Let_def
    by (simp add: plain starts_with_def js_Cons hex_value_digit [OF r(1,2)] hex_value_digit [OF r(3,4)])
qed

text \<open>Base64 text passes the cleaning unchanged.\<close>

lemma lookup_chars: "\<forall>c \<in> set lookup. base64_char c \<and> \<not> is_space c"
  by (simp add: lookup_def js_def base64_char_def is_space_def)

lemma lookup_char: "0 \<le> n \<Longrightarrow> n < 64 \<Longrightarrow> base64_char (lookup ! nat n) \<and> \<not> is_space (lookup ! nat n)"
  using lookup_chars nth_mem [of "nat n" lookup] by simp

lemma pad4_four: "length q = 4 \<Longrightarrow> pad4 (q @ s) = q @ pad4 s"
  by (simp add: pad4_def)

lemma pad_char: "\<not> base64_char 61" "\<not> is_space 61"
  by (simp_all add: base64_char_def is_space_def)

text \<open>Every text is groups of four letters and then two or three letters with padding, or none.\<close>

definition letters :: "jstr \<Rightarrow> bool" where
  "letters q \<longleftrightarrow> (\<forall>c \<in> set q. base64_char c \<and> \<not> is_space c)"

lemma base64_triplet:
  "\<exists>q. uint8ToBase64 (a # b # c # bs) = q @ uint8ToBase64 bs \<and> length q = 4 \<and> letters q"
proof -
  let ?x = "uint a * 65536 + uint b * 256 + uint c"
  have x: "0 \<le> ?x" "?x < 2 ^ 24"
    using uint_octet_bounds [of a] uint_octet_bounds [of b] uint_octet_bounds [of c] by simp_all
  have j: "js_add (js_add (js_shl (JInt (uint a)) 16) (js_shl (JInt (uint b)) 8)) (JInt (uint c)) = JInt ?x"
    using uint_octet_bounds [of a] uint_octet_bounds [of b] by (simp add: js_arith)
  show ?thesis
    unfolding uint8ToBase64.simps(1) j tripletToBase64_JInt [OF x]
    by (intro exI conjI, rule refl) (simp_all add: letters_def lookup_char)
qed

lemma base64_one: "\<exists>q. uint8ToBase64 [a] = q @ [61, 61] \<and> length q = 2 \<and> letters q"
proof -
  have "0 \<le> uint a div 4 \<and> uint a div 4 < 64"
    using div_range [of "uint a" 4 64] uint_octet_bounds [of a] by simp
  then show ?thesis
    unfolding uint8ToBase64_one
    by (intro exI [of _ "[lookup ! nat (uint a div 4), lookup ! nat (uint a * 16 mod 64)]"])
      (simp add: letters_def lookup_char)
qed

lemma base64_two: "\<exists>q. uint8ToBase64 [a, b] = q @ [61] \<and> length q = 3 \<and> letters q"
proof -
  let ?x = "uint a * 256 + uint b"
  have "0 \<le> ?x div 1024 \<and> ?x div 1024 < 64"
    using div_range [of ?x 1024 64] uint_octet_bounds [of a] uint_octet_bounds [of b] by simp
  then show ?thesis
    unfolding uint8ToBase64_two
    by (intro exI [of _ "[lookup ! nat (?x div 1024), lookup ! nat (?x div 16 mod 64), lookup ! nat (?x * 4 mod 64)]"])
      (simp add: letters_def lookup_char)
qed

lemma letters_filter: "letters q \<Longrightarrow> filter base64_char q = q"
  by (simp add: letters_def filter_id_conv)

lemma pad4_short: "length q = 2 \<Longrightarrow> pad4 q = q @ [61, 61]" "length q = 3 \<Longrightarrow> pad4 q = q @ [61]"
  by (simp_all add: pad4_def numeral_2_eq_2)

lemma base64_text:
  "(\<forall>c \<in> set (uint8ToBase64 bs). \<not> is_space c) \<and>
   pad4 (filter base64_char (uint8ToBase64 bs)) = uint8ToBase64 bs \<and>
   (bs \<noteq> [] \<longrightarrow> 2 \<le> length (filter base64_char (uint8ToBase64 bs)))"
proof (induction bs rule: uint8ToBase64.induct)
  case (1 a b c s)
  obtain q where "uint8ToBase64 (a # b # c # s) = q @ uint8ToBase64 s" "length q = 4" "letters q"
    using base64_triplet by blast
  then show ?case using 1 by (auto simp: letters_filter pad4_four letters_def)
next
  case (2 a b)
  obtain q where "uint8ToBase64 [a, b] = q @ [61]" "length q = 3" "letters q" using base64_two by blast
  then show ?case by (auto simp: letters_filter pad4_short pad_char letters_def)
next
  case (3 a)
  obtain q where "uint8ToBase64 [a] = q @ [61, 61]" "length q = 2" "letters q" using base64_one by blast
  then show ?case by (auto simp: letters_filter pad4_short pad_char letters_def)
qed (simp add: pad4_def)

lemma trim_id: "\<forall>c \<in> set s. \<not> is_space c \<Longrightarrow> trim s = s"
proof -
  assume s: "\<forall>c \<in> set s. \<not> is_space c"
  have d: "dropWhile is_space xs = xs" if "\<forall>c \<in> set xs. \<not> is_space c" for xs
    using that by (cases xs) auto
  show "trim s = s" using d [of s] d [of "rev s"] s by (simp add: trim_def)
qed

lemma base64clean_id: "base64clean (uint8ToBase64 bs) = uint8ToBase64 bs"
proof (cases "bs = []")
  case True
  then show ?thesis by (simp add: base64clean_def trim_def)
next
  case False
  then show ?thesis using base64_text [of bs] by (simp add: base64clean_def trim_id Let_def)
qed

interpretation base64_text: codec uint8ToBase64 base64ToBytes "\<lambda>_. True"
  by unfold_locales (simp add: base64ToBytes_def base64clean_id b64_decode_encode)

section \<open>Writing text into a buffer\<close>

lemma blitBuffer_octets:
  assumes "wf_buffer h dst" "int (i + length src) \<le> len" "k + i + length src \<le> b_len dst"
  shows "blitBuffer h src dst (int k) (JInt len) i = (i + length src, put_octets h dst (k + i) src)"
  using assms
proof (induction src arbitrary: h i)
  case Nil
  then show ?case by (simp add: put_octets_Nil)
next
  case (Cons x src)
  have "put_elem h dst (int i + int k) (JInt (uint x)) = set_octet h dst (k + i) x"
    using Cons.prems put_elem_eq [of "int i + int k" "k + i" dst h] by simp
  then show ?case
    using Cons.prems Cons.IH [of "set_octet h dst (k + i) x" "Suc i"] by (simp add: put_octets_Cons)
qed

text \<open>A blit never writes more than the source holds, the length asks for, or the target has room for.\<close>

lemma blitBuffer_count:
  assumes "blitBuffer h src dst offset (JInt len) i = (n, h')" "i \<le> n \<or> True"
  shows "i \<le> n \<and> n \<le> i + length src \<and> (int i \<le> len \<longrightarrow> int n \<le> len)"
  using assms
proof (induction src arbitrary: h i)
  case (Cons x src)
  show ?case
  proof (cases "int i < len \<and> int i + offset < int (b_len dst)")
    case True
    then have "blitBuffer (put_elem h dst (int i + offset) (JInt (uint x))) src dst offset (JInt len) (Suc i) = (n, h')"
      using Cons.prems by simp
    with Cons.IH [of _ "Suc i"] True show ?thesis by force
  next
    case False
    then show ?thesis using Cons.prems by auto
  qed
qed simp

lemma hexWrite_loop_octets:
  assumes "wf_buffer h b" "k + i + length bs \<le> b_len b"
    "drop (i * 2) string = concat (map toHex bs) @ rest"
  shows "hexWrite_loop h b string (int k) i (length bs) = (Inr (i + length bs), put_octets h b (k + i) bs)"
  using assms
proof (induction bs arbitrary: h i)
  case Nil
  then show ?case by (simp add: put_octets_Nil)
next
  case (Cons x bs)
  have two: "length (toHex x) = 2" by (simp add: toHex_digits)
  have "str_slice string (i * 2) (i * 2 + 2) = take 2 (drop (i * 2) string)"
    by (simp add: str_slice_def)
  then have "parseInt16 (str_slice string (i * 2) (i * 2 + 2)) = JInt (uint x)"
    using Cons.prems(3) two by (simp add: parse_toHex)
  moreover have "drop (Suc i * 2) string = concat (map toHex bs) @ rest"
  proof -
    have "drop (Suc i * 2) string = drop 2 (drop (i * 2) string)" by simp
    also have "\<dots> = concat (map toHex bs) @ rest"
      using two unfolding Cons.prems(3) by simp
    finally show ?thesis .
  qed
  moreover have "put_elem h b (int k + int i) (JInt (uint x)) = set_octet h b (k + i) x"
    using Cons.prems put_elem_eq [of "int k + int i" "k + i" b h] by simp
  ultimately show ?case
    using Cons.prems Cons.IH [of "set_octet h b (k + i) x" "Suc i"] by (simp add: put_octets_Cons Let_def)
qed

lemma length_hex: "length (concat (map toHex bs)) = 2 * length bs"
  by (induction bs) (simp_all add: toHex_digits)

text \<open>
  The texts each encoding can hold, with the octets they stand for: the characters below 128
  or 256, any string, lower-case pairs of hexadecimal digits, the base64 of some octets, and
  well-formed UTF-16 without the even supplementary planes.
\<close>

definition stands_for :: "encoding \<Rightarrow> jstr \<Rightarrow> octet list \<Rightarrow> bool" where
  "stands_for e s bs \<longleftrightarrow>
     (case e of
        Hex \<Rightarrow> s = concat (map toHex bs)
      | Utf8 \<Rightarrow> (\<exists>cs. (\<forall>c \<in> set cs. scalar c \<and> (c < 0x10000 \<or> odd (c div 0x10000))) \<and>
          s = concat (map utf16 cs) \<and> bs = utf8ToBytes s None)
      | Ascii \<Rightarrow> (\<forall>c \<in> set s. code c < 128) \<and> bs = asciiToBytes s
      | Binary \<Rightarrow> (\<forall>c \<in> set s. code c < 256) \<and> bs = asciiToBytes s
      | Base64 \<Rightarrow> s = uint8ToBase64 bs
      | Ucs2 \<Rightarrow> bs = utf16leToBytes s None)"

lemma slice_stands_for:
  assumes "stands_for e s bs" "bs \<noteq> []"
  shows "slice_encoded e bs 0 (length bs) = s"
proof (cases e)
  case Hex
  then show ?thesis using assms by (simp add: stands_for_def slice_encoded_def hexSlice_def Let_def)
next
  case Utf8
  then obtain cs where cs: "\<forall>c \<in> set cs. scalar c \<and> (c < 0x10000 \<or> odd (c div 0x10000))"
    "s = concat (map utf16 cs)" "bs = utf8ToBytes s None"
    using assms(1) by (auto simp: stands_for_def)
  have "concat (map (\<lambda>c. utf16 (merged c)) cs) = concat (map utf16 cs)"
    by (intro arg_cong [of _ _ concat] map_cong refl) (metis cs(1) merged_eq_iff)
  then show ?thesis using Utf8 cs utf8Slice_utf8ToBytes [of cs] by (simp add: slice_encoded_def)
next
  case Ascii
  then show ?thesis using assms ascii7.dec_enc [of s] by (simp add: stands_for_def slice_encoded_def)
next
  case Binary
  then show ?thesis using assms latin1.dec_enc [of s] by (simp add: stands_for_def slice_encoded_def)
next
  case Base64
  then show ?thesis using assms by (simp add: stands_for_def slice_encoded_def base64Slice_def)
next
  case Ucs2
  then show ?thesis using assms ucs2.dec_enc [of s] by (simp add: stands_for_def slice_encoded_def)
qed

lemma utf8_loop_budget:
  "int (length (utf8_loop s lead None)) \<le> n \<Longrightarrow> utf8_loop s lead (Some n) = utf8_loop s lead None"
proof (induction s arbitrary: lead n)
  case (Cons x s)
  then show ?case
    by (auto simp: Let_def spend_def overdrawn_def replacement_def split: option.splits if_splits)
qed simp

lemma utf16le_budget:
  "int (length (utf16leToBytes s None)) \<le> n \<Longrightarrow> utf16leToBytes s (Some n) = utf16leToBytes s None"
  by (induction s arbitrary: n) (auto simp: Let_def spend_def overdrawn_def)

lemma write_stands_for:
  assumes "stands_for e s bs" "bs \<noteq> []" "wf_buffer h b" "b_len b = length bs"
  shows "write_encoded e h b s 0 (JInt (int (length bs))) = (Inr (length bs), put_octets h b 0 bs)"
proof -
  have blit: "blitBuffer h bs b 0 (JInt (int (length bs))) 0 = (length bs, put_octets h b 0 bs)"
    using blitBuffer_octets [of h b 0 bs "int (length bs)" 0] assms(3,4) by simp
  show ?thesis
  proof (cases e)
    case Hex
    then have s: "s = concat (map toHex bs)" using assms(1) by (simp add: stands_for_def)
    have "hexWrite_loop h b s 0 0 (length bs) = (Inr (length bs), put_octets h b 0 bs)"
      using hexWrite_loop_octets [of h b 0 0 bs s "[]"] assms(3,4) s by simp
    then show ?thesis
      using Hex assms(2,4) by (simp add: write_encoded_def hexWrite_def s length_hex Let_def)
  next
    case Utf8
    then have "utf8ToBytes s (budget_of (int (length bs))) = bs"
      using assms(1,2) utf8_loop_budget [of s None]
      by (auto simp: stands_for_def utf8ToBytes_def budget_of_def)
    then show ?thesis using Utf8 blit assms(4) by (simp add: write_encoded_def utf8Write_def)
  next
    case Ucs2
    then have "utf16leToBytes s (Some (int (length bs))) = bs"
      using assms(1) utf16le_budget [of s] by (simp add: stands_for_def)
    then show ?thesis using Ucs2 blit assms(4) by (simp add: write_encoded_def ucs2Write_def)
  next
    case Base64
    then have "base64ToBytes s = Inr bs" using assms(1) base64_text.dec_enc [of bs]
      by (simp add: stands_for_def)
    then show ?thesis using Base64 blit by (simp add: write_encoded_def base64Write_def)
  qed (use assms(1) blit in \<open>simp_all add: stands_for_def write_encoded_def asciiWrite_def binaryWrite_def\<close>)
qed

text \<open>The name tables agree.\<close>

lemma js_inj: "js a = js b \<longleftrightarrow> map (of_char :: char \<Rightarrow> 16 word) a = map of_char b"
  by (simp add: js_def)

lemma byteLength_stands_for:
  assumes "find_encoding n = Some e" "stands_for e s bs" "bs \<noteq> []"
  shows "byteLength s n = Inr (length bs)"
proof -
  have s: "s \<noteq> []"
    using assms(2,3) by (auto simp: stands_for_def utf8ToBytes_def asciiToBytes_def toHex_digits
        split: encoding.splits) (metis base64_text.enc_inj uint8ToBase64.simps(4))
  have len: "(case e of Hex \<Rightarrow> Inr (length s div 2) | Utf8 \<Rightarrow> Inr (length (utf8ToBytes s None))
      | Ascii \<Rightarrow> Inr (length s) | Binary \<Rightarrow> Inr (length s)
      | Base64 \<Rightarrow> bindE (base64ToBytes s) (\<lambda>bs. Inr (length bs))
      | Ucs2 \<Rightarrow> Inr (length s * 2)) = (Inr (length bs) :: jserr + nat)"
    using assms(2) base64_text.dec_enc [of bs] ucs2.length_enc [of s]
    by (auto simp: stands_for_def length_hex latin1.length_enc split: encoding.splits)
  have table: "byteLength_case s m = Some (Inr (length bs))" if "encoding_case m = Some e" for m
    using that len unfolding encoding_case_def byteLength_case_def
    by (auto split: if_splits simp: js_inj)
  have other: "byteLength_case s n = None \<or> to_lower n = n" if "encoding_case n = None"
    using that unfolding encoding_case_def byteLength_case_def
    by (auto split: if_splits simp: js_inj to_lower_def js_def lower_unit_def)
  show ?thesis
    using assms(1) s table [of n] table [of "to_lower n"] other
    by (auto simp: byteLength_def find_encoding_def split: option.splits)
qed

lemma buffer_write_stands_for:
  assumes "find_encoding n = Some e" "n \<noteq> []" "stands_for e s bs" "bs \<noteq> []" "wf_buffer h b" "b_len b = length bs"
  shows "buffer_write h b s (StrArg n) Absent Absent = (Inr (length bs), put_octets h b 0 bs)"
  using assms write_stands_for [OF assms(3-6)]
  by (simp add: buffer_write_def write_args_def encoding_arg_def)

lemma toString_stands_for:
  assumes "find_encoding n = Some e" "n \<noteq> []" "stands_for e s bs" "bs \<noteq> []" "length bs < 0x7fffffff"
  shows "toString bs n Undef Undef = Inr s"
  using assms slice_stands_for [OF assms(3,4)]
  by (simp add: toString_def slowToString_def Let_def)

text \<open>
  C3. The text round trip, for every encoding and every spelling of its name: a text that the
  encoding can hold, made into a buffer with \<open>new Buffer(s, n)\<close>, gives a buffer of exactly
  the octets it stands for, from which \<open>toString(n)\<close> gives the text back; the other buffers
  are not touched.
\<close>

theorem text_round_trip:
  assumes "find_encoding n = Some e" "n \<noteq> []" "stands_for e s bs" "bs \<noteq> []" "length bs < 0x7fffffff"
  shows "\<exists>b h'. fromString h s n = (Inr b, h') \<and> wf_buffer h' b \<and> octets h' b = bs \<and>
    toString (octets h' b) n Undef Undef = Inr s \<and>
    (\<forall>c. wf_buffer h c \<longrightarrow> octets h' c = octets h c)"
proof -
  obtain b h1 where a: "allocate h (length bs) = (b, h1)" by fastforce
  note new = allocate_facts [OF a assms(5)] and old = allocate_others [OF a]
  have "fromString h s n = (Inr b, put_octets h1 b 0 bs)"
    using assms(2) a byteLength_stands_for [OF assms(1,3,4)]
      buffer_write_stands_for [OF assms(1-4) new(1,3)] by (simp add: fromString_def)
  moreover have "octets (put_octets h1 b 0 bs) b = bs"
    using new(1-3) octets_put_octets [of h1 b 0 bs] by (simp add: splice_def)
  moreover have "wf_buffer (put_octets h1 b 0 bs) b" using new by (intro wf_put_octets) simp_all
  moreover have "octets (put_octets h1 b 0 bs) c = octets h c" if "wf_buffer h c" for c
    using old [OF that] by (simp add: octets_put_octets_other)
  ultimately show ?thesis using toString_stands_for [OF assms] by auto
qed

theorem text_round_trip_witness:
  "\<exists>b h'. fromString sample_heap (js ''cafe'') (js ''HEX'') = (Inr b, h') \<and> octets h' b = [0xCA, 0xFE] \<and>
     toString (octets h' b) (js ''HEX'') Undef Undef = Inr (js ''cafe'')"
proof -
  have "find_encoding (js ''HEX'') = Some Hex"
    by (simp add: find_encoding_def encoding_case_def to_lower_def lower_unit_def js_def)
  moreover have "stands_for Hex (js ''cafe'') [0xCA, 0xFE]"
    by (simp add: stands_for_def toHex_def hex_digit_def js_def)
  moreover have "js ''HEX'' \<noteq> []" by (simp add: js_def)
  ultimately show ?thesis
    using text_round_trip [of "js ''HEX''" Hex "js ''cafe''" "[0xCA, 0xFE]" sample_heap] by auto
qed

section \<open>Names, lengths, searches and fills\<close>

lemma find_encoding_lower: "find_encoding n \<noteq> None \<longleftrightarrow> encoding_case (to_lower n) \<noteq> None"
proof -
  let ?names = "map js [''hex'', ''utf8'', ''utf-8'', ''ascii'', ''binary'', ''base64'', ''ucs2'',
    ''ucs-2'', ''utf16le'', ''utf-16le'']"
  have "encoding_case n \<noteq> None \<Longrightarrow> n \<in> set ?names"
    by (auto simp: encoding_case_def split: if_splits)
  moreover have "\<forall>m \<in> set ?names. to_lower m = m" by (simp add: to_lower_def js_def lower_unit_def)
  ultimately have "encoding_case n \<noteq> None \<Longrightarrow> to_lower n = n" by blast
  then show ?thesis by (auto simp: find_encoding_def split: option.splits)
qed

text \<open>
  \<open>isEncoding\<close> accepts the names that \<open>write\<close> and \<open>toString\<close> know, in any case, and
  one more: \<open>raw\<close>, which both refuse with a \<open>TypeError\<close>.
\<close>

theorem isEncoding_names:
  "(isEncoding n \<longleftrightarrow> (case find_encoding n of Some _ \<Rightarrow> True | None \<Rightarrow> to_lower n = js ''raw'')) \<and>
   (isEncoding (js ''raw'') \<and> toString [1] (js ''raw'') Undef Undef = Inl (TypeError ''Unknown encoding'') \<and>
    buffer_write sample_heap sample [65] (StrArg (js ''raw'')) Absent Absent
      = (Inl (TypeError ''Unknown encoding''), sample_heap))"
proof -
  have "find_encoding (js ''raw'') = None"
    by (simp add: find_encoding_def encoding_case_def js_inj) (simp add: js_def to_lower_def lower_unit_def)
  moreover have "to_lower (js ''raw'') = js ''raw''" by (simp add: js_def to_lower_def lower_unit_def)
  moreover have "js ''raw'' \<noteq> []" by (simp add: js_def)
  moreover have "isEncoding m \<longleftrightarrow> find_encoding m \<noteq> None \<or> to_lower m = js ''raw''" for m
    unfolding find_encoding_lower by (auto simp: isEncoding_def encoding_case_def)
  ultimately show ?thesis
    by (simp add: toString_def slowToString_def buffer_write_def write_args_def encoding_arg_def
        split: option.splits)
qed

text \<open>
  A length of 0 means the whole remainder to \<open>hexWrite\<close> (\<open>if (!length)\<close>), so a
  hexadecimal write that asks for no octets stores them all, where the other encodings store none.
\<close>

theorem zero_length_write:
  assumes "wf_buffer h b" "k + length bs \<le> b_len b"
  shows "hexWrite h b (concat (map toHex bs)) (int k) (JInt 0) = (Inr (length bs), put_octets h b k bs) \<and>
    asciiWrite h b s (int k) (JInt 0) = (0, h) \<and> utf8Write h b s (int k) (JInt 0) = (0, h) \<and>
    ucs2Write h b s (int k) (JInt 0) = (0, h)"
proof -
  have z: "blitBuffer h src b (int k) (JInt 0) 0 = (0, h)" for src by (cases src) simp_all
  have "hexWrite_loop h b (concat (map toHex bs)) (int k) 0 (length bs) = (Inr (length bs), put_octets h b k bs)"
    using hexWrite_loop_octets [of h b k 0 bs _ "[]"] assms by simp
  moreover have "\<not> int (length bs) < int (b_len b) - int k \<Longrightarrow> nat (int (b_len b) - int k) = length bs"
    using assms(2) by simp
  ultimately show ?thesis using z assms(2)
    by (auto simp: hexWrite_def length_hex Let_def asciiWrite_def utf8Write_def ucs2Write_def)
qed

theorem zero_length_write_witness:
  "hexWrite sample_heap sample (concat (map toHex [0xAB, 0xCD])) 3 (JInt 0)
     = (Inr 2, put_octets sample_heap sample 3 [0xAB, 0xCD])"
  using zero_length_write [of sample_heap sample 3 "[0xAB, 0xCD]"] by simp

text \<open>The positions a search may answer.\<close>

definition matches_at :: "octet list \<Rightarrow> jnum list \<Rightarrow> nat \<Rightarrow> bool" where
  "matches_at arr val p \<longleftrightarrow> p + length val \<le> length arr \<and>
     (\<forall>j < length val. JInt (uint (arr ! (p + j))) = val ! j)"

lemma arrayIndexOf_loop_sound:
  assumes "arrayIndexOf_loop arr val off i found n = int p" "off + i + n = length arr" "val \<noteq> []"
    "\<forall>f. found = Some f \<longrightarrow> f < i \<and> i - f < length val \<and>
      (\<forall>j < i - f. JInt (uint (arr ! (off + f + j))) = val ! j)"
  shows "matches_at arr val p \<and> off \<le> p"
  using assms
proof (induction n arbitrary: i found)
  case (Suc n)
  define k where "k = (case found of None \<Rightarrow> 0 | Some f \<Rightarrow> i - f)"
  define f where "f = (case found of None \<Rightarrow> i | Some f \<Rightarrow> f)"
  have fk: "f \<le> i" "i - f = k" "k < length val"
    "\<forall>j < k. JInt (uint (arr ! (off + f + j))) = val ! j"
    using Suc.prems(3,4) by (auto simp: f_def k_def split: option.splits)
  show ?case
  proof (cases "JInt (uint (arr ! (off + i))) = val ! k")
    case False
    then have "arrayIndexOf_loop arr val off (Suc i) None n = int p"
      using Suc.prems(1) by (simp add: Let_def k_def)
    then show ?thesis using Suc.IH [of "Suc i" None] Suc.prems by simp
  next
    case True
    then have hit: "\<forall>j < Suc k. JInt (uint (arr ! (off + f + j))) = val ! j"
      using fk by (auto simp: less_Suc_eq)
    show ?thesis
    proof (cases "k + 1 = length val")
      case True': True
      then have "int p = int (off + f)"
        using Suc.prems(1) True fk by (simp add: Let_def flip: k_def f_def)
      then have p: "p = off + f" by simp
      show ?thesis using hit True' fk Suc.prems(2) by (auto simp: matches_at_def p)
    next
      case False
      then have "arrayIndexOf_loop arr val off (Suc i) (Some f) n = int p"
        using Suc.prems(1) True fk by (simp add: Let_def flip: k_def f_def)
      moreover have "Suc i - f = Suc k" using fk by simp
      ultimately show ?thesis using Suc.IH [of "Suc i" "Some f"] Suc.prems(2,3) fk hit False by simp
    qed
  qed
qed simp

lemma arrayIndexOf_loop_range:
  "arrayIndexOf_loop arr val off i found n = -1 \<or> (\<exists>p. arrayIndexOf_loop arr val off i found n = int p)"
  by (induction n arbitrary: i found) (auto simp: Let_def simp flip: of_nat_add)

text \<open>
  \<open>indexOf\<close> of a buffer or a byte is sound: an answer that is not -1 is a position, not
  before the offset asked for, at which the pattern occurs.
\<close>

theorem indexOf_sound:
  assumes "arrayIndexOf arr val off = r" "val \<noteq> []" "off \<le> length arr" "r \<noteq> -1"
  shows "\<exists>p. r = int p \<and> off \<le> p \<and> matches_at arr val p"
proof -
  obtain p where "r = int p"
    using arrayIndexOf_loop_range [of arr val off 0 None "length arr - off"] assms by (auto simp: arrayIndexOf_def)
  then show ?thesis
    using arrayIndexOf_loop_sound [of arr val off 0 None "length arr - off" p] assms
    by (auto simp: arrayIndexOf_def)
qed

theorem indexOf_sound_witness:
  "\<exists>p. arrayIndexOf [5, 7, 8, 6] [JInt 7, JInt 8] 1 = int p \<and> 1 \<le> p \<and>
     matches_at [5, 7, 8, 6] [JInt 7, JInt 8] p"
proof -
  have "arrayIndexOf [5, 7, 8, 6] [JInt 7, JInt 8] 1 = 1"
    using numeral_3_eq_3 by (simp add: arrayIndexOf_def Let_def)
  then show ?thesis by (intro indexOf_sound) simp_all
qed

text \<open>
  \<open>indexOf\<close> of a buffer is not complete: after a partial match fails, the octet that broke
  it is not tried as a new beginning, so the pattern 1 1 2 is not found in 1 1 1 2, where it occurs
  at position 1.
\<close>

theorem indexOf_misses:
  "arrayIndexOf [1, 1, 1, 2] [JInt 1, JInt 1, JInt 2] 0 = -1 \<and>
   matches_at [1, 1, 1, 2] [JInt 1, JInt 1, JInt 2] 1"
  by (auto simp: arrayIndexOf_def matches_at_def Let_def numeral_eq_Suc less_Suc_eq)

lemma arrayIndexOf_byte_loop:
  assumes "off + i + n = length arr" "arrayIndexOf_loop arr [x] off i None n = r"
  shows "r = -1 \<and> (\<forall>p. off + i \<le> p \<and> p < length arr \<longrightarrow> JInt (uint (arr ! p)) \<noteq> x) \<or>
    (\<exists>p. r = int p \<and> off + i \<le> p \<and> p < length arr \<and> JInt (uint (arr ! p)) = x \<and>
      (\<forall>q. off + i \<le> q \<and> q < p \<longrightarrow> JInt (uint (arr ! q)) \<noteq> x))"
  using assms
proof (induction n arbitrary: i)
  case (Suc n)
  show ?case
  proof (cases "JInt (uint (arr ! (off + i))) = x")
    case True
    then show ?thesis using Suc.prems by (intro disjI2 exI [of _ "off + i"]) (auto simp: Let_def)
  next
    case False
    then have later: "arrayIndexOf_loop arr [x] off (Suc i) None n = r"
      using Suc.prems(2) by (simp add: Let_def)
    have step: "off + i \<le> q \<longleftrightarrow> q = off + i \<or> off + Suc i \<le> q" for q by auto
    show ?thesis using Suc.IH [OF _ later] Suc.prems(1) False unfolding step by auto
  qed
qed auto

text \<open>
  \<open>indexOf\<close> of a single byte is exact: it answers -1 if no position from the offset on
  holds the byte, and else the first one that does.
\<close>

theorem indexOf_byte:
  assumes "off \<le> length arr"
  shows "arrayIndexOf arr [x] off = -1 \<and> (\<forall>p. off \<le> p \<and> p < length arr \<longrightarrow> JInt (uint (arr ! p)) \<noteq> x) \<or>
    (\<exists>p. arrayIndexOf arr [x] off = int p \<and> off \<le> p \<and> p < length arr \<and> JInt (uint (arr ! p)) = x \<and>
      (\<forall>q. off \<le> q \<and> q < p \<longrightarrow> JInt (uint (arr ! q)) \<noteq> x))"
  using arrayIndexOf_byte_loop [of off 0 "length arr - off" arr x] assms by (simp add: arrayIndexOf_def)

theorem indexOf_byte_witness:
  "arrayIndexOf [5, 6] [JInt 6] 2 = -1"
  using indexOf_byte [of 2 "[5, 6]" "JInt 6"] by auto

lemma fill_loop_octets:
  assumes "wf_buffer h b" "i + n \<le> b_len b"
  shows "fill_loop h b value i n = put_octets h b i (map (\<lambda>j. to_uint8 (value j)) [i..<i + n])"
  using assms
proof (induction n arbitrary: h i)
  case 0
  then show ?case by (simp add: put_octets_Nil)
next
  case (Suc n)
  have "[i..<i + Suc n] = i # [Suc i..<Suc i + n]" by (simp add: upt_rec)
  then show ?case
    using Suc.prems Suc.IH [of "set_octet h b i (to_uint8 (value i))" "Suc i"]
    by (simp add: put_octets_Cons)
qed

text \<open>
  \<open>fill\<close>: with bounds inside the buffer and a non-empty range, a number fills the range with
  its low octet, and a non-empty string repeats its UTF-8 octets, in phase with position 0 of the
  buffer rather than with the start of the range; nothing outside the range changes.
\<close>

theorem fill_range:
  assumes "wf_buffer h b" "s < e" "e \<le> b_len b"
  shows "fill h b (NumFill x) (int s) (int e) = Inr (True, put_octets h b s (replicate (e - s) (to_uint8 x))) \<and>
    (str \<noteq> [] \<longrightarrow> fill h b (StrFill str) (int s) (int e) = Inr (True, put_octets h b s
       (map (\<lambda>i. utf8ToBytes str None ! (i mod length (utf8ToBytes str None))) [s..<e])))"
proof -
  have n: "nat (int e - int s) = e - s" "s + (e - s) = e" using assms(2) by simp_all
  have zero: "to_uint8 (if num_truthy x then x else JInt 0) = to_uint8 x"
    by (cases x) (simp_all add: num_truthy_def)
  show ?thesis
    using assms fill_loop_octets [of h b s "e - s"] zero
    by (simp add: fill_def n Let_def map_replicate_const del: of_int_0)
qed

theorem fill_range_witness:
  "fill sample_heap sample (NumFill (JInt 7)) 2 5 = Inr (True, put_octets sample_heap sample 2 [7, 7, 7])"
  using fill_range [of sample_heap sample 2 5 "JInt 7"] by (simp add: numeral_3_eq_3)

text \<open>
  \<open>fill\<close> returns the buffer only when it had something to fill: an empty range, or an empty
  buffer, gives \<open>undefined\<close>; and it throws exactly on a reversed range or one that leaves a
  non-empty buffer.
\<close>

theorem fill_outcomes:
  "(fill h b v s e = Inr (False, h) \<longleftrightarrow>
     (let e' = (if e = 0 then int (b_len b) else e) in e' = s \<or> s \<le> e' \<and> b_len b = 0)) \<and>
   ((\<exists>x. fill h b v s e = Inl x) \<longleftrightarrow>
     (let e' = (if e = 0 then int (b_len b) else e) in
       e' < s \<or> e' \<noteq> s \<and> b_len b \<noteq> 0 \<and> (s < 0 \<or> int (b_len b) \<le> s \<or> int (b_len b) < e')))"
  by (auto simp: fill_def Let_def)

lemma js_or_minus_one: "js_or x (JInt (- 1)) = JInt (- 1)"
  by (simp add: js_or_def)

lemma replicate_3: "replicate 3 x = [x, x, x]"
  by (simp add: eval_nat_numeral)

lemma decode_pad: "decode [61] = JInt (- 4)"
  by (simp add: decode_def char_code_at_def)

lemma quads_ABC: "quads (js ''QUJD'') = [65, 66, 67]"
proof -
  have "uint8ToBase64 [65, 66, 67] = js ''QUJD''"
    by (simp add: tripletToBase64_JInt js_arith lookup_def js_def)
  then show ?thesis using pushed_uint8ToBase64 [of "[65, 66, 67]"]
    by (simp add: pushed_def placeHolders_def char_at_def js_def b64_tail_def)
qed

text \<open>
  A base64 text with one letter too many is not cut: the letter is padded to a group of its own,
  which decodes to the octet 255 whatever the letter is.
\<close>

theorem base64_single_letter:
  assumes "base64_char c"
  shows "base64ToBytes (js ''QUJD'' @ [c]) = Inr [65, 66, 67, 255]"
proof -
  have "\<not> is_space c"
  proof
    assume "is_space c"
    then have "code c \<in> {9, 10, 11, 12, 13, 32, 160} \<or> 0x1680 \<le> code c"
      unfolding is_space_def by (elim disjE insertE emptyE conjE) simp_all
    then show False using assms by (auto simp: base64_char_def)
  qed
  moreover have sp: "\<forall>x \<in> set (js ''QUJD''). \<not> is_space x \<and> base64_char x"
    by (simp add: js_def is_space_def base64_char_def)
  ultimately have "trim (js ''QUJD'' @ [c]) = js ''QUJD'' @ [c]" by (intro trim_id) auto
  moreover have "filter base64_char (js ''QUJD'' @ [c]) = js ''QUJD'' @ [c]"
    using assms sp by (intro filter_True) auto
  ultimately have clean: "base64clean (js ''QUJD'' @ [c]) = js ''QUJD'' @ [c, 61, 61, 61]"
    by (simp add: base64clean_def pad4_def Let_def replicate_3)
  have "b64_tail (js ''QUJD'' @ [c, 61, 61, 61]) 2 (Suc (Suc (Suc (Suc 0)))) = [255]"
    by (simp add: b64_tail_def char_at_def js_def decode_pad js_sar_def js_or_minus_one js_and_def Let_def)
  moreover have "take 4 (js ''QUJD'' @ [c, 61, 61, 61]) = js ''QUJD''" by (simp add: js_def)
  moreover have "placeHolders (js ''QUJD'' @ [c, 61, 61, 61]) = 2"
    by (simp add: placeHolders_def char_at_def js_def)
  moreover have "length (js ''QUJD'' @ [c, 61, 61, 61]) = 8" by simp
  ultimately have "b64ToByteArray (js ''QUJD'' @ [c, 61, 61, 61]) = Inr (filled (8 * 3 div 4 - 2) ([65, 66, 67] @ [255]))"
    unfolding b64ToByteArray_def Let_def quads_ABC [symmetric] by simp
  then show ?thesis unfolding base64ToBytes_def clean by (simp add: filled_def)
qed

theorem base64_single_letter_witness: "base64ToBytes (js ''QUJDx'') = Inr [65, 66, 67, 255]"
  using base64_single_letter [of 120] by (simp add: base64_char_def js_def)

end
