(* ===== verification/JsValue.thy ===== *)
theory JsValue
  imports Utf8 "HOL-Library.AList"
begin

text \<open>
  The values the swagger client handles: what \<open>JSON.parse\<close> makes of a specification and what
  a caller passes as arguments.  An object is the list of its own enumerable properties in
  the order they were added, which is the order \<open>for (key in obj)\<close> visits them (a property
  whose name is an array index would come first in JavaScript; the client's objects are keyed
  by the names of parameters and headers).  Numbers are the integers that print without an
  exponent.  \<open>VFile\<close> is a \<open>File\<close> with its name, \<open>VForm\<close> the entries of a \<open>FormData\<close>; a function is
  known by its identity only.
\<close>

datatype json = VUndef | VNull | VBool bool | VNum int | VStr jstr | VArr "json list"
  | VObj "(jstr \<times> json) list" | VFile jstr | VForm "(jstr \<times> json) list" | VFun nat

type_synonym fields = "(jstr \<times> json) list"

section \<open>Properties of objects\<close>

definition lookup_field :: "fields \<Rightarrow> jstr \<Rightarrow> json" where
  "lookup_field m k = (case map_of m k of Some v \<Rightarrow> v | None \<Rightarrow> VUndef)"

abbreviation set_field :: "fields \<Rightarrow> jstr \<Rightarrow> json \<Rightarrow> fields" where
  "set_field m k v \<equiv> AList.update k v m"

abbreviation delete_field :: "fields \<Rightarrow> jstr \<Rightarrow> fields" where
  "delete_field m k \<equiv> AList.delete k m"

text \<open>The property \<open>k\<close> of a value; a primitive has none of those the client reads.\<close>

fun get :: "json \<Rightarrow> jstr \<Rightarrow> json" where
  "get (VObj m) k = lookup_field m k"
| "get (VFile n) k = (if k = js ''name'' then VStr n else VUndef)"
| "get v k = VUndef"

abbreviation fld :: "json \<Rightarrow> string \<Rightarrow> json" where
  "fld v k \<equiv> get v (js k)"

fun put :: "json \<Rightarrow> jstr \<Rightarrow> json \<Rightarrow> json" where
  "put (VObj m) k v = VObj (set_field m k v)"
| "put w k v = w"

fun fields_of :: "json \<Rightarrow> fields" where
  "fields_of (VObj m) = m"
| "fields_of v = []"

fun items_of :: "json \<Rightarrow> json list" where
  "items_of (VArr vs) = vs"
| "items_of v = []"

section \<open>Conversions\<close>

fun truthy :: "json \<Rightarrow> bool" where
  "truthy VUndef = False"
| "truthy VNull = False"
| "truthy (VBool b) = b"
| "truthy (VNum n) = (n \<noteq> 0)"
| "truthy (VStr s) = (s \<noteq> [])"
| "truthy v = True"

text \<open>\<open>a || b\<close>.\<close>

definition orElse :: "json \<Rightarrow> json \<Rightarrow> json" where
  "orElse a b = (if truthy a then a else b)"

fun is_array :: "json \<Rightarrow> bool" where
  "is_array (VArr vs) = True"
| "is_array v = False"

text \<open>\<open>typeof v === 'string'\<close>, and lodash's \<open>isObject\<close>.\<close>

fun is_string :: "json \<Rightarrow> bool" where
  "is_string (VStr s) = True"
| "is_string v = False"

fun is_object :: "json \<Rightarrow> bool" where
  "is_object (VArr vs) = True"
| "is_object (VObj m) = True"
| "is_object (VFile n) = True"
| "is_object (VForm m) = True"
| "is_object (VFun i) = True"
| "is_object v = False"

text \<open>\<open>===\<close>; two objects that come from different places of the input are different.\<close>

definition strict_eq :: "json \<Rightarrow> json \<Rightarrow> bool" where
  "strict_eq a b \<longleftrightarrow> a = b \<and> \<not> is_object a"

fun nat_digits :: "nat \<Rightarrow> jstr" where
  "nat_digits n = (if n < 10 then [of_nat (48 + n)] else nat_digits (n div 10) @ [of_nat (48 + n mod 10)])"

declare nat_digits.simps [simp del]

definition int_digits :: "int \<Rightarrow> jstr" where
  "int_digits i = (if i < 0 then 45 # nat_digits (nat (- i)) else nat_digits (nat i))"

fun join :: "jstr \<Rightarrow> jstr list \<Rightarrow> jstr" where
  "join sep [] = []"
| "join sep [x] = x"
| "join sep (x # y # xs) = x @ sep @ join sep (y # xs)"

text \<open>\<open>String(v)\<close>, which \<open>+\<close> with a string applies; an array joins its elements.\<close>

fun to_str :: "json \<Rightarrow> jstr" where
  "to_str VUndef = js ''undefined''"
| "to_str VNull = js ''null''"
| "to_str (VBool b) = js (if b then ''true'' else ''false'')"
| "to_str (VNum n) = int_digits n"
| "to_str (VStr s) = s"
| "to_str (VArr vs) = join (js '','') (map (\<lambda>v. if v = VUndef \<or> v = VNull then [] else to_str v) vs)"
| "to_str (VObj m) = js ''[object Object]''"
| "to_str (VFile n) = js ''[object File]''"
| "to_str (VForm m) = js ''[object FormData]''"
| "to_str (VFun i) = js ''function''"

section \<open>Searching\<close>

text \<open>\<open>s.indexOf(p) === 0\<close>, \<open>s.indexOf(p) >= 0\<close> and \<open>s.replace(p, r)\<close> with a string \<open>p\<close>.\<close>

fun has_infix :: "jstr \<Rightarrow> jstr \<Rightarrow> bool" where
  "has_infix p [] = (p = [])"
| "has_infix p (c # s) = (starts_with p (c # s) \<or> has_infix p s)"

fun replace_first :: "jstr \<Rightarrow> jstr \<Rightarrow> jstr \<Rightarrow> jstr" where
  "replace_first p r [] = (if p = [] then r else [])"
| "replace_first p r (c # s) =
    (if starts_with p (c # s) then r @ drop (length p) (c # s) else c # replace_first p r s)"

text \<open>\<open>s.split(sep)\<close> with a separator of one code unit.\<close>

fun split_at :: "16 word \<Rightarrow> jstr \<Rightarrow> jstr list" where
  "split_at sep [] = [[]]"
| "split_at sep (c # s) = (case split_at sep s of
      [] \<Rightarrow> [[c]]
    | part # parts \<Rightarrow> if c = sep then [] # part # parts else (c # part) # parts)"

section \<open>Exceptions and iteration\<close>

text \<open>\<open>v.k\<close>, which throws if \<open>v\<close> is \<open>undefined\<close> or \<open>null\<close>.\<close>

definition not_object :: jserr where
  "not_object = TypeError ''Cannot read properties of undefined''"

definition not_function :: jserr where
  "not_function = TypeError ''is not a function''"

definition present_value :: "json \<Rightarrow> jserr + json" where
  "present_value v = (if v = VUndef \<or> v = VNull then Inl not_object else Inr v)"

text \<open>The receiver of a method only strings have.\<close>

definition as_string :: "json \<Rightarrow> jserr + jstr" where
  "as_string v = (case v of VStr s \<Rightarrow> Inr s | VUndef \<Rightarrow> Inl not_object | VNull \<Rightarrow> Inl not_object
     | _ \<Rightarrow> Inl not_function)"

text \<open>What \<open>for (key in v)\<close> visits.\<close>

fun for_in :: "json \<Rightarrow> fields" where
  "for_in (VObj m) = m"
| "for_in (VArr vs) = map (\<lambda>(i, v). (nat_digits i, v)) (enumerate 0 vs)"
| "for_in (VStr s) = map (\<lambda>(i, c). (nat_digits i, VStr [c])) (enumerate 0 s)"
| "for_in v = []"

definition set_if :: "string \<Rightarrow> json \<Rightarrow> fields \<Rightarrow> fields" where
  "set_if k v m = (if truthy v then set_field m (js k) v else m)"

fun map_until :: "('a \<Rightarrow> jserr + 'b) \<Rightarrow> 'a list \<Rightarrow> jserr + 'b list" where
  "map_until f [] = Inr []"
| "map_until f (x # xs) = bindE (f x) (\<lambda>y. bindE (map_until f xs) (\<lambda>ys. Inr (y # ys)))"

lemma map_until_cong [fundef_cong]:
  "xs = ys \<Longrightarrow> (\<And>x. x \<in> set ys \<Longrightarrow> f x = g x) \<Longrightarrow> map_until f xs = map_until g ys"
  by (induction ys arbitrary: xs) simp_all

lemma map_until_Inr: "map_until f xs = Inr ys \<longleftrightarrow> list_all2 (\<lambda>x y. f x = Inr y) xs ys"
  by (induction xs arbitrary: ys) (auto simp: bindE_eq_Inr list_all2_Cons1)

section \<open>Rules\<close>

lemma unit_of_char_eq_iff: "(of_char c :: 16 word) = of_char d \<longleftrightarrow> c = d"
proof
  have nat: "unat (of_char e :: 16 word) = of_char e" for e
  proof -
    have "(of_char e :: 16 word) = of_nat (of_char e)" by (rule of_nat_of_char [symmetric])
    moreover have "of_char e < (65536 :: nat)" using nat_of_char_less_256 [of e] by linarith
    ultimately show ?thesis by (simp only: unat_of_nat) simp
  qed
  assume "(of_char c :: 16 word) = of_char d"
  then have "(of_char c :: nat) = of_char d" by (metis nat)
  then show "c = d" by simp
qed simp

lemma js_eq_iff [simp]: "js s = js t \<longleftrightarrow> s = t"
  by (simp add: js_def inj_map_eq_map inj_def unit_of_char_eq_iff)

lemma js_eq_Nil [simp]: "js s = [] \<longleftrightarrow> s = []" "[] = js s \<longleftrightarrow> s = []"
  by (auto simp: js_def)

lemma lookup_Nil [simp]: "lookup_field [] k = VUndef"
  by (simp add: lookup_field_def)

lemma lookup_Cons [simp]: "lookup_field ((k', v) # m) k = (if k' = k then v else lookup_field m k)"
  by (simp add: lookup_field_def)

lemma lookup_set [simp]: "lookup_field (set_field m k v) k' = (if k' = k then v else lookup_field m k')"
  by (simp add: lookup_field_def update_conv')

lemma lookup_delete [simp]:
  "lookup_field (delete_field m k) k' = (if k' = k then VUndef else lookup_field m k')"
  by (simp add: lookup_field_def delete_conv')

lemma get_put [simp]: "is_object v \<Longrightarrow> get (put (VObj m) k v) k' = (if k' = k then v else get (VObj m) k')"
  by simp

lemma split_not_Nil [simp]: "split_at c s \<noteq> []"
  by (induction s) (auto split: list.splits)

lemma split_join: "join [c] (split_at c s) = s"
proof (induction s)
  case (Cons d s)
  obtain p ps where "split_at c s = p # ps" by (cases "split_at c s") auto
  then show ?case using Cons by (cases ps) auto
qed simp

lemma split_plain: "c \<notin> set s \<Longrightarrow> split_at c s = [s]"
  by (induction s) auto

lemma split_append: "c \<notin> set s \<Longrightarrow> split_at c (s @ c # t) = s # split_at c t"
proof (induction s)
  case Nil
  show ?case by (cases "split_at c t") auto
qed (auto split: list.splits)

lemma split_join_plain:
  "ss \<noteq> [] \<Longrightarrow> \<forall>s \<in> set ss. c \<notin> set s \<Longrightarrow> split_at c (join [c] ss) = ss"
proof (induction ss rule: join.induct [of "\<lambda>_ ss. _ ss" "[c]"])
  case (3 x y xs)
  then show ?case by (simp add: split_append)
qed (auto simp: split_plain)

end
