(* ===== verification/CookieJar.thy ===== *)
theory CookieJar
  imports JsValue
begin

text \<open>
  The module \<open>cookiejar\<close>: cookies, the conditions under which one is sent, and the jar the
  client keeps them in.  \<open>Date.parse\<close>, \<open>Date.now\<close> and \<open>toGMTString\<close> are arguments.
\<close>

section \<open>Cookies\<close>

record access_info =
  ai_domain :: json
  ai_path :: jstr
  ai_secure :: bool
  ai_script :: bool

definition CookieAccessInfo :: "json \<Rightarrow> json \<Rightarrow> json \<Rightarrow> json \<Rightarrow> access_info" where
  "CookieAccessInfo domain path secure script =
    \<lparr>ai_domain = orElse domain VUndef, ai_path = to_str (orElse path (VStr (js ''/''))),
     ai_secure = truthy secure, ai_script = truthy script\<rparr>"

record cookie =
  c_name :: json
  c_value :: json
  expiration_date :: jnum
  c_path :: jstr
  explicit_path :: bool
  c_domain :: json
  explicit_domain :: bool
  c_secure :: bool
  noscript :: bool

text \<open>What \<open>setCookie\<close> accepts: a \<open>Cookie\<close> or the text of one.\<close>

datatype cookie_arg = CookieObj cookie | CookieStr jstr

text \<open>The cookie before its text is parsed.\<close>

definition blank_cookie :: "json \<Rightarrow> json \<Rightarrow> cookie" where
  "blank_cookie request_domain request_path =
    \<lparr>c_name = VNull, c_value = VNull, expiration_date = PInf,
     c_path = to_str (orElse request_path (VStr (js ''/''))), explicit_path = False,
     c_domain = orElse request_domain VNull, explicit_domain = False, c_secure = False, noscript = False\<rparr>"

text \<open>
  \<open>match(/([^=]+)=([\s\S]*)/)\<close> and \<open>match(/([^=]+)(?:=([\s\S]*))?/)\<close>: the leading equals
  signs are skipped, the key ends before the next one.
\<close>

definition match_key :: "jstr \<Rightarrow> (jstr \<times> json) option" where
  "match_key s =
    (let r = dropWhile (\<lambda>c. c = 61) s; key = takeWhile (\<lambda>c. c \<noteq> 61) r; rest = dropWhile (\<lambda>c. c \<noteq> 61) r
     in if key = [] then None
        else Some (key, case rest of [] \<Rightarrow> VUndef | c # v \<Rightarrow> VStr v))"

definition match_pair :: "jstr \<Rightarrow> (jstr \<times> json) option" where
  "match_pair s = (case match_key s of Some (k, VStr v) \<Rightarrow> Some (k, VStr v) | _ \<Rightarrow> None)"

definition no_match :: "jserr + 'a" where
  "no_match = Inl (TypeError ''Cannot read properties of null'')"

text \<open>The \<open>switch\<close> over the attributes.\<close>

definition trimmed :: "json \<Rightarrow> jstr" where
  "trimmed value = (if truthy value then trim (to_str value) else [])"

definition set_attribute :: "(jstr \<Rightarrow> jnum) \<Rightarrow> cookie \<Rightarrow> jstr \<Rightarrow> json \<Rightarrow> cookie" where
  "set_attribute date_parse c key value =
    (if key = js ''httponly'' then c\<lparr>noscript := True\<rparr>
     else if key = js ''expires'' then
       c\<lparr>expiration_date := (if truthy value then to_number (date_parse (to_str value)) else PInf)\<rparr>
     else if key = js ''path'' then c\<lparr>c_path := trimmed value, explicit_path := True\<rparr>
     else if key = js ''domain'' then
       c\<lparr>c_domain := VStr (trimmed value), explicit_domain := truthy (VStr (trimmed value))\<rparr>
     else if key = js ''secure'' then c\<lparr>c_secure := True\<rparr>
     else c)"

fun parse_attributes :: "(jstr \<Rightarrow> jnum) \<Rightarrow> jstr list \<Rightarrow> cookie \<Rightarrow> jserr + cookie" where
  "parse_attributes date_parse [] c = Inr c"
| "parse_attributes date_parse (part # parts) c =
    (case match_key part of
       None \<Rightarrow> no_match
     | Some (key, value) \<Rightarrow>
         parse_attributes date_parse parts (set_attribute date_parse c (to_lower (trim key)) value))"

definition parse :: "(jstr \<Rightarrow> jnum) \<Rightarrow> jstr \<Rightarrow> json \<Rightarrow> json \<Rightarrow> cookie \<Rightarrow> jserr + cookie" where
  "parse date_parse str request_domain request_path this =
    (case [p \<leftarrow> split_at 59 str. p \<noteq> []] of
       [] \<Rightarrow> Inl (TypeError ''Cannot read properties of undefined'')
     | part # parts \<Rightarrow> (case match_pair part of
         None \<Rightarrow> no_match
       | Some (key, value) \<Rightarrow>
           bindE (parse_attributes date_parse parts (this\<lparr>c_name := VStr key, c_value := value\<rparr>)) (\<lambda>c.
             let c = (if \<not> explicit_path c then c\<lparr>c_path := to_str (orElse request_path (VStr (js ''/'')))\<rparr> else c);
                 c = (if \<not> explicit_domain c then c\<lparr>c_domain := request_domain\<rparr> else c)
             in Inr c)))"

fun Cookie :: "(jstr \<Rightarrow> jnum) \<Rightarrow> cookie_arg \<Rightarrow> json \<Rightarrow> json \<Rightarrow> jserr + cookie" where
  "Cookie date_parse (CookieObj c) request_domain request_path = Inr c"
| "Cookie date_parse (CookieStr s) request_domain request_path =
    (let c = blank_cookie request_domain request_path
     in if s = [] then Inr c else parse date_parse s request_domain request_path c)"

definition toValueString :: "cookie \<Rightarrow> jstr" where
  "toValueString c = to_str (c_name c) @ js ''='' @ to_str (c_value c)"

definition toString :: "(jnum \<Rightarrow> jstr) \<Rightarrow> cookie \<Rightarrow> jstr" where
  "toString gmt c = join (js ''; '')
    ([toValueString c]
     @ (if expiration_date c \<noteq> PInf then [js ''expires='' @ gmt (expiration_date c)] else [])
     @ (if truthy (c_domain c) then [js ''domain='' @ to_str (c_domain c)] else [])
     @ (if c_path c \<noteq> [] then [js ''path='' @ c_path c] else [])
     @ (if c_secure c then [js ''secure''] else [])
     @ (if noscript c then [js ''httponly''] else []))"

section \<open>Matching\<close>

text \<open>\<open>domain && domain.replace(/^[\.]/, '')\<close>.\<close>

definition undotted :: "json \<Rightarrow> json" where
  "undotted d = (if truthy d then
      VStr (case to_str d of [] \<Rightarrow> [] | c # r \<Rightarrow> if c = 46 then r else c # r) else d)"

definition collidesWith :: "cookie \<Rightarrow> json \<Rightarrow> jstr \<Rightarrow> bool" where
  "collidesWith this access_domain access_path =
    (if (c_path this \<noteq> [] \<and> access_path = []) \<or> (truthy (c_domain this) \<and> \<not> truthy access_domain) then False
     else if c_path this \<noteq> [] \<and> index_of access_path (c_path this) \<noteq> 0 then False
     else if explicit_path this \<and> index_of access_path (c_path this) \<noteq> 0 then False
     else
       let access_domain = undotted access_domain; cookie_domain = undotted (c_domain this)
       in if cookie_domain = access_domain then True
          else if truthy cookie_domain then
            (if \<not> explicit_domain this then False
             else
               let wildcard = index_of (to_str access_domain) (to_str cookie_domain)
               in \<not> (wildcard = -1 \<or>
                    wildcard \<noteq> int (length (to_str access_domain)) - int (length (to_str cookie_domain))))
          else True)"

definition matches :: "cookie \<Rightarrow> access_info \<Rightarrow> bool" where
  "matches this access =
    (if noscript this \<and> ai_script access \<or> c_secure this \<and> \<not> ai_secure access
        \<or> \<not> collidesWith this (ai_domain access) (ai_path access)
     then False else True)"

section \<open>The jar\<close>

text \<open>The cookies by name, in the order the names came up.\<close>

type_synonym jar = "(jstr \<times> cookie list) list"

abbreviation put_list :: "jar \<Rightarrow> jstr \<Rightarrow> cookie list \<Rightarrow> jar" where
  "put_list j n cs \<equiv> AList.update n cs j"

abbreviation delete_list :: "jar \<Rightarrow> jstr \<Rightarrow> jar" where
  "delete_list j n \<equiv> AList.delete n j"

text \<open>\<open>false\<close>, the cookie, or the new list of one cookie.\<close>

datatype set_result = Refused | StoredOne cookie | StoredList "cookie list"

definition stored :: "set_result \<Rightarrow> bool" where
  "stored r \<longleftrightarrow> r \<noteq> Refused"

text \<open>The position of the first cookie of the list the new one collides with.\<close>

fun collision :: "cookie \<Rightarrow> cookie list \<Rightarrow> nat option" where
  "collision c [] = None"
| "collision c (d # ds) = (if collidesWith d (c_domain c) (c_path c) then Some 0 else map_option Suc (collision c ds))"

definition expired :: "jnum \<Rightarrow> cookie \<Rightarrow> bool" where
  "expired now c = js_ge now (expiration_date c)"

definition setCookie1 :: "jnum \<Rightarrow> jar \<Rightarrow> cookie \<Rightarrow> jar \<times> set_result" where
  "setCookie1 now cookies cookie =
    (let remove = expired now cookie; n = to_str (c_name cookie) in
     case map_of cookies n of
       Some cookies_list \<Rightarrow> (case collision cookie cookies_list of
           Some i \<Rightarrow>
             if remove then
               (let rest = take i cookies_list @ drop (Suc i) cookies_list
                in (if rest = [] then delete_list cookies n else put_list cookies n rest, Refused))
             else (put_list cookies n (cookies_list[i := cookie]), StoredOne cookie)
         | None \<Rightarrow>
             if remove then (cookies, Refused)
             else (put_list cookies n (cookies_list @ [cookie]), StoredOne cookie))
     | None \<Rightarrow>
         if remove then (cookies, Refused)
         else (put_list cookies n [cookie], StoredList [cookie]))"

definition setCookie ::
  "(jstr \<Rightarrow> jnum) \<Rightarrow> jnum \<Rightarrow> jar \<Rightarrow> cookie_arg \<Rightarrow> json \<Rightarrow> json \<Rightarrow> jserr + jar \<times> set_result" where
  "setCookie date_parse now cookies cookie request_domain request_path =
    bindE (Cookie date_parse cookie request_domain request_path) (\<lambda>c. Inr (setCookie1 now cookies c))"

text \<open>
  The loop of \<open>getCookie\<close>: an expired cookie is passed over (the test \<open>cookies_list.length === 0\<close>
  beside it is never true inside the loop).
\<close>

fun find_cookie :: "jnum \<Rightarrow> access_info \<Rightarrow> cookie list \<Rightarrow> cookie option" where
  "find_cookie now access [] = None"
| "find_cookie now access (c # cs) =
    (if expired now c then find_cookie now access cs
     else if matches c access then Some c
     else find_cookie now access cs)"

definition getCookie :: "jnum \<Rightarrow> jar \<Rightarrow> jstr \<Rightarrow> access_info \<Rightarrow> cookie option" where
  "getCookie now cookies cookie_name access =
    (case map_of cookies cookie_name of None \<Rightarrow> None | Some cs \<Rightarrow> find_cookie now access cs)"

definition getCookies :: "jnum \<Rightarrow> jar \<Rightarrow> access_info \<Rightarrow> cookie list" where
  "getCookies now cookies access =
    List.map_filter (\<lambda>n. getCookie now cookies n access) (map fst cookies)"

definition cookies_toString :: "(jnum \<Rightarrow> jstr) \<Rightarrow> cookie list \<Rightarrow> jstr" where
  "cookies_toString gmt found = join (js '':'') (map (toString gmt) found)"

definition cookies_toValueString :: "cookie list \<Rightarrow> jstr" where
  "cookies_toValueString found = join (js '';'') (map toValueString found)"

section \<open>Several cookies\<close>

definition word_unit :: "16 word \<Rightarrow> bool" where
  "word_unit c \<longleftrightarrow> (97 \<le> code c \<and> code c \<le> 122) \<or> (65 \<le> code c \<and> code c \<le> 90)
     \<or> (48 \<le> code c \<and> code c \<le> 57) \<or> c = 95 \<or> c = 45"

text \<open>The lookahead of \<open>cookie_str_splitter\<close>: a key and an equals sign follow.\<close>

definition key_follows :: "jstr \<Rightarrow> bool" where
  "key_follows s =
    (let r = dropWhile is_space s; rest = dropWhile is_space (dropWhile word_unit r)
     in takeWhile word_unit r \<noteq> [] \<and> (case rest of [] \<Rightarrow> False | c # t \<Rightarrow> c = 61))"

fun split_cookies :: "jstr \<Rightarrow> jstr list" where
  "split_cookies [] = [[]]"
| "split_cookies (c # s) = (case split_cookies s of
      [] \<Rightarrow> [[c]]
    | part # parts \<Rightarrow> if c = 58 \<and> key_follows s then [] # part # parts else (c # part) # parts)"

datatype cookies_arg = CookieList "cookie_arg list" | CookieText jstr

fun parse_all :: "(jstr \<Rightarrow> jnum) \<Rightarrow> json \<Rightarrow> json \<Rightarrow> cookie_arg list \<Rightarrow> jserr + cookie list" where
  "parse_all date_parse rd rp [] = Inr []"
| "parse_all date_parse rd rp (a # as) =
    bindE (Cookie date_parse a rd rp) (\<lambda>c. bindE (parse_all date_parse rd rp as) (\<lambda>cs. Inr (c # cs)))"

fun set_all :: "jnum \<Rightarrow> jar \<Rightarrow> cookie list \<Rightarrow> jar \<times> cookie list" where
  "set_all now cookies [] = (cookies, [])"
| "set_all now cookies (c # cs) =
    (let (cookies1, r) = setCookie1 now cookies c; (cookies2, successful) = set_all now cookies1 cs
     in (cookies2, if stored r then c # successful else successful))"

definition setCookies ::
  "(jstr \<Rightarrow> jnum) \<Rightarrow> jnum \<Rightarrow> jar \<Rightarrow> cookies_arg \<Rightarrow> json \<Rightarrow> json \<Rightarrow> jserr + jar \<times> cookie list" where
  "setCookies date_parse now jar cookies request_domain request_path =
    (let args = (case cookies of CookieList as \<Rightarrow> as | CookieText s \<Rightarrow> map CookieStr (split_cookies s))
     in bindE (parse_all date_parse request_domain request_path args) (\<lambda>cs. Inr (set_all now jar cs)))"

section \<open>The jar keeps its shape\<close>

definition jar_inv :: "jar \<Rightarrow> bool" where
  "jar_inv j \<longleftrightarrow> distinct (map fst j) \<and>
     (\<forall>(n, cs) \<in> set j. cs \<noteq> [] \<and> (\<forall>c \<in> set cs. to_str (c_name c) = n))"

text \<open>The jars a sequence of calls of \<open>setCookie\<close> leads to from the empty one.\<close>

inductive reachable :: "(jstr \<Rightarrow> jnum) \<Rightarrow> jar \<Rightarrow> bool" for date_parse where
  reach_empty: "reachable date_parse []"
| reach_set: "reachable date_parse j \<Longrightarrow> setCookie date_parse now j a rd rp = Inr (j', r) \<Longrightarrow>
    reachable date_parse j'"

lemma jar_inv_iff:
  "jar_inv j \<longleftrightarrow> distinct (map fst j) \<and>
     (\<forall>n cs. map_of j n = Some cs \<longrightarrow> cs \<noteq> [] \<and> (\<forall>c \<in> set cs. to_str (c_name c) = n))"
  unfolding jar_inv_def by (auto dest: map_of_SomeD) (blast dest: map_of_is_SomeI)+

lemma inv_put: "jar_inv j \<Longrightarrow> cs \<noteq> [] \<Longrightarrow> \<forall>c \<in> set cs. to_str (c_name c) = n \<Longrightarrow> jar_inv (put_list j n cs)"
  by (simp add: jar_inv_iff distinct_update update_conv')

lemma inv_delete: "jar_inv j \<Longrightarrow> jar_inv (delete_list j n)"
  by (simp add: jar_inv_iff distinct_delete delete_conv')

lemma collision_Some:
  "collision c ds = Some i \<Longrightarrow> i < length ds \<and> collidesWith (ds ! i) (c_domain c) (c_path c) \<and>
     (\<forall>j < i. \<not> collidesWith (ds ! j) (c_domain c) (c_path c))"
proof (induction ds arbitrary: i)
  case (Cons d ds)
  then show ?case by (cases i) (auto split: if_splits simp: less_Suc_eq_0_disj)
qed simp

lemma collision_None: "collision c ds = None \<longleftrightarrow> (\<forall>d \<in> set ds. \<not> collidesWith d (c_domain c) (c_path c))"
  by (induction ds) auto

lemma setCookie1_new:
  "map_of j (to_str (c_name c)) = None \<Longrightarrow> setCookie1 now j c =
     (if expired now c then (j, Refused) else (put_list j (to_str (c_name c)) [c], StoredList [c]))"
  by (simp add: setCookie1_def)

lemma setCookie1_append:
  "map_of j (to_str (c_name c)) = Some cs \<Longrightarrow> collision c cs = None \<Longrightarrow> setCookie1 now j c =
     (if expired now c then (j, Refused) else (put_list j (to_str (c_name c)) (cs @ [c]), StoredOne c))"
  by (simp add: setCookie1_def)

lemma setCookie1_collide:
  "map_of j (to_str (c_name c)) = Some cs \<Longrightarrow> collision c cs = Some i \<Longrightarrow> setCookie1 now j c =
     (if expired now c then
        (if take i cs @ drop (Suc i) cs = [] then delete_list j (to_str (c_name c))
         else put_list j (to_str (c_name c)) (take i cs @ drop (Suc i) cs), Refused)
      else (put_list j (to_str (c_name c)) (cs[i := c]), StoredOne c))"
  by (simp add: setCookie1_def Let_def)

lemma inv_set1:
  assumes "jar_inv j" shows "jar_inv (fst (setCookie1 now j c))"
proof (cases "map_of j (to_str (c_name c))")
  case None
  then show ?thesis using assms by (simp add: setCookie1_new inv_put)
next
  case (Some cs)
  have cs: "\<forall>c' \<in> set cs. to_str (c_name c') = to_str (c_name c)" using assms Some by (simp add: jar_inv_iff)
  show ?thesis
  proof (cases "collision c cs")
    case None
    have "\<forall>c' \<in> set (cs @ [c]). to_str (c_name c') = to_str (c_name c)" using cs by auto
    then have "jar_inv (put_list j (to_str (c_name c)) (cs @ [c]))" by (intro inv_put [OF assms]) blast+
    then show ?thesis using assms by (simp only: setCookie1_append [OF Some None]) simp
  next
    case (Some i)
    define kept where "kept = take i cs @ drop (Suc i) cs"
    have k: "\<forall>c' \<in> set kept. to_str (c_name c') = to_str (c_name c)"
      using cs by (auto simp: kept_def dest: in_set_takeD in_set_dropD)
    have u: "\<forall>c' \<in> set (cs[i := c]). to_str (c_name c') = to_str (c_name c)"
      using cs set_update_subset_insert [of cs i c] by auto
    have "cs[i := c] \<noteq> []" using collision_Some [OF Some] by auto
    then have "jar_inv (put_list j (to_str (c_name c)) (cs[i := c]))" using inv_put [OF assms _ u] by blast
    moreover have "jar_inv (put_list j (to_str (c_name c)) kept)" if "kept \<noteq> []"
      using inv_put [OF assms that k] .
    ultimately show ?thesis
      unfolding setCookie1_collide [OF \<open>map_of j _ = Some cs\<close> Some] kept_def [symmetric]
      using inv_delete [OF assms] by simp
  qed
qed

lemma inv_set:
  assumes "jar_inv j" "setCookie dp now j a rd rp = Inr (j', r)" shows "jar_inv j'"
  using assms inv_set1 [OF assms(1)] by (auto simp: setCookie_def bindE_eq_Inr) (metis fst_conv)

section \<open>Texts of cookies\<close>

lemma match_key_pair: "k \<noteq> [] \<Longrightarrow> 61 \<notin> set k \<Longrightarrow> match_key (k @ 61 # v) = Some (k, VStr v)"
proof (cases k)
  case (Cons c k')
  assume "61 \<notin> set k"
  moreover from this have "\<forall>x \<in> set k. x \<noteq> 61" by auto
  ultimately show ?thesis using Cons by (simp add: match_key_def takeWhile_append2 dropWhile_append2)
qed simp

lemma match_key_alone: "k \<noteq> [] \<Longrightarrow> 61 \<notin> set k \<Longrightarrow> match_key k = Some (k, VUndef)"
proof (cases k)
  case (Cons c k')
  assume "61 \<notin> set k"
  moreover from this have "\<forall>x \<in> set k. x \<noteq> 61" by auto
  ultimately have "takeWhile (\<lambda>c. c \<noteq> 61) k = k" "dropWhile (\<lambda>c. c \<noteq> 61) k = []" "dropWhile (\<lambda>c. c = 61) k = k"
    using Cons by (simp_all add: takeWhile_eq_all_conv dropWhile_eq_Nil_conv)
  then show ?thesis using Cons by (simp add: match_key_def Let_def)
qed simp

lemma split_attributes:
  "\<forall>s \<in> set (x # xs). 59 \<notin> set s \<Longrightarrow> split_at 59 (join (js ''; '') (x # xs)) = x # map ((#) 32) xs"
proof (induction xs arbitrary: x)
  case (Cons y ys)
  have j: "js ''; '' = [59, 32]" by code_simp
  have "join (js ''; '') (x # y # ys) = x @ 59 # 32 # join (js ''; '') (y # ys)" by (simp add: j)
  moreover have "split_at 59 (32 # s) = (32 # hd (split_at 59 s)) # tl (split_at 59 s)" for s
    by (cases "split_at 59 s") simp_all
  ultimately show ?case using Cons by (simp add: split_append del: join.simps split_at.simps)
qed (simp add: split_plain)

lemma attribute_keys:
  "to_lower (trim (32 # js ''domain'')) = js ''domain''" "to_lower (trim (32 # js ''path'')) = js ''path''"
  "to_lower (trim (js '' secure'')) = js ''secure''" "to_lower (trim (js '' httponly'')) = js ''httponly''"
  "59 \<notin> set (js ''domain='')" "59 \<notin> set (js ''path='')" "59 \<notin> set (js ''secure'')" "59 \<notin> set (js ''httponly'')"
  "32 # js ''domain='' = 32 # js ''domain'' @ [61]" "32 # js ''path='' = 32 # js ''path'' @ [61]"
  "61 \<notin> set (32 # js ''domain'')" "61 \<notin> set (32 # js ''path'')"
  "32 # js ''secure'' = js '' secure''" "32 # js ''httponly'' = js '' httponly''"
  "61 \<notin> set (js '' secure'')" "61 \<notin> set (js '' httponly'')"
  by code_simp+

text \<open>The attributes as \<open>parse\<close> meets them.\<close>

lemma parse_domain:
  "parse_attributes dp ((32 # js ''domain='' @ d) # ps) c = parse_attributes dp ps (set_attribute dp c (js ''domain'') (VStr d))"
  and parse_path:
  "parse_attributes dp ((32 # js ''path='' @ d) # ps) c = parse_attributes dp ps (set_attribute dp c (js ''path'') (VStr d))"
proof -
  have "match_key (32 # js ''domain='' @ d) = Some (32 # js ''domain'', VStr d)"
    using match_key_pair [of "32 # js ''domain''" d] attribute_keys(9,11) by simp
  then show "parse_attributes dp ((32 # js ''domain='' @ d) # ps) c = parse_attributes dp ps (set_attribute dp c (js ''domain'') (VStr d))"
    by (simp only: parse_attributes.simps option.case prod.case attribute_keys)
  have "match_key (32 # js ''path='' @ d) = Some (32 # js ''path'', VStr d)"
    using match_key_pair [of "32 # js ''path''" d] attribute_keys(10,12) by simp
  then show "parse_attributes dp ((32 # js ''path='' @ d) # ps) c = parse_attributes dp ps (set_attribute dp c (js ''path'') (VStr d))"
    by (simp only: parse_attributes.simps option.case prod.case attribute_keys)
qed

lemma parse_flags:
  "parse_attributes dp (js '' secure'' # ps) c = parse_attributes dp ps (set_attribute dp c (js ''secure'') VUndef)"
  "parse_attributes dp (js '' httponly'' # ps) c = parse_attributes dp ps (set_attribute dp c (js ''httponly'') VUndef)"
  using match_key_alone [of "js '' secure''"] match_key_alone [of "js '' httponly''"] attribute_keys
  by (simp_all only: parse_attributes.simps option.case prod.case js_eq_Nil list.distinct if_False simp_thms)

section \<open>Properties\<close>

text \<open>
  C2. Whatever cookies are set, the jar has one list for each name, no list is empty, and a
  list holds cookies of its name only.
\<close>

theorem jar_invariant:
  assumes "reachable date_parse j" shows "jar_inv j"
  using assms
proof induction
  case reach_empty
  show ?case by (simp add: jar_inv_def)
next
  case (reach_set j now a rd rp j' r)
  show ?case using reach_set(3,2) by (rule inv_set)
qed

text \<open>
  \<open>getCookie\<close> returns a cookie of the name that has not expired and matches the request,
  and nothing only if the jar has no such cookie.
\<close>

theorem getCookie_sound:
  "case getCookie now cookies n access of
     Some c \<Rightarrow> (case map_of cookies n of None \<Rightarrow> False
       | Some cs \<Rightarrow> c \<in> set cs \<and> \<not> expired now c \<and> matches c access)
   | None \<Rightarrow> (case map_of cookies n of None \<Rightarrow> True
       | Some cs \<Rightarrow> [c \<leftarrow> cs. \<not> expired now c \<and> matches c access] = [])"
proof -
  have f: "case find_cookie now access cs of
      Some c \<Rightarrow> c \<in> set cs \<and> \<not> expired now c \<and> matches c access
    | None \<Rightarrow> [c \<leftarrow> cs. \<not> expired now c \<and> matches c access] = []" for cs
    by (induction cs) (auto split: option.splits)
  show ?thesis
  proof (cases "map_of cookies n")
    case (Some cs)
    then show ?thesis using f [of cs] by (cases "find_cookie now access cs") (simp_all add: getCookie_def)
  qed (simp add: getCookie_def)
qed

text \<open>
  C33. A cookie that has not expired is accepted by \<open>setCookie\<close>; from then on a request it
  matches gets a cookie of its name, and the cookies of the other names stay as they were.
  One that has expired is refused and only takes cookies of its own name with it.
\<close>

theorem set_then_get:
  "(if expired now c then snd (setCookie1 now cookies c) = Refused
    else stored (snd (setCookie1 now cookies c)) \<and>
      (if matches c access then
         (case getCookie now (fst (setCookie1 now cookies c)) (to_str (c_name c)) access of
            Some d \<Rightarrow> matches d access | None \<Rightarrow> False)
       else True)) \<and>
   map_of (fst (setCookie1 now cookies c)) |` {n. n \<noteq> to_str (c_name c)} = map_of cookies |` {n. n \<noteq> to_str (c_name c)}"
proof -
  let ?n = "to_str (c_name c)"
  have found: "case find_cookie now access cs of Some d \<Rightarrow> matches d access | None \<Rightarrow> False"
    if "c \<in> set cs" "\<not> expired now c" "matches c access" for cs
    using that by (induction cs) auto
  have others: "map_of (put_list cookies ?n cs) |` {n. n \<noteq> ?n} = map_of cookies |` {n. n \<noteq> ?n}"
    "map_of (delete_list cookies ?n) |` {n. n \<noteq> ?n} = map_of cookies |` {n. n \<noteq> ?n}" for cs
    by (auto simp: restrict_map_def update_conv' delete_conv')
  show ?thesis
  proof (cases "map_of cookies ?n")
    case None
    then show ?thesis using found [of "[c]"] others by (simp add: setCookie1_new stored_def getCookie_def update_conv')
  next
    case (Some cs)
    note cs = this
    show ?thesis
    proof (cases "collision c cs")
      case None
      then show ?thesis using found [of "cs @ [c]"] others
        by (simp add: setCookie1_append [OF cs None] stored_def getCookie_def update_conv')
    next
      case (Some i)
      have "c \<in> set (cs[i := c])" using collision_Some [OF Some] by (simp add: set_update_memI)
      then show ?thesis using found [of "cs[i := c]"] others
        by (simp add: setCookie1_collide [OF cs Some] stored_def getCookie_def update_conv')
    qed
  qed
qed

text \<open>The values \<open>toString\<close> can write so that \<open>parse\<close> reads them back.\<close>

definition plain_text :: "jstr \<Rightarrow> bool" where
  "plain_text s \<longleftrightarrow> s \<noteq> [] \<and> 59 \<notin> set s \<and> trim s = s"

lemma attributes_round_trip:
  assumes "plain_text d" "plain_text p"
  shows "parse_attributes dp ([32 # js ''domain='' @ d, 32 # js ''path='' @ p]
      @ (if s then [js '' secure''] else []) @ (if h then [js '' httponly''] else [])) c
    = Inr (c\<lparr>c_domain := VStr d, explicit_domain := True, c_path := p, explicit_path := True,
        c_secure := s \<or> c_secure c, noscript := h \<or> noscript c\<rparr>)"
  using assms by (cases s; cases h)
    (simp_all add: parse_domain parse_path parse_flags set_attribute_def trimmed_def plain_text_def
      del: parse_attributes.simps(2))

text \<open>
  C40. The text of a cookie reads back as that cookie: a session cookie with a domain and a
  path, whose name has no equals sign or semicolon and whose value has no semicolon, survives
  \<open>toString\<close> followed by \<open>new Cookie\<close>, whatever the defaults of the request; domain and path
  then count as explicit.
\<close>

theorem cookie_round_trip:
  assumes "c_name c = VStr n" "n \<noteq> []" "61 \<notin> set n" "59 \<notin> set n" "c_value c = VStr v" "59 \<notin> set v"
    and "c_domain c = VStr d" "plain_text d" "plain_text (c_path c)" "expiration_date c = PInf"
  shows "Cookie date_parse (CookieStr (toString gmt c)) request_domain request_path
    = Inr (c\<lparr>explicit_path := True, explicit_domain := True\<rparr>)"
proof -
  define flags where "flags = (if c_secure c then [js ''secure''] else []) @ (if noscript c then [js ''httponly''] else [])"
  define first where "first = n @ 61 # v"
  define attrs where "attrs = [js ''domain='' @ d, js ''path='' @ c_path c] @ flags"
  have d: "d \<noteq> []" "59 \<notin> set d" "c_path c \<noteq> []" "59 \<notin> set (c_path c)" using assms by (auto simp: plain_text_def)
  have s: "toString gmt c = join (js ''; '') (first # attrs)"
    using assms d by (simp add: toString_def toValueString_def first_def attrs_def flags_def js_Cons)
  have "\<forall>s \<in> set (first # attrs). 59 \<notin> set s"
    using assms d attribute_keys(5-8) by (auto simp: first_def attrs_def flags_def)
  then have split: "[p \<leftarrow> split_at 59 (toString gmt c). p \<noteq> []] = first # map ((#) 32) attrs"
    unfolding s using assms(2) by (simp only: split_attributes) (simp add: first_def filter_empty_conv)
  have "match_pair first = Some (n, VStr v)"
    using match_key_pair [OF assms(2,3), of v] by (simp add: match_pair_def first_def)
  moreover have "map ((#) 32) attrs = [32 # js ''domain='' @ d, 32 # js ''path='' @ c_path c]
      @ (if c_secure c then [js '' secure''] else []) @ (if noscript c then [js '' httponly''] else [])"
    using attribute_keys(13,14) by (simp add: attrs_def flags_def)
  moreover have "toString gmt c \<noteq> []" using split by auto
  ultimately show ?thesis using assms split
    by (simp add: parse_def attributes_round_trip blank_cookie_def del: append.simps)
qed

text \<open>A session cookie with every attribute \<open>toString\<close> writes but the date.\<close>

definition sample_cookie :: cookie where
  "sample_cookie = \<lparr>c_name = VStr (js ''id''), c_value = VStr (js ''a=b''), expiration_date = PInf,
     c_path = js ''/api'', explicit_path = False, c_domain = VStr (js ''example.com''),
     explicit_domain = False, c_secure = True, noscript = True\<rparr>"

lemma sample_plain: "plain_text (js ''example.com'')" "plain_text (js ''/api'')" "59 \<notin> set (js ''a=b'')"
  "59 \<notin> set (js ''id'')" "61 \<notin> set (js ''id'')"
  by code_simp+

theorem cookie_round_trip_witness:
  "Cookie (\<lambda>s. NaN) (CookieStr (toString (\<lambda>n. []) sample_cookie)) VUndef VUndef
    = Inr (sample_cookie\<lparr>explicit_path := True, explicit_domain := True\<rparr>)"
  by (rule cookie_round_trip [where n = "js ''id''" and v = "js ''a=b''" and d = "js ''example.com''"])
    (simp_all add: sample_cookie_def sample_plain)

lemma sample_jar: "setCookie (\<lambda>s. NaN) (JInt 0) [] (CookieObj sample_cookie) VUndef VUndef
    = Inr ([(js ''id'', [sample_cookie])], StoredList [sample_cookie])"
  by (simp add: setCookie_def setCookie1_new sample_cookie_def expired_def js_ge_def JInt_def)

theorem jar_invariant_witness: "jar_inv [(js ''id'', [sample_cookie])]"
  by (rule jar_invariant [OF reach_set [OF reach_empty sample_jar]])

section \<open>Domains\<close>

lemma index_of_at_end:
  "index_of s p = -1 \<or> index_of s p \<noteq> int (length s) - int (length p) \<longleftrightarrow>
     \<not> (\<exists>x. s = x @ p \<and> (\<forall>i < length x. \<not> starts_with p (drop i s)))"
  (is "?l \<longleftrightarrow> \<not> ?r")
proof -
  have s: "starts_with p (drop j s) \<Longrightarrow> j \<le> length s \<Longrightarrow> length s = j + length p \<Longrightarrow> s = take j s @ p" for j
    by (metis append_take_drop_id diff_add_inverse length_drop starts_with_def take_all order_refl)
  from find_at_cases [of 0 s p] show ?thesis
  proof
    assume a: "find_at 0 s p = -1 \<and> (\<forall>j \<le> length s. \<not> starts_with p (drop j s))"
    have "\<not> ?r"
    proof
      assume ?r
      then obtain x where "s = x @ p" by blast
      then have "starts_with p (drop (length x) s)" "length x \<le> length s" by (simp_all add: starts_with_def)
      then show False using a by blast
    qed
    then show ?thesis using a by (simp add: index_of_def)
  next
    assume "\<exists>j \<le> length s. find_at 0 s p = int (0 + j) \<and> starts_with p (drop j s) \<and>
      (\<forall>i < j. \<not> starts_with p (drop i s))"
    then obtain j where j: "j \<le> length s" "index_of s p = int j" "starts_with p (drop j s)"
      "\<forall>i < j. \<not> starts_with p (drop i s)" by (auto simp: index_of_def)
    show ?thesis
    proof (cases "length s = j + length p")
      case True
      then have "s = take j s @ p" using s j by blast
      moreover have "length (take j s) = j" using j by simp
      ultimately have ?r using j(4) by metis
      then show ?thesis using j True by simp
    next
      case False
      have "\<not> ?r"
      proof
        assume ?r
        then obtain x where x: "s = x @ p" "\<forall>i < length x. \<not> starts_with p (drop i s)" by blast
        then have "starts_with p (drop (length x) s)" by (simp add: starts_with_def)
        then have "\<not> length x < j" "\<not> j < length x" using j x by auto
        then show False using x False by simp
      qed
      then show ?thesis using j False by simp
    qed
  qed
qed

text \<open>
  Which requests a cookie with a domain attribute goes to, when its path is a prefix of
  the request's: those whose host ends with the domain \emph{and} does not contain it earlier.
  The end need not begin at a dot, so a cookie for \<open>ample.com\<close> is sent to \<open>example.com\<close>; and a
  subdomain that repeats the domain does not get the cookie.
\<close>

theorem domain_matching:
  assumes "explicit_domain c" "c_domain c = VStr d" "d \<noteq> []" "hd d \<noteq> 46" "h \<noteq> []" "hd h \<noteq> 46"
    and "c_path c \<noteq> []" "starts_with (c_path c) p"
  shows "collidesWith c (VStr h) p \<longleftrightarrow>
    (\<exists>x. h = x @ d \<and> (\<forall>i < length x. \<not> starts_with d (drop i h)))"
proof -
  have u: "undotted (VStr s) = VStr s" if "s \<noteq> []" "hd s \<noteq> 46" for s
    using that by (cases s) (simp_all add: undotted_def)
  have p: "p \<noteq> []" using assms(7,8) by (auto simp: starts_with_def)
  have "collidesWith c (VStr h) p \<longleftrightarrow> d = h \<or>
      \<not> (index_of h d = -1 \<or> index_of h d \<noteq> int (length h) - int (length d))"
    using assms p u [of d] u [of h] by (simp add: collidesWith_def index_of_prefix Let_def)
  also have "\<dots> \<longleftrightarrow> d = h \<or> (\<exists>x. h = x @ d \<and> (\<forall>i < length x. \<not> starts_with d (drop i h)))"
    by (simp only: index_of_at_end not_not)
  also have "\<dots> \<longleftrightarrow> (\<exists>x. h = x @ d \<and> (\<forall>i < length x. \<not> starts_with d (drop i h)))"
    by (metis append_Nil less_nat_zero_code list.size(3))
  finally show ?thesis .
qed

theorem domain_matching_witness:
  "collidesWith (sample_cookie\<lparr>explicit_domain := True, c_domain := VStr (js ''ample.com'')\<rparr>) (VStr (js ''example.com'')) (js ''/api/x'')"
proof -
  have "js ''ample.com'' \<noteq> [] \<and> hd (js ''ample.com'') \<noteq> 46 \<and> hd (js ''example.com'') \<noteq> 46
      \<and> starts_with (js ''/api'') (js ''/api/x'')"
    "js ''example.com'' = js ''ex'' @ js ''ample.com''"
    "\<not> starts_with (js ''ample.com'') (drop 0 (js ''example.com'')) \<and> \<not> starts_with (js ''ample.com'') (drop 1 (js ''example.com''))"
    by code_simp+
  moreover from this have "\<forall>i < length (js ''ex''). \<not> starts_with (js ''ample.com'') (drop i (js ''example.com''))"
    by (auto simp: less_Suc_eq)
  ultimately have "\<exists>x. js ''example.com'' = x @ js ''ample.com'' \<and>
      (\<forall>i < length x. \<not> starts_with (js ''ample.com'') (drop i (js ''example.com'')))" by blast
  then show ?thesis
    using domain_matching [of "sample_cookie\<lparr>explicit_domain := True, c_domain := VStr (js ''ample.com'')\<rparr>"
      "js ''ample.com''" "js ''example.com''" "js ''/api/x''"]
      \<open>js ''ample.com'' \<noteq> [] \<and> _\<close> by (simp add: sample_cookie_def)
qed

end
