(* ===== verification/UrlEncode.thy ===== *)
theory UrlEncode
  imports JsValue Codec
begin

text \<open>
  The encoders of \<open>lib/types/operation.js\<close>: keys, values and collections of values as they
  appear in the path and the query of a request, with \<open>mask\<close>, which hides passwords, and
  the \<open>encodeURIComponent\<close> of the language they are made of.
\<close>

section \<open>encodeURIComponent\<close>

text \<open>The code units that stand for themselves: letters, digits and \<open>- _ . ! ~ * ' ( )\<close>.\<close>

definition uri_unreserved :: "16 word \<Rightarrow> bool" where
  "uri_unreserved c \<longleftrightarrow> (65 \<le> code c \<and> code c \<le> 90) \<or> (97 \<le> code c \<and> code c \<le> 122)
     \<or> (48 \<le> code c \<and> code c \<le> 57) \<or> c \<in> {45, 95, 46, 33, 126, 42, 39, 40, 41}"

definition hex_unit :: "int \<Rightarrow> 16 word" where
  "hex_unit d = word_of_int (if d < 10 then 48 + d else 55 + d)"

text \<open>An octet as \<open>%XX\<close>.\<close>

definition percent :: "octet \<Rightarrow> jstr" where
  "percent b = [37, hex_unit (uint b div 16), hex_unit (uint b mod 16)]"

definition malformed :: "jserr + 'a" where
  "malformed = Inl (UriError ''URI malformed'')"

definition is_lead :: "16 word \<Rightarrow> bool" where
  "is_lead c \<longleftrightarrow> 0xD800 \<le> code c \<and> code c < 0xDC00"

definition is_trail :: "16 word \<Rightarrow> bool" where
  "is_trail c \<longleftrightarrow> 0xDC00 \<le> code c \<and> code c < 0xE000"

text \<open>A surrogate without its partner is a \<open>URIError\<close>.\<close>

fun uri_encode :: "jstr \<Rightarrow> jserr + jstr" where
  "uri_encode [] = Inr []"
| "uri_encode (c # s) =
    (if uri_unreserved c then bindE (uri_encode s) (\<lambda>r. Inr (c # r))
     else if is_trail c then malformed
     else if \<not> is_lead c then
       bindE (uri_encode s) (\<lambda>r. Inr (concat (map percent (utf8 (code c))) @ r))
     else (case s of [] \<Rightarrow> malformed
       | d # s' \<Rightarrow> if is_trail d then
           bindE (uri_encode s') (\<lambda>r. Inr (concat (map percent
             (utf8 (0x10000 + (code c - 0xD800) * 0x400 + (code d - 0xDC00)))) @ r))
         else malformed))"

definition encodeURIComponent :: "json \<Rightarrow> jserr + jstr" where
  "encodeURIComponent v = uri_encode (to_str v)"

section \<open>Keys, values and passwords\<close>

definition stars :: jstr where
  "stars = js ''******''"

definition mask :: "json \<Rightarrow> json \<Rightarrow> json" where
  "mask value format = (if format = VStr (js ''password'') then VStr stars else value)"

definition encodeQueryKey :: "json \<Rightarrow> jserr + jstr" where
  "encodeQueryKey arg = bindE (encodeURIComponent arg) (\<lambda>s. Inr
     (replace_first (js ''%24'') (js ''$'')
       (replace_first (js ''%5D'') (js '']'')
         (replace_first (js ''%5B'') (js ''['') s))))"

definition encodeQueryParam :: "json \<Rightarrow> json \<Rightarrow> jserr + jstr" where
  "encodeQueryParam arg maskPasswords =
    (if truthy maskPasswords then Inr stars else encodeURIComponent arg)"

text \<open>\<open>encodeURIComponent\<close> takes one argument: the second one is dropped.\<close>

definition encodePathParam :: "json \<Rightarrow> json \<Rightarrow> jserr + jstr" where
  "encodePathParam pathParam maskPasswords = encodeURIComponent pathParam"

section \<open>Collections\<close>

text \<open>
  The loops over a collection: the first element starts the result, every other one is added
  behind a separator.
\<close>

fun encode_loop :: "(nat \<Rightarrow> json \<Rightarrow> jserr + jstr) \<Rightarrow> jstr \<Rightarrow> nat \<Rightarrow> json list \<Rightarrow> jstr \<Rightarrow> jserr + jstr"
where
  "encode_loop f sep i [] encoded = Inr encoded"
| "encode_loop f sep i (v # vs) encoded =
    bindE (f i v) (\<lambda>e. encode_loop f sep (Suc i) vs (if i = 0 then e else encoded @ sep @ e))"

definition encodePathCollection :: "json \<Rightarrow> json \<Rightarrow> json list \<Rightarrow> json \<Rightarrow> jserr + jstr" where
  "encodePathCollection type name value maskPasswords =
    (let separator =
       (if type = VStr (js ''ssv'') then js ''%20''
        else if type = VStr (js ''tsv'') then js ''%09''
        else if type = VStr (js ''pipes'') then js ''|''
        else js '','')
     in encode_loop (\<lambda>i v. encodeQueryParam v maskPasswords) separator 0 value [])"

text \<open>\<open>key + '=' + value\<close>, the key and the joint between them given.\<close>

definition pair_with :: "jstr \<Rightarrow> json \<Rightarrow> jserr + jstr \<Rightarrow> jserr + jstr" where
  "pair_with joint name value =
    bindE (encodeQueryKey name) (\<lambda>k. bindE value (\<lambda>v. Inr (k @ joint @ v)))"

definition masked_param :: "json \<Rightarrow> json \<Rightarrow> jserr + jstr" where
  "masked_param v format =
    bindE (encodeQueryParam v VUndef) (\<lambda>e. Inr (to_str (mask (VStr e) format)))"

definition encodeQueryCollection :: "json \<Rightarrow> json \<Rightarrow> json list \<Rightarrow> json \<Rightarrow> jserr + jstr" where
  "encodeQueryCollection type' name value maskPasswords =
    (let type = orElse type' (VStr (js ''default'')) in
     if type = VStr (js ''default'') \<or> type = VStr (js ''multi'') then
       encode_loop (\<lambda>i v. pair_with (js ''='') name (masked_param v maskPasswords)) (js ''&'') 0 value []
     else if type = VStr (js ''brackets'') then
       encode_loop (\<lambda>i v. pair_with (js ''[]='') name (masked_param v maskPasswords)) (js ''&'') 0 value []
     else
       let separator =
         (if type = VStr (js ''csv'') then js '',''
          else if type = VStr (js ''ssv'') then js ''%20''
          else if type = VStr (js ''tsv'') then js ''%09''
          else if type = VStr (js ''pipes'') then js ''|''
          else [])
       in if separator \<noteq> [] then
            encode_loop (\<lambda>i v. if i = 0 then pair_with (js ''='') name (encodeQueryParam v VUndef)
              else encodeQueryParam v VUndef) separator 0 value []
          else Inr [])"

section \<open>Reading an encoded string\<close>

text \<open>
  The decoder a server applies: \<open>%XX\<close> is an octet, another code unit is its own octet, and
  the octets are UTF-8.
\<close>

definition hex_value :: "16 word \<Rightarrow> int" where
  "hex_value c = (if code c < 58 then code c - 48 else code c - 55)"

fun unpct :: "jstr \<Rightarrow> octet list" where
  "unpct [] = []"
| "unpct (c # s) =
    (if c = 37 then (case s of h # l # r \<Rightarrow> word_of_int (hex_value h * 16 + hex_value l) # unpct r | _ \<Rightarrow> [])
     else word_of_int (code c) # unpct s)"

definition percent_decode :: "jstr \<Rightarrow> jstr" where
  "percent_decode t = map word_of_int (utf8_units (unpct t))"

text \<open>The strings without a lone surrogate.\<close>

definition well_formed :: "jstr \<Rightarrow> bool" where
  "well_formed s \<longleftrightarrow> (\<exists>cs. (\<forall>c \<in> set cs. scalar c) \<and> s = concat (map utf16 cs))"

definition enc_scalar :: "int \<Rightarrow> jstr" where
  "enc_scalar c = (if c < 0x80 \<and> uri_unreserved (word_of_int c) then [word_of_int c]
     else concat (map percent (utf8 c)))"

lemma unreserved_ascii: "uri_unreserved c \<Longrightarrow> code c < 0x80"
  by (auto simp: uri_unreserved_def)

lemma unreserved_not_surrogate: "uri_unreserved c \<Longrightarrow> \<not> is_lead c \<and> \<not> is_trail c"
  using unreserved_ascii by (fastforce simp: is_lead_def is_trail_def)

lemma uri_encode_utf16:
  assumes "scalar c"
  shows "uri_encode (utf16 c @ s) = bindE (uri_encode s) (\<lambda>r. Inr (enc_scalar c @ r))"
proof (cases "c < 0x10000")
  case True
  then have u: "code (word_of_int c) = c" using assms by (intro code_word_of_int) (auto simp: scalar_def)
  then have "\<not> is_lead (word_of_int c) \<and> \<not> is_trail (word_of_int c)"
    using assms by (auto simp: is_lead_def is_trail_def scalar_def)
  moreover have "c < 0x80" if "uri_unreserved (word_of_int c)" using unreserved_ascii [OF that] u by simp
  ultimately show ?thesis using True u by (simp add: utf16_def enc_scalar_def)
next
  case False
  define q m where "q = (c - 0x10000) div 0x400" and "m = (c - 0x10000) mod 0x400"
  have c: "c - 0x10000 = q * 0x400 + m" by (simp add: q_def m_def)
  have q: "0 \<le> q" "q < 0x400" "0 \<le> m" "m < 0x400"
    using div_range [of "c - 0x10000" 1024 1024] False assms by (simp_all add: q_def m_def scalar_def)
  have u: "code (word_of_int (0xD800 + q)) = 0xD800 + q" "code (word_of_int (0xDC00 + m)) = 0xDC00 + m"
    using q by (intro code_word_of_int; simp)+
  have "utf16 c = [word_of_int (0xD800 + q), word_of_int (0xDC00 + m)]"
    using False by (simp add: utf16_def q_def m_def)
  moreover have "is_lead (word_of_int (0xD800 + q))" "\<not> is_trail (word_of_int (0xD800 + q))"
    "is_trail (word_of_int (0xDC00 + m))"
    using q by (simp_all only: is_lead_def is_trail_def u) auto
  moreover from this have "\<not> uri_unreserved (word_of_int (0xD800 + q))"
    using unreserved_not_surrogate by blast
  moreover have "0x10000 + q * 0x400 + m = c" using c by linarith
  ultimately show ?thesis using False u by (simp add: enc_scalar_def del: of_int_add)
qed

lemma uri_encode_scalars:
  "\<forall>c \<in> set cs. scalar c \<Longrightarrow> uri_encode (concat (map utf16 cs)) = Inr (concat (map enc_scalar cs))"
  by (induction cs) (simp_all add: uri_encode_utf16)

lemma unpct_percent: "unpct (percent b @ s) = b # unpct s"
proof -
  have d: "0 \<le> uint b div 16" "uint b div 16 < 16" "0 \<le> uint b mod 16" "uint b mod 16 < 16"
    using div_range [of "uint b" 16 16] uint_octet_bounds [of b] by auto
  have h: "hex_value (hex_unit x) = x" if "0 \<le> x" "x < 16" for x
    using that by (auto simp: hex_value_def hex_unit_def code_word_of_int simp del: of_int_add)
  have "uint b div 16 * 16 + uint b mod 16 = uint b" by simp
  then show ?thesis using h d by (simp add: percent_def del: of_int_add of_int_mult)
qed

lemma unpct_octets: "unpct (concat (map percent bs) @ s) = bs @ unpct s"
  by (induction bs) (simp_all add: unpct_percent)

lemma unpct_enc_scalar:
  assumes "scalar c"
  shows "unpct (enc_scalar c @ s) = utf8 c @ unpct s"
proof (cases "c < 0x80 \<and> uri_unreserved (word_of_int c)")
  case True
  then have u: "code (word_of_int c) = c" using assms by (intro code_word_of_int) (auto simp: scalar_def)
  have "word_of_int c \<noteq> (37 :: 16 word)" using True by (auto simp: uri_unreserved_def)
  then show ?thesis using True u by (simp add: enc_scalar_def utf8_def)
next
  case False
  then have "enc_scalar c = concat (map percent (utf8 c))" by (simp add: enc_scalar_def del: de_Morgan_conj)
  then show ?thesis by (simp add: unpct_octets)
qed

lemma unpct_scalars:
  "\<forall>c \<in> set cs. scalar c \<Longrightarrow> unpct (concat (map enc_scalar cs)) = concat (map utf8 cs)"
  by (induction cs) (simp_all add: unpct_enc_scalar)

lemma decode_octets:
  "\<forall>c \<in> set cs. scalar c \<Longrightarrow> map word_of_int (utf8_units (concat (map utf8 cs))) = concat (map utf16 cs)"
  by (simp add: utf8_units_utf8 map_concat comp_def code_point_units_utf16 cong: map_cong)

section \<open>What the encoders produce\<close>

definition url_safe :: "16 word \<Rightarrow> bool" where
  "url_safe c \<longleftrightarrow> uri_unreserved c \<or> c = 37"

definition enc :: "jstr \<Rightarrow> jstr" where
  "enc s = (case uri_encode s of Inr t \<Rightarrow> t | Inl e \<Rightarrow> [])"

lemma hex_unit_safe: "0 \<le> d \<Longrightarrow> d < 16 \<Longrightarrow> uri_unreserved (hex_unit d)"
  by (auto simp: hex_unit_def uri_unreserved_def code_word_of_int simp del: of_int_add)

lemma hex_unit_octet: "uri_unreserved (hex_unit (uint (b :: octet) div 16))" "uri_unreserved (hex_unit (uint b mod 16))"
  using div_range [of "uint b" 16 16] uint_octet_bounds [of b] by (auto intro: hex_unit_safe)

lemma percent_safe: "c \<in> set (percent b) \<Longrightarrow> url_safe c"
  using hex_unit_octet [of b] by (auto simp: percent_def url_safe_def)

lemma enc_scalar_safe: "c \<in> set (enc_scalar k) \<Longrightarrow> url_safe c"
  by (auto simp: enc_scalar_def percent_safe split: if_splits) (simp add: url_safe_def)

lemma uri_encode_enc:
  assumes "well_formed s"
  shows "uri_encode s = Inr (enc s)" and "percent_decode (enc s) = s" and "c \<in> set (enc s) \<Longrightarrow> url_safe c"
proof -
  obtain cs where cs: "\<forall>c \<in> set cs. scalar c" "s = concat (map utf16 cs)"
    using assms by (auto simp: well_formed_def)
  have e: "uri_encode s = Inr (concat (map enc_scalar cs))" using cs uri_encode_scalars by simp
  then have d: "enc s = concat (map enc_scalar cs)" by (simp add: enc_def)
  show "uri_encode s = Inr (enc s)" using e d by simp
  have "unpct (enc s) = concat (map utf8 cs)" unfolding d by (rule unpct_scalars [OF cs(1)])
  then show "percent_decode (enc s) = s" using decode_octets [OF cs(1)] cs(2) by (simp only: percent_decode_def)
  show "c \<in> set (enc s) \<Longrightarrow> url_safe c" using enc_scalar_safe by (auto simp: d)
qed

text \<open>Encoding and decoding are a codec on the strings without a lone surrogate.\<close>

interpretation uri: codec enc "\<lambda>t. Inr (percent_decode t) :: jserr + jstr" well_formed
  by unfold_locales (simp add: uri_encode_enc)

lemma well_formed_Nil: "well_formed []"
  by (auto simp: well_formed_def intro: exI [of _ "[]"])

lemma well_formed_scalar: "scalar c \<Longrightarrow> well_formed s \<Longrightarrow> well_formed (utf16 c @ s)"
proof (unfold well_formed_def, elim exE conjE)
  fix cs
  assume "scalar c" "\<forall>c \<in> set cs. scalar c" "s = concat (map utf16 cs)"
  then show "\<exists>cs. (\<forall>c \<in> set cs. scalar c) \<and> utf16 c @ s = concat (map utf16 cs)"
    by (intro exI [of _ "c # cs"]) simp
qed

lemma unit_scalar:
  assumes "\<not> is_trail c" "\<not> is_lead c"
  shows "scalar (code c) \<and> utf16 (code c) = [c]"
  using assms code_bounds(2) [of c] code_bounds(1) [of c]
  unfolding scalar_def utf16_def is_lead_def is_trail_def by (auto simp del: code_bounds)

lemma well_formed_units: "list_all (\<lambda>c. \<not> is_trail c \<and> \<not> is_lead c) s \<Longrightarrow> well_formed s"
proof (induction s)
  case (Cons c s)
  then show ?case using well_formed_scalar [of "code c" s] unit_scalar [of c] by simp
qed (rule well_formed_Nil)

lemma pair_scalar:
  assumes "is_lead c" "is_trail d"
  shows "scalar (0x10000 + (code c - 0xD800) * 0x400 + (code d - 0xDC00))
    \<and> utf16 (0x10000 + (code c - 0xD800) * 0x400 + (code d - 0xDC00)) = [c, d]"
proof -
  define q m where "q = code c - 0xD800" and "m = code d - 0xDC00"
  have q: "0 \<le> q" "q < 0x400" "0 \<le> m" "m < 0x400"
    using assms by (auto simp: is_lead_def is_trail_def q_def m_def)
  have "(q * 0x400 + m) div 0x400 = q" "(q * 0x400 + m) mod 0x400 = m"
    using q by (simp_all add: digit_add_div)
  moreover have "word_of_int (0xD800 + q) = c" "word_of_int (0xDC00 + m) = d"
    by (simp_all add: q_def m_def)
  ultimately show ?thesis
    using q by (simp add: scalar_def utf16_def q_def [symmetric] m_def [symmetric] add.assoc del: of_int_add)
qed

lemma uri_encode_well_formed: "uri_encode s = Inr t \<Longrightarrow> well_formed s"
proof (induction s arbitrary: t rule: uri_encode.induct)
  case (2 c s)
  consider (unit) "\<not> is_trail c" "\<not> is_lead c" "\<exists>r. uri_encode s = Inr r"
    | (pair) d s' where "s = d # s'" "is_lead c" "is_trail d" "\<exists>r. uri_encode s' = Inr r"
    using 2(4) unreserved_not_surrogate [of c]
    by (auto simp: malformed_def bindE_eq_Inr split: if_splits list.splits)
  then show ?case
  proof cases
    case unit
    then have "well_formed s" using 2(1,2) by (cases "uri_unreserved c") auto
    then show ?thesis using well_formed_scalar [of "code c" s] unit_scalar [OF unit(1,2)] by simp
  next
    case pair
    then have "\<not> uri_unreserved c" "\<not> is_trail c"
      using unreserved_not_surrogate [of c] by (auto simp: is_lead_def is_trail_def)
    then have "well_formed s'" using pair 2(3) by auto
    then show ?thesis using well_formed_scalar pair_scalar [OF pair(2,3)] pair(1) by (metis append_Cons append_Nil)
  qed
qed (rule well_formed_Nil)

lemma uri_encode_error: "uri_encode s = Inl e \<Longrightarrow> uri_encode s = malformed"
proof (induction s rule: uri_encode.induct)
  case (2 c s)
  then show ?case
    by (auto simp: malformed_def bindE_def split: if_splits list.splits sum.splits)
qed simp

lemma uri_encode_iff: "uri_encode s = Inr t \<longleftrightarrow> well_formed s \<and> t = enc s"
  using uri_encode_well_formed [of s t] uri_encode_enc(1) [of s] by auto

section \<open>Keys\<close>

text \<open>A text of percent-encoded octets and of code units other than the percent sign.\<close>

inductive pct_text :: "jstr \<Rightarrow> bool" where
  pct_Nil: "pct_text []"
| pct_unit: "c \<noteq> 37 \<Longrightarrow> pct_text t \<Longrightarrow> pct_text (c # t)"
| pct_octet: "pct_text t \<Longrightarrow> pct_text (percent b @ t)"

lemma pct_octets: "pct_text t \<Longrightarrow> pct_text (concat (map percent bs) @ t)"
  by (induction bs) (auto intro: pct_octet)

lemma pct_enc_scalar: "pct_text t \<Longrightarrow> pct_text (enc_scalar c @ t)"
proof (cases "c < 0x80 \<and> uri_unreserved (word_of_int c)")
  case True
  assume "pct_text t"
  moreover have "word_of_int c \<noteq> (37 :: 16 word)" using True by (auto simp: uri_unreserved_def)
  ultimately show ?thesis using True by (simp add: enc_scalar_def pct_unit)
next
  case False
  assume t: "pct_text t"
  have "enc_scalar c = concat (map percent (utf8 c))" using False by (simp add: enc_scalar_def del: de_Morgan_conj)
  then show ?thesis using pct_octets [OF t] by simp
qed

lemma pct_enc: "well_formed s \<Longrightarrow> pct_text (enc s)"
proof -
  assume "well_formed s"
  then obtain cs where cs: "\<forall>c \<in> set cs. scalar c" "s = concat (map utf16 cs)" by (auto simp: well_formed_def)
  have "pct_text (concat (map enc_scalar cs))"
    by (induction cs) (simp_all add: pct_Nil pct_enc_scalar)
  then show ?thesis using cs uri_encode_scalars by (simp add: enc_def)
qed

lemma percent_eq_iff: "percent a = percent b \<longleftrightarrow> a = b"
  using unpct_percent [of a "[]"] unpct_percent [of b "[]"] by (metis append_Nil2 list.inject)

lemma hex_unit_not_pct: "hex_unit (uint (b :: octet) div 16) \<noteq> 37" "hex_unit (uint b mod 16) \<noteq> 37"
  using hex_unit_octet [of b] by (auto simp: uri_unreserved_def)

lemma replace_percent:
  assumes "pct_text t" "uint b < 128" "uint b \<noteq> 37"
  shows "pct_text (replace_first (percent b) [word_of_int (uint b)] t) \<and>
    unpct (replace_first (percent b) [word_of_int (uint b)] t) = unpct t"
  using assms(1)
proof induction
  case pct_Nil
  then show ?case by (simp add: percent_def pct_text.pct_Nil)
next
  case (pct_unit c t)
  then show ?case by (simp add: percent_def starts_with_def pct_text.pct_unit)
next
  case (pct_octet t b')
  have u: "code (word_of_int (uint b)) = uint b" using assms(2) by (intro code_word_of_int) auto
  then have n: "word_of_int (uint b) \<noteq> (37 :: 16 word)" using assms(3) by auto
  show ?case
  proof (cases "b' = b")
    case True
    have "replace_first (percent b) [word_of_int (uint b)] (percent b @ t) = word_of_int (uint b) # t"
      by (simp add: percent_def starts_with_def)
    then show ?thesis using True pct_octet n u by (simp add: unpct_percent pct_text.pct_unit)
  next
    case False
    then have "percent b' \<noteq> percent b" by (simp add: percent_eq_iff)
    then have "replace_first (percent b) r (percent b' @ t) = percent b' @ replace_first (percent b) r t" for r
      using hex_unit_not_pct [of b'] by (auto simp: percent_def starts_with_def)
    then show ?thesis using pct_octet by (simp add: unpct_percent pct_text.pct_octet)
  qed
qed

definition enc_key :: "jstr \<Rightarrow> jstr" where
  "enc_key s = replace_first (js ''%24'') (js ''$'') (replace_first (js ''%5D'') (js '']'')
     (replace_first (js ''%5B'') (js ''['') (enc s)))"

lemma set_replace_first: "set (replace_first p r s) \<subseteq> set r \<union> set s"
proof (induction s)
  case (Cons c s)
  then show ?case using set_drop_subset [of "length p" "c # s"] by auto
qed auto

definition key_safe :: "16 word \<Rightarrow> bool" where
  "key_safe c \<longleftrightarrow> url_safe c \<or> c \<in> {36, 91, 93}"

lemma replaced_marks:
  "js ''%24'' = percent 36" "js ''%5D'' = percent 93" "js ''%5B'' = percent 91"
  "js ''$'' = [word_of_int (uint (36 :: octet))]" "js '']'' = [word_of_int (uint (93 :: octet))]"
  "js ''['' = [word_of_int (uint (91 :: octet))]"
  by code_simp+

lemma enc_key:
  assumes "well_formed s"
  shows "percent_decode (enc_key s) = s" and "\<forall>c \<in> set (enc_key s). key_safe c"
proof -
  note r = replace_percent [of _ 36] replace_percent [of _ 93] replace_percent [of _ 91]
  have "unpct (enc_key s) = unpct (enc s)"
    unfolding enc_key_def replaced_marks using r pct_enc [OF assms] by simp
  then show "percent_decode (enc_key s) = s"
    using uri_encode_enc(2) [OF assms] by (simp add: percent_decode_def)
  have "set (enc_key s) \<subseteq> {36, 91, 93} \<union> set (enc s)"
  proof -
    have "js ''$'' = [36]" "js '']'' = [93]" "js ''['' = [91]" by code_simp+
    then show ?thesis unfolding enc_key_def
      using set_replace_first [of "js ''%5B''" "[91]" "enc s"]
        set_replace_first [of "js ''%5D''" "[93]" "replace_first (js ''%5B'') [91] (enc s)"]
        set_replace_first [of "js ''%24''" "[36]" "replace_first (js ''%5D'') [93] (replace_first (js ''%5B'') [91] (enc s))"]
      by (simp only:) auto
  qed
  then show "\<forall>c \<in> set (enc_key s). key_safe c"
    using uri_encode_enc(3) [OF assms] by (auto simp: key_safe_def)
qed

lemma encoders:
  assumes "well_formed (to_str v)"
  shows "encodeURIComponent v = Inr (enc (to_str v))" "encodeQueryKey v = Inr (enc_key (to_str v))"
  using uri_encode_enc(1) [OF assms] by (simp_all add: encodeURIComponent_def encodeQueryKey_def enc_key_def)

section \<open>Collections\<close>

lemma join_Cons: "join sep (x # xs) = x @ concat (map (\<lambda>y. sep @ y) xs)"
  by (induction xs arbitrary: x) simp_all

lemma encode_loop_Suc:
  "\<forall>v \<in> set vs. \<forall>i. f (Suc i) v = Inr (g v) \<Longrightarrow>
     encode_loop f sep (Suc i) vs acc = Inr (acc @ concat (map (\<lambda>v. sep @ g v) vs))"
  by (induction vs arbitrary: i acc) simp_all

text \<open>A loop whose first round differs from the others.\<close>

lemma encode_loop_head:
  assumes "f 0 v = Inr (h @ g v)" "\<forall>v \<in> set vs. \<forall>i. f (Suc i) v = Inr (g v)"
  shows "encode_loop f sep 0 (v # vs) [] = Inr (h @ join sep (map g (v # vs)))"
  using encode_loop_Suc [where f = f and g = g, OF assms(2), of sep 0 "h @ g v"] assms(1)
  by (simp add: join_Cons comp_def del: join.simps)

lemma encode_loop_join:
  assumes "\<forall>v \<in> set vs. \<forall>i. f i v = Inr (g v)"
  shows "encode_loop f sep 0 vs [] = Inr (join sep (map g vs))"
proof (cases vs)
  case (Cons v ws)
  then show ?thesis using encode_loop_head [of f v "[]" g ws sep] assms by simp
qed simp

definition enc_val :: "json \<Rightarrow> jstr" where
  "enc_val v = enc (to_str v)"

definition good :: "json \<Rightarrow> bool" where
  "good v \<longleftrightarrow> well_formed (to_str v)"

lemma good_param [simp]: "good v \<Longrightarrow> encodeQueryParam v VUndef = Inr (enc_val v)"
  by (simp add: encodeQueryParam_def good_def encoders enc_val_def)

lemma good_key [simp]: "good v \<Longrightarrow> encodeQueryKey v = Inr (enc_key (to_str v))"
  by (simp add: good_def encoders)

lemma good_masked [simp]: "good v \<Longrightarrow> masked_param v f = Inr (if f = VStr (js ''password'') then stars else enc_val v)"
  by (simp add: masked_param_def mask_def)

lemma good_decode [simp]: "good v \<Longrightarrow> percent_decode (enc_val v) = to_str v" "good v \<Longrightarrow> percent_decode (enc_key (to_str v)) = to_str v"
  by (simp_all add: good_def enc_val_def uri_encode_enc enc_key)

lemma reserved_marks: "c \<in> {38, 61, 44, 124, 47, 63, 35} \<Longrightarrow> \<not> key_safe c"
  by (auto simp: key_safe_def url_safe_def uri_unreserved_def)

lemma good_marks:
  "good v \<Longrightarrow> c \<in> {38, 61, 44, 124, 47, 63, 35} \<Longrightarrow> c \<notin> set (enc_val v)"
  "good v \<Longrightarrow> c \<in> {38, 61, 44, 124, 47, 63, 35} \<Longrightarrow> c \<notin> set (enc_key (to_str v))"
  using reserved_marks [of c] uri_encode_enc(3) [of "to_str v" c] enc_key(2) [of "to_str v"]
  by (auto simp: good_def enc_val_def key_safe_def)

lemma split_pair: "c \<notin> set k \<Longrightarrow> c \<notin> set v \<Longrightarrow> split_at c (k @ c # v) = [k, v]"
  by (simp add: split_append split_plain)

lemma set_join: "set (join sep ss) \<subseteq> set sep \<union> \<Union> (set ` set ss)"
  by (cases ss) (auto simp: join_Cons simp del: join.simps(2-))

lemma marks: "js ''='' = [61]" "js ''&'' = [38]" "js '','' = [44]" "js ''|'' = [124]" "js ''?'' = [63]"
  by code_simp+

lemma separated_collection:
  assumes "good name" "\<forall>v \<in> set vs. good v" "vs \<noteq> []" "sep \<noteq> []"
    and "ty = ''csv'' \<and> sep = js '','' \<or> ty = ''pipes'' \<and> sep = js ''|'' \<or> ty = ''ssv'' \<and> sep = js ''%20''
      \<or> ty = ''tsv'' \<and> sep = js ''%09''"
  shows "encodeQueryCollection (VStr (js ty)) name vs m
    = Inr (enc_key (to_str name) @ js ''='' @ join sep (map enc_val vs))"
proof -
  obtain v ws where v: "vs = v # ws" using assms(3) by (cases vs) auto
  have "encodeQueryCollection (VStr (js ty)) name vs m = encode_loop (\<lambda>i v. if i = 0
      then pair_with (js ''='') name (encodeQueryParam v VUndef) else encodeQueryParam v VUndef) sep 0 vs []"
    using assms(5) by (auto simp: encodeQueryCollection_def orElse_def)
  then show ?thesis using assms(1,2)
    by (simp add: v encode_loop_head [where h = "enc_key (to_str name) @ js ''=''" and g = enc_val]
        pair_with_def del: encode_loop.simps join.simps)
qed

lemma multi_collection:
  assumes "good name" "\<forall>v \<in> set vs. good v"
  shows "encodeQueryCollection (VStr (js ''multi'')) name vs m = Inr (join (js ''&'') (map (\<lambda>v.
    enc_key (to_str name) @ js ''='' @ (if m = VStr (js ''password'') then stars else enc_val v)) vs))"
proof -
  have "encodeQueryCollection (VStr (js ''multi'')) name vs m
    = encode_loop (\<lambda>i v. pair_with (js ''='') name (masked_param v m)) (js ''&'') 0 vs []"
    by (simp add: encodeQueryCollection_def orElse_def)
  then show ?thesis using assms by (simp add: encode_loop_join pair_with_def del: encode_loop.simps)
qed

section \<open>Properties\<close>

text \<open>
  C32. What \<open>encodeQueryParam\<close>, \<open>encodeQueryKey\<close> and \<open>encodePathParam\<close> put into a URL: a value
  without a lone surrogate comes back when the server percent-decodes the result, and the
  result consists of unreserved code units and percent signs (a key may also hold \<open>[ ] $\<close>),
  so that no separator of the URL is among them; a value with a lone surrogate makes each of
  them throw the \<open>URIError\<close>.
\<close>

theorem encoders_sound:
  "if well_formed (to_str v) then
     (case (encodeQueryParam v VUndef, encodePathParam v m, encodeQueryKey v) of
        (Inr p, Inr q, Inr k) \<Rightarrow> p = q \<and> percent_decode p = to_str v \<and> percent_decode k = to_str v
          \<and> list_all url_safe p \<and> list_all key_safe k
      | _ \<Rightarrow> False)
   else encodeQueryParam v VUndef = malformed \<and> encodePathParam v m = malformed \<and> encodeQueryKey v = malformed"
proof (cases "well_formed (to_str v)")
  case True
  note e = uri_encode_enc [OF True] enc_key [OF True]
  have "list_all url_safe (enc (to_str v))" "list_all key_safe (enc_key (to_str v))"
    using e(3,5) by (simp_all add: list_all_iff)
  then show ?thesis
    using True e(1,2,4) encoders [OF True] by (simp add: encodeQueryParam_def encodePathParam_def)
next
  case False
  then have "uri_encode (to_str v) = malformed"
    using uri_encode_error [of "to_str v"] uri_encode_well_formed by (cases "uri_encode (to_str v)") auto
  then show ?thesis using False
    by (simp add: encodeQueryParam_def encodePathParam_def encodeQueryKey_def encodeURIComponent_def malformed_def)
qed

text \<open>
  A collection in the query can be read back: in the formats \<open>csv\<close> and \<open>pipes\<close> the text is
  one key and one value, which splits at the separator into the encoded elements; in the
  format \<open>multi\<close> it splits at the ampersands into one pair for every element.
\<close>

theorem query_collection_parses:
  assumes "well_formed (to_str name)" "\<forall>v \<in> set vs. well_formed (to_str v)" "vs \<noteq> []"
    and "(type, sep) \<in> {(''csv'', 44), (''pipes'', 124)}"
  shows "(case encodeQueryCollection (VStr (js type)) name vs VUndef of
      Inl e \<Rightarrow> False
    | Inr t \<Rightarrow> (case split_at 61 t of
        [k, b] \<Rightarrow> percent_decode k = to_str name \<and> map percent_decode (split_at sep b) = map to_str vs
      | _ \<Rightarrow> False)) \<and>
    (case encodeQueryCollection (VStr (js ''multi'')) name vs VUndef of
      Inl e \<Rightarrow> False
    | Inr t \<Rightarrow> map (\<lambda>p. map percent_decode (split_at 61 p)) (split_at 38 t) = map (\<lambda>v. [to_str name, to_str v]) vs)"
proof -
  have g: "good name" "\<forall>v \<in> set vs. good v" using assms by (auto simp: good_def)
  define b where "b = join [sep] (map enc_val vs)"
  have ty: "type = ''csv'' \<and> [sep] = js '','' \<or> type = ''pipes'' \<and> [sep] = js ''|'' \<or> type = ''ssv'' \<and> [sep] = js ''%20''
      \<or> type = ''tsv'' \<and> [sep] = js ''%09''"
    using assms(4) by (auto simp: marks)
  have s: "sep = 44 \<or> sep = 124" using assms(4) by auto
  have "61 \<notin> set b"
    using set_join [of "[sep]" "map enc_val vs"] s g good_marks(1) by (auto simp: b_def)
  then have "split_at 61 (enc_key (to_str name) @ js ''='' @ b) = [enc_key (to_str name), b]"
    using split_pair [of 61] good_marks(2) [OF g(1)] by (simp add: marks)
  moreover have "split_at sep b = map enc_val vs"
    unfolding b_def using assms(3) g s good_marks(1) by (intro split_join_plain) auto
  moreover have "split_at 38 (join [38] (map (\<lambda>v. enc_key (to_str name) @ 61 # enc_val v) vs))
      = map (\<lambda>v. enc_key (to_str name) @ 61 # enc_val v) vs"
    using assms(3) g good_marks by (intro split_join_plain) auto
  moreover have "split_at 61 (enc_key (to_str name) @ 61 # enc_val v) = [enc_key (to_str name), enc_val v]"
    if "v \<in> set vs" for v
    using that g good_marks by (intro split_pair) auto
  ultimately show ?thesis
    using separated_collection [OF g assms(3) _ ty, of VUndef] multi_collection [OF g, of VUndef] g
    by (simp add: b_def marks comp_def cong: map_cong)
qed

theorem query_collection_parses_witness:
  "case encodeQueryCollection (VStr (js ''csv'')) (VStr (js ''id'')) [VStr (js ''a,b''), VNum 7] VUndef of
      Inl e \<Rightarrow> False
    | Inr t \<Rightarrow> (case split_at 61 t of
        [k, b] \<Rightarrow> percent_decode k = to_str (VStr (js ''id'')) \<and>
          map percent_decode (split_at 44 b) = map to_str [VStr (js ''a,b''), VNum 7]
      | _ \<Rightarrow> False)"
proof -
  have w: "well_formed (js ''id'')" "well_formed (js ''a,b'')" "well_formed (int_digits 7)"
    by (rule well_formed_units, code_simp)+
  show ?thesis
    by (rule query_collection_parses [where type = "''csv''", THEN conjunct1]) (use w in simp_all)
qed

text \<open>
  Collections separated by blanks or tabs are ambiguous: \<open>encodeQueryCollection\<close> encodes a
  blank in an element the way it writes the separator, so one element with a blank in it and
  the two elements around the blank are the same text; in the format \<open>csv\<close> they differ.
\<close>

theorem spaced_collections_collide:
  assumes "well_formed (to_str name)" "well_formed a" "well_formed b" "well_formed (a @ 32 # b)"
  shows "encodeQueryCollection (VStr (js ''ssv'')) name [VStr (a @ 32 # b)] m
      = encodeQueryCollection (VStr (js ''ssv'')) name [VStr a, VStr b] m \<and>
    encodeQueryCollection (VStr (js ''csv'')) name [VStr (a @ 32 # b)] m
      \<noteq> encodeQueryCollection (VStr (js ''csv'')) name [VStr a, VStr b] m"
proof -
  have g: "good name" "\<forall>v \<in> set [VStr (a @ 32 # b)]. good v" "\<forall>v \<in> set [VStr a, VStr b]. good v"
    using assms by (auto simp: good_def)
  have sp: "uri_encode (s @ 32 # t) = bindE (uri_encode s) (\<lambda>r. bindE (uri_encode t) (\<lambda>r'. Inr (r @ js ''%20'' @ r')))"
    if wf: "well_formed s" for s t
  proof -
    have blank: "uri_encode (32 # t) = bindE (uri_encode t) (\<lambda>r'. Inr (js ''%20'' @ r'))"
    proof -
      have "\<not> uri_unreserved 32 \<and> \<not> is_trail 32 \<and> \<not> is_lead 32 \<and> concat (map percent (utf8 (code 32))) = js ''%20''"
        by code_simp
      then show ?thesis by simp
    qed
    obtain cs where "\<forall>c \<in> set cs. scalar c" "s = concat (map utf16 cs)" using wf by (auto simp: well_formed_def)
    then show ?thesis
      by (induction cs arbitrary: s) (auto simp: uri_encode_utf16 blank bindE_def simp del: uri_encode.simps(2) split: sum.splits)
  qed
  have "uri_encode (a @ 32 # b) = Inr (enc a @ js ''%20'' @ enc b)"
    using sp [OF assms(2)] assms(2,3) by (simp add: uri_encode_enc)
  then have e: "enc (a @ 32 # b) = enc a @ js ''%20'' @ enc b" by (simp add: enc_def)
  have "44 \<notin> set (enc (a @ 32 # b))" using good_marks(1) [of "VStr (a @ 32 # b)" 44] g by (simp add: enc_val_def)
  then have "enc (a @ 32 # b) \<noteq> enc a @ 44 # enc b" by auto
  then show ?thesis
    using e separated_collection [OF g(1,2), of "js ''%20''" "''ssv''" m] separated_collection [OF g(1,3), of "js ''%20''" "''ssv''" m]
      separated_collection [OF g(1,2), of "js '',''" "''csv''" m] separated_collection [OF g(1,3), of "js '',''" "''csv''" m]
    by (simp add: enc_val_def marks)
qed

theorem spaced_collections_collide_witness:
  "encodeQueryCollection (VStr (js ''ssv'')) (VStr (js ''q'')) [VStr (js ''a b'')] VUndef
     = encodeQueryCollection (VStr (js ''ssv'')) (VStr (js ''q'')) [VStr (js ''a''), VStr (js ''b'')] VUndef"
proof -
  have "js ''a b'' = js ''a'' @ 32 # js ''b''" by code_simp
  moreover have "well_formed (js ''q'')" "well_formed (js ''a'')" "well_formed (js ''b'')" "well_formed (js ''a'' @ 32 # js ''b'')"
    by (rule well_formed_units, code_simp)+
  ultimately show ?thesis
    using spaced_collections_collide [of "VStr (js ''q'')" "js ''a''" "js ''b''" VUndef] by simp
qed

text \<open>
  \<open>urlify\<close> asks for masking with \<open>true\<close>, while \<open>mask\<close> waits for the text \<open>password\<close>: a
  collection is never masked.
\<close>

lemma masked_param_true: "masked_param v (VBool True) = masked_param v VUndef"
  by (simp add: masked_param_def mask_def)

theorem collections_unmasked:
  "encodeQueryCollection type name vs (VBool True) = encodeQueryCollection type name vs VUndef"
  by (simp only: encodeQueryCollection_def masked_param_true)

end
