(* ===== verification/SwaggerAuth.thy ===== *)
theory SwaggerAuth
  imports BufferText CookieJar UrlEncode
begin

text \<open>
  \<open>lib/helpers.js\<close>, the module \<open>btoa\<close> and \<open>lib/auth.js\<close>: the small helpers of the swagger
  client, and the authorizations that put credentials into a request before it is sent.
\<close>

section \<open>Helpers\<close>

definition optionHtml :: "jstr \<Rightarrow> jstr \<Rightarrow> jstr" where
  "optionHtml label value =
    js ''<tr><td class=\"optionName\">'' @ label @ js '':</td><td>'' @ value @ js ''</td></tr>''"

definition definitions_prefix :: jstr where
  "definitions_prefix = js ''#/definitions/''"

text \<open>The name of a reference is a text, or \<open>undefined\<close>.\<close>

definition simpleRef :: "json \<Rightarrow> json" where
  "simpleRef name = (if name = VUndef then VNull
     else if starts_with definitions_prefix (to_str name)
     then VStr (drop (length definitions_prefix) (to_str name)) else name)"

lemma lookup_smaller:
  "lookup_field m k = VObj m' \<Longrightarrow> size (VObj m') < size (VObj m)"
  by (induction m) (auto split: if_splits)

function resolveSchema :: "json \<Rightarrow> json" where
  "resolveSchema schema = (case fld schema ''schema'' of
      VObj m \<Rightarrow> resolveSchema (VObj m)
    | _ \<Rightarrow> schema)"
  by auto
termination
  by (relation "measure size") (auto split: if_splits dest: lookup_smaller [OF sym] elim!: get.elims)

declare resolveSchema.simps [simp del]

definition extractExtensions :: "json \<Rightarrow> json \<Rightarrow> json \<Rightarrow> json" where
  "extractExtensions keyname obj value =
    (if \<not> truthy keyname \<or> \<not> truthy obj then obj
     else if is_string keyname \<and> starts_with (js ''x-'') (to_str keyname) then
       let v = orElse (fld obj ''vendorExtensions'') (VObj []);
           v = put v (to_str keyname) (if truthy value then value else get obj (to_str keyname))
       in put obj (js ''vendorExtensions'') v
     else obj)"

section \<open>btoa\<close>

text \<open>
  The buffer is local to the call: it lives in a store of its own.
\<close>

definition fresh_heap :: heap where
  "fresh_heap = \<lparr>mem = [], objs = 0\<rparr>"

definition btoa :: "jstr \<Rightarrow> jserr + jstr" where
  "btoa str = (case fromString fresh_heap str (js ''binary'') of
      (Inl e, h) \<Rightarrow> Inl e
    | (Inr buffer, h) \<Rightarrow> BufferText.toString (octets h buffer) (js ''base64'') Undef Undef)"

section \<open>Requests\<close>

text \<open>
  The object \<open>obj\<close> that \<open>Operation.execute\<close> builds, with what happens on a response and on an
  error: the deferred of the call is settled or a callback is called.  The authorizations are kept under names,
  in the order they were added.
\<close>

datatype auth = ApiKeyAuthorization json json json | CookieAuthorization cookie_arg
  | PasswordAuthorization json json

type_synonym authz = "(jstr \<times> auth) list"

datatype handler = Deferred | Callback json

record request =
  r_url :: jstr
  r_method :: jstr
  r_headers :: fields
  r_body :: json
  r_cookieJar :: "jar option"
  r_authz :: "authz option"
  r_timeout :: json
  r_enableCookies :: json
  r_useJQuery :: json
  r_jqueryAjaxCache :: json
  r_onResponse :: handler
  r_onError :: handler

section \<open>Authorizations\<close>

text \<open>The loop over the parts of the query: whether one of them has the key.\<close>

fun has_query_key :: "json \<Rightarrow> jstr list \<Rightarrow> bool" where
  "has_query_key name [] = False"
| "has_query_key name (part # parts) =
    (if strict_eq (VStr (hd (split_at 61 part))) name then True else has_query_key name parts)"

text \<open>\<open>obj.url.substring(obj.url.indexOf('?') + 1)\<close>.\<close>

definition query_part :: "jstr \<Rightarrow> jstr" where
  "query_part url = drop (nat (index_of url (js ''?'') + 1)) url"

definition apiKey_apply :: "json \<Rightarrow> json \<Rightarrow> json \<Rightarrow> request \<Rightarrow> request \<times> json" where
  "apiKey_apply name value type obj =
    (if type = VStr (js ''query'') then
       (if index_of (r_url obj) (js ''?'') > 0 \<and> has_query_key name (split_at 38 (query_part (r_url obj)))
        then (obj, VBool False)
        else if index_of (r_url obj) (js ''?'') > 0
        then (obj\<lparr>r_url := r_url obj @ js ''&'' @ to_str name @ js ''='' @ to_str value\<rparr>, VBool True)
        else (obj\<lparr>r_url := r_url obj @ js ''?'' @ to_str name @ js ''='' @ to_str value\<rparr>, VBool True))
     else if type = VStr (js ''header'') then
       (if lookup_field (r_headers obj) (to_str name) = VUndef
        then (obj\<lparr>r_headers := set_field (r_headers obj) (to_str name) value\<rparr>, VBool True)
        else (obj, VBool True))
     else (obj, VUndef))"

definition cookie_apply ::
  "(jstr \<Rightarrow> jnum) \<Rightarrow> jnum \<Rightarrow> cookie_arg \<Rightarrow> request \<Rightarrow> jserr + request \<times> json" where
  "cookie_apply date_parse now cookie obj =
    (let jar = (case r_cookieJar obj of Some j \<Rightarrow> j | None \<Rightarrow> []) in
     bindE (setCookie date_parse now jar cookie VUndef VUndef)
       (\<lambda>(jar', r). Inr (obj\<lparr>r_cookieJar := Some jar'\<rparr>, VBool True)))"

definition password_apply :: "json \<Rightarrow> json \<Rightarrow> request \<Rightarrow> jserr + request \<times> json" where
  "password_apply username password obj =
    (if lookup_field (r_headers obj) (js ''Authorization'') = VUndef then
       bindE (btoa (to_str username @ js '':'' @ to_str password)) (\<lambda>b.
         Inr (obj\<lparr>r_headers := set_field (r_headers obj) (js ''Authorization'') (VStr (js ''Basic '' @ b))\<rparr>,
              VBool True))
     else Inr (obj, VBool True))"

fun auth_apply :: "(jstr \<Rightarrow> jnum) \<Rightarrow> jnum \<Rightarrow> auth \<Rightarrow> request \<Rightarrow> jserr + request \<times> json" where
  "auth_apply dp now (ApiKeyAuthorization name value type) obj = Inr (apiKey_apply name value type obj)"
| "auth_apply dp now (CookieAuthorization cookie) obj = cookie_apply dp now cookie obj"
| "auth_apply dp now (PasswordAuthorization username password) obj = password_apply username password obj"

section \<open>SwaggerAuthorizations\<close>

abbreviation set_auth :: "authz \<Rightarrow> jstr \<Rightarrow> auth \<Rightarrow> authz" where
  "set_auth z n a \<equiv> AList.update n a z"

text \<open>\<open>add\<close>: under one name, or every property of an object of authorizations.\<close>

datatype add_arg = Named jstr auth | AuthObject authz

fun authorizations_add :: "authz \<Rightarrow> add_arg \<Rightarrow> authz" where
  "authorizations_add z (Named n a) = set_auth z n a"
| "authorizations_add z (AuthObject as) = foldl (\<lambda>z (n, a). set_auth z n a) z as"

definition authorizations_remove :: "authz \<Rightarrow> jstr \<Rightarrow> authz" where
  "authorizations_remove z n = AList.delete n z"

text \<open>
  The names in \<open>securities\<close>: a list of objects, whose keys are the names, or an object that
  has the names as keys itself.  The elements of a list have numbers for keys.
\<close>

definition keys_of :: "json \<Rightarrow> jstr list" where
  "keys_of v = map fst (fields_of v)"

definition flattenedSecurities :: "json \<Rightarrow> jstr list" where
  "flattenedSecurities securities = (case securities of
      VArr vs \<Rightarrow> concat (map keys_of vs)
    | VObj m \<Rightarrow> concat (map (\<lambda>(k, obj). k # keys_of obj) m)
    | _ \<Rightarrow> [])"

fun apply_each :: "(jstr \<Rightarrow> jnum) \<Rightarrow> jnum \<Rightarrow> bool \<Rightarrow> jstr list \<Rightarrow> authz \<Rightarrow> request \<Rightarrow> bool
  \<Rightarrow> jserr + request \<times> bool" where
  "apply_each dp now applyAll flattened [] obj status = Inr (obj, status)"
| "apply_each dp now applyAll flattened ((authName, auth) # authz) obj status =
    (if applyAll \<or> authName \<in> set flattened then
       bindE (auth_apply dp now auth obj) (\<lambda>(obj', newStatus).
         apply_each dp now applyAll flattened authz obj' (status \<and> truthy newStatus))
     else apply_each dp now applyAll flattened authz obj status)"

definition authorizations_apply ::
  "(jstr \<Rightarrow> jnum) \<Rightarrow> jnum \<Rightarrow> authz \<Rightarrow> request \<Rightarrow> json \<Rightarrow> jserr + request \<times> bool" where
  "authorizations_apply dp now this obj securities =
    apply_each dp now (\<not> truthy securities) (flattenedSecurities securities)
      (case r_authz obj of Some z \<Rightarrow> z | None \<Rightarrow> this) obj True"

section \<open>Rules\<close>

lemma fromString_binary:
  assumes "s \<noteq> []" "length s < 0x7fffffff"
  shows "\<exists>b h'. fromString h s (js ''binary'') = (Inr b, h') \<and> octets h' b = asciiToBytes s"
proof -
  obtain b h1 where a: "allocate h (length s) = (b, h1)" by fastforce
  note new = allocate_facts [OF a assms(2)]
  have e: "encoding_case (js ''binary'') = Some Binary" by code_simp
  have "byteLength_case s (js ''binary'') = Some (Inr (length s))"
    by (simp add: byteLength_case_def)
  then have n: "byteLength s (js ''binary'') = Inr (length s)" using assms(1) by (simp add: byteLength_def)
  have "blitBuffer h1 (asciiToBytes s) b 0 (JInt (int (length s))) 0 = (length s, put_octets h1 b 0 (asciiToBytes s))"
    using blitBuffer_octets [of h1 b 0 "asciiToBytes s" "int (length s)" 0] new(1,3) latin1.length_enc [of s] by simp
  then have "buffer_write h1 b s (StrArg (js ''binary'')) Absent Absent = (Inr (length s), put_octets h1 b 0 (asciiToBytes s))"
    using assms(1) new(3) e
    by (simp add: buffer_write_def write_args_def encoding_arg_def find_encoding_def write_encoded_def
        binaryWrite_def asciiWrite_def)
  then have "fromString h s (js ''binary'') = (Inr b, put_octets h1 b 0 (asciiToBytes s))"
    using a n by (simp add: fromString_def)
  moreover have "octets (put_octets h1 b 0 (asciiToBytes s)) b = asciiToBytes s"
    using new(1-3) latin1.length_enc [of s] octets_put_octets [of h1 b 0 "asciiToBytes s"] by (simp add: splice_def)
  ultimately show ?thesis by blast
qed

lemma btoa_octets:
  assumes "s \<noteq> []" "length s < 0x7fffffff"
  shows "btoa s = Inr (uint8ToBase64 (asciiToBytes s))"
proof -
  obtain b h' where b: "fromString fresh_heap s (js ''binary'') = (Inr b, h')" "octets h' b = asciiToBytes s"
    using fromString_binary [OF assms] by blast
  have ne: "asciiToBytes s \<noteq> []" and len: "length (asciiToBytes s) < 0x7fffffff"
    using assms latin1.length_enc [of s] by auto
  have "find_encoding (js ''base64'') = Some Base64" by code_simp
  moreover have "stands_for Base64 (uint8ToBase64 (asciiToBytes s)) (asciiToBytes s)" by (simp add: stands_for_def)
  ultimately show ?thesis using b toString_stands_for [OF _ _ _ ne len] by (simp add: btoa_def)
qed

text \<open>What an authorization may do to a request: lengthen its URL, add headers, fill its jar.\<close>

definition extends :: "request \<Rightarrow> request \<Rightarrow> bool" where
  "extends a b \<longleftrightarrow> starts_with (r_url a) (r_url b)
     \<and> (\<forall>k. lookup_field (r_headers a) k = VUndef \<or> lookup_field (r_headers b) k = lookup_field (r_headers a) k)
     \<and> (r_method b, r_body b, r_authz b, r_timeout b, r_onResponse b, r_onError b)
       = (r_method a, r_body a, r_authz a, r_timeout a, r_onResponse a, r_onError a)
     \<and> (r_enableCookies b, r_useJQuery b, r_jqueryAjaxCache b) = (r_enableCookies a, r_useJQuery a, r_jqueryAjaxCache a)"

lemma extends_refl [simp]: "extends a a"
  by (simp add: extends_def starts_with_def)

lemma extends_trans: "extends a b \<Longrightarrow> extends b c \<Longrightarrow> extends a c"
  unfolding extends_def starts_with_iff
  by (auto; metis)

lemma extends_url: "extends a (a\<lparr>r_url := r_url a @ s\<rparr>)"
  by (simp add: extends_def)

lemma extends_header: "lookup_field (r_headers a) k = VUndef \<Longrightarrow> extends a (a\<lparr>r_headers := set_field (r_headers a) k v\<rparr>)"
  by (auto simp: extends_def starts_with_def)

lemma extends_jar: "extends a (a\<lparr>r_cookieJar := j\<rparr>)"
  by (simp add: extends_def starts_with_def)

lemma auth_extends: "auth_apply dp now a obj = Inr (obj', s) \<Longrightarrow> extends obj obj'"
  by (cases a)
    (auto simp: apiKey_apply_def cookie_apply_def password_apply_def bindE_eq_Inr extends_url extends_header extends_jar
      split: if_splits)

lemma apply_each_extends: "apply_each dp now al fl z obj st = Inr (obj', s) \<Longrightarrow> extends obj obj'"
proof (induction z arbitrary: obj st)
  case (Cons p z)
  then show ?case
    by (cases p) (auto simp: bindE_eq_Inr split: if_splits intro: extends_trans dest!: auth_extends)
qed simp


lemma index_after: "c \<notin> set s \<Longrightarrow> index_of (s @ c # t) [c] = int (length s)"
proof -
  assume "c \<notin> set s"
  then have "find_at k (s @ c # t) [c] = int (k + length s)" for k
    by (induction s arbitrary: k) (auto simp: starts_with_def)
  then show ?thesis by (simp add: index_of_def)
qed

lemma index_absent: "c \<notin> set s \<Longrightarrow> index_of s [c] = -1"
proof -
  assume "c \<notin> set s"
  then have "find_at k s [c] = -1" for k
    by (induction s arbitrary: k) (auto simp: starts_with_def)
  then show ?thesis by (simp add: index_of_def)
qed

lemma query_part_after: "c = 63 \<Longrightarrow> 63 \<notin> set s \<Longrightarrow> query_part (s @ c # t) = t"
  using index_after [of 63 s t] by (simp add: query_part_def marks nat_add_distrib)

lemma has_query_key_iff: "has_query_key name parts \<longleftrightarrow> (\<exists>p \<in> set parts. strict_eq (VStr (hd (split_at 61 p))) name)"
  by (induction parts) auto

lemma split_last: "\<exists>ps. ps \<noteq> [] \<and> split_at c (s @ c # t) = ps @ split_at c t"
proof (induction s)
  case Nil
  then show ?case by (intro exI [of _ "[[]]"]) (cases "split_at c t"; simp)
next
  case (Cons d s)
  then obtain p ps where ps: "split_at c (s @ c # t) = (p # ps) @ split_at c t"
    by (metis neq_Nil_conv)
  show ?case
    by (rule exI [of _ "if d = c then [] # p # ps else (d # p) # ps"]) (use ps in simp)
qed

lemma split_hd: "61 \<notin> set n \<Longrightarrow> hd (split_at 61 (n @ 61 # v)) = n"
  by (simp add: split_append)

lemma authorized_again:
  fixes v :: jstr
  assumes "strict_eq (VStr n) name" "61 \<notin> set n" "38 \<notin> set n" "63 \<notin> set s" "s \<noteq> []"
    and "rest = [] \<or> (\<exists>r. rest = 63 # r)"
  defines "u \<equiv> (s @ rest) @ (if rest = [] then 63 else 38) # n @ 61 # v"
  shows "index_of u (js ''?'') > 0 \<and> has_query_key name (split_at 38 (query_part u))"
proof -
  obtain w where w: "split_at 38 (n @ 61 # v) = (n @ 61 # w) # tl (split_at 38 (n @ 61 # v))"
  proof -
    have "\<exists>w. hd (split_at 38 (n @ 61 # v)) = n @ 61 # w"
      using assms(3) by (induction n) (auto split: list.splits)
    then show thesis using that by (metis list.collapse split_not_Nil)
  qed
  have key: "has_query_key name ((n @ 61 # w) # ps)" for ps using assms(1) split_hd [OF assms(2)] by simp
  show ?thesis
  proof (cases "rest = []")
    case True
    then have u: "u = s @ 63 # n @ 61 # v" by (simp add: u_def)
    then have "index_of u (js ''?'') = int (length s)" using index_after [OF assms(4)] by (simp add: marks)
    moreover have "has_query_key name (split_at 38 (n @ 61 # v))" using key by (subst w)
    ultimately show ?thesis using assms(4,5) u query_part_after [of 63 s "n @ 61 # v"] by simp
  next
    case False
    then obtain r where r: "rest = 63 # r" using assms(6) by blast
    then have u: "u = s @ 63 # r @ 38 # n @ 61 # v" by (simp add: u_def)
    obtain ps where ps: "split_at 38 (r @ 38 # n @ 61 # v) = ps @ split_at 38 (n @ 61 # v)"
      using split_last by blast
    have "index_of u (js ''?'') = int (length s)" using index_after [OF assms(4)] u by (simp add: marks)
    moreover have "n @ 61 # w \<in> set (split_at 38 (query_part u))"
      using u ps w query_part_after [of 63 s] assms(4) by (metis Un_iff list.set_intros(1) set_append)
    then have "has_query_key name (split_at 38 (query_part u))"
      unfolding has_query_key_iff using assms(1) split_hd [OF assms(2)] by metis
    ultimately show ?thesis using assms(5) by simp
  qed
qed

lemma before_query:
  obtains s rest where "url = s @ rest" "63 \<notin> set s" "rest = [] \<or> (\<exists>r. rest = 63 # r)"
    "index_of url (js ''?'') > 0 \<longleftrightarrow> s \<noteq> [] \<and> rest \<noteq> []"
proof -
  define s rest where s: "s = takeWhile (\<lambda>c. c \<noteq> 63) url" "rest = dropWhile (\<lambda>c. c \<noteq> 63) url"
  have "url = s @ rest" by (simp add: s)
  moreover have n: "63 \<notin> set s" using set_takeWhileD by (fastforce simp: s)
  moreover have r: "rest = [] \<or> (\<exists>r. rest = 63 # r)"
    using dropWhile_eq_Cons_conv [of "\<lambda>c. c \<noteq> 63" url] by (cases rest) (auto simp: s)
  moreover have "index_of url (js ''?'') > 0 \<longleftrightarrow> s \<noteq> [] \<and> rest \<noteq> []"
    using r index_after [OF n] index_absent [OF n] \<open>url = s @ rest\<close> by (auto simp: marks)
  ultimately show ?thesis using that by blast
qed

section \<open>Properties\<close>

text \<open>
  C24. Applying authorizations only ever adds to a request: the URL keeps what it was and may
  grow at its end, a header that was set keeps its value, and method, body, timeout, the
  request's own authorizations, its options for cookies, jQuery and its cache, and its callbacks
  stay the same; only the cookie jar is left free.
\<close>

theorem authorizations_extend:
  assumes "authorizations_apply date_parse now authz obj securities = Inr (obj', status)"
  shows "starts_with (r_url obj) (r_url obj') \<and>
    (\<forall>k. lookup_field (r_headers obj) k \<noteq> VUndef \<longrightarrow> lookup_field (r_headers obj') k = lookup_field (r_headers obj) k) \<and>
    r_method obj' = r_method obj \<and> r_body obj' = r_body obj \<and> r_timeout obj' = r_timeout obj \<and> r_authz obj' = r_authz obj \<and>
    r_enableCookies obj' = r_enableCookies obj \<and> r_useJQuery obj' = r_useJQuery obj \<and>
    r_jqueryAjaxCache obj' = r_jqueryAjaxCache obj \<and> r_onResponse obj' = r_onResponse obj \<and> r_onError obj' = r_onError obj"
  using apply_each_extends [OF assms [unfolded authorizations_apply_def]] by (auto simp: extends_def)




text \<open>
  An API key is put into a request once: applied to the request it gave, the authorization
  changes nothing, and in the query form it says so by returning \<open>false\<close>.  (The URL must not
  be empty or begin with its query, the name must not hold a separator.)
\<close>

theorem api_key_once:
  assumes "61 \<notin> set n" "38 \<notin> set n" "r_url obj \<noteq> []" "hd (r_url obj) \<noteq> 63" "value \<noteq> VUndef"
    and "apiKey_apply (VStr n) value type obj = (obj', status)"
  shows "apiKey_apply (VStr n) value type obj' =
    (obj', if type = VStr (js ''query'') then VBool False else status)"
proof -
  obtain s rest where u: "r_url obj = s @ rest" "63 \<notin> set s" "rest = [] \<or> (\<exists>r. rest = 63 # r)"
    and pos: "index_of (r_url obj) (js ''?'') > 0 \<longleftrightarrow> s \<noteq> [] \<and> rest \<noteq> []"
    by (rule before_query)
  have s: "s \<noteq> []" using u assms(3,4) by auto
  have eq: "strict_eq (VStr n) (VStr n)" by (simp add: strict_eq_def)
  note again = authorized_again [OF eq assms(1,2) u(2) s u(3), of "to_str value"]
  show ?thesis
  proof (cases "type = VStr (js ''query'')")
    case True
    show ?thesis
    proof (cases "index_of (r_url obj) (js ''?'') > 0 \<and> has_query_key (VStr n) (split_at 38 (query_part (r_url obj)))")
      case False
      then have "r_url obj' = (s @ rest) @ (if rest = [] then 63 else 38) # n @ 61 # to_str value"
        using assms(6) True pos s u(1) by (auto simp: apiKey_apply_def marks split: if_splits)
      then show ?thesis using again True by (simp add: apiKey_apply_def)
    qed (use assms(6) True in \<open>auto simp: apiKey_apply_def\<close>)
  next
    case False
    then show ?thesis using assms(5,6) by (auto simp: apiKey_apply_def split: if_splits)
  qed
qed

text \<open>
  The header of a password authorization: unless the caller set one, it is \<open>Basic\<close> and a
  base64 text that decodes to the low octet of each code unit of the user, a colon and the
  password, so that credentials of code units below 256 arrive as they are (and others lose
  their upper octet).
\<close>

theorem password_header:
  assumes "lookup_field (r_headers obj) (js ''Authorization'') = VUndef"
    and "length user + length password < 0x7ffffffe"
  shows "case password_apply (VStr user) (VStr password) obj of
      Inl e \<Rightarrow> False
    | Inr (obj', status) \<Rightarrow> status = VBool True \<and>
        (case lookup_field (r_headers obj') (js ''Authorization'') of
           VStr h \<Rightarrow> take 6 h = js ''Basic '' \<and>
             b64ToByteArray (drop 6 h) = Inr (map (\<lambda>c. word_of_int (code c)) (user @ js '':'' @ password))
         | _ \<Rightarrow> False)"
proof -
  define s where "s = user @ js '':'' @ password"
  have "s \<noteq> []" "length s < 0x7fffffff" using assms(2) by (simp_all add: s_def)
  then have b: "btoa s = Inr (uint8ToBase64 (asciiToBytes s))" by (rule btoa_octets)
  have "asciiToBytes s = map (\<lambda>c. word_of_int (code c)) s"
    unfolding asciiToBytes_def by (intro map_cong refl word_uint_eqI) (rule trans [OF ascii_octet uint_octet_word_of_int [symmetric]])
  moreover have "length (js ''Basic '') = 6" by simp
  ultimately show ?thesis
    using assms(1) b b64_decode_encode [of "asciiToBytes s"]
    by (simp add: password_apply_def s_def [symmetric])
qed

section \<open>The properties at concrete requests\<close>

definition sample_request :: request where
  "sample_request = \<lparr>r_url = js ''http://localhost/addr?x=1'', r_method = js ''GET'',
     r_headers = [(js ''Accept'', VStr (js ''application/json''))], r_body = VUndef, r_cookieJar = None,
     r_authz = None, r_timeout = VUndef, r_enableCookies = VUndef, r_useJQuery = VUndef, r_jqueryAjaxCache = VUndef,
     r_onResponse = Deferred, r_onError = Deferred\<rparr>"

definition sample_authz :: authz where
  "sample_authz = [(js ''key'', ApiKeyAuthorization (VStr (js ''k'')) (VStr (js ''v'')) (VStr (js ''header'')))]"

theorem authorizations_extend_witness:
  "\<exists>obj'. authorizations_apply (\<lambda>s. NaN) NaN sample_authz sample_request VUndef = Inr (obj', True) \<and>
     lookup_field (r_headers obj') (js ''Accept'') = lookup_field (r_headers sample_request) (js ''Accept'')"
proof -
  have a: "authorizations_apply (\<lambda>s. NaN) NaN sample_authz sample_request VUndef
      = Inr (sample_request\<lparr>r_headers := [(js ''Accept'', VStr (js ''application/json'')), (js ''k'', VStr (js ''v''))]\<rparr>, True)"
    by (simp add: authorizations_apply_def sample_authz_def sample_request_def apiKey_apply_def)
  show ?thesis using a authorizations_extend [OF a] by (auto simp: sample_request_def)
qed

lemma sample_key_free: "61 \<notin> set (js ''k'')" "38 \<notin> set (js ''k'')" "r_url sample_request \<noteq> []"
  "hd (r_url sample_request) \<noteq> 63"
  unfolding sample_request_def request.simps by code_simp+

theorem api_key_once_witness:
  "case apiKey_apply (VStr (js ''k'')) (VStr (js ''v'')) (VStr (js ''query'')) sample_request of
     (obj', status) \<Rightarrow> apiKey_apply (VStr (js ''k'')) (VStr (js ''v'')) (VStr (js ''query'')) obj' = (obj', VBool False)"
proof (cases "apiKey_apply (VStr (js ''k'')) (VStr (js ''v'')) (VStr (js ''query'')) sample_request")
  case (Pair obj' status)
  then show ?thesis using api_key_once [OF sample_key_free _ Pair] by simp
qed

theorem password_header_witness:
  "case password_apply (VStr (js ''alice'')) (VStr (js ''secret'')) sample_request of
      Inl e \<Rightarrow> False
    | Inr (obj', status) \<Rightarrow> status = VBool True \<and>
        (case lookup_field (r_headers obj') (js ''Authorization'') of
           VStr h \<Rightarrow> take 6 h = js ''Basic '' \<and>
             b64ToByteArray (drop 6 h) = Inr (map (\<lambda>c. word_of_int (code c)) (js ''alice'' @ js '':'' @ js ''secret''))
         | _ \<Rightarrow> False)"
  by (rule password_header) (simp_all add: sample_request_def)

end
