(* ===== verification/SwaggerOperation.thy ===== *)
theory SwaggerOperation
  imports SwaggerAuth
begin

text \<open>
  \<open>lib/types/operation.js\<close>: how an operation of the API becomes a request.  The parameters of
  an operation, its arguments and the options of a call are values of \<open>JsValue\<close>; the methods
  of \<open>Operation.prototype\<close> are functions of the operation and these.  Parameters have names
  that are strings, as a specification requires.
\<close>

record operation =
  parameters :: "json list"
  o_method :: jstr
  o_path :: jstr
  o_scheme :: jstr
  o_host :: jstr
  o_basePath :: jstr
  o_nickname :: jstr
  o_summary :: jstr
  consumes :: "jstr list"
  produces :: "jstr list"
  o_security :: json
  o_timeout :: json
  o_client :: json
  o_requestAgent :: json
  o_requestInterceptor :: json
  o_responseInterceptor :: json
  o_useJQuery :: json
  o_jqueryAjaxCache :: json
  o_enableCookies :: json
  clientAuthorizations :: authz
  o_parent :: json

text \<open>The name of a parameter as a property key, and its argument.\<close>

definition p_name :: "json \<Rightarrow> jstr" where
  "p_name param = to_str (fld param ''name'')"

definition arg_of :: "json \<Rightarrow> json \<Rightarrow> json" where
  "arg_of args param = get args (p_name param)"

definition p_in :: "json \<Rightarrow> string \<Rightarrow> bool" where
  "p_in param s \<longleftrightarrow> fld param ''in'' = VStr (js s)"

definition p_password :: "json \<Rightarrow> bool" where
  "p_password param \<longleftrightarrow> fld param ''type'' = VStr (js ''string'') \<and> fld param ''format'' = VStr (js ''password'')"

section \<open>Content types\<close>

definition first_of :: "jstr list \<Rightarrow> json" where
  "first_of col = (case col of [] \<Rightarrow> VUndef | c # cs \<Rightarrow> VStr c)"

fun itemByPriority :: "jstr list \<Rightarrow> jstr list \<Rightarrow> json" where
  "itemByPriority col [] = first_of col"
| "itemByPriority col (p # ps) = (if p \<in> set col then VStr p else itemByPriority col ps)"

definition default_types :: "jstr list" where
  "default_types = [js ''application/json'', js ''application/yaml'']"

definition form_type :: jstr where
  "form_type = js ''application/x-www-form-urlencoded''"

definition multipart_type :: jstr where
  "multipart_type = js ''multipart/form-data''"

definition matchesAccept :: "operation \<Rightarrow> json \<Rightarrow> bool" where
  "matchesAccept this accepts =
    (if \<not> truthy accepts then True
     else accepts \<in> VStr ` set (produces this) \<or> js ''*/*'' \<in> set (produces this))"

text \<open>The loop over the parameters collects the file and form parameters, headers and the body.\<close>

record content_scan =
  definedFileParams :: "json list"
  definedFormParams :: "json list"
  s_headers :: fields
  s_body :: json

definition scan_param :: "json \<Rightarrow> json \<Rightarrow> json \<Rightarrow> content_scan \<Rightarrow> content_scan" where
  "scan_param args opts param s =
    (if p_in param ''formData'' then
       (if fld param ''type'' = VStr (js ''file'')
        then s\<lparr>definedFileParams := definedFileParams s @ [param]\<rparr>
        else s\<lparr>definedFormParams := definedFormParams s @ [param]\<rparr>)
     else if p_in param ''header'' then
       (if arg_of opts param \<noteq> VUndef
        then s\<lparr>s_headers := set_field (s_headers s) (p_name param) (arg_of opts param)\<rparr> else s)
     else if p_in param ''body'' \<and> arg_of args param \<noteq> VUndef then s\<lparr>s_body := arg_of args param\<rparr>
     else s)"

definition scan_params :: "json \<Rightarrow> json \<Rightarrow> json list \<Rightarrow> content_scan" where
  "scan_params args opts ps = foldl (\<lambda>s p. scan_param args opts p s)
    \<lparr>definedFileParams = [], definedFormParams = [], s_headers = [], s_body = VUndef\<rparr> ps"

text \<open>The last of the declared types that is a form type.\<close>

fun declared_form_type :: "jstr list \<Rightarrow> json \<Rightarrow> json" where
  "declared_form_type [] found = found"
| "declared_form_type (chk # cs) found = declared_form_type cs
    (if starts_with form_type chk \<or> starts_with multipart_type chk then VStr chk else found)"

definition form_consumes :: "operation \<Rightarrow> json \<Rightarrow> content_scan \<Rightarrow> json" where
  "form_consumes this opts s =
    (let c = (if truthy (fld opts ''requestContentType'') then fld opts ''requestContentType''
              else if definedFileParams s \<noteq> [] then VStr multipart_type
              else declared_form_type (consumes this) VUndef)
     in if c = VUndef then VStr form_type else c)"

definition request_consumes :: "operation \<Rightarrow> json \<Rightarrow> json \<Rightarrow> content_scan \<Rightarrow> json" where
  "request_consumes this args opts s =
    (let consumes0 = orElse (fld args ''parameterContentType'') (itemByPriority (consumes this) default_types);
         hasBody = truthy (s_body s) \<or> definedFileParams s \<noteq> [] \<or> definedFormParams s \<noteq> []
     in if o_method this \<in> {js ''post'', js ''put'', js ''patch''}
          \<or> (o_method this \<in> {js ''delete'', js ''get''} \<and> hasBody) then
          let consumes1 = orElse (fld opts ''requestContentType'') consumes0
          in if definedFormParams s \<noteq> [] then form_consumes this opts s else consumes1
        else VNull)"

text \<open>The warnings that go to the console.\<close>

datatype warning = NotConsumed json | NotProduced json

definition setContentTypes :: "operation \<Rightarrow> json \<Rightarrow> json \<Rightarrow> fields \<times> warning list" where
  "setContentTypes this args opts =
    (let s = scan_params args opts (parameters this);
         accepts = orElse (fld opts ''responseContentType'') (itemByPriority (produces this) default_types);
         c = request_consumes this args opts s;
         w1 = (if truthy c \<and> c \<notin> VStr ` set (consumes this) then [NotConsumed c] else []);
         w2 = (if \<not> matchesAccept this accepts then [NotProduced accepts] else []);
         headers =
           (if (truthy c \<and> s_body s \<noteq> VStr []) \<or> c = VStr form_type
            then set_field (s_headers s) (js ''Content-Type'') c
            else if first_of (consumes this) = VStr form_type
            then set_field (s_headers s) (js ''Content-Type'') (first_of (consumes this))
            else s_headers s);
         headers = (if truthy accepts then set_field headers (js ''Accept'') accepts else headers)
     in (headers, w1 @ w2))"

section \<open>Headers\<close>

fun header_params :: "json list \<Rightarrow> (jstr \<times> json) list \<Rightarrow> (jstr \<times> json) list" where
  "header_params [] m = m"
| "header_params (param # ps) m = header_params ps
    (if p_in param ''header'' then AList.update (to_lower (p_name param)) param m else m)"

fun add_headers :: "(jstr \<times> json) list \<Rightarrow> (jstr \<times> json) list \<Rightarrow> fields \<Rightarrow> fields" where
  "add_headers m [] headers = headers"
| "add_headers m ((arg, value) # args) headers = add_headers m args
    (case map_of m (to_lower arg) of
       None \<Rightarrow> headers
     | Some headerParam \<Rightarrow> set_field headers (p_name headerParam)
         (if is_array value then VStr (to_str value) else value))"

definition getHeaderParams :: "operation \<Rightarrow> json \<Rightarrow> fields" where
  "getHeaderParams this args =
    add_headers (header_params (parameters this) []) (fields_of args)
      (fst (setContentTypes this args (VObj [])))"

section \<open>The URL\<close>

text \<open>\<open>path.replace(/#.*/, '')\<close>: what follows the number sign, up to the end of its line.\<close>

definition line_end :: "16 word \<Rightarrow> bool" where
  "line_end c \<longleftrightarrow> c \<in> {10, 13, 0x2028, 0x2029}"

fun strip_fragment :: "jstr \<Rightarrow> jstr" where
  "strip_fragment [] = []"
| "strip_fragment (c # s) = (if c = 35 then dropWhile (\<lambda>d. \<not> line_end d) s else c # strip_fragment s)"

text \<open>
  \<open>new RegExp('{' + name + '}', 'gi')\<close>: a name of letters, digits, underscores and hyphens
  that begins with no digit has no special meaning in the pattern.  For another name the
  result of \<open>replace\<close> is the argument \<open>regexp\<close>.
\<close>

definition plain_name :: "jstr \<Rightarrow> bool" where
  "plain_name n \<longleftrightarrow> list_all word_unit n \<and> (case n of [] \<Rightarrow> False | c # s \<Rightarrow> \<not> (48 \<le> code c \<and> code c \<le> 57))"

function replace_all :: "jstr \<Rightarrow> jstr \<Rightarrow> jstr \<Rightarrow> jstr" where
  "replace_all p r [] = []"
| "replace_all p r (c # s) =
    (if starts_with (to_lower p) (to_lower (c # s))
     then r @ replace_all p r (drop (length p - 1) s) else c # replace_all p r s)"
  by pat_completeness auto
termination by (relation "measure (\<lambda>(p, r, s). length s)") auto

type_synonym regexp = "jstr \<Rightarrow> jstr \<Rightarrow> jstr \<Rightarrow> jserr + jstr"

definition replace_param :: "regexp \<Rightarrow> jstr \<Rightarrow> jstr \<Rightarrow> jstr \<Rightarrow> jserr + jstr" where
  "replace_param regexp name value url =
    (if plain_name name then Inr (replace_all (js ''{'' @ name @ js ''}'') value url)
     else regexp name value url)"

text \<open>
  The state of the loop: the URL, the query and the variable \<open>isPassword\<close>, which is declared
  in the loop but not reset by it.
\<close>

record url_state =
  requestUrl :: jstr
  querystring :: jstr
  u_password :: json

definition query_item :: "json \<Rightarrow> json \<Rightarrow> json \<Rightarrow> jserr + jstr" where
  "query_item param qp isPassword =
    (if fld param ''collectionFormat'' \<noteq> VUndef \<and> is_array qp
     then encodeQueryCollection (fld param ''collectionFormat'') (fld param ''name'') (items_of qp) isPassword
     else pair_with (js ''='') (fld param ''name'') (encodeQueryParam qp isPassword))"

definition urlify_param :: "regexp \<Rightarrow> json \<Rightarrow> json \<Rightarrow> json \<Rightarrow> url_state \<Rightarrow> jserr + url_state" where
  "urlify_param regexp args maskPasswords param s =
    (let value = arg_of args param in
     if value = VUndef then Inr s
     else
       let s = (if p_password param \<and> truthy maskPasswords then s\<lparr>u_password := VBool True\<rparr> else s) in
       if p_in param ''path'' then
         bindE (if is_array value
                then encodePathCollection (fld param ''collectionFormat'') (fld param ''name'') (items_of value) (u_password s)
                else encodePathParam value (u_password s)) (\<lambda>v.
         bindE (replace_param regexp (p_name param) v (requestUrl s)) (\<lambda>u.
         Inr (s\<lparr>requestUrl := u\<rparr>)))
       else if p_in param ''query'' then
         let mark = (if querystring s = [] \<and> index_of (requestUrl s) (js ''?'') < 0 then js ''?'' else js ''&'') in
         bindE (query_item param value (u_password s)) (\<lambda>q.
         Inr (s\<lparr>querystring := querystring s @ mark @ q\<rparr>))
       else Inr s)"

fun urlify_loop :: "regexp \<Rightarrow> json \<Rightarrow> json \<Rightarrow> json list \<Rightarrow> url_state \<Rightarrow> jserr + url_state" where
  "urlify_loop regexp args maskPasswords [] s = Inr s"
| "urlify_loop regexp args maskPasswords (param # ps) s =
    bindE (urlify_param regexp args maskPasswords param s) (urlify_loop regexp args maskPasswords ps)"

definition urlify :: "regexp \<Rightarrow> operation \<Rightarrow> json \<Rightarrow> json \<Rightarrow> jserr + jstr" where
  "urlify regexp this args maskPasswords =
    bindE (urlify_loop regexp args maskPasswords (parameters this)
        \<lparr>requestUrl = strip_fragment (o_path this), querystring = [], u_password = VUndef\<rparr>) (\<lambda>s.
      Inr (o_scheme this @ js ''://'' @ o_host this
        @ (if o_basePath this \<noteq> js ''/'' then o_basePath this else []) @ requestUrl s @ querystring s))"

section \<open>Required parameters\<close>

text \<open>An empty list, or the name of the last parameter that is missing.\<close>

fun missing_loop :: "json \<Rightarrow> json list \<Rightarrow> json \<Rightarrow> json" where
  "missing_loop args [] missing = missing"
| "missing_loop args (param # ps) missing = missing_loop args ps
    (if fld param ''required'' = VBool True \<and> arg_of args param = VUndef then fld param ''name'' else missing)"

definition getMissingParams :: "operation \<Rightarrow> json \<Rightarrow> json" where
  "getMissingParams this args = missing_loop args (parameters this) (VArr [])"

section \<open>The body\<close>

record form_param =
  f_param :: json
  f_value :: json
  f_password :: json

text \<open>The variables of the first loop of \<open>getBody\<close>; \<open>b_param\<close> is what \<open>param\<close> holds after it.\<close>

record body_state =
  formParams :: "(jstr \<times> form_param) list"
  b_body :: json
  hasBody :: bool
  b_password :: json
  b_param :: json

definition body_param :: "json \<Rightarrow> json \<Rightarrow> body_state \<Rightarrow> body_state" where
  "body_param args param s =
    (let s = s\<lparr>b_param := param\<rparr>; value = arg_of args param in
     if value \<noteq> VUndef then
       let s = (if p_password param then s\<lparr>b_password := VStr (js ''password'')\<rparr> else s) in
       if p_in param ''body'' then s\<lparr>b_body := value\<rparr>
       else if p_in param ''formData'' then
         s\<lparr>formParams := AList.update (p_name param)
             \<lparr>f_param = param, f_value = value, f_password = b_password s\<rparr> (formParams s)\<rparr>
       else s
     else if p_in param ''body'' then s\<lparr>hasBody := True\<rparr> else s)"

definition body_params :: "json \<Rightarrow> json list \<Rightarrow> body_state" where
  "body_params args ps = foldl (\<lambda>s p. body_param args p s)
    \<lparr>formParams = [], b_body = VUndef, hasBody = False, b_password = VUndef, b_param = VUndef\<rparr> ps"

text \<open>The url-encoded form.\<close>

definition encoded_field :: "json \<Rightarrow> jstr \<times> form_param \<Rightarrow> jserr + jstr" where
  "encoded_field password kf =
    (let (key, f) = kf in
     if is_array (f_value f)
     then encodeQueryCollection (fld (f_param f) ''collectionFormat'') (VStr key) (items_of (f_value f)) password
     else bindE (encodeURIComponent (VStr key)) (\<lambda>k. bindE (encodeURIComponent (f_value f)) (\<lambda>v.
       Inr (k @ js ''='' @ to_str (mask (VStr v) password)))))"

fun encode_form :: "bool \<Rightarrow> (jstr \<times> form_param) list \<Rightarrow> jstr \<Rightarrow> jserr + jstr" where
  "encode_form masked [] encoded = Inr encoded"
| "encode_form masked (kf # form) encoded =
    bindE (encoded_field (if masked then f_password (snd kf) else VUndef) kf) (\<lambda>e.
      encode_form masked form ((if encoded \<noteq> [] then encoded @ js ''&'' else encoded) @ e))"

text \<open>The entries of a \<open>FormData\<close>: \<open>append\<close> keeps a file and makes a string of another value.\<close>

definition form_entry :: "json \<Rightarrow> json" where
  "form_entry v = (case v of VFile n \<Rightarrow> VFile n | _ \<Rightarrow> VStr (to_str v))"

definition append_field :: "jstr \<times> form_param \<Rightarrow> (jstr \<times> json) list \<Rightarrow> jserr + (jstr \<times> json) list" where
  "append_field kf form =
    (let (key, f) = kf; value = f_value f in
     if value = VNull then Inl (TypeError ''Cannot read properties of null'')
     else if (case value of VFile n \<Rightarrow> True | _ \<Rightarrow> False) then Inr (form @ [(key, value)])
     else if fld value ''type'' = VStr (js ''file'') \<and> truthy (fld value ''value'')
     then Inr (form @ [(key, form_entry (fld value ''value''))])
     else if is_array value then
       (if fld (f_param f) ''collectionFormat'' = VStr (js ''multi'')
        then Inr ([p \<leftarrow> form. fst p \<noteq> key] @ map (\<lambda>v. (key, form_entry v)) (items_of value))
        else bindE (encodeQueryCollection (fld (f_param f) ''collectionFormat'') (VStr key) (items_of value) VUndef)
          (\<lambda>e. Inr (form @ [(key, VStr (join (js ''='') (tl (split_at 61 e))))])))
     else Inr (form @ [(key, form_entry value)]))"

fun append_form :: "(jstr \<times> form_param) list \<Rightarrow> (jstr \<times> json) list \<Rightarrow> jserr + (jstr \<times> json) list" where
  "append_form [] form = Inr form"
| "append_form (kf # fs) form = bindE (append_field kf form) (append_form fs)"

text \<open>
  Without \<open>FormData\<close> the body is an object.  The variable \<open>data\<close> is declared in the loop but
  not reset by it; a collection in the format \<open>multi\<close>, the default, leaves the loop; the
  format is that of \<open>param\<close>, the last parameter of the operation.
\<close>

definition object_delimiter :: "json \<Rightarrow> jstr" where
  "object_delimiter format =
    (if format = VStr (js ''ssv'') then js '' ''
     else if format = VStr (js ''pipes'') then js ''|''
     else if format = VStr (js ''tsv'') then [9]
     else js '','')"

fun join_data :: "jstr \<Rightarrow> json list \<Rightarrow> json \<Rightarrow> json" where
  "join_data delimeter [] data = data"
| "join_data delimeter (v # vs) data = join_data delimeter vs
    (VStr ((if truthy data then to_str data @ delimeter else []) @ to_str v))"

fun object_form :: "json \<Rightarrow> (jstr \<times> form_param) list \<Rightarrow> json \<Rightarrow> fields \<Rightarrow> fields" where
  "object_form param [] data m = m"
| "object_form param ((key, f) # fs) data m =
    (if is_array (f_value f) then
       let format = orElse (fld param ''collectionFormat'') (VStr (js ''multi'')) in
       if format = VStr (js ''multi'') then set_field m key (f_value f)
       else let data = join_data (object_delimiter format) (items_of (f_value f)) data
            in object_form param fs data (set_field m key data)
     else object_form param fs data (set_field m key (f_value f)))"

definition getBody :: "bool \<Rightarrow> operation \<Rightarrow> fields \<Rightarrow> json \<Rightarrow> json \<Rightarrow> jserr + json \<times> fields" where
  "getBody has_FormData this headers args opts =
    (let s = body_params args (parameters this);
         contentType = lookup_field headers (js ''Content-Type'');
         body = (if hasBody s \<and> b_body s = VUndef \<and> truthy contentType
                    \<and> starts_with (js ''application/json'') (to_str contentType)
                 then VStr (js ''{}'') else b_body s);
         isMultiPart = (truthy contentType \<and> index_of (to_str contentType) multipart_type \<ge> 0)
     in if formParams s \<noteq> [] \<and> \<not> isMultiPart then
          bindE (encode_form (truthy (fld opts ''maskPasswords'')) (formParams s) []) (\<lambda>e. Inr (VStr e, headers))
        else if isMultiPart then
          bindE (if has_FormData then bindE (append_form (formParams s) []) (\<lambda>form. Inr (VForm form))
                 else Inr (VObj (object_form (b_param s) (formParams s) VUndef [])))
            (\<lambda>b. Inr (b, set_field headers (js ''Content-Type'') (VStr multipart_type)))
        else Inr (body, headers))"

section \<open>Executing an operation\<close>

definition upper_unit :: "16 word \<Rightarrow> 16 word" where
  "upper_unit c = (if 97 \<le> code c \<and> code c \<le> 122 then c - 32 else c)"

definition to_upper :: "jstr \<Rightarrow> jstr" where
  "to_upper s = map upper_unit s"

text \<open>\<open>helpers.log\<close> as a callback.\<close>

definition log_fun :: json where
  "log_fun = VFun 0"

fun is_fun :: "json \<Rightarrow> bool" where
  "is_fun (VFun i) = True"
| "is_fun v = False"

definition default_opt :: "jstr \<Rightarrow> json \<Rightarrow> json \<Rightarrow> json" where
  "default_opt k v opts = (if get opts k = VUndef then put opts k v else opts)"

text \<open>
  The options of the call, completed from the operation.  A function in their place (a
  callback) is an object without these options.
\<close>

definition call_options :: "operation \<Rightarrow> json \<Rightarrow> json" where
  "call_options this arg2 =
    (let opts = (case arg2 of VObj m \<Rightarrow> arg2 | _ \<Rightarrow> VObj []);
         opts = (if truthy (o_client this) then put opts (js ''client'') (o_client this) else opts);
         opts = (if truthy (o_requestAgent this) then put opts (js ''requestAgent'') (o_requestAgent this) else opts);
         opts = (if \<not> truthy (fld opts ''requestInterceptor'') \<and> truthy (o_requestInterceptor this)
                 then put opts (js ''requestInterceptor'') (o_requestInterceptor this) else opts);
         opts = (if \<not> truthy (fld opts ''responseInterceptor'') \<and> truthy (o_responseInterceptor this)
                 then put opts (js ''responseInterceptor'') (o_responseInterceptor this) else opts);
         opts = default_opt (js ''useJQuery'') (o_useJQuery this) opts;
         opts = default_opt (js ''jqueryAjaxCache'') (o_jqueryAjaxCache this) opts
     in default_opt (js ''enableCookies'') (o_enableCookies this) opts)"

text \<open>The callbacks a call ends with, unless the client uses promises.\<close>

definition call_callbacks :: "operation \<Rightarrow> json \<Rightarrow> json \<Rightarrow> json \<Rightarrow> json \<times> json" where
  "call_callbacks this arg2 arg3 arg4 =
    (let (success, error) = (if is_fun arg2 then (arg2, arg3)
           else if is_object arg2 then (arg3, arg4) else (VUndef, VUndef))
     in (orElse success (orElse (fld (o_parent this) ''defaultSuccessCallback'') log_fun),
         orElse error (orElse (fld (o_parent this) ''defaultErrorCallback'') log_fun)))"

text \<open>
  How a call ends: with a message for the error callback or the rejected promise, with the
  request itself (\<open>opts.mock\<close>), or with the request handed to \<open>SwaggerHttp\<close>.
\<close>

datatype reply = Rejected jstr | Failed json jstr | Mocked request | Sent request json

definition json_headers :: "fields \<Rightarrow> fields \<Rightarrow> fields" where
  "json_headers allHeaders contentTypeHeaders =
    foldl (\<lambda>h (k, v). set_field h k v) [] (allHeaders @ contentTypeHeaders)"

definition format_url :: "jstr \<Rightarrow> fields \<Rightarrow> jstr" where
  "format_url url headers =
    (if index_of url (js ''.{format}'') > 0 then
       let format = orElse (lookup_field headers (js ''Accept'')) (lookup_field headers (js ''accept'')) in
       if truthy format \<and> index_of (to_str format) (js ''json'') > 0
       then replace_first (js ''.{format}'') (js ''.json'') url
       else if truthy format \<and> index_of (to_str format) (js ''xml'') > 0
       then replace_first (js ''.{format}'') (js ''.xml'') url
       else url
     else url)"

text \<open>What the page's environment decides: \<open>FormData\<close>, dates, unusual regular expressions.\<close>

record env =
  has_FormData :: bool
  regexp :: regexp
  date_parse :: "jstr \<Rightarrow> jnum"
  date_now :: jnum

definition build_request ::
  "env \<Rightarrow> operation \<Rightarrow> json \<Rightarrow> json \<Rightarrow> authz option \<Rightarrow> handler \<Rightarrow> handler \<Rightarrow> jserr + request" where
  "build_request env this args opts opts_authz onResponse onError =
    (let allHeaders = getHeaderParams this args;
         contentTypeHeaders = fst (setContentTypes this args opts);
         headers = json_headers allHeaders contentTypeHeaders;
         timeout = (if fld opts ''timeout'' \<noteq> VUndef then fld opts ''timeout'' else o_timeout this)
     in bindE (getBody (has_FormData env) this contentTypeHeaders args opts) (\<lambda>(body, _).
        bindE (urlify (regexp env) this args (fld opts ''maskPasswords'')) (\<lambda>url.
        Inr \<lparr>r_url = format_url url headers, r_method = to_upper (o_method this), r_headers = headers,
             r_body = body, r_cookieJar = None, r_authz = opts_authz,
             r_timeout = (if truthy timeout then timeout else VUndef),
             r_enableCookies = fld opts ''enableCookies'', r_useJQuery = fld opts ''useJQuery'',
             r_jqueryAjaxCache = fld opts ''jqueryAjaxCache'',
             r_onResponse = onResponse, r_onError = onError\<rparr>)))"

definition execute :: "env \<Rightarrow> operation \<Rightarrow> json \<Rightarrow> json \<Rightarrow> json \<Rightarrow> json \<Rightarrow> authz option \<Rightarrow> jserr + reply" where
  "execute env this arg1 arg2 arg3 arg4 opts_authz =
    (let args = orElse arg1 (VObj []);
         opts = call_options this arg2;
         (success, error) = call_callbacks this arg2 arg3 arg4;
         missingParams = getMissingParams this args;
         message = js ''missing required params: '' @ to_str missingParams;
         usePromise = truthy (fld (o_parent this) ''usePromise'');
         on = (\<lambda>callback. if usePromise then Deferred else Callback callback)
     in if is_string missingParams \<and> to_str missingParams \<noteq> [] then
          Inr (if usePromise then Rejected message else Failed error message)
        else
          bindE (build_request env this args opts opts_authz (on success) (on error)) (\<lambda>obj.
          bindE (authorizations_apply (date_parse env) (date_now env) (clientAuthorizations this) obj (o_security this))
            (\<lambda>(obj, status).
          Inr (if fld opts ''mock'' = VBool True then Mocked obj else Sent obj opts))))"

section \<open>The command line\<close>

text \<open>\<open>s.replace(/c/g, r)\<close> for one code unit.\<close>

definition replace_units :: "16 word \<Rightarrow> jstr \<Rightarrow> jstr \<Rightarrow> jstr" where
  "replace_units c r s = concat (map (\<lambda>d. if d = c then r else [d]) s)"

text \<open>\<open>JSON.stringify\<close>.\<close>

definition low_hex :: "int \<Rightarrow> 16 word" where
  "low_hex d = word_of_int (if d < 10 then 48 + d else 87 + d)"

definition quote_unit :: "16 word \<Rightarrow> jstr" where
  "quote_unit c =
    (if c = 34 then [92, 34] else if c = 92 then [92, 92]
     else if c = 8 then [92, 98] else if c = 9 then [92, 116] else if c = 10 then [92, 110]
     else if c = 12 then [92, 102] else if c = 13 then [92, 114]
     else if code c < 32 then [92, 117, 48, 48, low_hex (code c div 16), low_hex (code c mod 16)]
     else [c])"

definition quoted :: "jstr \<Rightarrow> jstr" where
  "quoted s = [34] @ concat (map quote_unit s) @ [34]"

fun json_text :: "json \<Rightarrow> jstr option" where
  "json_text VUndef = None"
| "json_text (VFun i) = None"
| "json_text VNull = Some (js ''null'')"
| "json_text (VBool b) = Some (js (if b then ''true'' else ''false''))"
| "json_text (VNum n) = Some (int_digits n)"
| "json_text (VStr s) = Some (quoted s)"
| "json_text (VArr vs) = Some (js ''['' @ join (js '','')
     (map (\<lambda>v. case json_text v of None \<Rightarrow> js ''null'' | Some t \<Rightarrow> t) vs) @ js '']'')"
| "json_text (VObj m) = Some (js ''{'' @ join (js '','') (concat
     (map (\<lambda>(k, v). case json_text v of None \<Rightarrow> [] | Some t \<Rightarrow> [quoted k @ js '':'' @ t]) m)) @ js ''}'')"
| "json_text (VFile n) = Some (js ''{}'')"
| "json_text (VForm m) = Some (js ''{}'')"

definition curl_options :: "json \<Rightarrow> json" where
  "curl_options args2 =
    VObj (foldl (\<lambda>m (k, v). set_field m k v)
      [(js ''mock'', VBool True), (js ''maskPasswords'', VBool True)] (fields_of args2))"

definition curl_header :: "jstr \<times> json \<Rightarrow> jstr" where
  "curl_header kv = (let (key, value) = kv in
     js ''--header '' @ [39] @ key @ js '': ''
       @ (case value of VStr s \<Rightarrow> replace_units 39 ([92] @ js ''u0027'') s | v \<Rightarrow> to_str v) @ [39])"

text \<open>The form data of a multipart body; a masked collection is the string of stars.\<close>

definition collection_items :: "json \<Rightarrow> json list" where
  "collection_items v = (case v of VArr vs \<Rightarrow> vs | VStr s \<Rightarrow> map (\<lambda>c. VStr [c]) s | _ \<Rightarrow> [])"

fun curl_multi :: "json \<Rightarrow> json list \<Rightarrow> jstr \<Rightarrow> jserr + jstr" where
  "curl_multi parameter [] body = Inr body"
| "curl_multi parameter (v # vs) body =
    bindE (encodeQueryKey (fld parameter ''name'')) (\<lambda>k.
      curl_multi parameter vs
        (body @ js ''-F '' @ k @ js ''='' @ to_str (mask v (fld parameter ''format'')) @ js '' ''))"

definition curl_field :: "json \<Rightarrow> json \<Rightarrow> jstr \<Rightarrow> jserr + jstr" where
  "curl_field parameter paramValue body =
    (if \<not> truthy paramValue then Inr body
     else if fld parameter ''type'' = VStr (js ''file'') then
       Inr (if truthy (fld paramValue ''name'')
            then body @ js ''-F '' @ p_name parameter @ js ''=@\"'' @ to_str (fld paramValue ''name'') @ js ''\" '' else body)
     else if is_array paramValue then
       (if fld parameter ''collectionFormat'' = VStr (js ''multi'')
        then curl_multi parameter (items_of paramValue) body
        else bindE (encodeQueryCollection (fld parameter ''collectionFormat'') (fld parameter ''name'')
               (collection_items (mask paramValue (fld parameter ''format''))) VUndef)
             (\<lambda>e. Inr (body @ js ''-F '' @ e @ js '' '')))
     else bindE (encodeQueryKey (fld parameter ''name'')) (\<lambda>k.
       Inr (body @ js ''-F '' @ k @ js ''='' @ to_str (mask paramValue (fld parameter ''format'')) @ js '' '')))"

definition body_value :: "json \<Rightarrow> json \<Rightarrow> json" where
  "body_value b parameter = (case b of
      VForm form \<Rightarrow> VArr (map snd [e \<leftarrow> form. fst e = p_name parameter])
    | _ \<Rightarrow> arg_of b parameter)"

fun curl_fields :: "json \<Rightarrow> json list \<Rightarrow> jstr \<Rightarrow> jserr + jstr" where
  "curl_fields b [] body = Inr body"
| "curl_fields b (parameter # ps) body =
    (if p_in parameter ''formData''
     then bindE (curl_field parameter (body_value b parameter) body) (curl_fields b ps)
     else curl_fields b ps body)"

definition not_a_string :: "jserr + 'a" where
  "not_a_string = Inl (TypeError ''body.replace is not a function'')"

definition curl_body :: "operation \<Rightarrow> bool \<Rightarrow> json \<Rightarrow> jserr + jstr" where
  "curl_body this isMultipart b =
    (if is_object b then
       bindE (if isMultipart then curl_fields b (parameters this) [] else Inr []) (\<lambda>body.
         if body \<noteq> [] then Inr body
         else (case json_text b of Some t \<Rightarrow> Inr t | None \<Rightarrow> not_a_string))
     else (case b of VStr s \<Rightarrow> Inr s | _ \<Rightarrow> not_a_string))"

definition curl_data :: "bool \<Rightarrow> bool \<Rightarrow> jstr \<Rightarrow> jstr" where
  "curl_data isFormData isMultipart body =
    (let body = replace_units 10 [32, 92, 32, 10, 32] (replace_units 39 (js ''%27'') body);
         body = (if \<not> isFormData then replace_units 38 (js ''%26'') body else body)
     in if isMultipart then body
        else js ''-d '' @ [39] @ replace_units 64 (js ''%40'') body @ [39])"

definition curl_command :: "operation \<Rightarrow> request \<Rightarrow> jserr + jstr" where
  "curl_command this obj =
    (let type = lookup_field (r_headers obj) (js ''Content-Type'');
         isMultipart = truthy type \<and> \<not> starts_with form_type (to_str type) \<and> starts_with multipart_type (to_str type);
         isFormData = isMultipart \<or> (truthy type \<and> starts_with form_type (to_str type));
         results = (js ''-X '' @ to_upper (o_method this)) # map curl_header (r_headers obj)
     in bindE (if truthy (r_body obj)
               then bindE (curl_body this isMultipart (r_body obj)) (\<lambda>b. Inr (results @ [curl_data isFormData isMultipart b]))
               else Inr results) (\<lambda>results.
        Inr (js ''curl '' @ join (js '' '') results @ js '' '' @ [39] @ r_url obj @ [39])))"

text \<open>
  \<open>execute\<close> returns the request if the options say so; otherwise it returns an object that has
  no headers, which \<open>asCurl\<close> reads without a check.
\<close>

definition asCurl :: "env \<Rightarrow> operation \<Rightarrow> json \<Rightarrow> json \<Rightarrow> authz option \<Rightarrow> jserr + jstr" where
  "asCurl env this args1 args2 opts_authz =
    bindE (execute env this args1 (curl_options args2) VUndef VUndef opts_authz) (\<lambda>reply.
      case reply of
        Mocked obj \<Rightarrow>
          bindE (authorizations_apply (date_parse env) (date_now env) (clientAuthorizations this) obj (o_security this))
            (\<lambda>(obj, status). curl_command this obj)
      | _ \<Rightarrow> Inl (TypeError ''Cannot read properties of undefined''))"

end
