(* ===== verification/SwaggerRequest.thy ===== *)
theory SwaggerRequest
  imports SwaggerOperation
begin

text \<open>
  What the requests of \<open>SwaggerOperation\<close> look like: the query and the form body read back as
  the arguments, passwords are masked, headers and content types are those the operation
  declares, and missing parameters stop a call.
\<close>

section \<open>Separated items\<close>

text \<open>A key and a value, and a list of such pairs, as the server reads them.\<close>

definition read_pair :: "jstr \<Rightarrow> jstr list" where
  "read_pair p = map percent_decode (split_at 61 p)"

definition read_pairs :: "jstr \<Rightarrow> jstr list list" where
  "read_pairs t = map read_pair (split_at 38 t)"

definition key_value :: "jstr \<Rightarrow> json \<Rightarrow> jstr" where
  "key_value n v = enc_key n @ 61 # enc_val v"

definition plain_pair :: "jstr \<Rightarrow> json \<Rightarrow> jstr" where
  "plain_pair n v = enc n @ 61 # enc_val v"

lemma enc_free: "well_formed s \<Longrightarrow> c \<in> {38, 61, 44, 124, 47, 63, 35} \<Longrightarrow> c \<notin> set (enc s) \<and> c \<notin> set (enc_key s)"
  using good_marks [of "VStr s" c] by (simp add: good_def enc_val_def)

lemma pair_facts:
  assumes "well_formed n" "good v"
  shows "38 \<notin> set (key_value n v)" "read_pair (key_value n v) = [n, to_str v]" "key_value n v \<noteq> []"
    and "38 \<notin> set (plain_pair n v)" "read_pair (plain_pair n v) = [n, to_str v]" "plain_pair n v \<noteq> []"
proof -
  note f = enc_free [OF assms(1)] good_marks(1) [OF assms(2)]
  show "38 \<notin> set (key_value n v)" "38 \<notin> set (plain_pair n v)" "key_value n v \<noteq> []" "plain_pair n v \<noteq> []"
    using f by (simp_all add: key_value_def plain_pair_def)
  have "split_at 61 (key_value n v) = [enc_key n, enc_val v]" "split_at 61 (plain_pair n v) = [enc n, enc_val v]"
    using f unfolding key_value_def plain_pair_def by (simp_all add: split_pair)
  then show "read_pair (key_value n v) = [n, to_str v]" "read_pair (plain_pair n v) = [n, to_str v]"
    using assms uri_encode_enc(2) [OF assms(1)] enc_key(1) [OF assms(1)] by (simp_all add: read_pair_def)
qed

lemma read_pairs_join:
  assumes "ps \<noteq> []" "\<forall>p \<in> set ps. 38 \<notin> set p"
  shows "read_pairs (join [38] ps) = map read_pair ps"
  using split_join_plain [of ps 38] assms by (simp add: read_pairs_def)

section \<open>Queries\<close>

definition present :: "json \<Rightarrow> string \<Rightarrow> json list \<Rightarrow> json list" where
  "present args place ps = [p \<leftarrow> ps. p_in p place \<and> arg_of args p \<noteq> VUndef]"

text \<open>A parameter with a readable name whose argument is sent as one value.\<close>

definition simple_param :: "json \<Rightarrow> json \<Rightarrow> bool" where
  "simple_param args p \<longleftrightarrow> (\<exists>n. fld p ''name'' = VStr n \<and> well_formed n) \<and> good (arg_of args p)
     \<and> (fld p ''collectionFormat'' = VUndef \<or> \<not> is_array (arg_of args p))"

lemma simple_name: "simple_param args p \<Longrightarrow> fld p ''name'' = VStr (p_name p) \<and> well_formed (p_name p)"
  by (auto simp: simple_param_def p_name_def)

lemma query_item_simple:
  assumes "simple_param args p"
  shows "query_item p (arg_of args p) VUndef = Inr (key_value (p_name p) (arg_of args p))"
  using assms simple_name [OF assms]
  by (auto simp: query_item_def simple_param_def pair_with_def key_value_def marks good_def encoders enc_val_def encodeQueryParam_def)

lemma p_in_unique [simp]: "p_in p a \<Longrightarrow> p_in p b \<longleftrightarrow> a = b"
  by (auto simp: p_in_def)

lemma join_more: "xs \<noteq> [] \<Longrightarrow> join [c] (x # xs) = x @ c # join [c] xs"
  by (cases xs) simp_all

lemma urlify_queries:
  assumes "\<forall>p \<in> set ps. \<not> p_in p ''path''" "\<forall>p \<in> set (present args ''query'' ps). simple_param args p"
    and "u_password s = VUndef" "querystring s = [] \<longrightarrow> 63 \<notin> set (requestUrl s)"
  shows "urlify_loop rx args VUndef ps s = Inr (s\<lparr>querystring :=
    (let items = map (\<lambda>p. key_value (p_name p) (arg_of args p)) (present args ''query'' ps) in
     if items = [] then querystring s
     else if querystring s = [] then 63 # join [38] items else querystring s @ 38 # join [38] items)\<rparr>)"
  using assms
proof (induction ps arbitrary: s)
  case (Cons p ps)
  note IH = Cons.IH [OF _ _ Cons.prems(3)]
  show ?case
  proof (cases "arg_of args p \<noteq> VUndef \<and> p_in p ''query''")
    case True
    then have simple: "simple_param args p" using Cons.prems(2) by (simp add: present_def)
    define q where "q = (if querystring s = [] then 63 else 38) # key_value (p_name p) (arg_of args p)"
    have "querystring s = [] \<Longrightarrow> index_of (requestUrl s) (js ''?'') < 0"
      using Cons.prems(4) index_absent by (simp add: marks)
    then have step: "urlify_param rx args VUndef p s = Inr (s\<lparr>querystring := querystring s @ q\<rparr>)"
      using True Cons.prems(1,3) query_item_simple [OF simple]
      by (simp add: urlify_param_def q_def marks)
    define s' where "s' = s\<lparr>querystring := querystring s @ q\<rparr>"
    have "urlify_loop rx args VUndef ps s' = Inr (s'\<lparr>querystring :=
      (let items = map (\<lambda>p. key_value (p_name p) (arg_of args p)) (present args ''query'' ps) in
       if items = [] then querystring s'
       else if querystring s' = [] then 63 # join [38] items else querystring s' @ 38 # join [38] items)\<rparr>)"
      using Cons.prems by (intro Cons.IH) (simp_all add: s'_def q_def present_def)
    then show ?thesis using True step
      by (simp add: s'_def [symmetric]) (auto simp: s'_def q_def present_def Let_def join_more simp del: join.simps(3))
  next
    case False
    then have "urlify_param rx args VUndef p s = Inr s"
      using Cons.prems(1,3) by (auto simp: urlify_param_def Let_def)
    moreover have "present args ''query'' (p # ps) = present args ''query'' ps" using False by (auto simp: present_def)
    ultimately show ?thesis using Cons by simp
  qed
qed (simp add: present_def)

text \<open>The part of the URL before the query.\<close>

definition url_origin :: "operation \<Rightarrow> jstr" where
  "url_origin this = o_scheme this @ js ''://'' @ o_host this
     @ (if o_basePath this \<noteq> js ''/'' then o_basePath this else [])"

definition url_base :: "operation \<Rightarrow> jstr" where
  "url_base this = url_origin this @ strip_fragment (o_path this)"

lemma strip_fragment_subset: "set (strip_fragment s) \<subseteq> set s"
  by (induction s) (auto dest: set_dropWhileD)

text \<open>
  C1. The query of a request carries the arguments.  For an operation without path parameters,
  whose path has no question mark, and a call that masks no passwords and whose query arguments
  are well-formed texts or values sent as one (no collection format, so no lists of format
  \<open>multi\<close>, \<open>csv\<close> and the like), \<open>urlify\<close> gives the base URL, followed, if any argument goes to
  the query, by a question mark and a text that the server reads as the list of the parameters'
  names with the text of their arguments, in the order of the parameters.
\<close>

theorem query_round_trip:
  assumes "\<forall>p \<in> set (parameters this). \<not> p_in p ''path''"
    and "\<forall>p \<in> set (present args ''query'' (parameters this)). simple_param args p"
    and "63 \<notin> set (o_path this)"
  shows "case urlify rx this args VUndef of
      Inl e \<Rightarrow> False
    | Inr u \<Rightarrow>
       (if present args ''query'' (parameters this) = [] then u = url_base this
        else (case drop (length (url_base this)) u of
            [] \<Rightarrow> False
          | c # q \<Rightarrow> take (length (url_base this)) u = url_base this \<and> c = 63 \<and>
              read_pairs q = map (\<lambda>p. [p_name p, to_str (arg_of args p)]) (present args ''query'' (parameters this))))"
proof -
  let ?ps = "present args ''query'' (parameters this)"
  let ?items = "map (\<lambda>p. key_value (p_name p) (arg_of args p)) ?ps"
  have "63 \<notin> set (strip_fragment (o_path this))" using strip_fragment_subset assms(3) by blast
  then have u: "urlify rx this args VUndef = Inr (url_base this @ (if ?ps = [] then [] else 63 # join [38] ?items))"
    using urlify_queries [OF assms(1,2), of "\<lparr>requestUrl = strip_fragment (o_path this), querystring = [], u_password = VUndef\<rparr>" rx]
    by (simp add: urlify_def url_base_def url_origin_def Let_def)
  have ok: "well_formed (p_name p) \<and> good (arg_of args p)" if "p \<in> set ?ps" for p
    using that assms(2) simple_name [of args p] by (auto simp: simple_param_def)
  have "read_pairs (join [38] ?items) = map (\<lambda>p. [p_name p, to_str (arg_of args p)]) ?ps" if "?ps \<noteq> []"
    using that ok pair_facts(1,2) by (subst read_pairs_join) auto
  then show ?thesis unfolding u by simp
qed

section \<open>Passwords\<close>

text \<open>
  Two argument objects that differ only where the URL shows stars: in the arguments of query
  parameters, sent as one value, from the first password on.
\<close>

fun same_shown :: "json \<Rightarrow> json \<Rightarrow> bool \<Rightarrow> json list \<Rightarrow> bool" where
  "same_shown a b hidden [] = True"
| "same_shown a b hidden (p # ps) =
    ((arg_of a p = VUndef \<longleftrightarrow> arg_of b p = VUndef) \<and>
     (let hidden' = hidden \<or> (p_password p \<and> arg_of a p \<noteq> VUndef) in
      (if hidden' \<and> p_in p ''query'' \<and> fld p ''collectionFormat'' = VUndef then True else arg_of a p = arg_of b p)
      \<and> same_shown a b hidden' ps))"

lemma urlify_param_password:
  "urlify_param rx a m p s = Inr s' \<Longrightarrow>
     u_password s' = (if p_password p \<and> truthy m \<and> arg_of a p \<noteq> VUndef then VBool True else u_password s)"
  by (auto simp: urlify_param_def Let_def bindE_eq_Inr split: if_splits)

lemma same_shown_step:
  assumes "same_shown a b (truthy (u_password s)) (p # ps)"
  shows "urlify_param rx a (VBool True) p s = urlify_param rx b (VBool True) p s"
proof (cases "arg_of a p = arg_of b p")
  case True
  then show ?thesis by (simp add: urlify_param_def)
next
  case False
  have "if (truthy (u_password s) \<or> (p_password p \<and> arg_of a p \<noteq> VUndef)) \<and> p_in p ''query'' \<and> fld p ''collectionFormat'' = VUndef
      then True else arg_of a p = arg_of b p" and u: "arg_of a p = VUndef \<longleftrightarrow> arg_of b p = VUndef"
    using assms unfolding same_shown.simps Let_def by blast+
  then have h: "(truthy (u_password s) \<or> (p_password p \<and> arg_of a p \<noteq> VUndef)) \<and> p_in p ''query'' \<and> fld p ''collectionFormat'' = VUndef"
    using False by (rule_tac ccontr) (simp only: if_False)
  have "arg_of a p \<noteq> VUndef \<and> arg_of b p \<noteq> VUndef"
  proof (cases "arg_of a p = VUndef")
    case True
    then show ?thesis using u False by simp
  qed (use u in simp)
  then have "arg_of a p \<noteq> VUndef" "arg_of b p \<noteq> VUndef" "p_in p ''query''" "fld p ''collectionFormat'' = VUndef"
    "truthy (u_password s) \<or> p_password p"
    using h by blast+
  then show ?thesis
    by (cases "p_password p") (simp_all add: urlify_param_def query_item_def encodeQueryParam_def Let_def)
qed

lemma masked_loop:
  assumes "same_shown a b (truthy (u_password s)) ps"
  shows "urlify_loop rx a (VBool True) ps s = urlify_loop rx b (VBool True) ps s"
  using assms
proof (induction ps arbitrary: s)
  case (Cons p ps)
  note eq = same_shown_step [OF Cons.prems, of rx]
  show ?case
  proof (cases "urlify_param rx a (VBool True) p s")
    case (Inr s')
    have "truthy (u_password s') \<longleftrightarrow> truthy (u_password s) \<or> (p_password p \<and> arg_of a p \<noteq> VUndef)"
      using urlify_param_password [OF Inr] by (cases "p_password p \<and> arg_of a p \<noteq> VUndef") auto
    then have "same_shown a b (truthy (u_password s')) ps"
      using Cons.prems unfolding same_shown.simps Let_def by (elim conjE) simp
    then show ?thesis using Cons.IH [of s'] Inr eq by simp
  qed (use eq in simp)
qed simp

text \<open>
  C26. With \<open>maskPasswords\<close> the URL does not depend on the passwords among the query arguments that
  are sent as one value (those without a collection format), nor on other such query arguments
  that come after a password: the variable \<open>isPassword\<close> is not reset.  All other arguments,
  those with a collection format and those that do not go to the query, are the same in both
  calls; passwords in collections are shown (\<open>collections_unmasked\<close>).
\<close>

theorem masked_url:
  assumes "same_shown a b False (parameters this)"
  shows "urlify rx this a (VBool True) = urlify rx this b (VBool True)"
  using masked_loop [of a b "\<lparr>requestUrl = strip_fragment (o_path this), querystring = [], u_password = VUndef\<rparr>"] assms
  by (simp add: urlify_def)

text \<open>The URL so far, whatever is masked.\<close>

definition shown :: "jserr + url_state \<Rightarrow> jserr + jstr \<times> jstr" where
  "shown r = bindE r (\<lambda>s. Inr (requestUrl s, querystring s))"

lemma path_param_shown:
  assumes "p_in p ''path''" "\<not> is_array (arg_of args p)"
    and "requestUrl s = requestUrl s'" "querystring s = querystring s'"
  shows "shown (urlify_param rx args m p s) = shown (urlify_param rx args m' p s')"
  using assms by (simp add: urlify_param_def Let_def encodePathParam_def shown_def bindE_def split: sum.splits)

lemma path_params_shown:
  assumes "\<forall>p \<in> set ps. p_in p ''path'' \<and> \<not> is_array (arg_of args p)"
    and "requestUrl s = requestUrl s'" "querystring s = querystring s'"
  shows "shown (urlify_loop rx args m ps s) = shown (urlify_loop rx args m' ps s')"
  using assms
proof (induction ps arbitrary: s s')
  case (Cons p ps)
  have "shown (urlify_param rx args m p s) = shown (urlify_param rx args m' p s')"
    using Cons.prems by (intro path_param_shown) auto
  then show ?case
    using Cons.IH Cons.prems(1)
    by (cases "urlify_param rx args m p s"; cases "urlify_param rx args m' p s'") (simp_all add: shown_def)
qed (simp add: shown_def)

text \<open>
  The path of a URL shows its parameters whatever is to be masked: \<open>encodePathParam\<close> hands
  \<open>maskPasswords\<close> to \<open>encodeURIComponent\<close>, which ignores it, so a password in the path is
  printed.
\<close>

theorem path_passwords_shown:
  assumes "\<forall>p \<in> set (parameters this). p_in p ''path'' \<and> \<not> is_array (arg_of args p)"
  shows "urlify rx this args maskPasswords = urlify rx this args VUndef"
proof -
  have "urlify rx this args m = bindE (shown (urlify_loop rx args m (parameters this)
        \<lparr>requestUrl = strip_fragment (o_path this), querystring = [], u_password = VUndef\<rparr>))
      (\<lambda>(u, q). Inr (o_scheme this @ js ''://'' @ o_host this
        @ (if o_basePath this \<noteq> js ''/'' then o_basePath this else []) @ u @ q))" for m
    by (simp add: urlify_def shown_def bindE_def split: sum.splits)
  then show ?thesis using path_params_shown [OF assms refl refl] by metis
qed

section \<open>Path parameters\<close>

lemma lower_brace: "lower_unit c = 123 \<longleftrightarrow> c = 123"
proof
  assume "lower_unit c = 123"
  then have "code (lower_unit c) = 123" by simp
  then have "code c = 123" by (auto simp: code_lower_unit split: if_splits)
  then show "c = 123" by (metis word_of_code word_of_int_numeral)
qed (simp add: lower_unit_def)

lemma lower_brace' [simp]: "lower_unit c = lower_unit 123 \<longleftrightarrow> c = 123"
  by (metis lower_brace)

lemma replace_all_plain: "p = 123 # q \<Longrightarrow> 123 \<notin> set s \<Longrightarrow> replace_all p r s = s"
  by (induction s) (auto simp: starts_with_def to_lower_def lower_brace)

lemma replace_all_here: "p = 123 # q \<Longrightarrow> 123 \<notin> set b \<Longrightarrow> replace_all p r (p @ b) = r @ b"
  by (simp add: starts_with_def to_lower_def replace_all_plain)

lemma replace_all_one:
  assumes "p = 123 # q" "123 \<notin> set a" "123 \<notin> set b"
  shows "replace_all p r (a @ p @ b) = a @ r @ b"
  using assms(2)
proof (induction a)
  case Nil
  show ?case using replace_all_here [OF assms(1,3)] by simp
next
  case (Cons c a)
  then show ?case using assms(1) by (auto simp: starts_with_def to_lower_def lower_brace)
qed

lemma strip_fragment_id: "35 \<notin> set s \<Longrightarrow> strip_fragment s = s"
  by (induction s) auto

lemma length_split: "length (split_at c s) = Suc (count_list s c)"
  by (induction s) (auto split: list.splits)

text \<open>
  A path parameter fills its placeholder: in a path with one placeholder, the argument
  takes its place percent-encoded, the server reads it back there, and it can neither add a
  segment to the path nor start a query or a fragment.
\<close>

theorem path_parameter:
  assumes "parameters this = [p]" "p_in p ''path''" "fld p ''name'' = VStr n" "plain_name n"
    and "o_path this = a @ js ''{'' @ n @ js ''}'' @ b" "123 \<notin> set a" "123 \<notin> set b" "35 \<notin> set (o_path this)"
    and "arg_of args p = VStr v" "well_formed v"
  shows "\<exists>e. urlify rx this args maskPasswords = Inr (url_origin this @ a @ e @ b) \<and> percent_decode e = v \<and>
    length (split_at 47 (a @ e @ b)) = length (split_at 47 (a @ b)) \<and> 63 \<notin> set e \<and> 35 \<notin> set e"
proof (intro exI [of _ "enc v"] conjI)
  have brace: "js ''{'' = [123]" by code_simp
  have "replace_all (js ''{'' @ n @ js ''}'') (enc v) (o_path this) = a @ enc v @ b"
    using replace_all_one [of "123 # n @ js ''}''" "n @ js ''}''" a b] assms(5-7) by (simp add: brace)
  moreover have "p_name p = n" using assms(3) by (simp add: p_name_def)
  ultimately show "urlify rx this args maskPasswords = Inr (url_origin this @ a @ enc v @ b)"
    using assms strip_fragment_id [OF assms(8)] encoders(1) [of "VStr v"]
    by (simp add: urlify_def urlify_param_def Let_def encodePathParam_def replace_param_def url_origin_def)
  have free: "47 \<notin> set (enc v)" "63 \<notin> set (enc v)" "35 \<notin> set (enc v)"
    using enc_free [OF assms(10)] by simp_all
  then show "63 \<notin> set (enc v)" "35 \<notin> set (enc v)" by simp_all
  have "count_list (enc v) 47 = 0" using free(1) by (simp add: count_list_0_iff)
  then show "length (split_at 47 (a @ enc v @ b)) = length (split_at 47 (a @ b))" by (simp add: length_split)
  show "percent_decode (enc v) = v" by (rule uri_encode_enc(2) [OF assms(10)])
qed

section \<open>The properties at concrete operations\<close>

definition no_regexp :: regexp where
  "no_regexp n v u = Inr u"

definition sample_op :: "string \<Rightarrow> json list \<Rightarrow> operation" where
  "sample_op path ps = \<lparr>parameters = ps, o_method = js ''get'', o_path = js path, o_scheme = js ''http'',
     o_host = js ''localhost'', o_basePath = js ''/'', o_nickname = js ''op'', o_summary = [],
     consumes = [js ''application/json''], produces = [js ''application/json''], o_security = VUndef,
     o_timeout = VUndef, o_client = VUndef, o_requestAgent = VUndef, o_requestInterceptor = VUndef,
     o_responseInterceptor = VUndef, o_useJQuery = VUndef, o_jqueryAjaxCache = VUndef,
     o_enableCookies = VUndef, clientAuthorizations = [], o_parent = VUndef\<rparr>"

definition sample_param :: "string \<Rightarrow> string \<Rightarrow> string \<Rightarrow> json" where
  "sample_param place n format = VObj [(js ''in'', VStr (js place)), (js ''name'', VStr (js n)),
     (js ''type'', VStr (js ''string'')), (js ''format'', VStr (js format))]"

lemma sample_op_simps [simp]:
  "parameters (sample_op path ps) = ps" "o_path (sample_op path ps) = js path" "o_method (sample_op path ps) = js ''get''"
  "consumes (sample_op path ps) = [js ''application/json'']" "produces (sample_op path ps) = [js ''application/json'']"
  by (simp_all add: sample_op_def)

lemma sample_param_simps [simp]:
  "fld (sample_param place n f) ''name'' = VStr (js n)" "p_in (sample_param place n f) q \<longleftrightarrow> place = q"
  "fld (sample_param place n f) ''collectionFormat'' = VUndef" "fld (sample_param place n f) ''required'' = VUndef"
  "fld (sample_param place n f) ''type'' = VStr (js ''string'')"
  "p_name (sample_param place n f) = js n" "arg_of a (sample_param place n f) = fld a n"
  "p_password (sample_param place n f) \<longleftrightarrow> f = ''password''"
  by (simp_all add: sample_param_def p_in_def p_name_def arg_of_def p_password_def)

lemma code_of_char: "code (of_char c) < 256"
proof -
  have "(of_char c :: 16 word) = of_nat (of_char c)" by (rule of_nat_of_char [symmetric])
  moreover have "of_char c < (65536 :: nat)" using nat_of_char_less_256 [of c] by linarith
  ultimately have "unat (of_char c :: 16 word) = of_char c" by (simp only: unat_of_nat) simp
  then show ?thesis unfolding uint_nat using nat_of_char_less_256 [of c] by linarith
qed

lemma well_formed_js [simp]: "well_formed (js s)"
proof (rule well_formed_units)
  have "\<not> is_trail (of_char c) \<and> \<not> is_lead (of_char c)" for c
    using code_of_char [of c] unfolding is_trail_def is_lead_def by linarith
  then show "list_all (\<lambda>c. \<not> is_trail c \<and> \<not> is_lead c) (js s)" by (simp add: list_all_iff js_def)
qed

definition blocks_op :: operation where
  "blocks_op = sample_op ''/blocks'' [sample_param ''query'' ''q'' [], sample_param ''query'' ''r'' []]"

definition blocks_args :: json where
  "blocks_args = VObj [(js ''r'', VStr (js ''a&b'')), (js ''q'', VBool True)]"

theorem query_round_trip_witness:
  "case urlify no_regexp blocks_op blocks_args VUndef of
      Inl e \<Rightarrow> False
    | Inr u \<Rightarrow> (case drop (length (url_base blocks_op)) u of
            [] \<Rightarrow> False
          | c # q \<Rightarrow> take (length (url_base blocks_op)) u = url_base blocks_op \<and> c = 63 \<and>
              read_pairs q = [[js ''q'', js ''true''], [js ''r'', js ''a&b'']])"
proof -
  have p: "present blocks_args ''query'' (parameters blocks_op)
      = [sample_param ''query'' ''q'' [], sample_param ''query'' ''r'' []]"
    by (simp add: present_def blocks_op_def blocks_args_def)
  have path: "63 \<notin> set (o_path blocks_op)" unfolding blocks_op_def sample_op_simps by code_simp
  have no: "\<forall>p \<in> set (parameters blocks_op). \<not> p_in p ''path''" by (simp add: blocks_op_def)
  have simple: "\<forall>p \<in> set (present blocks_args ''query'' (parameters blocks_op)). simple_param blocks_args p"
    unfolding p by (simp add: simple_param_def good_def blocks_args_def)
  have m: "map (\<lambda>p. [p_name p, to_str (arg_of blocks_args p)]) [sample_param ''query'' ''q'' [], sample_param ''query'' ''r'' []]
      = [[js ''q'', js ''true''], [js ''r'', js ''a&b'']]"
    by (simp add: blocks_args_def)
  show ?thesis using query_round_trip [OF no simple path, of no_regexp] unfolding p m by (simp only: list.distinct if_False)
qed

theorem masked_url_witness:
  "urlify no_regexp (sample_op ''/sign'' [sample_param ''query'' ''pw'' ''password''])
      (VObj [(js ''pw'', VStr (js ''secret''))]) (VBool True)
   = urlify no_regexp (sample_op ''/sign'' [sample_param ''query'' ''pw'' ''password''])
      (VObj [(js ''pw'', VStr (js ''other''))]) (VBool True)"
  by (rule masked_url) simp

theorem path_passwords_shown_witness:
  "urlify no_regexp (sample_op ''/sign/{pw}'' [sample_param ''path'' ''pw'' ''password''])
      (VObj [(js ''pw'', VStr (js ''secret''))]) (VBool True)
   = urlify no_regexp (sample_op ''/sign/{pw}'' [sample_param ''path'' ''pw'' ''password''])
      (VObj [(js ''pw'', VStr (js ''secret''))]) VUndef"
  by (rule path_passwords_shown) simp

theorem path_parameter_witness:
  "\<exists>e. urlify no_regexp (sample_op ''/a/{id}/b'' [sample_param ''path'' ''id'' []])
      (VObj [(js ''id'', VStr (js ''x/y?''))]) VUndef
    = Inr (url_origin (sample_op ''/a/{id}/b'' [sample_param ''path'' ''id'' []]) @ js ''/a/'' @ e @ js ''/b'') \<and>
    percent_decode e = js ''x/y?'' \<and>
    length (split_at 47 (js ''/a/'' @ e @ js ''/b'')) = length (split_at 47 (js ''/a/'' @ js ''/b'')) \<and> 63 \<notin> set e \<and> 35 \<notin> set e"
proof -
  have "plain_name (js ''id'')" "123 \<notin> set (js ''/a/'')" "123 \<notin> set (js ''/b'')" "35 \<notin> set (js ''/a/{id}/b'')"
    "js ''/a/{id}/b'' = js ''/a/'' @ js ''{'' @ js ''id'' @ js ''}'' @ js ''/b''"
    by code_simp+
  then show ?thesis by (intro path_parameter [where p = "sample_param ''path'' ''id'' []" and n = "js ''id''"]) simp_all
qed

end
