(* ===== verification/SwaggerCall.thy ===== *)
theory SwaggerCall
  imports SwaggerRequest
begin

text \<open>
  Calls of an operation: which arguments must be there, the headers and the content types of
  the request, its form body, and the command line that stands for it.
\<close>

section \<open>Required parameters\<close>

definition missing :: "operation \<Rightarrow> json \<Rightarrow> json list" where
  "missing this args = [p \<leftarrow> parameters this. fld p ''required'' = VBool True \<and> arg_of args p = VUndef]"

lemma missing_loop_last:
  "missing_loop args ps m =
    (let ms = [p \<leftarrow> ps. fld p ''required'' = VBool True \<and> arg_of args p = VUndef]
     in if ms = [] then m else fld (last ms) ''name'')"
  by (induction ps arbitrary: m) (auto simp: Let_def)

lemma getMissingParams_last:
  "getMissingParams this args =
    (if missing this args = [] then VArr [] else fld (last (missing this args)) ''name'')"
  by (simp add: getMissingParams_def missing_loop_last missing_def Let_def)

definition named :: "json \<Rightarrow> bool" where
  "named p \<longleftrightarrow> (\<exists>n. fld p ''name'' = VStr n \<and> n \<noteq> [])"

lemma named_name: "named p \<Longrightarrow> fld p ''name'' = VStr (p_name p) \<and> p_name p \<noteq> []"
  by (auto simp: named_def p_name_def)

lemma execute_missing:
  assumes "missing this (orElse arg1 (VObj [])) \<noteq> []" "list_all named (parameters this)"
  shows "execute env this arg1 arg2 arg3 arg4 z =
    (let message = js ''missing required params: '' @ p_name (last (missing this (orElse arg1 (VObj []))))
     in Inr (if truthy (fld (o_parent this) ''usePromise'') then Rejected message
             else Failed (snd (call_callbacks this arg2 arg3 arg4)) message))"
proof -
  let ?p = "last (missing this (orElse arg1 (VObj [])))"
  have "?p \<in> set (missing this (orElse arg1 (VObj [])))" using assms(1) by simp
  then have "?p \<in> set (parameters this)" by (simp add: missing_def)
  then have "named ?p" using assms(2) by (simp add: list_all_iff)
  then have n: "fld ?p ''name'' = VStr (p_name ?p)" "p_name ?p \<noteq> []" using named_name by blast+
  then have "getMissingParams this (orElse arg1 (VObj [])) = VStr (p_name ?p)"
    using assms(1) by (simp only: getMissingParams_last if_False)
  then show ?thesis using n(2)
    by (simp only: execute_def Let_def is_string.simps to_str.simps case_prod_beta if_True simp_thms)
qed

text \<open>
  C25. A call is stopped exactly if an argument that is required is missing: then no request
  is built, and the error callback or the promise gets a message, which names the \emph{last}
  missing parameter only; otherwise the call is not answered this way.
\<close>

theorem missing_params_stop:
  assumes "list_all named (parameters this)"
  shows "case execute env this arg1 arg2 arg3 arg4 z of
      Inl e \<Rightarrow> missing this (orElse arg1 (VObj [])) = []
    | Inr (Rejected message) \<Rightarrow> missing this (orElse arg1 (VObj [])) \<noteq> [] \<and>
        message = js ''missing required params: '' @ p_name (last (missing this (orElse arg1 (VObj []))))
    | Inr (Failed callback message) \<Rightarrow> missing this (orElse arg1 (VObj [])) \<noteq> [] \<and>
        message = js ''missing required params: '' @ p_name (last (missing this (orElse arg1 (VObj []))))
    | Inr (Mocked obj) \<Rightarrow> missing this (orElse arg1 (VObj [])) = []
    | Inr (Sent obj opts) \<Rightarrow> missing this (orElse arg1 (VObj [])) = []"
proof (cases "missing this (orElse arg1 (VObj [])) = []")
  case True
  then have "getMissingParams this (orElse arg1 (VObj [])) = VArr []" by (simp add: getMissingParams_last)
  then show ?thesis
    using True by (auto simp: execute_def Let_def bindE_def split: sum.splits prod.splits)
next
  case False
  then show ?thesis using execute_missing [OF False assms] by (simp add: Let_def)
qed

text \<open>
  \<open>asCurl\<close> throws a \<open>TypeError\<close> if a required argument is missing: \<open>execute\<close> then returns an
  object without headers, from which \<open>asCurl\<close> reads the content type.
\<close>

theorem curl_needs_arguments:
  assumes "missing this (orElse args1 (VObj [])) \<noteq> []" "list_all named (parameters this)"
  shows "asCurl env this args1 args2 z = Inl (TypeError ''Cannot read properties of undefined'')"
  using execute_missing [OF assms] by (simp add: asCurl_def Let_def)

section \<open>Content types\<close>

lemma item_of_col: "col \<noteq> [] \<Longrightarrow> \<exists>c \<in> set col. itemByPriority col ps = VStr c"
  by (induction ps) (auto simp: first_of_def split: list.splits)

text \<open>
  Unless the caller asks for a type, the \<open>Accept\<close> header names one of the types the
  operation produces, JSON before YAML before the first one, and no warning is logged for it.
\<close>

theorem accept_produced:
  assumes "produces this \<noteq> []" "\<not> truthy (fld opts ''responseContentType'')" "[] \<notin> set (produces this)"
  shows "(\<exists>c \<in> set (produces this). lookup_field (fst (setContentTypes this args opts)) (js ''Accept'') = VStr c) \<and>
    lookup_field (fst (setContentTypes this args opts)) (js ''Accept'') =
      (if js ''application/json'' \<in> set (produces this) then VStr (js ''application/json'')
       else if js ''application/yaml'' \<in> set (produces this) then VStr (js ''application/yaml'')
       else VStr (hd (produces this))) \<and>
    (\<forall>w \<in> set (snd (setContentTypes this args opts)). \<exists>c. w = NotConsumed c)"
proof -
  have i: "itemByPriority (produces this) default_types =
      (if js ''application/json'' \<in> set (produces this) then VStr (js ''application/json'')
       else if js ''application/yaml'' \<in> set (produces this) then VStr (js ''application/yaml'')
       else VStr (hd (produces this)))"
    using assms(1) by (cases "produces this") (simp_all add: default_types_def first_of_def)
  obtain c where c: "c \<in> set (produces this)" "itemByPriority (produces this) default_types = VStr c"
    using item_of_col [OF assms(1)] by blast
  then have "c \<noteq> []" using assms(3) by metis
  then have "lookup_field (fst (setContentTypes this args opts)) (js ''Accept'') = VStr c"
    "matchesAccept this (VStr c)"
    using c assms(2) by (simp_all add: setContentTypes_def Let_def orElse_def matchesAccept_def)
  then show ?thesis
    using c i assms(2) \<open>c \<noteq> []\<close>
    by (auto simp: setContentTypes_def Let_def orElse_def split: if_splits)
qed

lemma scan_files:
  "definedFileParams (foldl (\<lambda>s p. scan_param args opts p s) s ps) =
     definedFileParams s @ [p \<leftarrow> ps. p_in p ''formData'' \<and> fld p ''type'' = VStr (js ''file'')]"
  "definedFormParams (foldl (\<lambda>s p. scan_param args opts p s) s ps) =
     definedFormParams s @ [p \<leftarrow> ps. p_in p ''formData'' \<and> fld p ''type'' \<noteq> VStr (js ''file'')]"
  by (induction ps arbitrary: s) (auto simp: scan_param_def)

definition file_params :: "operation \<Rightarrow> json list" where
  "file_params this = [p \<leftarrow> parameters this. p_in p ''formData'' \<and> fld p ''type'' = VStr (js ''file'')]"

definition form_params :: "operation \<Rightarrow> json list" where
  "form_params this = [p \<leftarrow> parameters this. p_in p ''formData'' \<and> fld p ''type'' \<noteq> VStr (js ''file'')]"

lemma scan_params_files:
  "definedFileParams (scan_params args opts (parameters this)) = file_params this"
  "definedFormParams (scan_params args opts (parameters this)) = form_params this"
  by (simp_all add: scan_params_def scan_files file_params_def form_params_def)

lemma declared_form:
  "declared_form_type cs found = (let fs = [c \<leftarrow> cs. starts_with form_type c \<or> starts_with multipart_type c]
     in if fs = [] then found else VStr (last fs))"
  by (induction cs arbitrary: found) (auto simp: Let_def)

lemma types_not_empty [simp]: "form_type \<noteq> []" "multipart_type \<noteq> []" "\<not> starts_with form_type []" "\<not> starts_with multipart_type []"
  by (simp_all add: form_type_def multipart_type_def starts_with_def)

text \<open>
  The \<open>Content-Type\<close> of a request that carries a form (when the caller names none): with an
  ordinary form parameter it is \<open>multipart/form-data\<close> if there is a file beside it, else the
  last form type the operation declares, else \<open>application/x-www-form-urlencoded\<close>.  If all
  form parameters are files, the rule is not reached: the type is the one a JSON body would
  get, so that a file is not sent as a form unless the operation declares it.
\<close>

theorem form_content_type:
  assumes "o_method this \<in> {js ''post'', js ''put'', js ''patch''}"
    and "\<not> truthy (fld opts ''requestContentType'')" "\<not> truthy (fld args ''parameterContentType'')"
    and "present args ''body'' (parameters this) = []"
  shows "(if form_params this \<noteq> [] then
      lookup_field (fst (setContentTypes this args opts)) (js ''Content-Type'') =
        (if file_params this \<noteq> [] then VStr multipart_type
         else if [c \<leftarrow> consumes this. starts_with form_type c \<or> starts_with multipart_type c] = [] then VStr form_type
         else VStr (last [c \<leftarrow> consumes this. starts_with form_type c \<or> starts_with multipart_type c]))
     else if file_params this \<noteq> [] \<and> js ''application/json'' \<in> set (consumes this) then
      lookup_field (fst (setContentTypes this args opts)) (js ''Content-Type'') = VStr (js ''application/json'')
     else True)"
proof -
  let ?s = "scan_params args opts (parameters this)"
  have "s_body (foldl (\<lambda>s p. scan_param args opts p s) s ps) = s_body s" if "present args ''body'' ps = []" for s ps
    using that by (induction ps arbitrary: s) (auto simp: scan_param_def present_def split: if_splits)
  then have body: "s_body ?s = VUndef" using assms(4) by (simp add: scan_params_def)
  show ?thesis
  proof (cases "form_params this = []")
    case False
    define fs where "fs = [c \<leftarrow> consumes this. starts_with form_type c \<or> starts_with multipart_type c]"
    have "last fs \<noteq> []" if "fs \<noteq> []"
      using last_in_set [OF that] by (auto simp: fs_def)
    then have "request_consumes this args opts ?s =
        (if file_params this \<noteq> [] then VStr multipart_type else if fs = [] then VStr form_type else VStr (last fs))"
      using assms False
      by (simp add: request_consumes_def form_consumes_def scan_params_files declared_form fs_def [symmetric] Let_def)
    then show ?thesis
      using False body \<open>fs \<noteq> [] \<Longrightarrow> last fs \<noteq> []\<close>
      by (simp add: setContentTypes_def Let_def fs_def [symmetric])
  next
    case True
    then show ?thesis
      using assms body
      by (simp add: setContentTypes_def Let_def request_consumes_def scan_params_files orElse_def default_types_def)
  qed
qed

section \<open>Headers\<close>

lemma header_params_last:
  "map_of (header_params ps m) k =
    (let qs = [p \<leftarrow> ps. p_in p ''header'' \<and> to_lower (p_name p) = k] in if qs = [] then map_of m k else Some (last qs))"
  by (induction ps arbitrary: m) (auto simp: Let_def update_conv')

definition header_value :: "json \<Rightarrow> json" where
  "header_value v = (if is_array v then VStr (to_str v) else v)"

lemma add_headers_other:
  "\<forall>(b, w) \<in> set as. \<forall>p. map_of m (to_lower b) = Some p \<longrightarrow> p_name p \<noteq> n \<Longrightarrow>
     lookup_field (add_headers m as h) n = lookup_field h n"
  by (induction as arbitrary: h) (auto split: option.splits)

lemma add_headers_hit:
  assumes "map_of m (to_lower a) = Some p" "(a, v) \<in> set as"
    and "\<forall>(b, w) \<in> set as. (b, w) = (a, v) \<or> (\<forall>q. map_of m (to_lower b) = Some q \<longrightarrow> p_name q \<noteq> p_name p)"
  shows "lookup_field (add_headers m as h) (p_name p) = header_value v"
  using assms(2,3)
proof (induction as arbitrary: h)
  case (Cons bw as)
  obtain b w where bw: "bw = (b, w)" by fastforce
  show ?case
  proof (cases "(a, v) \<in> set as")
    case True
    then show ?thesis using Cons bw by (auto split: option.splits)
  next
    case False
    then have e: "bw = (a, v)" using Cons.prems(1) by simp
    have "\<forall>(b, w) \<in> set as. \<forall>q. map_of m (to_lower b) = Some q \<longrightarrow> p_name q \<noteq> p_name p"
      using False Cons.prems(2) by fastforce
    from add_headers_other [OF this] show ?thesis
      using e assms(1) by (simp add: header_value_def)
  qed
qed simp

text \<open>
  An argument whose name is that of a header parameter, in any spelling of its letters,
  becomes that header under the parameter's own spelling; a list is sent as its text.  (The
  parameters must have different names, and one argument must go to the header.)
\<close>

theorem header_arguments:
  assumes "p \<in> set (parameters this)" "p_in p ''header''" "(a, v) \<in> set m" "to_lower a = to_lower (p_name p)"
    and "\<forall>q \<in> set (parameters this). p_in q ''header'' \<and> to_lower (p_name q) = to_lower (p_name p) \<longrightarrow> q = p"
    and "\<forall>(b, w) \<in> set m. to_lower b = to_lower a \<longrightarrow> (b, w) = (a, v)"
  shows "lookup_field (getHeaderParams this (VObj m)) (p_name p) = (if is_array v then VStr (to_str v) else v)"
proof -
  let ?hs = "header_params (parameters this) []"
  have only: "map_of ?hs k = Some q \<Longrightarrow> q \<in> set (parameters this) \<and> p_in q ''header'' \<and> to_lower (p_name q) = k" for k q
    using last_in_set [of "[p \<leftarrow> parameters this. p_in p ''header'' \<and> to_lower (p_name p) = k]"]
    by (auto simp: header_params_last Let_def split: if_splits)
  have ne: "[q \<leftarrow> parameters this. p_in q ''header'' \<and> to_lower (p_name q) = to_lower (p_name p)] \<noteq> []"
    using assms(1,2) by (auto simp: filter_empty_conv)
  have "map_of ?hs (to_lower (p_name p)) = Some p"
    using ne last_in_set [OF ne] assms(5) by (simp add: header_params_last Let_def)
  moreover have "\<forall>(b, w) \<in> set m. (b, w) = (a, v) \<or> (\<forall>q. map_of ?hs (to_lower b) = Some q \<longrightarrow> p_name q \<noteq> p_name p)"
    using only assms(4,6) by fastforce
  ultimately show ?thesis
    using add_headers_hit [of ?hs a p v m] assms(3,4) by (simp add: getHeaderParams_def header_value_def)
qed

section \<open>Form bodies\<close>

lemma update_new: "k \<notin> fst ` set al \<Longrightarrow> AList.update k v al = al @ [(k, v)]"
  by (induction al) auto

definition field_view :: "jstr \<times> form_param \<Rightarrow> jstr \<times> json \<times> json" where
  "field_view kf = (fst kf, f_param (snd kf), f_value (snd kf))"

lemma body_fold:
  assumes "distinct (map p_name (present args ''formData'' ps))"
    and "\<forall>p \<in> set (present args ''formData'' ps). p_name p \<notin> fst ` set (formParams s)"
  shows "map field_view (formParams (foldl (\<lambda>s p. body_param args p s) s ps)) =
    map field_view (formParams s) @ map (\<lambda>p. (p_name p, p, arg_of args p)) (present args ''formData'' ps)"
  using assms
proof (induction ps arbitrary: s)
  case (Cons p ps)
  show ?case
  proof (cases "p_in p ''formData'' \<and> arg_of args p \<noteq> VUndef")
    case True
    moreover from this have "\<not> p_in p ''body''" by (auto simp: p_in_def)
    ultimately have f: "formParams (body_param args p s) = formParams s @ [(p_name p,
        \<lparr>f_param = p, f_value = arg_of args p,
         f_password = (if p_password p then VStr (js ''password'') else b_password s)\<rparr>)]"
      using Cons.prems(2) by (simp add: body_param_def Let_def present_def update_new)
    have "present args ''formData'' (p # ps) = p # present args ''formData'' ps" using True by (simp add: present_def)
    moreover have "map field_view (formParams (foldl (\<lambda>s p. body_param args p s) (body_param args p s) ps))
        = map field_view (formParams (body_param args p s)) @ map (\<lambda>p. (p_name p, p, arg_of args p)) (present args ''formData'' ps)"
      using Cons.prems calculation by (intro Cons.IH) (auto simp: f, metis imageI)
    ultimately show ?thesis by (simp add: f) (simp add: field_view_def)
  next
    case False
    then have "formParams (body_param args p s) = formParams s" by (auto simp: body_param_def Let_def)
    moreover have "present args ''formData'' (p # ps) = present args ''formData'' ps" using False by (auto simp: present_def)
    ultimately show ?thesis using Cons.IH [of "body_param args p s"] Cons.prems by simp
  qed
qed (simp add: present_def)

lemma body_params_fields:
  "distinct (map p_name (present args ''formData'' ps)) \<Longrightarrow>
     map field_view (formParams (body_params args ps)) = map (\<lambda>p. (p_name p, p, arg_of args p)) (present args ''formData'' ps)"
  by (simp add: body_params_def body_fold)

lemma encode_form_pairs:
  assumes "\<forall>kf \<in> set kfs. well_formed (fst kf) \<and> good (f_value (snd kf)) \<and> \<not> is_array (f_value (snd kf))"
  shows "encode_form False kfs acc = Inr (let items = map (\<lambda>kf. plain_pair (fst kf) (f_value (snd kf))) kfs in
    if kfs = [] then acc else if acc = [] then join [38] items else acc @ 38 # join [38] items)"
  using assms
proof (induction kfs arbitrary: acc)
  case (Cons kf kfs)
  have e: "encoded_field VUndef kf = Inr (plain_pair (fst kf) (f_value (snd kf)))"
    using Cons.prems
    by (cases kf) (simp add: encoded_field_def mask_def plain_pair_def encoders good_def enc_val_def marks)
  have "plain_pair (fst kf) (f_value (snd kf)) \<noteq> []" by (simp add: plain_pair_def)
  then show ?case
    using Cons e by (auto simp: marks Let_def join_more simp del: join.simps(3))
qed simp

text \<open>
  C34. A url-encoded form carries the arguments: if the request is not multipart, no password is to
  be masked, the form parameters that have an argument have different names, and names and
  arguments are well-formed texts (an argument may be any value with such a text but a list,
  whose elements are sent one by one), then the body is a text the server reads as the form
  parameters' names with the text of their arguments, and the headers stay as they are.
\<close>

theorem form_round_trip:
  assumes "index_of (to_str (lookup_field headers (js ''Content-Type''))) multipart_type < 0"
    and "present args ''formData'' (parameters this) \<noteq> []"
    and "distinct (map p_name (present args ''formData'' (parameters this)))"
    and "\<forall>p \<in> set (present args ''formData'' (parameters this)).
      well_formed (p_name p) \<and> well_formed (to_str (arg_of args p)) \<and> \<not> is_array (arg_of args p)"
    and "\<not> truthy (fld opts ''maskPasswords'')"
  shows "\<exists>t. getBody form_data this headers args opts = Inr (VStr t, headers) \<and>
    read_pairs t = map (\<lambda>p. [p_name p, to_str (arg_of args p)]) (present args ''formData'' (parameters this))"
proof -
  let ?ps = "present args ''formData'' (parameters this)" and ?kfs = "formParams (body_params args (parameters this))"
  have v: "map field_view ?kfs = map (\<lambda>p. (p_name p, p, arg_of args p)) ?ps" by (rule body_params_fields [OF assms(3)])
  have items: "map (\<lambda>kf. plain_pair (fst kf) (f_value (snd kf))) ?kfs = map (\<lambda>p. plain_pair (p_name p) (arg_of args p)) ?ps"
    using arg_cong [OF v, of "map (\<lambda>(k, p, w). plain_pair k w)"] by (simp add: field_view_def comp_def)
  have "field_view kf \<in> (\<lambda>p. (p_name p, p, arg_of args p)) ` set ?ps" if "kf \<in> set ?kfs" for kf
    using arg_cong [OF v, of set] that by (metis image_eqI image_set)
  then have ok: "\<forall>kf \<in> set ?kfs. well_formed (fst kf) \<and> good (f_value (snd kf)) \<and> \<not> is_array (f_value (snd kf))"
    using assms(4) by (fastforce simp: field_view_def good_def)
  have ne: "?kfs \<noteq> []" using v assms(2) by auto
  have "encode_form False ?kfs [] = Inr (join [38] (map (\<lambda>p. plain_pair (p_name p) (arg_of args p)) ?ps))"
    using encode_form_pairs [OF ok, of "[]"] ne unfolding items by (simp add: Let_def)
  then have "getBody form_data this headers args opts
      = Inr (VStr (join [38] (map (\<lambda>p. plain_pair (p_name p) (arg_of args p)) ?ps)), headers)"
    using assms(1,5) ne by (simp add: getBody_def Let_def)
  moreover have "read_pairs (join [38] (map (\<lambda>p. plain_pair (p_name p) (arg_of args p)) ?ps))
      = map (\<lambda>p. [p_name p, to_str (arg_of args p)]) ?ps"
    using assms(2,4) pair_facts(4,5) by (subst read_pairs_join) (auto simp: good_def)
  ultimately show ?thesis by blast
qed

section \<open>Forms without FormData\<close>

lemma join_data_more:
  "s \<noteq> [] \<Longrightarrow> join_data d vs (VStr s) = VStr (s @ concat (map (\<lambda>v. d @ to_str v) vs))"
  by (induction vs arbitrary: s) auto

lemma join_data_start:
  "\<not> truthy data \<Longrightarrow> vs \<noteq> [] \<Longrightarrow> to_str (hd vs) \<noteq> [] \<Longrightarrow> join_data d vs data = VStr (join d (map to_str vs))"
  by (cases vs) (simp_all add: join_data_more join_Cons comp_def del: join.simps)

lemma join_append: "xs \<noteq> [] \<Longrightarrow> join d (xs @ ys) = join d xs @ concat (map (\<lambda>y. d @ y) ys)"
  by (cases xs) (simp_all add: join_Cons del: join.simps)

text \<open>
  The multipart body of two collections where there is no \<open>FormData\<close>, as the code builds it:
  in the default format \<open>multi\<close> the loop ends at the first collection and the second is not
  sent; in another format the text of the first collection is not dropped and the second field
  has the elements of both.
\<close>

theorem object_form_collections:
  assumes "parameters this = [p, q]" "p_in p ''formData''" "p_in q ''formData''" "p_name p \<noteq> p_name q"
    and "arg_of args p = VArr xs" "arg_of args q = VArr ys" "xs \<noteq> []" "to_str (hd xs) \<noteq> []"
    and "lookup_field headers (js ''Content-Type'') = VStr multipart_type"
  shows "case getBody False this headers args opts of
      Inl e \<Rightarrow> False
    | Inr (body, headers') \<Rightarrow>
        (if orElse (fld q ''collectionFormat'') (VStr (js ''multi'')) = VStr (js ''multi'')
         then body = VObj [(p_name p, VArr xs)]
         else let d = object_delimiter (fld q ''collectionFormat'') in
           body = VObj [(p_name p, VStr (join d (map to_str xs))), (p_name q, VStr (join d (map to_str (xs @ ys))))])"
proof -
  let ?f = "\<lambda>r w pw. \<lparr>f_param = r, f_value = w, f_password = pw\<rparr>"
  have nb: "\<not> p_in p ''body''" "\<not> p_in q ''body''" using assms(2,3) by (auto simp: p_in_def)
  define pw where "pw = VStr (js ''password'')"
  have fs: "formParams (body_params args [p, q]) = [(p_name p, ?f p (VArr xs) (if p_password p then pw else VUndef)),
      (p_name q, ?f q (VArr ys) (if p_password p \<or> p_password q then pw else VUndef))]"
    and last: "b_param (body_params args [p, q]) = q"
    using assms(2-6) nb
    by (cases "p_password p"; cases "p_password q"; simp add: body_params_def body_param_def pw_def [symmetric])+
  have multipart: "index_of multipart_type multipart_type \<ge> 0"
    using index_of_prefix [of multipart_type multipart_type] starts_with_append [of multipart_type "[]"] by simp
  have one: "join_data d xs VUndef = VStr (join d (map to_str xs))" for d
    using join_data_start [of VUndef xs d] assms(7,8) by simp
  have "join d (map to_str xs) \<noteq> []" for d
    using assms(7,8) by (cases xs) (simp_all add: join_Cons del: join.simps)
  then have two: "join_data d ys (VStr (join d (map to_str xs))) = VStr (join d (map to_str (xs @ ys)))" for d
    using assms(7) by (simp add: join_data_more join_append comp_def)
  show ?thesis
    using assms(1,4,9) fs last multipart one two
    by (simp add: getBody_def Let_def orElse_def)
qed

section \<open>The properties at concrete calls\<close>

definition sample_form :: "string \<Rightarrow> string \<Rightarrow> json" where
  "sample_form n format = VObj [(js ''in'', VStr (js ''formData'')), (js ''name'', VStr (js n)),
     (js ''type'', VStr (js ''array'')), (js ''required'', VBool True), (js ''collectionFormat'', VStr (js format))]"

lemma sample_form_simps [simp]:
  "fld (sample_form n f) ''name'' = VStr (js n)" "p_in (sample_form n f) q \<longleftrightarrow> q = ''formData''"
  "fld (sample_form n f) ''collectionFormat'' = VStr (js f)" "fld (sample_form n f) ''required'' = VBool True"
  "fld (sample_form n f) ''type'' = VStr (js ''array'')"
  "p_name (sample_form n f) = js n" "arg_of a (sample_form n f) = fld a n"
  by (auto simp: sample_form_def p_in_def p_name_def arg_of_def)

definition form_op :: "json list \<Rightarrow> operation" where
  "form_op ps = (sample_op ''/upload'' ps)\<lparr>o_method := js ''post''\<rparr>"

lemma form_op_simps [simp]:
  "parameters (form_op ps) = ps" "consumes (form_op ps) = [js ''application/json'']"
  "produces (form_op ps) = [js ''application/json'']" "o_method (form_op ps) = js ''post''"
  by (simp_all add: form_op_def)

definition any_env :: env where
  "any_env = \<lparr>has_FormData = False, regexp = no_regexp, date_parse = (\<lambda>s. NaN), date_now = NaN\<rparr>"

theorem missing_params_stop_witness:
  "case execute any_env (form_op [sample_form ''a'' ''csv'']) (VObj []) VUndef VUndef VUndef None of
      Inr (Failed callback message) \<Rightarrow> message = js ''missing required params: '' @ js ''a''
    | _ \<Rightarrow> False"
proof -
  let ?op = "form_op [sample_form ''a'' ''csv'']"
  have named: "list_all named (parameters ?op)" by (simp add: named_def)
  have m: "missing ?op (orElse (VObj []) (VObj [])) = [sample_form ''a'' ''csv'']" by (simp add: missing_def orElse_def)
  have "truthy (fld (o_parent ?op) ''usePromise'') = False" by (simp add: form_op_def sample_op_def)
  then have "execute any_env ?op (VObj []) VUndef VUndef VUndef None
      = Inr (Failed (snd (call_callbacks ?op VUndef VUndef VUndef)) (js ''missing required params: '' @ js ''a''))"
    using execute_missing [OF _ named, where ?arg1.0 = "VObj []" and env = any_env and ?arg2.0 = VUndef and ?arg3.0 = VUndef
        and ?arg4.0 = VUndef and z = None] m by (simp add: Let_def)
  then show ?thesis
    using missing_params_stop [OF named, where ?arg1.0 = "VObj []" and env = any_env and ?arg2.0 = VUndef and ?arg3.0 = VUndef
        and ?arg4.0 = VUndef and z = None] by simp
qed

theorem curl_needs_arguments_witness:
  "asCurl any_env (form_op [sample_form ''a'' ''csv'']) (VObj []) VUndef None
     = Inl (TypeError ''Cannot read properties of undefined'')"
  by (rule curl_needs_arguments) (simp_all add: missing_def orElse_def named_def)

theorem accept_produced_witness:
  "\<exists>c \<in> set (produces (form_op [])).
     lookup_field (fst (setContentTypes (form_op []) (VObj []) (VObj []))) (js ''Accept'') = VStr c"
  by (rule accept_produced [THEN conjunct1]) simp_all

theorem form_content_type_witness:
  "lookup_field (fst (setContentTypes (form_op [sample_form ''a'' ''csv'']) (VObj []) (VObj []))) (js ''Content-Type'')
     = VStr form_type"
proof -
  have "starts_with form_type (js ''application/json'') = False" "starts_with multipart_type (js ''application/json'') = False"
    by code_simp+
  then show ?thesis
    using form_content_type [of "form_op [sample_form ''a'' ''csv'']" "VObj []" "VObj []"]
    by (simp add: form_params_def file_params_def present_def)
qed

theorem header_arguments_witness:
  "lookup_field (getHeaderParams (sample_op ''/x'' [sample_param ''header'' ''api_key'' []])
      (VObj [(js ''API_Key'', VNum 7)])) (js ''api_key'') = VNum 7"
proof -
  have "to_lower (js ''API_Key'') = to_lower (js ''api_key'')" by code_simp
  then show ?thesis
    using header_arguments [of "sample_param ''header'' ''api_key'' []"
        "sample_op ''/x'' [sample_param ''header'' ''api_key'' []]" "js ''API_Key''" "VNum 7" "[(js ''API_Key'', VNum 7)]"]
    by simp
qed

theorem form_round_trip_witness:
  "\<exists>t. getBody False (form_op [sample_form ''a'' ''csv'']) [] (VObj [(js ''a'', VStr (js ''x=y''))]) (VObj []) = Inr (VStr t, []) \<and>
     read_pairs t = [[js ''a'', js ''x=y'']]"
proof -
  have "index_of (js ''undefined'') multipart_type < 0" by code_simp
  then show ?thesis
    using form_round_trip [of "[]" "VObj [(js ''a'', VStr (js ''x=y''))]" "form_op [sample_form ''a'' ''csv'']" "VObj []" False]
    by (simp add: present_def)
qed

theorem object_form_collections_witness:
  "case getBody False (form_op [sample_form ''a'' ''csv'', sample_form ''b'' ''csv''])
      [(js ''Content-Type'', VStr multipart_type)]
      (VObj [(js ''a'', VArr [VNum 1]), (js ''b'', VArr [VNum 2])]) (VObj []) of
      Inl e \<Rightarrow> False
    | Inr (body, headers) \<Rightarrow> body = VObj [(js ''a'', VStr (join (js '','') [int_digits 1])),
        (js ''b'', VStr (join (js '','') [int_digits 1, int_digits 2]))]"
proof -
  have "int_digits 1 \<noteq> []" by code_simp
  then show ?thesis
    using object_form_collections [of "form_op [sample_form ''a'' ''csv'', sample_form ''b'' ''csv'']"
        "sample_form ''a'' ''csv''" "sample_form ''b'' ''csv''" "VObj [(js ''a'', VArr [VNum 1]), (js ''b'', VArr [VNum 2])]"
        "[VNum 1]" "[VNum 2]" "[(js ''Content-Type'', VStr multipart_type)]" "VObj []"]
    by (simp add: orElse_def object_delimiter_def Let_def split: sum.splits prod.splits)
qed

end
