(* ===== verification/SwaggerTypes.thy ===== *)
theory SwaggerTypes
  imports SwaggerOperation
begin

text \<open>
  The constructor of \<open>lib/types/operation.js\<close> with the methods it uses: the types of
  parameters, the models of schemas, and the preparation of parameters and responses.  The
  texts that \<open>lib/schema-markup.js\<close> makes of a model are arguments (\<open>markup\<close>).
\<close>

section \<open>Models\<close>

text \<open>\<open>lib/types/model.js\<close>; the models of the API, which every model refers to, are kept apart.\<close>

record model =
  m_name :: json
  m_definition :: json
  m_isArray :: bool

type_synonym models = "(jstr \<times> model) list"

definition Model :: "json \<Rightarrow> json \<Rightarrow> model" where
  "Model name' def =
    \<lparr>m_name = orElse name' (orElse (fld def ''title'') (VStr (js ''Inline Model''))),
     m_definition = orElse def (VObj []),
     m_isArray = (fld def ''type'' = VStr (js ''array''))\<rparr>"

record markup =
  mockSignature :: "model \<Rightarrow> jstr"
  sampleJSON :: "model \<Rightarrow> json"

definition is_data_object :: "json \<Rightarrow> bool" where
  "is_data_object v \<longleftrightarrow> is_object v \<and> \<not> is_fun v"

definition resolveModel :: "json \<Rightarrow> json \<Rightarrow> model option" where
  "resolveModel schema definitions =
    (if fld schema ''$ref'' \<noteq> VUndef then
       let ref = to_str (fld schema ''$ref'');
           ref = (if starts_with definitions_prefix ref then drop (length definitions_prefix) ref else ref)
       in if truthy (get definitions ref) then Some (Model (VStr ref) (get definitions ref)) else None
     else if is_data_object schema
        \<and> (fld schema ''type'' = VStr (js ''object'') \<or> fld schema ''type'' = VUndef)
     then Some (Model VUndef schema) else None)"

text \<open>The models of inline schemas, in the order they were added; a text names one of them.\<close>

definition inline_prefix :: jstr where
  "inline_prefix = js ''Inline Model ''"

definition addInlineModel :: "model list \<Rightarrow> json \<Rightarrow> json \<times> model list" where
  "addInlineModel inlineModels schema =
    (case resolveModel schema (VObj []) of
       Some m \<Rightarrow> (VStr (inline_prefix @ nat_digits (length inlineModels)), inlineModels @ [m])
     | None \<Rightarrow> (VNull, inlineModels))"

definition is_digit :: "16 word \<Rightarrow> bool" where
  "is_digit c \<longleftrightarrow> 48 \<le> code c \<and> code c \<le> 57"

definition digits_value :: "jstr \<Rightarrow> nat" where
  "digits_value s = foldl (\<lambda>n c. 10 * n + nat (code c - 48)) 0 s"

definition getInlineModel :: "model list \<Rightarrow> json \<Rightarrow> model option" where
  "getInlineModel inlineModels inlineStr =
    (let s = to_str inlineStr; d = drop (length inline_prefix) s in
     if starts_with inline_prefix s \<and> d \<noteq> [] \<and> list_all is_digit d \<and> digits_value d < length inlineModels
     then Some (inlineModels ! digits_value d) else None)"

section \<open>Types of parameters\<close>

definition primitive_type :: "json \<Rightarrow> json \<Rightarrow> json" where
  "primitive_type type format =
    (let is = (\<lambda>v s. v = VStr (js s)); str = (\<lambda>s. VStr (js s)) in
     if is type ''integer'' \<and> is format ''int32'' then str ''integer''
     else if is type ''integer'' \<and> is format ''int64'' then str ''long''
     else if is type ''integer'' then str ''integer''
     else if is type ''string'' then
       (if is format ''date-time'' then str ''date-time''
        else if is format ''date'' then str ''date'' else str ''string'')
     else if is type ''number'' \<and> is format ''float'' then str ''float''
     else if is type ''number'' \<and> is format ''double'' then str ''double''
     else if is type ''number'' then str ''double''
     else if is type ''boolean'' then str ''boolean''
     else if is type ''file'' then str ''file''
     else VUndef)"

lemma get_smaller: "is_data_object (get v k) \<Longrightarrow> size (get v k) < size v"
proof -
  have no: "\<not> is_data_object VUndef" "\<not> is_data_object (VStr s)" for s
    by (simp_all add: is_data_object_def)
  moreover have "is_data_object (lookup_field m k) \<Longrightarrow> size (lookup_field m k) < Suc (size_list (size_prod (\<lambda>x. 0) size) m)" for m
    by (induction m) (auto simp: no split: if_splits)
  ultimately show "is_data_object (get v k) \<Longrightarrow> size (get v k) < size v"
    by (cases v) (auto split: if_splits)
qed

text \<open>
  \<open>getType\<close> adds the inline schemas it meets.  What is not an object has no type: the
  recursion ends there with \<open>undefined\<close>.
\<close>

function getType :: "json \<Rightarrow> model list \<Rightarrow> json \<times> model list" where
  "getType param inline =
    (let type = fld param ''type'';
         isArray = (type = VStr (js ''array''));
         (str, inline1) =
           (if isArray then
              (if is_data_object (fld param ''items'') then getType (fld param ''items'') inline else (VUndef, inline))
            else (primitive_type type (fld param ''format''), inline));
         str1 = (if truthy (fld param ''$ref'') then simpleRef (fld param ''$ref'') else str);
         schema = fld param ''schema''
     in if truthy schema then
          let ref = fld schema ''$ref'' in
          if truthy ref then (if isArray then VArr [simpleRef ref] else simpleRef ref, inline1)
          else if fld schema ''type'' = VStr (js ''object'') then addInlineModel inline1 schema
          else if is_data_object schema then getType schema inline1
          else (VUndef, inline1)
        else (if isArray then VArr [str1] else str1, inline1))"
  by auto
termination
  by (relation "measure (\<lambda>(v, i). size v)") (auto intro: get_smaller)

declare getType.simps [simp del]

section \<open>Signatures and samples\<close>

fun first_item :: "json \<Rightarrow> json" where
  "first_item (VArr (v # vs)) = v"
| "first_item (VArr []) = VUndef"
| "first_item v = v"

definition named_model :: "models \<Rightarrow> model list \<Rightarrow> json \<Rightarrow> model option" where
  "named_model definitions inlineModels type =
    (case map_of definitions (to_str type) of Some m \<Rightarrow> Some m | None \<Rightarrow> getInlineModel inlineModels type)"

definition getModelSignature :: "markup \<Rightarrow> model list \<Rightarrow> json \<Rightarrow> models \<Rightarrow> jserr + jstr" where
  "getModelSignature markup inlineModels type' definitions =
    (let listType = is_array type'; type = first_item type';
         listed = (\<lambda>s. if listType then js ''Array['' @ s @ js '']'' else s)
     in if type = VUndef then Inr (listed (js ''undefined''))
        else case named_model definitions inlineModels type of
          Some m \<Rightarrow> Inr (listed (mockSignature markup m))
        | None \<Rightarrow> if type = VNull \<and> \<not> listType then Inl (TypeError ''Cannot read properties of null'')
                  else Inr (listed (to_str type)))"

text \<open>The sample of a model, before it becomes the text of \<open>JSON.stringify\<close> with two blanks of indent.\<close>

definition getModelSample :: "markup \<Rightarrow> model list \<Rightarrow> json \<Rightarrow> models \<Rightarrow> json" where
  "getModelSample markup inlineModels type models =
    (case named_model models inlineModels (first_item type) of
       None \<Rightarrow> VUndef
     | Some m \<Rightarrow> let sample = sampleJSON markup m in
         if truthy sample then (if is_array type then VArr [sample] else sample) else VUndef)"

text \<open>\<open>help\<close> returns the text that it logs.\<close>

fun help_lines :: "json list \<Rightarrow> jstr \<Rightarrow> jstr" where
  "help_lines [] out = out"
| "help_lines (param # ps) out = help_lines ps
    (out @ [10] @ js ''  * '' @ to_str (fld param ''name'') @ js '' ('' @ to_str (fld param ''signature'') @ js ''): ''
      @ to_str (fld param ''description''))"

definition help_text :: "operation \<Rightarrow> jstr" where
  "help_text this = help_lines (parameters this) (o_nickname this @ js '': '' @ o_summary this @ [10])"

definition isDefaultArrayItemValue :: "json \<Rightarrow> json \<Rightarrow> bool" where
  "isDefaultArrayItemValue value param =
    (if is_array (fld param ''default'') then \<exists>v \<in> set (items_of (fld param ''default'')). strict_eq v value
     else strict_eq value (fld param ''default''))"

section \<open>Preparing a parameter\<close>

definition add_extensions :: "json \<Rightarrow> json" where
  "add_extensions v = foldl (\<lambda>v k. extractExtensions (VStr k) v VUndef) v (keys_of v)"

text \<open>The entries of an enumeration, with the mark of the default.\<close>

definition described :: "json \<Rightarrow> json \<Rightarrow> json" where
  "described def value = VObj [(js ''value'', VStr (to_str value)),
     (js ''isDefault'', VBool (strict_eq value def \<or> VStr (to_str value) = def))]"

text \<open>What the loop over an enumeration visits: it may be a text.\<close>

definition enum_items :: "json \<Rightarrow> json list" where
  "enum_items enumValues = (case enumValues of VArr vs \<Rightarrow> vs | VStr s \<Rightarrow> map (\<lambda>c. VStr [c]) s | _ \<Rightarrow> [])"

definition allowable_values :: "json \<Rightarrow> json \<Rightarrow> json" where
  "allowable_values def enumValues = VObj [(js ''values'', VArr (enum_items enumValues)),
     (js ''descriptiveValues'', VArr (map (described def) (enum_items enumValues)))]"

definition param_defaults :: "json \<Rightarrow> json" where
  "param_defaults param =
    (let param = (if fld param ''x-example'' \<noteq> VUndef then put param (js ''default'') (fld param ''x-example'') else param)
     in if truthy (fld param ''x-examples'') \<and> fld (fld param ''x-examples'') ''default'' \<noteq> VUndef
        then put param (js ''default'') (fld (fld param ''x-examples'') ''default'') else param)"

definition param_enum :: "json \<Rightarrow> json" where
  "param_enum param = (if truthy (fld param ''enum'') then fld param ''enum''
     else if truthy (fld param ''items'') then fld (fld param ''items'') ''enum'' else fld param ''items'')"

definition list_flags :: "bool \<Rightarrow> json \<Rightarrow> json" where
  "list_flags isArray param =
    (if isArray then put (put param (js ''isList'') (VBool True)) (js ''allowMultiple'') (VBool True) else param)"

definition boolean_values :: "json \<Rightarrow> json \<Rightarrow> json" where
  "boolean_values innerType param =
    (if truthy innerType \<and> to_lower (to_str innerType) = js ''boolean''
     then put (put (put param (js ''allowableValues'') (VObj [])) (js ''isList'') (VBool True))
            (js ''enum'') (VArr [VBool True, VBool False])
     else param)"

definition enum_values :: "json \<Rightarrow> json" where
  "enum_values param =
    (if param_enum param \<noteq> VUndef
     then put param (js ''allowableValues'') (allowable_values (fld param ''default'') (param_enum param)) else param)"

definition unlisted :: "bool \<Rightarrow> json \<Rightarrow> json" where
  "unlisted isArray param =
    (if isArray \<and> fld param ''allowableValues'' = VUndef
     then VObj (delete_field (delete_field (fields_of param) (js ''isList'')) (js ''allowMultiple''))
     else param)"

definition sign_param :: "markup \<Rightarrow> models \<Rightarrow> model list \<Rightarrow> json \<Rightarrow> json \<Rightarrow> jserr + json" where
  "sign_param markup models inline innerType param =
    (let param = put param (js ''modelSignature'') (VObj [(js ''type'', innerType)])
     in bindE (getModelSignature markup inline innerType models) (\<lambda>signature.
          let param = put param (js ''signature'') (VStr signature);
              param = put param (js ''sampleJSON'') (getModelSample markup inline innerType models)
          in Inr (put param (js ''responseClassSignature'') (VStr signature))))"

definition prepare_param ::
  "markup \<Rightarrow> models \<Rightarrow> (json \<Rightarrow> json) \<Rightarrow> json \<Rightarrow> model list \<Rightarrow> jserr + json \<times> model list" where
  "prepare_param markup models parameterMacro param0 inline0 =
    (let param = put param0 (js ''default'') (parameterMacro param0);
         isArray = (fld param ''type'' = VStr (js ''array''));
         param = list_flags isArray param;
         (innerType, inline) = getType param inline0;
         param = param_defaults (add_extensions (boolean_values innerType param))
     in if param_enum param = VNull then Inl (TypeError ''Cannot read properties of null'')
        else bindE (sign_param markup models inline (if isArray then VArr [innerType] else innerType)
                     (unlisted isArray (enum_values param)))
          (\<lambda>param. Inr (param, inline)))"

fun prepare_params ::
  "markup \<Rightarrow> models \<Rightarrow> (json \<Rightarrow> json) \<Rightarrow> json list \<Rightarrow> model list \<Rightarrow> jserr + json list \<times> model list" where
  "prepare_params markup models macro [] inline = Inr ([], inline)"
| "prepare_params markup models macro (param # ps) inline =
    bindE (prepare_param markup models macro param inline) (\<lambda>(param', inline1).
    bindE (prepare_params markup models macro ps inline1) (\<lambda>(ps', inline2). Inr (param' # ps', inline2)))"

section \<open>Responses\<close>

definition success_codes :: "string list" where
  "success_codes = [''200'', ''201'', ''202'', ''203'', ''204'', ''205'', ''206'', ''default'']"

definition defaultResponseCode :: "json \<Rightarrow> string option" where
  "defaultResponseCode responses = find (\<lambda>c. truthy (fld responses c)) success_codes"

datatype success = SuccessModel model json json json json | SuccessValue json

definition attach :: "json \<Rightarrow> json \<Rightarrow> json" where
  "attach response v =
    (let v = put v (js ''vendorExtensions'') (fld response ''vendorExtensions'');
         attach1 = (\<lambda>k v. if truthy (get response k) then put v k (get response k) else v)
     in attach1 (js ''headers'') (attach1 (js ''examples'') (attach1 (js ''description'') v)))"

definition or_undefined :: "json \<Rightarrow> json" where
  "or_undefined v = (if truthy v then v else VUndef)"

definition success_response :: "json \<Rightarrow> json \<Rightarrow> success" where
  "success_response definitions response =
    (let schema = fld response ''schema'';
         with_model = (\<lambda>m. SuccessModel m (fld response ''vendorExtensions'')
           (or_undefined (fld response ''description'')) (or_undefined (fld response ''examples''))
           (or_undefined (fld response ''headers'')))
     in case resolveModel schema definitions of
          Some m \<Rightarrow> with_model m
        | None \<Rightarrow> if \<not> truthy (fld schema ''type'') \<or> fld schema ''type'' = VStr (js ''object'')
              \<or> fld schema ''type'' = VStr (js ''array'')
            then with_model (Model VUndef schema)
            else SuccessValue (attach response schema))"

text \<open>The vendor extensions of the responses and of their headers.\<close>

definition header_extensions :: "json \<Rightarrow> json" where
  "header_extensions responseObject =
    (if is_data_object responseObject \<and> is_data_object (fld responseObject ''headers'')
     then put responseObject (js ''headers'') (VObj (map (\<lambda>(n, h). (n, if is_data_object h then add_extensions h else h))
       (fields_of (fld responseObject ''headers''))))
     else responseObject)"

definition response_extensions :: "json \<Rightarrow> json" where
  "response_extensions responses = foldl (\<lambda>r k.
      let r = extractExtensions (VStr k) r VUndef
      in if \<not> has_infix (js ''x-'') k then put r k (header_extensions (get r k)) else r)
    responses (keys_of responses)"

definition prepare_responses :: "json \<Rightarrow> json \<Rightarrow> json \<times> (string \<times> success) option" where
  "prepare_responses definitions responses0 =
    (let responses = response_extensions responses0 in
     case defaultResponseCode responses0 of
       None \<Rightarrow> (responses, None)
     | Some status \<Rightarrow>
         let response = add_extensions (fld responses status);
             responses = put responses (js status) response
         in if truthy (fld response ''schema'')
            then (VObj (delete_field (fields_of responses) (js status)), Some (status, success_response definitions response))
            else (responses, None))"

section \<open>The operation\<close>

definition trimmed_basePath :: "json \<Rightarrow> jstr" where
  "trimmed_basePath basePath' =
    (let basePath = to_str (orElse basePath' (VStr (js ''/'')))
     in if basePath \<noteq> js ''/'' \<and> basePath \<noteq> [] \<and> last basePath = 47 then butlast basePath else basePath)"

definition normal_deprecated :: "json \<Rightarrow> json" where
  "normal_deprecated deprecated = (case deprecated of
      VStr s \<Rightarrow>
        if to_lower s \<in> {js ''true'', js ''yes'', js ''1''} then VBool True
        else if to_lower s \<in> {js ''false'', js ''no'', js ''0''} then VBool False
        else VBool (s \<noteq> [])
    | v \<Rightarrow> v)"

definition string_list :: "json \<Rightarrow> jstr list" where
  "string_list v = map to_str (items_of v)"

definition json_default :: json where
  "json_default = VArr [VStr (js ''application/json'')]"

text \<open>
  The operation the constructor builds from a specification that names its method, its path
  and an identifier, with the models of its inline schemas and its success response.  The
  page's host is an argument; so is \<open>parameterMacro\<close>, which by default reads the parameter's
  own default.
\<close>

definition own_default :: "json \<Rightarrow> json" where
  "own_default param = fld param ''default''"

definition spec_operation :: "jstr \<Rightarrow> json \<Rightarrow> json \<Rightarrow> json \<Rightarrow> json \<Rightarrow> json \<Rightarrow> json \<Rightarrow> authz \<Rightarrow> json list \<Rightarrow> operation" where
  "spec_operation window_host parent scheme operationId httpMethod path args authz ps =
    (let options = fld parent ''options''; opt = (\<lambda>k. if truthy options then fld options k else VUndef) in
     \<lparr>parameters = ps, o_method = to_str httpMethod, o_path = to_str path,
      o_scheme = to_str (orElse scheme (orElse (fld parent ''scheme'') (VStr (js ''http'')))),
      o_host = (if truthy (fld parent ''host'') then to_str (fld parent ''host'') else window_host),
      o_basePath = trimmed_basePath (fld parent ''basePath''),
      o_nickname = to_str operationId, o_summary = to_str (orElse (fld args ''summary'') (VStr [])),
      consumes = string_list (orElse (fld args ''consumes'') (orElse (fld parent ''consumes'') json_default)),
      produces = string_list (orElse (fld args ''produces'') (orElse (fld parent ''produces'') json_default)),
      o_security = fld args ''security'', o_timeout = fld parent ''timeout'',
      o_client = orElse (opt ''client'') VNull, o_requestAgent = opt ''requestAgent'',
      o_requestInterceptor = orElse (opt ''requestInterceptor'') VNull,
      o_responseInterceptor = orElse (opt ''responseInterceptor'') VNull,
      o_useJQuery = fld parent ''useJQuery'', o_jqueryAjaxCache = fld parent ''jqueryAjaxCache'',
      o_enableCookies = fld parent ''enableCookies'', clientAuthorizations = authz, o_parent = parent\<rparr>)"

record operation_object =
  op :: operation
  op_deprecated :: json
  op_models :: models
  op_inlineModels :: "model list"
  op_responses :: json
  op_success :: "(string \<times> success) option"

definition Operation ::
  "markup \<Rightarrow> jstr \<Rightarrow> (json \<Rightarrow> json) \<Rightarrow> json \<Rightarrow> json \<Rightarrow> json \<Rightarrow> json \<Rightarrow> json \<Rightarrow> json \<Rightarrow> json \<Rightarrow> models \<Rightarrow> authz
    \<Rightarrow> jserr + operation_object" where
  "Operation markup window_host macro parent' scheme operationId httpMethod path args' definitions' models0 authz =
    (let parent = orElse parent' (VObj []); args = orElse args' (VObj []);
         definitions = (if truthy definitions' then definitions' else VObj []);
         models = foldl (\<lambda>ms (k, d). AList.update k (Model (VStr k) d) ms) models0 (fields_of definitions)
     in bindE (prepare_params markup models macro (items_of (orElse (fld args ''parameters'') (VArr []))) [])
       (\<lambda>(ps, inline).
        let (responses, successResponse) = prepare_responses definitions (orElse (fld args ''responses'') (VObj []))
        in Inr \<lparr>op = spec_operation window_host parent scheme operationId httpMethod path args authz ps,
                op_deprecated = normal_deprecated (fld args ''deprecated''), op_models = models,
                op_inlineModels = inline, op_responses = responses, op_success = successResponse\<rparr>))"

section \<open>Names of inline models\<close>

lemma digit_unit: "n < 10 \<Longrightarrow> code (of_nat (48 + n)) = int (48 + n)"
  by (subst of_int_of_nat_eq [symmetric], rule code_word_of_int) simp_all

lemma nat_digits_digits: "list_all is_digit (nat_digits n) \<and> nat_digits n \<noteq> []"
proof (induction n rule: nat_digits.induct)
  case (1 n)
  show ?case
  proof (cases "n < 10")
    case True
    then show ?thesis using digit_unit [of n] by (simp add: nat_digits.simps [of n] is_digit_def del: of_nat_add)
  next
    case False
    then show ?thesis using 1 digit_unit [of "n mod 10"]
      by (simp add: nat_digits.simps [of n] is_digit_def del: of_nat_add)
  qed
qed

lemma digits_value_snoc: "digits_value (s @ [c]) = 10 * digits_value s + nat (code c - 48)"
  by (simp add: digits_value_def)

lemma digits_value_digits: "digits_value (nat_digits n) = n"
proof (induction n rule: nat_digits.induct)
  case (1 n)
  show ?case
  proof (cases "n < 10")
    case True
    then show ?thesis using digit_unit [of n]
      by (simp add: nat_digits.simps [of n] digits_value_def del: of_nat_add)
  next
    case False
    have "digits_value (nat_digits n) = 10 * (n div 10) + nat (code (of_nat (48 + n mod 10)) - 48)"
      using 1 [OF False] False by (simp only: nat_digits.simps [of n] if_False digits_value_snoc)
    also have "\<dots> = n" using digit_unit [of "n mod 10"] by simp
    finally show ?thesis .
  qed
qed

lemma getInlineModel_grows:
  "getInlineModel ms n = Some m \<Longrightarrow> getInlineModel (ms @ ms') n = Some m"
  by (auto simp: getInlineModel_def Let_def nth_append split: if_splits)

lemma getInlineModel_last: "getInlineModel (ms @ [m]) (VStr (inline_prefix @ nat_digits (length ms))) = Some m"
  using nat_digits_digits [of "length ms"] digits_value_digits [of "length ms"]
  by (simp add: getInlineModel_def Let_def)

text \<open>The list of inline models only grows, whatever \<open>getType\<close> meets.\<close>

lemma addInlineModel_grows: "\<exists>ms'. snd (addInlineModel ms schema) = ms @ ms'"
  by (simp add: addInlineModel_def split: option.splits)

lemma getType_grows: "\<exists>ms'. snd (getType param ms) = ms @ ms'"
proof (induction param ms rule: getType.induct)
  case (1 param ms)
  let ?items = "fld param ''items''" and ?schema = "fld param ''schema''"
  define r where "r = (if fld param ''type'' = VStr (js ''array'')
      then (if is_data_object ?items then getType ?items ms else (VUndef, ms))
      else (primitive_type (fld param ''type'') (fld param ''format''), ms))"
  obtain str ms1 where r1: "r = (str, ms1)" by fastforce
  have g1: "\<exists>xs. ms1 = ms @ xs"
    using 1(1) r1 by (auto simp: r_def split: if_splits)
  have "\<exists>xs. snd (getType ?schema ms1) = ms1 @ xs"
    if "truthy ?schema" "\<not> truthy (fld ?schema ''$ref'')" "fld ?schema ''type'' \<noteq> VStr (js ''object'')" "is_data_object ?schema"
    using 1(2) [OF refl refl r1 [unfolded r_def, symmetric] refl refl refl] that by simp
  moreover have "\<exists>xs. snd (addInlineModel ms1 ?schema) = ms1 @ xs" by (rule addInlineModel_grows)
  moreover have step: "snd (getType param ms) = (if truthy ?schema \<and> \<not> truthy (fld ?schema ''$ref'') then
        (if fld ?schema ''type'' = VStr (js ''object'') then snd (addInlineModel ms1 ?schema)
         else if is_data_object ?schema then snd (getType ?schema ms1) else ms1) else ms1)"
    using r1 unfolding r_def by (subst getType.simps) (simp add: Let_def split: if_splits)
  ultimately show ?case using g1 by (auto split: if_splits)
qed

section \<open>Parameters with values\<close>

lemma extractExtensions_other:
  assumes "starts_with (js ''x-'') k = False" "k \<noteq> js ''vendorExtensions''"
  shows "get (extractExtensions (VStr n) v VUndef) k = get v k"
  using assms by (cases v) (auto simp: extractExtensions_def Let_def)

lemma add_extensions_other:
  assumes "starts_with (js ''x-'') k = False" "k \<noteq> js ''vendorExtensions''"
  shows "get (add_extensions v) k = get v k"
proof -
  have "get (foldl (\<lambda>v n. extractExtensions (VStr n) v VUndef) v ns) k = get v k" for ns
    by (induction ns arbitrary: v) (simp_all add: extractExtensions_other [OF assms])
  then show ?thesis by (simp add: add_extensions_def)
qed

fun is_obj :: "json \<Rightarrow> bool" where
  "is_obj (VObj m) = True"
| "is_obj v = False"

lemma get_put_obj [simp]: "is_obj v \<Longrightarrow> get (put v k x) k' = (if k' = k then x else get v k')"
  and is_obj_put [simp]: "is_obj (put v k x) = is_obj v"
  by (cases v; simp)+

lemma extractExtensions_obj [simp]: "is_obj v \<Longrightarrow> is_obj (extractExtensions n v x)"
  by (cases v) (simp_all add: extractExtensions_def Let_def)

lemma add_extensions_obj [simp]: "is_obj v \<Longrightarrow> is_obj (add_extensions v)"
proof -
  have "is_obj v \<Longrightarrow> is_obj (foldl (\<lambda>v n. extractExtensions (VStr n) v VUndef) v ns)" for ns
    by (induction ns arbitrary: v) simp_all
  then show "is_obj v \<Longrightarrow> is_obj (add_extensions v)" by (simp add: add_extensions_def)
qed

lemma param_defaults_facts [simp]:
  "is_obj v \<Longrightarrow> is_obj (param_defaults v)"
  "is_obj v \<Longrightarrow> k \<noteq> js ''default'' \<Longrightarrow> get (param_defaults v) k = get v k"
  by (simp_all add: param_defaults_def Let_def)

lemma not_extension: "starts_with (js ''x-'') (js ''isList'') = False" "starts_with (js ''x-'') (js ''allowableValues'') = False"
  by code_simp+

lemma get_delete [simp]: "get (VObj (delete_field (fields_of v) k)) k' = (if k' = k then VUndef else get v k')"
  if "is_obj v" for v
  using that by (cases v) simp_all

section \<open>Properties\<close>

text \<open>
  The names of inline models stay good: the name \<open>addInlineModel\<close> gives is the one
  \<open>getInlineModel\<close> finds the new model under, and a model that has a name is still found under
  it after \<open>getType\<close> has gone through any parameter.
\<close>

theorem inline_models_found:
  "(case resolveModel schema (VObj []) of
      Some m \<Rightarrow> getInlineModel (snd (addInlineModel ms schema)) (fst (addInlineModel ms schema)) = Some m
    | None \<Rightarrow> addInlineModel ms schema = (VNull, ms)) \<and>
   (case getInlineModel ms n of
      Some m \<Rightarrow> getInlineModel (snd (getType param ms)) n = Some m
    | None \<Rightarrow> True)"
proof -
  obtain ms' where "snd (getType param ms) = ms @ ms'" using getType_grows by blast
  then show ?thesis
    by (simp add: addInlineModel_def getInlineModel_last getInlineModel_grows split: option.splits)
qed

lemma described_default:
  "fld (described def v) ''isDefault'' = VBool True \<longleftrightarrow> strict_eq v def \<or> VStr (to_str v) = def"
  by (simp add: described_def)

lemma step_objects [simp]:
  "is_obj p \<Longrightarrow> is_obj (list_flags b p)" "is_obj p \<Longrightarrow> is_obj (boolean_values ty p)"
  "is_obj p \<Longrightarrow> is_obj (enum_values p)" "is_obj p \<Longrightarrow> is_obj (unlisted b p)"
  by (simp_all add: list_flags_def boolean_values_def enum_values_def unlisted_def)

lemma sign_param_fields:
  assumes "sign_param markup models inline ty p = Inr p'" "is_obj p"
    and "k \<notin> js ` {''modelSignature'', ''signature'', ''sampleJSON'', ''responseClassSignature''}"
  shows "get p' k = get p k"
  using assms by (auto simp: sign_param_def Let_def bindE_eq_Inr)

lemma list_flags_values:
  assumes "is_obj p" "fld p ''isList'' = VUndef"
  shows "fld (list_flags b p) ''isList'' = VUndef \<or> b"
  using assms by (simp add: list_flags_def)

lemma boolean_values_list:
  assumes "is_obj p"
  shows "fld (boolean_values ty p) ''allowableValues'' \<noteq> VUndef \<or> fld (boolean_values ty p) ''isList'' = fld p ''isList''"
  using assms by (simp add: boolean_values_def)

lemma enum_values_fields:
  assumes "is_obj p"
  shows "fld p ''allowableValues'' \<noteq> VUndef \<Longrightarrow> fld (enum_values p) ''allowableValues'' \<noteq> VUndef"
    and "fld (enum_values p) ''isList'' = fld p ''isList''"
    and "param_enum (enum_values p) = param_enum p"
    and "param_enum p \<noteq> VUndef \<Longrightarrow>
      fld (enum_values p) ''allowableValues'' = allowable_values (fld p ''default'') (param_enum p)"
proof -
  show "fld p ''allowableValues'' \<noteq> VUndef \<Longrightarrow> fld (enum_values p) ''allowableValues'' \<noteq> VUndef"
    "fld (enum_values p) ''isList'' = fld p ''isList''"
    "param_enum p \<noteq> VUndef \<Longrightarrow>
      fld (enum_values p) ''allowableValues'' = allowable_values (fld p ''default'') (param_enum p)"
    using assms by (simp_all add: enum_values_def allowable_values_def)
  have "fld (enum_values p) ''enum'' = fld p ''enum''" "fld (enum_values p) ''items'' = fld p ''items''"
    using assms by (simp_all add: enum_values_def)
  then show "param_enum (enum_values p) = param_enum p" by (simp only: param_enum_def)
qed

lemma unlisted_fields:
  assumes "is_obj p"
  shows "fld (unlisted b p) ''allowableValues'' = fld p ''allowableValues''"
    and "fld (unlisted b p) ''isList'' = (if b \<and> fld p ''allowableValues'' = VUndef then VUndef else fld p ''isList'')"
    and "param_enum (unlisted b p) = param_enum p"
  using assms by (cases p; simp add: unlisted_def param_enum_def)+

text \<open>
  C27. A parameter that is shown as a list has the values to choose from: what the constructor
  makes of a parameter has \<open>isList\<close> only together with \<open>allowableValues\<close>, and those of an
  enumeration list every value, in order, with its text.
\<close>

theorem lists_have_values:
  assumes "prepare_param markup models macro param ms = Inr (param', ms')"
    and "is_obj param" "fld param ''isList'' = VUndef"
  shows "(if fld param' ''allowableValues'' = VUndef then fld param' ''isList'' = VUndef else True) \<and>
    (case param_enum param' of
       VArr vs \<Rightarrow> fld (fld param' ''allowableValues'') ''values'' = VArr vs \<and>
         map (\<lambda>d. fld d ''value'') (items_of (fld (fld param' ''allowableValues'') ''descriptiveValues'')) = map (\<lambda>v. VStr (to_str v)) vs
     | _ \<Rightarrow> True)"
proof -
  define p0 where "p0 = put param (js ''default'') (macro param)"
  define b where "b \<longleftrightarrow> fld p0 ''type'' = VStr (js ''array'')"
  obtain ty inline where ty: "getType (list_flags b p0) ms = (ty, inline)" by fastforce
  define p2 where "p2 = boolean_values ty (list_flags b p0)"
  define p3 where "p3 = param_defaults (add_extensions p2)"
  define p5 where "p5 = unlisted b (enum_values p3)"
  have obj: "is_obj p0" "is_obj p2" "is_obj p3" "is_obj p5"
    using assms(2) by (simp_all add: p0_def p2_def p3_def p5_def)
  have "sign_param markup models inline (if b then VArr [ty] else ty) p5 = Inr param'"
    using assms(1) ty
    by (auto simp: prepare_param_def p0_def [symmetric] b_def [symmetric] p2_def [symmetric] p3_def [symmetric]
        p5_def [symmetric] bindE_eq_Inr Let_def split: if_splits)
  from sign_param_fields [OF this obj(4)] have
    same: "fld param' ''isList'' = fld p5 ''isList''" "fld param' ''allowableValues'' = fld p5 ''allowableValues''"
      "param_enum param' = param_enum p5"
    by (auto simp: param_enum_def)
  have start: "fld (list_flags b p0) ''isList'' = VUndef \<or> b"
    using assms(2,3) by (intro list_flags_values) (simp_all add: p0_def)
  have p3: "fld p3 ''isList'' = fld p2 ''isList''" "fld p3 ''allowableValues'' = fld p2 ''allowableValues''"
    using obj add_extensions_other [OF not_extension(1)] add_extensions_other [OF not_extension(2)] by (simp_all add: p3_def)
  have two: "fld p2 ''allowableValues'' \<noteq> VUndef \<or> fld p2 ''isList'' = VUndef \<or> b"
    using start boolean_values_list [of "list_flags b p0" ty] obj(1) by (auto simp: p2_def)
  note en = enum_values_fields [OF obj(3)] and un = unlisted_fields [of "enum_values p3" b]
  have "fld p5 ''allowableValues'' = VUndef \<Longrightarrow> fld p5 ''isList'' = VUndef"
    using two p3 en(1,2) un(1,2) obj(3) by (auto simp: p5_def)
  moreover have "fld p5 ''allowableValues'' = allowable_values (fld p3 ''default'') (VArr vs)" if "param_enum p5 = VArr vs" for vs
    using that en(3,4) un(1,3) obj(3) by (simp add: p5_def)
  ultimately show ?thesis
    unfolding same by (auto simp: allowable_values_def enum_items_def described_def comp_def split: json.split)
qed

definition plain_markup :: markup where
  "plain_markup = \<lparr>mockSignature = (\<lambda>m. []), sampleJSON = (\<lambda>m. VUndef)\<rparr>"

definition enum_param :: json where
  "enum_param = VObj [(js ''name'', VStr (js ''s'')), (js ''type'', VStr (js ''string'')), (js ''enum'', VArr [VStr (js ''a''), VNum 1])]"

lemma enum_prepared:
  "case prepare_param plain_markup [] own_default enum_param [] of
     Inl e \<Rightarrow> False | Inr (p, ms) \<Rightarrow> param_enum p = VArr [VStr (js ''a''), VNum 1]"
  by code_simp

theorem lists_have_values_witness:
  "\<exists>p ms. prepare_param plain_markup [] own_default enum_param [] = Inr (p, ms) \<and>
     fld (fld p ''allowableValues'') ''values'' = VArr [VStr (js ''a''), VNum 1]"
proof -
  obtain p ms where p: "prepare_param plain_markup [] own_default enum_param [] = Inr (p, ms)"
    "param_enum p = VArr [VStr (js ''a''), VNum 1]"
    using enum_prepared by (auto split: sum.splits prod.splits)
  have "is_obj enum_param" "fld enum_param ''isList'' = VUndef" by (simp_all add: enum_param_def)
  from lists_have_values [OF p(1) this] show ?thesis using p by simp
qed

end
