(* ===== verification/SchemaMarkup.thy ===== *)
theory SchemaMarkup
  imports SwaggerTypes
begin

text \<open>
  \<open>lib/schema-markup.js\<close>: the signature of a schema as a text, a sample of its values, and the
  description of a model as HTML.  The time of the call (\<open>toISOString\<close>) and the macro that gives
  a property its default are arguments.  Schemas are what \<open>JSON.parse\<close> makes.
\<close>

section \<open>Signatures\<close>

definition typeFromJsonSchema :: "json \<Rightarrow> json \<Rightarrow> json" where
  "typeFromJsonSchema type format =
    (if type = VStr (js ''integer'') \<and> format = VStr (js ''int32'') then VStr (js ''integer'')
     else if type = VStr (js ''integer'') \<and> format = VStr (js ''int64'') then VStr (js ''long'')
     else if type = VStr (js ''integer'') \<and> format = VUndef then VStr (js ''long'')
     else if type = VStr (js ''string'') \<and> format = VStr (js ''date-time'') then VStr (js ''date-time'')
     else if type = VStr (js ''string'') \<and> format = VStr (js ''date'') then VStr (js ''date'')
     else if type = VStr (js ''number'') \<and> format = VStr (js ''float'') then VStr (js ''float'')
     else if type = VStr (js ''number'') \<and> format = VStr (js ''double'') then VStr (js ''double'')
     else if type = VStr (js ''number'') \<and> format = VUndef then VStr (js ''double'')
     else if type = VStr (js ''boolean'') then VStr (js ''boolean'')
     else if type = VStr (js ''string'') then VStr (js ''string'')
     else VUndef)"

text \<open>The branches of \<open>getStringSignature\<close> after the one for arrays; there, \<open>$ref\<close> is \<open>undefined\<close>.\<close>

definition primitive_signature :: "json \<Rightarrow> json \<Rightarrow> jstr" where
  "primitive_signature type format =
    (if type = VStr (js ''integer'') \<and> format = VStr (js ''int32'') then js ''integer''
     else if type = VStr (js ''integer'') \<and> format = VStr (js ''int64'') then js ''long''
     else if type = VStr (js ''integer'') \<and> format = VUndef then js ''long''
     else if type = VStr (js ''string'') \<and> format = VStr (js ''date-time'') then js ''date-time''
     else if type = VStr (js ''string'') \<and> format = VStr (js ''date'') then js ''date''
     else if type = VStr (js ''string'') \<and> format = VUndef then js ''string''
     else if type = VStr (js ''number'') \<and> format = VStr (js ''float'') then js ''float''
     else if type = VStr (js ''number'') \<and> format = VStr (js ''double'') then js ''double''
     else if type = VStr (js ''number'') \<and> format = VUndef then js ''double''
     else if type = VStr (js ''boolean'') then js ''boolean''
     else to_str type)"

lemma items_or_nothing_size:
  assumes "fld obj ''type'' = VStr t" shows "size (orElse (fld obj ''items'') (VObj [])) < size obj"
proof (cases "truthy (fld obj ''items'')")
  case True
  have "size (get obj k) < size obj" if "truthy (get obj k)" "k \<noteq> js ''name''" for k
  proof (cases obj)
    case (VObj m)
    have "lookup_field m k \<noteq> VUndef \<Longrightarrow> size (lookup_field m k) < size (VObj m)" by (induction m) auto
    then show ?thesis using that VObj by (cases "lookup_field m k = VUndef") auto
  qed (use that in auto)
  from this [OF True] show ?thesis using True by (simp add: orElse_def)
next
  case False
  obtain m where "obj = VObj m" "lookup_field m (js ''type'') = VStr t" using assms by (cases obj) (auto split: if_splits)
  then show ?thesis using False by (cases m) (auto simp: orElse_def)
qed

function getStringSignature :: "json \<Rightarrow> bool \<Rightarrow> jserr + jstr" where
  "getStringSignature obj baseComponent =
    (if obj = VUndef \<or> obj = VNull then Inl not_object
     else if fld obj ''$ref'' \<noteq> VUndef then
       bindE (as_string (fld obj ''$ref'')) (\<lambda>r. Inr (to_str (simpleRef (VStr r))))
     else if fld obj ''type'' = VUndef then Inr (js ''object'')
     else if fld obj ''type'' = VStr (js ''array'') then
       (if baseComponent then getStringSignature (orElse (fld obj ''items'') (VObj [])) False
        else bindE (getStringSignature (orElse (fld obj ''items'') (VObj [])) False) (\<lambda>s.
          Inr (js ''Array['' @ s @ js '']'')))
     else Inr (primitive_signature (fld obj ''type'') (fld obj ''format'')))"
  by auto
termination
  by (relation "measure (\<lambda>(obj, b). size obj)") (simp_all add: items_or_nothing_size)

declare getStringSignature.simps [simp del]

section \<open>Samples\<close>

text \<open>An example, or else the first value of an enumeration.\<close>

definition given_output :: "json \<Rightarrow> json" where
  "given_output schema =
    (if fld schema ''example'' \<noteq> VUndef then fld schema ''example''
     else if fld schema ''items'' = VUndef \<and> is_array (fld schema ''enum'') then first_item (fld schema ''enum'')
     else VUndef)"

definition string_sample :: "jstr \<Rightarrow> json \<Rightarrow> jstr" where
  "string_sample now format =
    (if format = VStr (js ''date-time'') then now
     else if format = VStr (js ''date'') then hd (split_at 84 now)
     else js ''string'')"

text \<open>The clone of a property with the default the macro gives; a primitive takes no property.\<close>

definition with_default :: "(json \<Rightarrow> json) \<Rightarrow> json \<Rightarrow> jserr + json" where
  "with_default macro property =
    (if property = VUndef \<or> property = VNull then Inl not_object
     else if is_object property then Inr (put property (js ''default'') (macro property))
     else Inl (TypeError ''Cannot create property on a primitive''))"

text \<open>
  The recursion of \<open>schemaToJSON\<close> follows schemas inwards and references to models that are not
  to be ignored; a default that the macro gives does not count.
\<close>

fun schema_weight container_weight :: "json \<Rightarrow> nat" where
  "schema_weight (VObj m) = Suc (sum_list (map (\<lambda>(k, v).
     if k = js ''default'' then 0 else schema_weight v + container_weight v) m))"
| "schema_weight (VArr vs) = Suc (sum_list (map schema_weight vs))"
| "schema_weight v = 1"
| "container_weight (VObj m) = Suc (sum_list (map (\<lambda>(k, v). schema_weight v) m))"
| "container_weight (VArr vs) = Suc (sum_list (map schema_weight vs))"
| "container_weight v = 1"

definition model_names :: "models \<Rightarrow> jstr set" where
  "model_names models = (\<lambda>(k, m). to_str (m_name m)) ` set models"

lemma weight_pos: "0 < schema_weight v" "0 < container_weight v"
  by (cases v; simp)+

lemma lookup_weight:
  "lookup_field m k = v \<Longrightarrow> v \<noteq> VUndef \<Longrightarrow> k \<noteq> js ''default'' \<Longrightarrow>
     schema_weight v + container_weight v < schema_weight (VObj m)"
proof (induction m)
  case (Cons p m)
  then show ?case by (cases p) (auto split: if_splits)
qed simp

lemma field_weight:
  "k \<noteq> ''default'' \<Longrightarrow> k \<noteq> ''name'' \<Longrightarrow> fld s k \<noteq> VUndef \<Longrightarrow>
     schema_weight (fld s k) + container_weight (fld s k) < schema_weight s"
proof (cases s)
  case (VObj m)
  assume "k \<noteq> ''default''" "fld s k \<noteq> VUndef"
  then show ?thesis using VObj lookup_weight [of m "js k"] by simp
qed simp_all

lemma resolveSchema_weight: "schema_weight (resolveSchema s) \<le> schema_weight s"
proof (induction s rule: resolveSchema.induct)
  case (1 s)
  show ?case
  proof (cases "fld s ''schema''")
    case (VObj m)
    then have "schema_weight (VObj m) < schema_weight s" using field_weight [of "''schema''" s] by simp
    then show ?thesis using 1 [OF VObj] VObj by (simp add: resolveSchema.simps [of s])
  qed (simp_all add: resolveSchema.simps [of s])
qed

lemma sum_list_mem: "x \<in> set xs \<Longrightarrow> f x \<le> sum_list (map f xs :: nat list)"
  by (induction xs) auto

lemma for_in_weight: "(n, p) \<in> set (for_in c) \<Longrightarrow> schema_weight p \<le> container_weight c"
proof (cases c)
  case (VObj m)
  assume "(n, p) \<in> set (for_in c)"
  then show ?thesis using VObj sum_list_mem [of "(n, p)" m "\<lambda>(k, v). schema_weight v"] by simp
next
  case (VArr vs)
  assume "(n, p) \<in> set (for_in c)"
  then have "p \<in> set vs" using VArr by (auto simp: in_set_enumerate_eq)
  then show ?thesis using VArr sum_list_mem [of p vs schema_weight] by simp
next
  case (VStr s)
  assume "(n, p) \<in> set (for_in c)"
  then show ?thesis using VStr by auto
qed simp_all

lemma property_weight:
  "(n, p) \<in> set (for_in (fld s ''properties'')) \<Longrightarrow> schema_weight p < schema_weight s"
  using field_weight [of "''properties''" s] for_in_weight [of n p "fld s ''properties''"]
  by (cases "fld s ''properties'' = VUndef") auto

lemma item_weight: "fld s ''items'' = VArr vs \<Longrightarrow> p \<in> set vs \<Longrightarrow> schema_weight p < schema_weight s"
  using field_weight [of "''items''" s] sum_list_mem [of p vs schema_weight] by simp

lemma items_weight: "fld s ''items'' = VObj m \<Longrightarrow> schema_weight (VObj m) < schema_weight s"
  using field_weight [of "''items''" s] by simp

lemma put_default_weight: "schema_weight (put p (js ''default'') v) = schema_weight p"
proof (cases p)
  case (VObj m)
  have "sum_list (map (\<lambda>(k, v). if k = js ''default'' then 0 else schema_weight v + container_weight v)
      (AList.update (js ''default'') v m))
    = sum_list (map (\<lambda>(k, v). if k = js ''default'' then 0 else schema_weight v + container_weight v) m)"
    by (induction m) auto
  then show ?thesis using VObj by simp
qed simp_all

lemma with_default_weight: "with_default macro p = Inr c \<Longrightarrow> schema_weight c = schema_weight p"
  by (auto simp: with_default_def put_default_weight split: if_splits)

lemma bindE_cong [fundef_cong]: "m = n \<Longrightarrow> (\<And>a. n = Inr a \<Longrightarrow> f a = g a) \<Longrightarrow> bindE m f = bindE n g"
  by (cases n) auto

text \<open>
  A model is entered only while its name is not to be ignored, and is ignored inside; between
  two models the schemas get smaller.  So the sampling ends, also for models that refer to each
  other in circles.
\<close>

lemma fewer_models:
  assumes "map_of models r = Some model" "to_str (m_name model) \<notin> set ignore"
  shows "card (model_names models - set (to_str (m_name model) # ignore)) < card (model_names models - set ignore)"
proof (rule psubset_card_mono)
  have "to_str (m_name model) \<in> model_names models"
    using assms(1) by (force simp: model_names_def dest: map_of_SomeD)
  then show "model_names models - set (to_str (m_name model) # ignore) \<subset> model_names models - set ignore"
    using assms(2) by auto
qed (simp add: model_names_def)

lemmas smaller_schema = less_le_trans [OF _ resolveSchema_weight]

function (sequential) schemaToJSON :: "jstr \<Rightarrow> (json \<Rightarrow> json) \<Rightarrow> models \<Rightarrow> jstr list \<Rightarrow> json \<Rightarrow> jserr + json" where
  "schemaToJSON now macro models modelsToIgnore schema0 =
    (if schema0 = VUndef \<or> schema0 = VNull then Inl not_object
     else
       let schema = resolveSchema schema0; type = orElse (fld schema ''type'') (VStr (js ''object''))
       in if given_output schema \<noteq> VUndef then Inr (given_output schema)
       else if truthy (fld schema ''$ref'') then
         bindE (as_string (fld schema ''$ref'')) (\<lambda>ref.
           case map_of models (to_str (simpleRef (VStr ref))) of
             None \<Rightarrow> Inr VUndef
           | Some model \<Rightarrow>
               if to_str (m_name model) \<in> set modelsToIgnore then Inr (VObj [])
               else schemaToJSON now macro models (to_str (m_name model) # modelsToIgnore) (m_definition model))
       else if fld schema ''default'' \<noteq> VUndef then Inr (fld schema ''default'')
       else if type = VStr (js ''string'') then Inr (VStr (string_sample now (fld schema ''format'')))
       else if type = VStr (js ''integer'') \<or> type = VStr (js ''number'') then Inr (VNum 0)
       else if type = VStr (js ''boolean'') then Inr (VBool True)
       else if type = VStr (js ''object'') then
         bindE (map_until (\<lambda>(name, property). bindE (with_default macro property) (\<lambda>cProperty.
             bindE (schemaToJSON now macro models modelsToIgnore cProperty) (\<lambda>v. Inr (name, v))))
           (for_in (fld schema ''properties''))) (\<lambda>output.
         Inr (VObj (foldl (\<lambda>m (name, v). set_field m name v) [] output)))
       else if type = VStr (js ''array'') then
         (case fld schema ''items'' of
            VArr items \<Rightarrow> bindE (map_until (schemaToJSON now macro models modelsToIgnore) items) (\<lambda>output. Inr (VArr output))
          | VObj items \<Rightarrow> bindE (schemaToJSON now macro models modelsToIgnore (VObj items)) (\<lambda>v. Inr (VArr [v]))
          | VUndef \<Rightarrow> Inr (VArr [VObj []])
          | _ \<Rightarrow> Inr (VArr []))
       else Inr VUndef)"
  by pat_completeness auto

termination
proof (relation "measures [\<lambda>(now, macro, models, ignore, s). card (model_names models - set ignore),
    \<lambda>(now, macro, models, ignore, s). schema_weight s]", goal_cases)
  case (2 now macro models ignore s schema type ref model)
  then show ?case using fewer_models by simp
next
  case (3 now macro models ignore s schema type p name property c)
  then have "schema_weight c < schema_weight s"
    using with_default_weight property_weight smaller_schema by (metis (no_types, lifting))
  then show ?case by simp
next
  case (4 now macro models ignore s schema type items p)
  then have "schema_weight p < schema_weight s" using item_weight smaller_schema by (metis (no_types, lifting))
  then show ?case by simp
next
  case (5 now macro models ignore s schema type items)
  then have "schema_weight (VObj items) < schema_weight s" using items_weight smaller_schema by (metis (no_types, lifting))
  then show ?case by (simp del: schema_weight.simps)
qed simp

declare schemaToJSON.simps [simp del]

text \<open>
  \<open>Model.prototype.createJSONSample\<close>.  It sets the example of the model's definition, from the
  examples of a response if the model has them; an example that is a text is read as YAML, and
  \<open>safeLoad\<close> is an argument.
\<close>

definition sample_definition :: "(jstr \<Rightarrow> jserr + json) \<Rightarrow> json \<Rightarrow> json \<Rightarrow> jserr + json" where
  "sample_definition safeLoad examples def =
    (let given = (case examples of VObj m \<Rightarrow> fld examples ''application/json'' | _ \<Rightarrow> VUndef) in
     if truthy given then
       bindE (case given of VStr text \<Rightarrow> safeLoad text | _ \<Rightarrow> Inr given) (\<lambda>example.
         Inr (put def (js ''example'') example))
     else if \<not> truthy (fld def ''example'') then Inr (put def (js ''example'') examples)
     else Inr def)"

definition createJSONSample ::
  "jstr \<Rightarrow> (json \<Rightarrow> json) \<Rightarrow> models \<Rightarrow> (jstr \<Rightarrow> jserr + json) \<Rightarrow> json \<Rightarrow> jstr list \<Rightarrow> model \<Rightarrow> jserr + json" where
  "createJSONSample now macro models safeLoad examples modelsToIgnore this =
    bindE (sample_definition safeLoad examples (m_definition this)) (\<lambda>definition'.
      schemaToJSON now macro models (to_str (m_name this) # modelsToIgnore) definition')"

section \<open>What samples look like\<close>

text \<open>
  A schema as the specification wants it: an object, whose properties and items are such
  schemas, and whose reference, if it has one, is a text.
\<close>

inductive proper :: "json \<Rightarrow> bool" where
  "proper (VObj m)"
  if "\<And>n p. (n, p) \<in> set (for_in (fld (VObj m) ''properties'')) \<Longrightarrow> proper p"
    and "\<And>ps p. fld (VObj m) ''items'' = VArr ps \<Longrightarrow> p \<in> set ps \<Longrightarrow> proper p"
    and "\<And>i. fld (VObj m) ''items'' = VObj i \<Longrightarrow> proper (VObj i)"
    and "\<And>i. fld (VObj m) ''schema'' = VObj i \<Longrightarrow> proper (VObj i)"
    and "fld (VObj m) ''$ref'' = VUndef \<or> is_string (fld (VObj m) ''$ref'')"

inductive_cases properE: "proper s"

lemma proper_object: "proper s \<Longrightarrow> \<exists>m. s = VObj m"
  by (erule properE) simp

lemma proper_property: "proper s \<Longrightarrow> (n, p) \<in> set (for_in (fld s ''properties'')) \<Longrightarrow> proper p"
  by (erule properE) simp

lemma proper_item: "proper s \<Longrightarrow> fld s ''items'' = VArr ps \<Longrightarrow> p \<in> set ps \<Longrightarrow> proper p"
  by (erule properE) simp

lemma proper_items: "proper s \<Longrightarrow> fld s ''items'' = VObj i \<Longrightarrow> proper (VObj i)"
  by (erule properE) simp

lemma proper_schema: "proper s \<Longrightarrow> fld s ''schema'' = VObj i \<Longrightarrow> proper (VObj i)"
  by (erule properE) simp

lemma proper_ref: "proper s \<Longrightarrow> truthy (fld s ''$ref'') \<Longrightarrow> \<exists>t. fld s ''$ref'' = VStr t"
  by (erule properE, cases "fld s ''$ref''") auto

lemma proper_resolve: "proper s \<Longrightarrow> proper (resolveSchema s)"
proof (induction s rule: resolveSchema.induct)
  case (1 s)
  show ?case
  proof (cases "fld s ''schema''")
    case (VObj m)
    have "proper (VObj m)" using "1.prems" VObj by (rule proper_schema)
    then show ?thesis using 1(1) [OF VObj] VObj by (simp add: resolveSchema.simps [of s])
  qed (use "1.prems" in \<open>simp_all add: resolveSchema.simps [of s]\<close>)
qed

lemma proper_default:
  assumes "proper p" shows "\<exists>c. with_default macro p = Inr c \<and> proper c"
proof -
  obtain m where m: "p = VObj m" using proper_object assms by blast
  have "proper (VObj (set_field m (js ''default'') v))" for v
    using assms unfolding m by (elim properE) (rule proper.intros; simp)
  then show ?thesis by (simp add: with_default_def m)
qed

lemma map_until_total: "(\<And>x. x \<in> set xs \<Longrightarrow> \<exists>y. f x = Inr y) \<Longrightarrow> \<exists>ys. map_until f xs = Inr ys"
proof (induction xs)
  case (Cons x xs)
  obtain y where "f x = Inr y" using Cons.prems by auto
  moreover obtain ys where "map_until f xs = Inr ys" using Cons by auto
  ultimately show ?case by simp
qed simp

text \<open>
  C22. A sample can always be made: if the schema and the definitions of the models are as the
  specification wants them, \<open>schemaToJSON\<close> ends with a value and does not throw, also for models
  that refer to themselves or to each other in circles.
\<close>

theorem sampling_ends:
  assumes "\<forall>(k, model) \<in> set models. proper (m_definition model)" "proper schema"
  shows "\<exists>v. schemaToJSON now macro models modelsToIgnore schema = Inr v"
  using assms
proof (induction now macro models modelsToIgnore schema rule: schemaToJSON.induct)
  case (1 now macro models ignore s)
  define r where "r = resolveSchema s"
  have p: "proper r" unfolding r_def using "1.prems"(2) by (rule proper_resolve)
  have s: "s \<noteq> VUndef" "s \<noteq> VNull" using proper_object [OF "1.prems"(2)] by auto
  obtain m where m: "r = VObj m" using proper_object [OF p] by blast
  consider (given) "given_output r \<noteq> VUndef"
    | (ref) "given_output r = VUndef" "truthy (fld r ''$ref'')"
    | (default) "given_output r = VUndef" "\<not> truthy (fld r ''$ref'')" "fld r ''default'' \<noteq> VUndef"
    | (object) "given_output r = VUndef" "\<not> truthy (fld r ''$ref'')" "fld r ''default'' = VUndef"
        "orElse (fld r ''type'') (VStr (js ''object'')) = VStr (js ''object'')"
    | (array) "given_output r = VUndef" "\<not> truthy (fld r ''$ref'')" "fld r ''default'' = VUndef"
        "orElse (fld r ''type'') (VStr (js ''object'')) = VStr (js ''array'')"
    | (plain) "given_output r = VUndef" "\<not> truthy (fld r ''$ref'')" "fld r ''default'' = VUndef"
        "orElse (fld r ''type'') (VStr (js ''object'')) \<noteq> VStr (js ''object'')"
        "orElse (fld r ''type'') (VStr (js ''object'')) \<noteq> VStr (js ''array'')"
    by blast
  then show ?case
  proof cases
    case ref
    then obtain t where t: "fld r ''$ref'' = VStr t" using proper_ref [OF p] by blast
    show ?thesis
    proof (cases "map_of models (to_str (simpleRef (VStr t)))")
      case (Some model)
      then have "proper (m_definition model)" using "1.prems"(1) by (auto dest: map_of_SomeD)
      have "\<exists>v. schemaToJSON now macro models (to_str (m_name model) # ignore) (m_definition model) = Inr v"
        if "to_str (m_name model) \<notin> set ignore"
        by (rule "1.IH"(1) [OF _ r_def refl]) (use s ref t Some that "1.prems"(1) \<open>proper (m_definition model)\<close> in \<open>simp_all add: as_string_def\<close>)
      then show ?thesis using s ref t Some
        by (auto simp: schemaToJSON.simps [of _ _ _ _ s] Let_def as_string_def simp flip: r_def)
    qed (use s ref t in \<open>simp add: schemaToJSON.simps [of _ _ _ _ s] as_string_def Let_def flip: r_def\<close>)
  next
    case object
    let ?f = "\<lambda>(name, property). bindE (with_default macro property) (\<lambda>cProperty.
        bindE (schemaToJSON now macro models ignore cProperty) (\<lambda>v. Inr (name, v)))"
    have "\<exists>y. ?f x = Inr y"
      if x: "x \<in> set (for_in (fld r ''properties''))" for x
    proof -
      obtain n q where q: "x = (n, q)" by fastforce
      then have "proper q" using p x proper_property by blast
      then obtain c where c: "with_default macro q = Inr c" "proper c" using proper_default by blast
      have "\<exists>v. schemaToJSON now macro models ignore c = Inr v"
        by (rule "1.IH"(2) [OF _ r_def refl]) (use s object x q c "1.prems"(1) in simp_all)
      then show ?thesis using c q by auto
    qed
    from map_until_total [of "for_in (fld r ''properties'')" ?f, OF this] show ?thesis using s object
      by (auto simp: schemaToJSON.simps [of _ _ _ _ s] Let_def simp flip: r_def)
  next
    case array
    note rule = schemaToJSON.simps [of _ _ _ _ s]
    show ?thesis
    proof (cases "fld r ''items''")
      case (VArr ps)
      have "\<exists>y. schemaToJSON now macro models ignore q = Inr y" if "q \<in> set ps" for q
        by (rule "1.IH"(3) [OF _ r_def refl]) (use s array that VArr proper_item [OF p VArr that] "1.prems"(1) in simp_all)
      from map_until_total [of ps "schemaToJSON now macro models ignore", OF this] show ?thesis using s array VArr by (auto simp: rule Let_def simp flip: r_def)
    next
      case (VObj i)
      have "\<exists>y. schemaToJSON now macro models ignore (VObj i) = Inr y"
        by (rule "1.IH"(4) [OF _ r_def refl]) (use s array VObj proper_items [OF p VObj] "1.prems"(1) in simp_all)
      then show ?thesis using s array VObj by (auto simp: rule Let_def simp flip: r_def)
    qed (use s array in \<open>simp_all add: rule Let_def flip: r_def\<close>)
  qed (use s in \<open>simp_all add: schemaToJSON.simps [of _ _ _ _ s] Let_def flip: r_def\<close>)
qed

lemma set_field_new: "n \<notin> fst ` set m \<Longrightarrow> set_field m n v = m @ [(n, v)]"
  by (induction m) auto

lemma set_fields_distinct:
  "distinct (map fst ps) \<Longrightarrow> set (map fst m) \<inter> set (map fst ps) = {} \<Longrightarrow>
     foldl (\<lambda>m (name, v). set_field m name v) m ps = m @ ps"
proof (induction ps arbitrary: m)
  case (Cons p ps)
  obtain n v where p: "p = (n, v)" by fastforce
  then have "n \<notin> fst ` set m" using Cons.prems(2) by auto
  then have "set_field m n v = m @ [(n, v)]" by (rule set_field_new)
  then show ?case using Cons p by simp
qed simp

text \<open>
  C23. A sample has the shape of its schema, where nothing overrides it (an example, an
  enumeration, a reference, a default): a text, the number 0, \<open>true\<close>, a list, or an object that
  has the properties of the schema and no others, in their order.
\<close>

theorem sample_shape:
  assumes "schemaToJSON now macro models modelsToIgnore schema = Inr v" "resolveSchema schema = schema"
    and "given_output schema = VUndef" "\<not> truthy (fld schema ''$ref'')" "fld schema ''default'' = VUndef"
    and "distinct (map fst (for_in (fld schema ''properties'')))" "fld schema ''type'' = VStr (js t)"
  shows "(t = ''string'' \<longrightarrow> is_string v) \<and> (t \<in> {''integer'', ''number''} \<longrightarrow> v = VNum 0) \<and>
    (t = ''boolean'' \<longrightarrow> v = VBool True) \<and> (t = ''array'' \<longrightarrow> is_array v) \<and>
    (t = ''object'' \<longrightarrow> (case v of
       VObj m \<Rightarrow> map fst m = map fst (for_in (fld schema ''properties'')) | _ \<Rightarrow> False))"
proof -
  have type: "t \<noteq> [] \<Longrightarrow> orElse (fld schema ''type'') (VStr (js ''object'')) = VStr (js t)"
    using assms(7) by (simp add: orElse_def)
  have u: "schema \<noteq> VUndef" "schema \<noteq> VNull" using assms(7) by auto
  note rule = assms(1) [unfolded schemaToJSON.simps [of _ _ _ _ schema] Let_def assms(2)]
  have "case v of VObj m \<Rightarrow> map fst m = map fst (for_in (fld schema ''properties'')) | _ \<Rightarrow> False"
    if t: "t = ''object''"
  proof -
    from rule u assms(3-5) type t obtain ps where
      ps: "map_until (\<lambda>(name, property). bindE (with_default macro property) (\<lambda>cProperty.
             bindE (schemaToJSON now macro models modelsToIgnore cProperty) (\<lambda>v. Inr (name, v))))
           (for_in (fld schema ''properties'')) = Inr ps"
      and v: "v = VObj (foldl (\<lambda>m (name, v). set_field m name v) [] ps)"
      by (auto simp: bindE_eq_Inr)
    have "map fst ps = map fst (for_in (fld schema ''properties''))"
      using ps unfolding map_until_Inr by (induction rule: list_all2_induct) (auto simp: bindE_eq_Inr)
    then show ?thesis using v assms(6) by (simp add: set_fields_distinct)
  qed
  moreover have "is_array v" if "t = ''array''"
    using rule u assms(3-5) type that by (auto simp: bindE_eq_Inr split: json.splits)
  ultimately show ?thesis using rule u assms(3-5) type by auto
qed

text \<open>
  Where \<open>typeFromJsonSchema\<close> names the type of a primitive, the signature of the schema is
  that name; the signature of a list of such schemas puts it in brackets.
\<close>

theorem signatures_agree:
  assumes "typeFromJsonSchema type format = VStr s" "type = VStr t"
  shows "getStringSignature (VObj [(js ''type'', type), (js ''format'', format)]) base = Inr s \<and>
    getStringSignature (VObj [(js ''type'', VStr (js ''array'')),
      (js ''items'', VObj [(js ''type'', type), (js ''format'', format)])]) False = Inr (js ''Array['' @ s @ js '']'')"
proof -
  have p: "getStringSignature (VObj [(js ''type'', type), (js ''format'', format)]) b = Inr s" for b
    using assms by (subst getStringSignature.simps) (auto simp: typeFromJsonSchema_def primitive_signature_def split: if_splits)
  show ?thesis
    by (simp add: p, subst getStringSignature.simps) (simp add: p orElse_def)
qed

section \<open>Examples\<close>

text \<open>What \<open>schemaToHTML\<close> and \<open>createJSONSample\<close> do without a macro.\<close>

definition no_default :: "json \<Rightarrow> json" where
  "no_default p = fld p ''default''"

text \<open>Two models that refer to each other.\<close>

definition ring_models :: models where
  "ring_models = map (\<lambda>(a, b). (js a, Model (VStr (js a)) (VObj [(js ''properties'',
     VObj [(js ''next'', VObj [(js ''$ref'', VStr (js b))])])]))) [(''A'', ''B''), (''B'', ''A'')]"

lemma proper_reference: "proper (VObj [(js ''$ref'', VStr s)])"
  by (rule proper.intros) simp_all

lemma proper_next: "proper (VObj [(js ''properties'', VObj [(n, VObj [(js ''$ref'', VStr s)])])])"
  by (rule proper.intros) (simp_all add: proper_reference)

lemma proper_ring: "\<forall>(k, model) \<in> set ring_models. proper (m_definition model)"
  by (simp add: ring_models_def Model_def orElse_def proper_next)

theorem sampling_ends_witness:
  "\<exists>v. schemaToJSON (js ''now'') no_default ring_models [] (VObj [(js ''$ref'', VStr (js ''A''))]) = Inr v"
  by (rule sampling_ends [OF proper_ring proper_reference])

text \<open>
  An example that is \<open>false\<close> is taken for none, and overwritten: the sample of the boolean is \<open>true\<close>.
\<close>

lemma false_example_lost:
  "createJSONSample now no_default [] (\<lambda>s. Inr (VStr s)) VUndef []
     (Model (VStr (js ''Flag'')) (VObj [(js ''type'', VStr (js ''boolean'')), (js ''example'', VBool False)])) = Inr (VBool True)"
  by (simp add: createJSONSample_def sample_definition_def Model_def orElse_def schemaToJSON.simps resolveSchema.simps
      given_output_def Let_def)

definition point_schema :: json where
  "point_schema = VObj [(js ''type'', VStr (js ''object'')), (js ''properties'',
     VObj [(js ''x'', VObj [(js ''type'', VStr (js ''integer''))]), (js ''tag'', VObj [(js ''type'', VStr (js ''string''))])])]"

theorem sample_shape_witness:
  "case schemaToJSON (js ''now'') no_default [] [] point_schema of
     Inr (VObj m) \<Rightarrow> map fst m = [js ''x'', js ''tag''] | _ \<Rightarrow> False"
proof -
  have "schemaToJSON (js ''now'') no_default [] [] point_schema
    = Inr (VObj [(js ''x'', VNum 0), (js ''tag'', VStr (js ''string''))])"
    by code_simp
  with sample_shape [OF this, of "''object''"] show ?thesis
    by (simp add: point_schema_def resolveSchema.simps given_output_def)
qed

theorem signatures_agree_witness:
  "getStringSignature (VObj [(js ''type'', VStr (js ''integer'')), (js ''format'', VUndef)]) True = Inr (js ''long'')"
  using signatures_agree [of "VStr (js ''integer'')" VUndef "js ''long''" "js ''integer''" True]
  by (simp add: typeFromJsonSchema_def)

end
