(* ===== verification/SchemaHtml.thy ===== *)
theory SchemaHtml
  imports SchemaMarkup
begin

text \<open>
  \<open>schemaToHTML\<close> of \<open>lib/schema-markup.js\<close>: the description of a model as HTML, followed by those
  of the models it refers to.  The variables of the closure are a record: the references still to
  be described, the models described, and the number of inline models.  An exception ends the
  call; the loop over the references need not end, so it is a partial function.
\<close>

section \<open>State\<close>

record html_state =
  references :: fields
  seenModels :: "json list"
  inlineModels :: nat

text \<open>\<open>_.map\<close> with a function that changes the state.\<close>

fun map_state :: "('a \<Rightarrow> 's \<Rightarrow> jserr + 'b \<times> 's) \<Rightarrow> 'a list \<Rightarrow> 's \<Rightarrow> jserr + 'b list \<times> 's" where
  "map_state f [] st = Inr ([], st)"
| "map_state f (x # xs) st =
    bindE (f x st) (\<lambda>(y, st). bindE (map_state f xs st) (\<lambda>(ys, st). Inr (y # ys, st)))"

text \<open>\<open>Array.prototype.join\<close>.\<close>

definition join_values :: "string \<Rightarrow> json list \<Rightarrow> jstr" where
  "join_values sep vs = join (js sep) (map (\<lambda>v. if v = VUndef \<or> v = VNull then [] else to_str v) vs)"

definition ref_name :: "json \<Rightarrow> jserr + json" where
  "ref_name r = bindE (as_string r) (\<lambda>s. Inr (simpleRef (VStr s)))"

definition strongOpen :: jstr where
  "strongOpen = js ''<span class=\"strong\">''"

definition strongClose :: jstr where
  "strongClose = js ''</span>''"

section \<open>References\<close>

definition addReference :: "models \<Rightarrow> json \<Rightarrow> json \<Rightarrow> html_state \<Rightarrow> jserr + json \<times> html_state" where
  "addReference models schema name st = bindE (present_value schema) (\<lambda>_.
    bindE
      (if truthy (fld schema ''$ref'') then
         bindE (if truthy (fld schema ''title'') then Inr (fld schema ''title'') else ref_name (fld schema ''$ref'')) (\<lambda>modelName.
           Inr (modelName, map_option m_definition (map_of models (to_str modelName)), st))
       else if name = VUndef then
         (if truthy (fld schema ''title'') then Inr (fld schema ''title'', Some schema, st)
          else let n = Suc (inlineModels st) in
            Inr (VStr (js ''Inline Model '' @ nat_digits n), Some schema, st\<lparr>inlineModels := n\<rparr>))
       else Inr (name, None, st))
      (\<lambda>(modelName, definition', st). Inr (modelName,
         st\<lparr>references := set_field (references st) (to_str modelName)
            (case definition' of Some d \<Rightarrow> d | None \<Rightarrow> VObj [])\<rparr>)))"

text \<open>What \<open>_.map\<close> hands to \<open>addReference\<close>: the item with its index as its name.\<close>

definition add_item :: "models \<Rightarrow> nat \<times> json \<Rightarrow> html_state \<Rightarrow> jserr + json \<times> html_state" where
  "add_item models = (\<lambda>(i, item). addReference models item (VNum (int i)))"

definition primitiveToHTML :: "models \<Rightarrow> json \<Rightarrow> html_state \<Rightarrow> jserr + jstr \<times> html_state" where
  "primitiveToHTML models schema st = bindE (present_value schema) (\<lambda>_.
    let type = orElse (fld schema ''type'') (VStr (js ''object'')); items = fld schema ''items''
    in bindE
      (if truthy (fld schema ''$ref'') then
         bindE (ref_name (fld schema ''$ref'')) (\<lambda>n.
         bindE (addReference models schema n st) (\<lambda>(n, st). Inr (to_str n, st)))
       else if type = VStr (js ''object'') then
         (if fld schema ''properties'' \<noteq> VUndef
          then bindE (addReference models schema VUndef st) (\<lambda>(n, st). Inr (to_str n, st))
          else Inr (js ''object'', st))
       else if type = VStr (js ''array'') then
         bindE (case items of
             VArr vs \<Rightarrow> bindE (map_state (add_item models) (enumerate 0 vs) st) (\<lambda>(ns, st). Inr (join_values '','' ns, st))
           | VObj m \<Rightarrow>
              (if fld items ''$ref'' = VUndef then
                 (if fld items ''type'' \<noteq> VUndef \<and> fld items ''type'' \<notin> {VStr (js ''array''), VStr (js ''object'')}
                  then Inr (to_str (fld items ''type''), st)
                  else bindE (addReference models items VUndef st) (\<lambda>(n, st). Inr (to_str n, st)))
               else bindE (ref_name (fld items ''$ref'')) (\<lambda>n.
                 bindE (addReference models items n st) (\<lambda>(n, st). Inr (to_str n, st))))
           | _ \<Rightarrow> Inr (js ''object'', st))
         (\<lambda>(s, st). Inr (js ''Array['' @ s @ js '']'', st))
       else Inr (to_str (fld schema ''type''), st))
      (\<lambda>(s, st). Inr (js ''<span class=\"propType\">'' @ s @ js ''</span>'', st)))"

section \<open>Options\<close>

definition option_if :: "json \<Rightarrow> string \<Rightarrow> jstr \<Rightarrow> jstr" where
  "option_if v label text = (if truthy v then optionHtml (js label) text else [])"

definition value_option :: "json \<Rightarrow> string \<Rightarrow> string \<Rightarrow> jstr" where
  "value_option schema key label = option_if (fld schema key) label (to_str (fld schema key))"

definition flag_option :: "json \<Rightarrow> string \<Rightarrow> string \<Rightarrow> jstr" where
  "flag_option schema key label = option_if (fld schema key) label (js ''true'')"

definition option_type :: "json \<Rightarrow> json" where
  "option_type schema =
    (let type = orElse (fld schema ''type'') (VStr (js ''object'')) in
     if type = VStr (js ''array'') then
       (case fld schema ''items'' of
          VObj m \<Rightarrow> (if fld (VObj m) ''type'' \<noteq> VUndef then fld (VObj m) ''type'' else VStr (js ''object''))
        | _ \<Rightarrow> VStr (js ''object''))
     else type)"

definition enum_text :: "json \<Rightarrow> json list \<Rightarrow> jstr" where
  "enum_text type vs =
    (if type = VStr (js ''number'') \<or> type = VStr (js ''integer'') then join_values '', '' vs
     else js ''\"'' @ join_values ''\", \"'' vs @ js ''\"'')"

definition schema_options :: "json \<Rightarrow> jstr" where
  "schema_options schema =
    (let type = option_type schema; isArray = (fld schema ''type'' = VStr (js ''array'')) in
     (if fld schema ''default'' \<noteq> VUndef then optionHtml (js ''Default'') (to_str (fld schema ''default'')) else []) @
     (if type = VStr (js ''string'') then
        value_option schema ''minLength'' ''Min. Length'' @ value_option schema ''maxLength'' ''Max. Length'' @
        value_option schema ''pattern'' ''Reg. Exp.''
      else if type = VStr (js ''integer'') \<or> type = VStr (js ''number'') then
        value_option schema ''minimum'' ''Min. Value'' @ flag_option schema ''exclusiveMinimum'' ''Exclusive Min.'' @
        value_option schema ''maximum'' ''Max. Value'' @ flag_option schema ''exclusiveMaximum'' ''Exclusive Max.'' @
        value_option schema ''multipleOf'' ''Multiple Of''
      else []) @
     (if isArray then
        value_option schema ''minItems'' ''Min. Items'' @ value_option schema ''maxItems'' ''Max. Items'' @
        flag_option schema ''uniqueItems'' ''Unique Items'' @ value_option schema ''collectionFormat'' ''Coll. Format''
      else []) @
     (if fld schema ''items'' = VUndef \<and> is_array (fld schema ''enum'')
      then optionHtml (js ''Enum'') (enum_text type (items_of (fld schema ''enum''))) else []))"

definition primitiveToOptionsHTML :: "json \<Rightarrow> jstr \<Rightarrow> jstr" where
  "primitiveToOptionsHTML schema html =
    (if schema_options schema = [] then html
     else js ''<span class=\"propWrap\">'' @ html @ js ''<table class=\"optionsWrapper\"><tr><th colspan=\"2\">'' @
       to_str (option_type schema) @ js ''</th></tr>'' @ schema_options schema @ js ''</table></span>'')"

section \<open>Models\<close>

definition listed :: "json \<Rightarrow> bool" where
  "listed type \<longleftrightarrow> type = VStr (js ''array'') \<or> type = VStr (js ''object'')"

text \<open>An item of an array whose items are a list of schemas.\<close>

definition item_html :: "models \<Rightarrow> json \<Rightarrow> html_state \<Rightarrow> jserr + json \<times> html_state" where
  "item_html models item st = bindE (present_value item) (\<lambda>_.
    let type = orElse (fld item ''type'') (VStr (js ''object'')) in
    if fld item ''$ref'' = VUndef then
      (if listed type then
         (if type = VStr (js ''object'') \<and> fld item ''properties'' = VUndef then Inr (VStr (js ''object''), st)
          else addReference models item VUndef st)
       else Inr (VStr (primitiveToOptionsHTML item (to_str type)), st))
    else bindE (ref_name (fld item ''$ref'')) (\<lambda>n. addReference models item n st))"

definition in_div :: "jstr \<Rightarrow> jstr" where
  "in_div s = js ''<div>'' @ s @ js ''</div>''"

definition array_html :: "models \<Rightarrow> json \<Rightarrow> html_state \<Rightarrow> jserr + jstr \<times> html_state" where
  "array_html models schema st = (let items = fld schema ''items'' in
    case items of
      VArr vs \<Rightarrow> bindE (map_state (item_html models) vs st) (\<lambda>(hs, st).
        Inr (js ''<div>'' @ join_values '',</div><div>'' hs, st))
    | VObj m \<Rightarrow>
       (if fld items ''$ref'' = VUndef then
          (if listed (orElse (fld items ''type'') (VStr (js ''object''))) then
             (if (fld items ''type'' = VUndef \<or> fld items ''type'' = VStr (js ''object'')) \<and> fld items ''properties'' = VUndef
              then Inr (in_div (js ''object''), st)
              else bindE (addReference models items VUndef st) (\<lambda>(n, st). Inr (in_div (to_str n), st)))
           else Inr (in_div (primitiveToOptionsHTML items (to_str (fld items ''type''))), st))
        else bindE (ref_name (fld items ''$ref'')) (\<lambda>n.
          bindE (addReference models items n st) (\<lambda>(n, st). Inr (in_div (to_str n), st))))
    | _ \<Rightarrow> Inr (in_div (js ''object''), st))"

text \<open>
  The schema a property is shown by: the property itself, or the definition it refers to when
  that is neither an object nor an array.
\<close>

definition shown_schema :: "models \<Rightarrow> json \<Rightarrow> jserr + json" where
  "shown_schema models cProperty =
    (if fld cProperty ''$ref'' = VUndef then Inr cProperty
     else bindE (ref_name (fld cProperty ''$ref'')) (\<lambda>n.
       case map_of models (to_str n) of
         Some model \<Rightarrow>
           if fld (m_definition model) ''type'' \<noteq> VUndef \<and> \<not> listed (fld (m_definition model) ''type'')
           then Inr (resolveSchema (m_definition model)) else Inr cProperty
       | None \<Rightarrow> Inr cProperty))"

definition quote :: string where
  "quote = [CHR 0x27]"

definition enum_values_html :: "json \<Rightarrow> jserr + jstr" where
  "enum_values_html v =
    (if \<not> truthy v then Inr []
     else case v of
       VArr vs \<Rightarrow> Inr (js '' = <span class=\"propVals\">['' @ js quote @ join_values (quote @ '', '' @ quote) vs @ js quote @ js '']</span>'')
     | _ \<Rightarrow> Inl not_function)"

definition property_html ::
  "models \<Rightarrow> (json \<Rightarrow> json) \<Rightarrow> json list \<Rightarrow> jstr \<times> json \<Rightarrow> html_state \<Rightarrow> jserr + jstr \<times> html_state" where
  "property_html models macro required = (\<lambda>(name, property) st.
    bindE (with_default macro property) (\<lambda>c.
    let c = resolveSchema c;
        description = orElse (fld property ''description'') (fld c ''description'');
        isRequired = (VStr name \<in> set required); readOnly = truthy (fld property ''readOnly'')
    in bindE (shown_schema models c) (\<lambda>c.
       bindE (primitiveToHTML models c st) (\<lambda>(p, st).
       bindE (enum_values_html (fld c ''enum'')) (\<lambda>e.
       let html = js ''<span class=\"propName '' @ (if isRequired then js ''required'' else []) @ js ''\">'' @ name
           @ js ''</span> ('' @ p
           @ (if isRequired then [] else js '', <span class=\"propOptKey\">optional</span>'')
           @ (if readOnly then js '', <span class=\"propReadOnly\">read only</span>'' else []) @ js '')''
           @ (if description = VUndef then []
              else js '': <span class=\"propDesc\">'' @ to_str description @ js ''</span>'') @ e
       in Inr (js ''<div'' @ (if readOnly then js '' class=\"readOnly\"'' else []) @ js ''>''
            @ primitiveToOptionsHTML c html, st))))))"

definition processModel :: "models \<Rightarrow> (json \<Rightarrow> json) \<Rightarrow> json \<Rightarrow> json \<Rightarrow> html_state \<Rightarrow> jserr + jstr \<times> html_state" where
  "processModel models macro schema name st = bindE (present_value schema) (\<lambda>_.
    let type = orElse (fld schema ''type'') (VStr (js ''object''));
        isArray = (fld schema ''type'' = VStr (js ''array''));
        st = (if truthy name then st\<lparr>seenModels := seenModels st @ [name]\<rparr> else st)
    in bindE
      (if isArray then array_html models schema st
       else if truthy (fld schema ''$ref'') then
         bindE (addReference models schema name st) (\<lambda>(n, st). Inr (in_div (to_str n), st))
       else if type = VStr (js ''object'') then
         (case fld schema ''properties'' of
            VObj ps \<Rightarrow> bindE (map_state (property_html models macro (items_of (fld schema ''required''))) ps st) (\<lambda>(cs, st).
              let contents = join (js '',</div>'') cs
              in Inr (if contents = [] then [] else contents @ js ''</div>'', st))
          | _ \<Rightarrow> Inr ([], st))
       else Inr (in_div (primitiveToOptionsHTML schema (to_str type)), st))
      (\<lambda>(html, st). Inr (strongOpen @ to_str name @ js '' '' @ js (if isArray then ''['' else ''{'') @ strongClose
         @ html @ strongOpen @ js (if isArray then '']'' else ''}'') @ strongClose, st)))"

section \<open>The loop over the references\<close>

text \<open>One pass of \<open>_.forEach\<close>, over the keys there were when it began.\<close>

fun html_pass ::
  "models \<Rightarrow> (json \<Rightarrow> json) \<Rightarrow> jstr list \<Rightarrow> jstr \<Rightarrow> html_state \<Rightarrow> jserr + jstr \<times> html_state" where
  "html_pass models macro [] html st = Inr (html, st)"
| "html_pass models macro (name # names) html st =
    (let schema = lookup_field (references st) name; seenModel = (VStr name \<in> set (seenModels st));
         st = st\<lparr>references := delete_field (references st) name\<rparr>
     in if seenModel then html_pass models macro names html st
        else bindE (processModel models macro schema (VStr name) (st\<lparr>seenModels := seenModels st @ [VStr name]\<rparr>))
          (\<lambda>(h, st). html_pass models macro names (html @ js ''<br />'' @ h) st))"

partial_function (option) html_loop ::
  "models \<Rightarrow> (json \<Rightarrow> json) \<Rightarrow> jstr \<Rightarrow> html_state \<Rightarrow> (jserr + jstr) option" where
  "html_loop models macro html st =
    (if references st = [] then Some (Inr html)
     else case html_pass models macro (map fst (references st)) html st of
       Inl e \<Rightarrow> Some (Inl e)
     | Inr (html, st) \<Rightarrow> html_loop models macro html st)"

definition render ::
  "models \<Rightarrow> (json \<Rightarrow> json) \<Rightarrow> json \<Rightarrow> json \<Rightarrow> (jserr + jstr) option" where
  "render models macro schema name =
    (case processModel models macro schema name \<lparr>references = [], seenModels = [], inlineModels = 0\<rparr> of
       Inl e \<Rightarrow> Some (Inl e)
     | Inr (html, st) \<Rightarrow> html_loop models macro html st)"

text \<open>lodash's \<open>isEmpty\<close>.\<close>

fun is_empty :: "json \<Rightarrow> bool" where
  "is_empty (VObj m) = (m = [])"
| "is_empty (VArr vs) = (vs = [])"
| "is_empty (VStr s) = (s = [])"
| "is_empty (VForm m) = False"
| "is_empty v = True"

text \<open>
  A call with a name, which is not an object (the form without a name is the call with
  \<open>undefined\<close>); \<open>None\<close> is a call that does not return.
\<close>

definition schemaToHTML ::
  "json \<Rightarrow> json \<Rightarrow> models \<Rightarrow> (json \<Rightarrow> json) \<Rightarrow> (jserr + jstr) option" where
  "schemaToHTML name schema0 models macro =
    (if schema0 = VUndef \<or> schema0 = VNull then Some (Inl not_object)
     else
       let schema = resolveSchema schema0 in
       if is_empty schema then Some (Inr (strongOpen @ js ''Empty'' @ strongClose))
       else case fld schema ''$ref'' of
         VStr r \<Rightarrow>
           (let name = simpleRef (VStr r) in
            case map_of models (to_str name) of
              None \<Rightarrow> Some (Inr (strongOpen @ to_str name @ js '' is not defined!'' @ strongClose))
            | Some model \<Rightarrow> render models macro (m_definition model) name)
       | _ \<Rightarrow> render models macro
           (if truthy (fld schema ''definition'') then fld schema ''definition'' else schema)
           (if is_string name then name else orElse (fld schema ''title'') (VStr (js ''Inline Model''))))"

definition getMockSignature :: "models \<Rightarrow> (json \<Rightarrow> json) \<Rightarrow> model \<Rightarrow> (jserr + jstr) option" where
  "getMockSignature models macro this = schemaToHTML (m_name this) (m_definition this) models macro"

end
