(* ===== verification/SchemaTermination.thy ===== *)
theory SchemaTermination
  imports SchemaHtml
begin

text \<open>
  When the loop of \<open>schemaToHTML\<close> ends, and when it does not.  It ends because every name is
  described once: either the name of a model, of which there are finitely many, or that of an
  inline schema, which is a part of the one that refers to it.  What breaks this is a model of a
  primitive type with a nested schema.
\<close>

section \<open>What is left to do\<close>

text \<open>
  The references that do not name a model weigh as much as their schemas; \<open>grows M w\<close> holds of a
  step that forgets no model it has seen and adds at most \<open>w\<close>.
\<close>

definition ref_weight :: "jstr set \<Rightarrow> fields \<Rightarrow> nat" where
  "ref_weight M refs = sum_list (map (\<lambda>(k, d). if k \<in> M then 0 else schema_weight d) refs)"

definition grows :: "jstr set \<Rightarrow> nat \<Rightarrow> html_state \<Rightarrow> html_state \<Rightarrow> bool" where
  "grows M w st st' \<longleftrightarrow> set (seenModels st) \<subseteq> set (seenModels st') \<and>
     ref_weight M (references st') \<le> ref_weight M (references st) + w"

lemma grows_refl [simp]: "grows M w st st"
  by (simp add: grows_def)

lemma grows_trans: "grows M v st st1 \<Longrightarrow> grows M w st1 st2 \<Longrightarrow> grows M (v + w) st st2"
  by (auto simp: grows_def)

lemma grows_mono: "grows M v st st' \<Longrightarrow> v \<le> w \<Longrightarrow> grows M w st st'"
  by (auto simp: grows_def)

lemma ref_weight_set:
  "ref_weight M (set_field refs k d) \<le> ref_weight M refs + (if k \<in> M then 0 else schema_weight d)"
  by (induction refs) (auto simp: ref_weight_def)

lemma ref_weight_delete_le: "ref_weight M (delete_field refs k) \<le> ref_weight M refs"
  by (induction refs) (auto simp: ref_weight_def)

lemma ref_weight_delete:
  assumes "lookup_field refs k \<noteq> VUndef" "k \<notin> M"
  shows "ref_weight M (delete_field refs k) + schema_weight (lookup_field refs k) \<le> ref_weight M refs"
  using assms
proof (induction refs)
  case (Cons p refs)
  then show ?case using ref_weight_delete_le [of M k refs] by (cases p) (auto simp: ref_weight_def)
qed simp

lemma grows_set:
  "(if k \<in> M then 0 else schema_weight d) \<le> w \<Longrightarrow>
     grows M w st (st\<lparr>references := set_field (references st) k d\<rparr>)"
  using ref_weight_set [of M k d "references st"] by (simp add: grows_def)

lemma map_state_grows:
  assumes "\<And>x st y st'. x \<in> set xs \<Longrightarrow> f x st = Inr (y, st') \<Longrightarrow> grows M (w x) st st'"
    and "map_state f xs st = Inr (ys, st')"
  shows "grows M (sum_list (map w xs)) st st'"
  using assms
proof (induction xs arbitrary: st ys)
  case (Cons x xs)
  from Cons.prems(2) obtain y st1 zs where x: "f x st = Inr (y, st1)" "map_state f xs st1 = Inr (zs, st')"
    by (auto simp: bindE_eq_Inr)
  have "grows M (w x) st st1" using Cons.prems(1) x(1) by simp
  moreover have "grows M (sum_list (map w xs)) st1 st'" using Cons.IH [OF _ x(2)] Cons.prems(1) by simp
  ultimately show ?case using grows_trans by simp
qed simp

section \<open>The steps\<close>

abbreviation names :: "models \<Rightarrow> jstr set" where
  "names models \<equiv> fst ` set models"

lemma names_map_of: "map_of models k = Some m \<Longrightarrow> k \<in> names models"
  by (force dest: map_of_SomeD)

lemma names_None: "k \<notin> names models \<Longrightarrow> map_of models k = None"
  by (simp add: map_of_eq_None_iff)

lemma addReference_grows:
  assumes "addReference models schema name st = Inr (n, st')"
  shows "grows (names models) (if truthy (fld schema ''$ref'') \<or> name \<noteq> VUndef then 1 else schema_weight schema) st st'"
proof -
  have inline: "grows M w st (st\<lparr>references := r, inlineModels := i\<rparr>) = grows M w st (st\<lparr>references := r\<rparr>)" for M w i r
    by (simp add: grows_def)
  have flip: "st\<lparr>inlineModels := i, references := r\<rparr> = st\<lparr>references := r, inlineModels := i\<rparr>" for i r
    by simp
  show ?thesis
    using assms
    by (auto simp: addReference_def bindE_eq_Inr Let_def inline flip names_None intro!: grows_set split: if_splits)
qed

lemma sum_list_one: "(\<And>x. x \<in> set xs \<Longrightarrow> 1 \<le> f x) \<Longrightarrow> length xs \<le> sum_list (map f xs :: nat list)"
  by (induction xs) fastforce+

lemma items_weights: "fld s ''items'' = VArr vs \<Longrightarrow> sum_list (map schema_weight vs) < schema_weight s"
  using field_weight [of "''items''" s] by simp

lemma weight_ge_1: "1 \<le> schema_weight v" "Suc 0 \<le> schema_weight v"
  using weight_pos(1) [of v] by simp_all

lemma map_add_item_grows:
  assumes "map_state (add_item models) (enumerate i vs) st = Inr (ns, st')"
  shows "grows (names models) (length vs) st st'"
proof -
  have "grows (names models) (sum_list (map (\<lambda>_. 1) (enumerate i vs))) st st'"
    by (rule map_state_grows [OF _ assms]) (auto simp: add_item_def dest!: addReference_grows split: if_splits)
  then show ?thesis by (simp add: sum_list_triv)
qed

lemma addReference_grows_named:
  "addReference models schema n st = Inr (m, st') \<Longrightarrow> truthy (fld schema ''$ref'') \<or> n \<noteq> VUndef \<Longrightarrow> grows (names models) 1 st st'"
  by (drule addReference_grows) (auto split: if_splits)

lemma addReference_grows_any: "addReference models schema n st = Inr (m, st') \<Longrightarrow> grows (names models) (schema_weight schema) st st'"
  by (drule addReference_grows) (auto split: if_splits intro: grows_mono [OF _ weight_ge_1(2)])

lemma ref_name_defined: "ref_name r = Inr n \<Longrightarrow> n \<noteq> VUndef"
  by (auto simp: ref_name_def bindE_eq_Inr simpleRef_def split: if_splits)

lemma primitiveToHTML_grows:
  assumes "primitiveToHTML models schema st = Inr (h, st')"
  shows "grows (names models)
    (if listed (orElse (fld schema ''type'') (VStr (js ''object''))) then schema_weight schema else 1) st st'"
proof -
  have vs: "grows (names models) (schema_weight schema) st st'"
    if "fld schema ''items'' = VArr vs" "map_state (add_item models) (enumerate 0 vs) st = Inr (ns, st')" for vs ns
    using map_add_item_grows [OF that(2)] items_weights [OF that(1)] sum_list_one [of vs schema_weight] weight_ge_1
    by (meson grows_mono le_trans less_imp_le)
  have m: "grows (names models) (schema_weight schema) st st'"
    if "fld schema ''items'' = VObj m" "addReference models (VObj m) n st = Inr (n', st')" for m n n'
    using addReference_grows_any [OF that(2)] items_weight [OF that(1)] by (meson grows_mono less_imp_le)
  have any: "grows (names models) w st st'" if "truthy (fld schema ''$ref'')" "addReference models schema n st = Inr (n', st')" "1 \<le> w" for n n' w
    using addReference_grows_named [OF that(2)] that(1,3) grows_mono by blast
  show ?thesis
    using assms vs m any [OF _ _ weight_ge_1(1)] any [of _ _ 1] addReference_grows_any
    by (auto simp: primitiveToHTML_def bindE_eq_Inr Let_def listed_def split: if_splits json.splits)
qed

text \<open>
  What the models must be like: a model whose type makes it a primitive, for which a property
  that refers to it is shown by the model's own schema, has no nested schema; nor is its type
  one of the values \<open>||\<close> takes for none.
\<close>

definition flat :: "json \<Rightarrow> bool" where
  "flat d \<longleftrightarrow> fld d ''type'' = VUndef \<or> listed (fld d ''type'') \<or>
     truthy (fld d ''type'') \<and> resolveSchema d = d"

definition flat_models :: "models \<Rightarrow> bool" where
  "flat_models models = list_all (\<lambda>(k, m). flat (m_definition m)) models"

lemma flat_models_map_of: "flat_models models \<Longrightarrow> map_of models k = Some m \<Longrightarrow> flat (m_definition m)"
  by (auto simp: flat_models_def list_all_iff dest: map_of_SomeD)

lemma property_html_grows:
  assumes "property_html models macro required (name, property) st = Inr (h, st')" "flat_models models"
  shows "grows (names models) (schema_weight property) st st'"
proof -
  from assms(1) obtain c s p where c: "with_default macro property = Inr c"
    and s: "shown_schema models (resolveSchema c) = Inr s"
    and p: "primitiveToHTML models s st = Inr (p, st')"
    by (auto simp: property_html_def bindE_eq_Inr Let_def)
  have w: "schema_weight (resolveSchema c) \<le> schema_weight property"
    using resolveSchema_weight [of c] with_default_weight [OF c] by simp
  from s consider "s = resolveSchema c" | m k where "map_of models k = Some m" "s = resolveSchema (m_definition m)"
      "fld (m_definition m) ''type'' \<noteq> VUndef" "\<not> listed (fld (m_definition m) ''type'')"
    by (auto simp: shown_schema_def bindE_eq_Inr split: if_splits option.splits)
  then show ?thesis
  proof cases
    case 1
    have "grows (names models) (schema_weight s) st st'"
      using primitiveToHTML_grows [OF p] weight_ge_1(1) [of s] by (auto split: if_splits intro: grows_mono)
    then show ?thesis using 1 w grows_mono by blast
  next
    case 2
    then have "flat (m_definition m)" using assms(2) flat_models_map_of by blast
    then have "grows (names models) 1 st st'"
      using primitiveToHTML_grows [OF p] 2 by (auto simp: flat_def orElse_def)
    then show ?thesis using weight_ge_1(1) grows_mono by blast
  qed
qed

lemma item_html_grows:
  "item_html models item st = Inr (h, st') \<Longrightarrow> grows (names models) (schema_weight item) st st'"
  by (auto simp: item_html_def bindE_eq_Inr Let_def dest: addReference_grows_any split: if_splits)

lemma array_html_grows:
  assumes "array_html models schema st = Inr (h, st')"
  shows "grows (names models) (schema_weight schema - 1) st st'"
proof (cases "fld schema ''items''")
  case (VArr vs)
  then obtain hs where "map_state (item_html models) vs st = Inr (hs, st')"
    using assms by (auto simp: array_html_def bindE_eq_Inr)
  then have "grows (names models) (sum_list (map schema_weight vs)) st st'"
    using item_html_grows by (rule map_state_grows [rotated])
  then show ?thesis using items_weights [OF VArr] grows_mono by fastforce
next
  case (VObj m)
  have "grows (names models) (schema_weight (VObj m)) st st'"
    using assms VObj by (auto simp: array_html_def bindE_eq_Inr Let_def simp del: get.simps schema_weight.simps
        dest!: addReference_grows_any split: if_splits)
  then show ?thesis using items_weight [OF VObj] grows_mono by fastforce
qed (use assms in \<open>auto simp: array_html_def\<close>)

lemma properties_weights:
  "fld s ''properties'' = VObj ps \<Longrightarrow> sum_list (map (\<lambda>(k, v). schema_weight v) ps) < schema_weight s"
  using field_weight [of "''properties''" s] by simp

lemma ref_weight_2: "truthy (fld s ''$ref'') \<Longrightarrow> 1 \<le> schema_weight s - 1"
  using field_weight [of "''$ref''" s] weight_pos [of "fld s ''$ref''"] by (cases "fld s ''$ref'' = VUndef") auto

lemma object_html_grows:
  assumes "map_state (property_html models macro required) ps st = Inr (hs, st')" "flat_models models"
    and "fld schema ''properties'' = VObj ps"
  shows "grows (names models) (schema_weight schema - 1) st st'"
proof -
  have "grows (names models) (sum_list (map (\<lambda>(k, v). schema_weight v) ps)) st st'"
    using property_html_grows [OF _ assms(2)] by (intro map_state_grows [OF _ assms(1)]) auto
  then show ?thesis using properties_weights [OF assms(3)] grows_mono by fastforce
qed

lemma grows_seen: "grows M w (st\<lparr>seenModels := seenModels st @ ns\<rparr>) st' \<Longrightarrow> grows M w st st'"
  by (simp add: grows_def)

lemma processModel_grows:
  assumes "processModel models macro schema name st = Inr (h, st')" "flat_models models"
  shows "grows (names models) (schema_weight schema - 1) st st'"
proof -
  define st1 where "st1 = (if truthy name then st\<lparr>seenModels := seenModels st @ [name]\<rparr> else st)"
  have reference: "grows (names models) (schema_weight schema - 1) st1 st'"
    if "truthy (fld schema ''$ref'')" "addReference models schema name st1 = Inr (n, st')" for n
    using addReference_grows_named [OF that(2)] ref_weight_2 [OF that(1)] that(1) grows_mono by blast
  have "grows (names models) (schema_weight schema - 1) st1 st'"
    using assms(1) reference
    by (auto simp: processModel_def bindE_eq_Inr Let_def simp flip: st1_def
        intro: array_html_grows object_html_grows [OF _ assms(2)] grows_mono split: if_splits json.splits)
  then show ?thesis unfolding st1_def by (auto split: if_splits intro: grows_seen)
qed

section \<open>The loop\<close>

text \<open>The models still to be described.\<close>

definition unseen :: "models \<Rightarrow> html_state \<Rightarrow> nat" where
  "unseen models st = card {k \<in> names models. VStr k \<notin> set (seenModels st)}"

lemma unseen_mono: "set (seenModels st) \<subseteq> set (seenModels st') \<Longrightarrow> unseen models st' \<le> unseen models st"
  by (auto simp: unseen_def intro!: card_mono)

lemma unseen_less:
  "set (seenModels st) \<subseteq> set (seenModels st') \<Longrightarrow> k \<in> names models \<Longrightarrow> VStr k \<notin> set (seenModels st) \<Longrightarrow>
     VStr k \<in> set (seenModels st') \<Longrightarrow> unseen models st' < unseen models st"
  by (auto simp: unseen_def intro!: psubset_card_mono)

abbreviation left :: "models \<Rightarrow> html_state \<Rightarrow> nat \<times> nat" where
  "left models st \<equiv> (unseen models st, ref_weight (names models) (references st))"

abbreviation lexless :: "((nat \<times> nat) \<times> (nat \<times> nat)) set" where
  "lexless \<equiv> less_than <*lex*> less_than"

text \<open>A pass leaves less to do, or else drops the references it visits.\<close>

lemma html_pass_progress:
  assumes "html_pass models macro ks html st = Inr (html', st')" "flat_models models"
  shows "(left models st', left models st) \<in> lexless \<or>
    references st' = fold (\<lambda>k refs. delete_field refs k) ks (references st) \<and> set (seenModels st) \<subseteq> set (seenModels st')"
  using assms(1)
proof (induction ks arbitrary: html st)
  case (Cons k ks)
  define st1 where "st1 = st\<lparr>references := delete_field (references st) k\<rparr>"
  have le: "unseen models st1 = unseen models st"
    "ref_weight (names models) (references st1) \<le> ref_weight (names models) (references st)"
    by (simp_all add: st1_def unseen_def ref_weight_delete_le)
  show ?case
  proof (cases "VStr k \<in> set (seenModels st)")
    case True
    then have "html_pass models macro ks html st1 = Inr (html', st')" using Cons.prems by (simp add: st1_def Let_def)
    from Cons.IH [OF this] le show ?thesis by (auto simp: st1_def)
  next
    case False
    then obtain h st2 where p: "processModel models macro (lookup_field (references st) k) (VStr k)
        (st1\<lparr>seenModels := seenModels st @ [VStr k]\<rparr>) = Inr (h, st2)"
      and rest: "html_pass models macro ks (html @ js ''<br />'' @ h) st2 = Inr (html', st')"
      using Cons.prems by (auto simp: st1_def Let_def bindE_eq_Inr)
    have d: "lookup_field (references st) k \<noteq> VUndef"
      using p by (auto simp: processModel_def present_value_def)
    have g: "set (seenModels st) \<subseteq> set (seenModels st2)" "VStr k \<in> set (seenModels st2)"
      "ref_weight (names models) (references st2) \<le> ref_weight (names models) (references st1) +
        (schema_weight (lookup_field (references st) k) - 1)"
      using processModel_grows [OF p assms(2)] by (auto simp: grows_def)
    have "(left models st2, left models st) \<in> lexless"
    proof (cases "k \<in> names models")
      case True
      then show ?thesis using unseen_less [OF g(1) True False g(2)] by simp
    next
      case new: False
      have "ref_weight (names models) (references st2) < ref_weight (names models) (references st)"
        using g(3) ref_weight_delete [OF d new] weight_pos(1) [of "lookup_field (references st) k"] by (simp add: st1_def)
      then show ?thesis using unseen_mono [OF g(1), of models] by auto
    qed
    moreover have "(left models st', left models st2) \<in> lexless \<or> left models st' = left models st2 \<or>
        unseen models st' \<le> unseen models st2 \<and>
        ref_weight (names models) (references st') \<le> ref_weight (names models) (references st2)"
    proof -
      have fold: "ref_weight M (fold (\<lambda>k refs. delete_field refs k) ks refs) \<le> ref_weight M refs" for M refs
        by (induction ks arbitrary: refs) (auto intro: order_trans ref_weight_delete_le)
      show ?thesis using Cons.IH [OF rest] fold [of "names models" "references st2"] unseen_mono by auto
    qed
    ultimately show ?thesis by auto
  qed
qed simp

lemma fold_delete_all: "fst ` set refs \<subseteq> set ks \<Longrightarrow> fold (\<lambda>k refs. delete_field refs k) ks refs = []"
proof (induction ks arbitrary: refs)
  case (Cons k ks)
  have "fst ` set (delete_field refs k) \<subseteq> set ks" using Cons.prems by (auto simp: AList.delete_eq)
  then show ?case using Cons.IH by simp
qed simp

lemma wf_left: "wf (inv_image lexless (left models))"
  by auto

lemma html_loop_ends: "flat_models models \<Longrightarrow> html_loop models macro html st \<noteq> None"
proof (induction st arbitrary: html rule: wf_induct_rule [OF wf_left [of models]])
  case (1 st)
  show ?case
  proof (cases "references st = [] \<or> (\<exists>e. html_pass models macro (map fst (references st)) html st = Inl e)")
    case True
    then show ?thesis by (subst html_loop.simps) auto
  next
    case False
    then obtain html' st' where p: "html_pass models macro (map fst (references st)) html st = Inr (html', st')"
      by (metis sum.exhaust_sel surj_pair)
    have "html_loop models macro html' st' \<noteq> None"
    proof (cases "references st' = []")
      case True
      then show ?thesis by (subst html_loop.simps) simp
    next
      case more: False
      then have "(left models st', left models st) \<in> lexless"
        using html_pass_progress [OF p 1(2)] fold_delete_all [of "references st" "map fst (references st)"] by simp
      then have "(st', st) \<in> inv_image lexless (left models)" by (simp only: in_inv_image)
      from "1.IH" [OF this "1.prems"] show ?thesis .
    qed
    then show ?thesis using p False by (subst html_loop.simps) simp
  qed
qed

lemma render_ends: "flat_models models \<Longrightarrow> render models macro schema name \<noteq> None"
  by (auto simp: render_def dest: html_loop_ends split: sum.splits)

text \<open>
  C21. The description of a schema is finished, or ends with an exception, whatever the models
  refer to, provided no model of a primitive type has a schema nested in it.\<close>

theorem html_ends:
  assumes "flat_models models"
  shows "\<exists>result. schemaToHTML name schema models macro = Some result"
proof -
  have "\<exists>result. render models macro s n = Some result" for s n using render_ends [OF assms] by blast
  then show ?thesis by (auto simp: schemaToHTML_def Let_def split: json.splits option.splits)
qed

section \<open>A description that does not end\<close>

text \<open>
  The model \<open>A\<close> is a string with a nested schema, an object whose property \<open>x\<close> is an \<open>A\<close>.  To
  describe the property the nested schema is entered in the references as one more inline model,
  whose description enters the next.
\<close>

definition loop_schema :: json where
  "loop_schema = VObj [(js ''type'', VStr (js ''object'')),
     (js ''properties'', VObj [(js ''x'', VObj [(js ''$ref'', VStr (js ''A''))])])]"

definition loop_model :: model where
  "loop_model = Model (VStr (js ''A'')) (VObj [(js ''type'', VStr (js ''string'')), (js ''schema'', loop_schema)])"

definition loop_models :: models where
  "loop_models = [(js ''A'', loop_model)]"

definition inline_name :: "nat \<Rightarrow> jstr" where
  "inline_name n = js ''Inline Model '' @ nat_digits n"

lemma inline_name_eq [simp]: "inline_name m = inline_name n \<longleftrightarrow> m = n"
  using digits_value_digits by (auto simp: inline_name_def) metis

text \<open>What the loop finds each time: one inline model, later than all that were described.\<close>

definition looping :: "html_state \<Rightarrow> bool" where
  "looping st \<longleftrightarrow> references st = [(inline_name (inlineModels st), loop_schema)] \<and>
     (\<forall>n. VStr (inline_name n) \<in> set (seenModels st) \<longrightarrow> n < inlineModels st)"

lemma plain_A: "\<not> starts_with definitions_prefix (js ''A'')"
  by code_simp

lemma loop_step:
  "processModel loop_models no_default loop_schema (VStr name) st = Inr (h, st') \<Longrightarrow> references st = [] \<Longrightarrow>
     references st' = [(inline_name (Suc (inlineModels st)), loop_schema)] \<and> inlineModels st' = Suc (inlineModels st) \<and>
     set (seenModels st') \<subseteq> insert (VStr name) (set (seenModels st))"
  by (auto simp: processModel_def loop_schema_def loop_models_def loop_model_def Model_def no_default_def
      present_value_def property_html_def with_default_def shown_schema_def ref_name_def as_string_def
      simpleRef_def primitiveToHTML_def addReference_def enum_values_html_def listed_def orElse_def Let_def
      resolveSchema.simps inline_name_def plain_A bindE_eq_Inr split: if_splits)

lemma loop_total: "\<exists>h st'. processModel loop_models no_default loop_schema (VStr name) st = Inr (h, st')"
  by (simp add: processModel_def loop_schema_def loop_models_def loop_model_def Model_def no_default_def
      present_value_def property_html_def with_default_def shown_schema_def ref_name_def as_string_def
      simpleRef_def primitiveToHTML_def addReference_def enum_values_html_def listed_def orElse_def Let_def
      resolveSchema.simps plain_A)

definition spins :: "models \<Rightarrow> (json \<Rightarrow> json) \<Rightarrow> jstr \<Rightarrow> html_state \<Rightarrow> jserr + jstr \<Rightarrow> bool" where
  "spins models macro html st r \<longleftrightarrow> models = loop_models \<and> macro = no_default \<longrightarrow> \<not> looping st"

lemma looping_no_result: "html_loop models macro html st = Some r \<Longrightarrow> spins models macro html st r"
proof (rule html_loop.raw_induct [of spins], goal_cases)
  case (1 f models macro html st r)
  have False if eq: "models = loop_models" "macro = no_default" and l: "looping st"
  proof -
    let ?n = "inlineModels st"
    let ?st = "st\<lparr>references := [], seenModels := seenModels st @ [VStr (inline_name ?n)]\<rparr>"
    from l have refs: "references st = [(inline_name ?n, loop_schema)]" and new: "VStr (inline_name ?n) \<notin> set (seenModels st)"
      by (auto simp: looping_def)
    obtain h st' where p: "processModel loop_models no_default loop_schema (VStr (inline_name ?n)) ?st = Inr (h, st')"
      using loop_total by blast
    have "looping st'" using loop_step [OF p] l by (auto simp: looping_def less_Suc_eq)
    moreover have "f loop_models no_default (html @ js ''<br />'' @ h) st' = Some r"
      using 1(3) refs new p unfolding eq by (simp add: Let_def)
    ultimately show False using 1(2) unfolding spins_def by blast
  qed
  then show ?case unfolding spins_def by blast
qed

lemma inline_name_not_A: "inline_name n \<noteq> js ''A''"
  by (simp add: inline_name_def js_def)

text \<open>The signature of \<open>A\<close> is never finished.\<close>

theorem html_diverges: "getMockSignature loop_models no_default loop_model = None"
proof -
  let ?st = "\<lparr>references = [], seenModels = [], inlineModels = 0\<rparr>"
  obtain h st' where p: "processModel loop_models no_default loop_schema (VStr (js ''A'')) ?st = Inr (h, st')"
    using loop_total by blast
  have "looping st'" using loop_step [OF p] inline_name_not_A by (auto simp: looping_def)
  then have "html_loop loop_models no_default h st' = None"
    using looping_no_result [of loop_models no_default h st']
    by (cases "html_loop loop_models no_default h st'") (auto simp: spins_def)
  then have "render loop_models no_default loop_schema (VStr (js ''A'')) = None"
    using p by (simp add: render_def)
  then show ?thesis
    by (simp add: getMockSignature_def schemaToHTML_def loop_model_def Model_def resolveSchema.simps loop_schema_def orElse_def Let_def)
qed

theorem html_ends_witness: "\<exists>result. schemaToHTML VUndef (VObj [(js ''$ref'', VStr (js ''A''))]) ring_models no_default = Some result"
proof -
  have "flat_models ring_models" by (simp add: ring_models_def flat_models_def flat_def Model_def orElse_def)
  then show ?thesis by (rule html_ends)
qed

end
