(* ===== verification/SwaggerClient.thy ===== *)
theory SwaggerClient
  imports SwaggerTypes
begin

text \<open>
  \<open>lib/client.js\<close> and \<open>lib/types/operationGroup.js\<close>: the client that is built from a
  specification.  Its operations are shared by the groups, the client and the list the page
  shows, so they are kept in a list and referred to by their position; so are the groups, which
  the client and its \<open>apis\<close> share.  The other properties of the client are an object.
\<close>

section \<open>The client\<close>

record client_operation =
  co_object :: operation_object
  co_vendorExtensions :: json
  co_externalDocs :: json

text \<open>What the client has under the name of a tag; \<open>g_calls\<close> are the functions it offers.\<close>

record group =
  g_label :: jstr
  g_operations :: "(jstr \<times> nat) list"
  g_apis :: "(jstr \<times> nat) list"
  g_calls :: "(jstr \<times> nat) list"
  g_description :: json
  g_externalDocs :: json
  g_vendorExtensions :: json

record operation_group =
  og_tag :: json
  og_description :: json
  og_externalDocs :: json
  og_operation :: nat
  og_operationsArray :: "nat list"

record client =
  c_fields :: fields
  c_authz :: authz
  c_models :: models
  c_ops :: "client_operation list"
  c_heap :: "group list"
  c_groups :: "(jstr \<times> nat) list"
  c_apis :: "(jstr \<times> nat) list"
  c_apisArray :: "operation_group list"
  c_modelsArray :: "json list"

definition OperationGroup :: "json \<Rightarrow> json \<Rightarrow> json \<Rightarrow> nat \<Rightarrow> operation_group" where
  "OperationGroup tag description externalDocs operation =
    \<lparr>og_tag = tag, og_description = description, og_externalDocs = externalDocs, og_operation = operation,
     og_operationsArray = []\<rparr>"

definition reservedClientTags :: "jstr list" where
  "reservedClientTags = map js [''apis'', ''authorizationScheme'', ''authorizations'', ''basePath'', ''build'',
     ''buildFrom1_1Spec'', ''buildFrom1_2Spec'', ''buildFromSpec'', ''clientAuthorizations'', ''convertInfo'',
     ''debug'', ''defaultErrorCallback'', ''defaultSuccessCallback'', ''enableCookies'', ''fail'', ''failure'',
     ''finish'', ''help'', ''host'', ''idFromOp'', ''info'', ''initialize'', ''isBuilt'', ''isValid'',
     ''modelPropertyMacro'', ''models'', ''modelsArray'', ''options'', ''parameterMacro'', ''parseUri'',
     ''progress'', ''resourceCount'', ''sampleModels'', ''selfReflect'', ''setConsolidatedModels'', ''spec'',
     ''supportedSubmitMethods'', ''swaggerRequestHeaders'', ''tagFromLabel'', ''title'', ''url'', ''useJQuery'',
     ''jqueryAjaxCache'']"

definition reservedApiTags :: "jstr list" where
  "reservedApiTags = map js [''apis'', ''asCurl'', ''description'', ''externalDocs'', ''help'', ''label'', ''name'',
     ''operation'', ''operations'', ''operationsArray'', ''path'', ''tag'']"

definition supportedOperationMethods :: "jstr list" where
  "supportedOperationMethods = map js [''delete'', ''get'', ''head'', ''options'', ''patch'', ''post'', ''put'']"

text \<open>The methods of the client, and what every object has.\<close>

definition inherited :: "jstr list" where
  "inherited = map js [''initialize'', ''build'', ''buildFromSpec'', ''makeUniqueOperationId'', ''parseUri'',
     ''help'', ''tagFromLabel'', ''idFromOp'', ''setHost'', ''setBasePath'', ''setSchemes'', ''fail'',
     ''constructor'', ''toString'', ''toLocaleString'', ''valueOf'', ''hasOwnProperty'', ''isPrototypeOf'',
     ''propertyIsEnumerable'', ''__proto__'', ''__defineGetter__'', ''__defineSetter__'', ''__lookupGetter__'',
     ''__lookupSetter__'']"

definition defined_on :: "client \<Rightarrow> jstr \<Rightarrow> bool" where
  "defined_on c k \<longleftrightarrow> lookup_field (c_fields c) k \<noteq> VUndef \<or> k \<in> set inherited"

definition assign :: "(string \<times> json) list \<Rightarrow> fields \<Rightarrow> fields" where
  "assign kvs m = foldl (\<lambda>m (k, v). set_field m (js k) v) m kvs"

text \<open>A property may be set on objects only; the module is strict.\<close>

definition settable :: "json \<Rightarrow> jserr + json" where
  "settable v =
    (if v = VUndef \<or> v = VNull then Inl not_object
     else if is_object v then Inr v else Inl (TypeError ''Cannot create property on a primitive''))"

section \<open>Construction\<close>

text \<open>
  The list of APIs is empty and \<open>apisArray\<close> stands for it among the properties; a function is known by
  a number: 1 throws its argument, 2 does nothing.
\<close>

definition new_client :: client where
  "new_client = \<lparr>c_fields = assign [(''authorizations'', VNull), (''authorizationScheme'', VNull), (''basePath'', VNull),
       (''debug'', VBool False), (''enableCookies'', VBool False), (''info'', VNull), (''isBuilt'', VBool False),
       (''isValid'', VBool False), (''resourceCount'', VNum 0), (''url'', VNull), (''useJQuery'', VBool False),
       (''jqueryAjaxCache'', VBool False), (''swaggerObject'', VObj []), (''deferredClient'', VUndef)] [],
     c_authz = [], c_models = [], c_ops = [], c_heap = [], c_groups = [], c_apis = [], c_apisArray = [], c_modelsArray = []\<rparr>"

text \<open>An address without a protocol is one of the page's server.\<close>

definition absolute_url :: "jstr option \<Rightarrow> json \<Rightarrow> jserr + json" where
  "absolute_url origin url =
    (if \<not> truthy url then Inr url
     else bindE (as_string url) (\<lambda>s. Inr
       (if \<not> has_infix (js ''http:'') s \<and> \<not> has_infix (js ''https:'') s
        then case origin of Some page \<Rightarrow> VStr (page @ s) | None \<Rightarrow> VStr s
        else VStr s)))"

text \<open>The fields the options set; of \<open>deferredClient\<close> only that it is an object.\<close>

definition option_fields :: "json \<Rightarrow> (string \<times> json) list" where
  "option_fields options =
    (let or_null = (\<lambda>k. (k, orElse (fld options k) VNull)); timeout = orElse (fld options ''timeout'') VNull;
         fetchSpecTimeout = (if fld options ''fetchSpecTimeout'' \<noteq> VUndef then fld options ''fetchSpecTimeout'' else timeout);
         if_set = (\<lambda>k. if truthy (fld options k) then [(k, fld options k)] else [])
     in [(''swaggerRequestHeaders'', orElse (fld options ''swaggerRequestHeaders'') (VStr (js ''application/json;charset=utf-8,*/*''))),
         or_null ''defaultSuccessCallback'', or_null ''defaultErrorCallback'', or_null ''modelPropertyMacro'',
         or_null ''connectionAgent'', or_null ''parameterMacro'', or_null ''usePromise'',
         (''timeout'', timeout), (''fetchSpecTimeout'', fetchSpecTimeout)]
       @ (if truthy (fld options ''usePromise'') then [(''deferredClient'', VObj [])] else [])
       @ (if is_fun (fld options ''success'') then [(''success'', fld options ''success'')] else [])
       @ if_set ''useJQuery'' @ if_set ''jqueryAjaxCache'' @ if_set ''enableCookies''
       @ [(''options'', put (put options (js ''timeout'') timeout) (js ''fetchSpecTimeout'') fetchSpecTimeout),
          (''supportedSubmitMethods'', orElse (fld options ''supportedSubmitMethods'') (VArr [])),
          (''failure'', orElse (fld options ''failure'') (VFun 1)), (''progress'', orElse (fld options ''progress'') (VFun 2)),
          (''spec'', fld options ''spec'')]
       @ if_set ''scheme'')"

text \<open>
  \<open>initialize(url, options)\<close>: the address may come first or in the options, and the client is
  built at once if the options have a callback or ask for a promise.
\<close>

definition initialize :: "jstr option \<Rightarrow> json \<Rightarrow> json \<Rightarrow> authz option \<Rightarrow> client \<Rightarrow> jserr + client \<times> bool" where
  "initialize origin url options0 auths this =
    (let (url, options) = (case url of VStr s \<Rightarrow> (url, options0)
         | _ \<Rightarrow> if is_object url then (fld url ''url'', url) else (lookup_field (c_fields this) (js ''url''), options0))
     in bindE (absolute_url origin url) (\<lambda>url.
       let options = orElse options (VObj []);
           ready = truthy (fld options ''usePromise'') \<or> is_fun (fld options ''success'');
           fields = assign ((''sampleModels'', VObj []) # (''url'', url) # option_fields options
             @ (if ready then [(''ready'', VBool True)] else [])) (c_fields this)
       in Inr (this\<lparr>c_fields := fields, c_models := [],
                 c_authz := (case auths of Some z \<Rightarrow> authorizations_add (c_authz this) (AuthObject z) | None \<Rightarrow> c_authz this)\<rparr>,
               ready)))"

section \<open>Loading the specification\<close>

text \<open>\<open>parseInt(s)\<close>, as far as it tells which version a specification has; after \<open>0x\<close>, base 16.\<close>

definition parse_int :: "jstr \<Rightarrow> jnum" where
  "parse_int s =
    (let t = dropWhile is_space s; neg = starts_with (js ''-'') t;
         t = (if neg \<or> starts_with (js ''+'') t then tl t else t); digits = takeWhile is_digit t
     in if starts_with (js ''0x'') t \<or> starts_with (js ''0X'') t then parseInt16 s
        else if digits = [] then NaN
        else JInt (if neg then - int (digits_value digits) else int (digits_value digits)))"

datatype loaded = Failed jstr | ResolveSpec json | ConvertSpec json

text \<open>
  What the answer to the request for the specification leads to: a failure, the resolver on a
  specification of version 2, or the converter on an older one.
\<close>

definition on_response :: "json \<Rightarrow> client \<Rightarrow> loaded \<times> client" where
  "on_response responseObj this =
    (if \<not> truthy responseObj then (Failed (js ''failed to parse JSON/YAML response''), this)
     else let version = fld responseObj ''swagger'';
              fields = assign [(''swaggerVersion'', fld responseObj ''swaggerVersion''), (''swaggerObject'', responseObj)] (c_fields this)
       in if truthy version \<and> parse_int (to_str version) = JInt 2
          then (ResolveSpec responseObj, this\<lparr>c_fields := assign [(''swaggerVersion'', version), (''isValid'', VBool True)] fields\<rparr>)
          else (ConvertSpec responseObj, this\<lparr>c_fields := assign [(''oldSwaggerObject'', responseObj)] fields\<rparr>))"

text \<open>
  The message of a failed request; \<open>errObj\<close> has the code and the message of the transport's exception, if
  there was one.
\<close>

definition timed_out :: "(json \<times> jstr) option \<Rightarrow> bool" where
  "timed_out errObj \<longleftrightarrow> (case errObj of
      Some (code', message) \<Rightarrow> code' = VStr (js ''ECONNABORTED'') \<or> has_infix (js ''timeout'') message
    | None \<Rightarrow> False)"

definition on_error :: "json \<Rightarrow> json \<Rightarrow> (json \<times> jstr) option \<Rightarrow> client \<Rightarrow> jserr + jstr" where
  "on_error status statusText errObj this = bindE (as_string (lookup_field (c_fields this) (js ''url''))) (\<lambda>url. Inr
    (if take 4 url \<noteq> js ''http'' then js ''Please specify the protocol for '' @ url
     else if timed_out errObj
       then js ''Request timed out after '' @ to_str (lookup_field (c_fields this) (js ''fetchSpecTimeout'')) @ js ''ms''
     else if status = VNum 0
       then js ''Can'' @ [0x27] @ js ''t read from server.  It may not have the appropriate access-control-origin settings.''
     else if status = VNum 404 then js ''Can'' @ [0x27] @ js ''t read swagger JSON from '' @ url
     else to_str status @ js '' : '' @ to_str statusText @ js '' '' @ url))"

section \<open>Names\<close>

definition collide_free :: "jstr list \<Rightarrow> jstr \<Rightarrow> jstr" where
  "collide_free reserved tag = (if tag \<in> set reserved then js ''_'' @ tag else tag)"

abbreviation clientProperty :: "jstr \<Rightarrow> jstr" where
  "clientProperty \<equiv> collide_free reservedClientTags"

abbreviation apiProperty :: "jstr \<Rightarrow> jstr" where
  "apiProperty \<equiv> collide_free reservedApiTags"

text \<open>
  \<open>makeUniqueOperationId\<close>, given the nicknames of the operations of the group.  The loop ends
  because the names it tries are different.
\<close>

definition numbered :: "jstr \<Rightarrow> nat \<Rightarrow> jstr" where
  "numbered operationId count = operationId @ js ''_'' @ nat_digits count"

lemma numbered_eq [simp]: "numbered i m = numbered i n \<longleftrightarrow> m = n"
  unfolding numbered_def by (metis append_eq_append_conv digits_value_digits same_append_eq)

definition tries :: "jstr list \<Rightarrow> jstr \<Rightarrow> nat \<Rightarrow> nat set" where
  "tries nicknames operationId count = {n. count \<le> n \<and> numbered operationId n \<in> set nicknames}"

lemma finite_tries: "finite (tries nicknames operationId count)"
proof (rule finite_subset)
  show "tries nicknames operationId count \<subseteq> numbered operationId -` set nicknames" by (auto simp: tries_def)
  show "finite (numbered operationId -` set nicknames)" by (rule finite_vimageI) (auto simp: inj_def)
qed

function unique_from :: "jstr list \<Rightarrow> jstr \<Rightarrow> nat \<Rightarrow> jstr" where
  "unique_from nicknames operationId count =
    (if numbered operationId count \<in> set nicknames then unique_from nicknames operationId (Suc count)
     else numbered operationId count)"
  by auto
termination
proof (relation "measure (\<lambda>(nicknames, operationId, count). card (tries nicknames operationId count))", goal_cases)
  case (2 nicknames operationId count)
  then have "count \<in> tries nicknames operationId count" by (simp add: tries_def)
  moreover have "count \<notin> tries nicknames operationId (Suc count)" by (simp add: tries_def)
  moreover have "tries nicknames operationId (Suc count) \<subseteq> tries nicknames operationId count" by (auto simp: tries_def)
  ultimately have "tries nicknames operationId (Suc count) \<subset> tries nicknames operationId count" by blast
  then show ?case using finite_tries by (auto intro: psubset_card_mono)
qed simp

declare unique_from.simps [simp del]

definition makeUniqueOperationId :: "jstr \<Rightarrow> jstr list \<Rightarrow> jstr" where
  "makeUniqueOperationId operationId nicknames =
    (if operationId \<notin> set nicknames then operationId else unique_from nicknames operationId 0)"

text \<open>
  \<open>idFromOp\<close>: every character of the class becomes an underscore, a run of underscores one, and
  those at the ends go.
\<close>

definition not_id_char :: "16 word \<Rightarrow> bool" where
  "not_id_char c \<longleftrightarrow> is_space c \<or>
     c \<in> set (js ''!@#$%^&*()_+=[{]};:<>|./?,-'') \<or> c = 0x5C \<or> c = 0x27 \<or> c = 0x22"

fun squeeze :: "jstr \<Rightarrow> jstr" where
  "squeeze (c # d # s) = (if c = 95 \<and> d = 95 then squeeze (d # s) else c # squeeze (d # s))"
| "squeeze s = s"

definition clean_id :: "jstr \<Rightarrow> jstr" where
  "clean_id s = rev (dropWhile (\<lambda>c. c = 95) (rev (dropWhile (\<lambda>c. c = 95) (squeeze s))))"

text \<open>It also sets the identifier of an operation that has none; the result is paired with that operation.\<close>

definition idFromOp :: "jstr \<Rightarrow> jstr \<Rightarrow> json \<Rightarrow> jserr + jstr \<times> json" where
  "idFromOp path httpMethod op0 =
    (let op = (if \<not> truthy op0 \<or> \<not> truthy (fld op0 ''operationId'')
       then put (orElse op0 (VObj [])) (js ''operationId'') (VStr (httpMethod @ js ''_'' @ path)) else op0)
     in bindE (as_string (fld op ''operationId'')) (\<lambda>s.
       let opId = map (\<lambda>c. if not_id_char c then 95 else c) s;
           opId = (if opId = [] then drop 1 path @ js ''_'' @ httpMethod else opId)
       in Inr (clean_id opId, op)))"

section \<open>The address of the server\<close>

text \<open>
  \<open>parseUri\<close>: the groups 4, 11, 12 and 15 of its regular expression.  It matches every text, and
  no part that follows can make it give up what it took before: a scheme ends at the first
  colon, a user at the first \<open>@\<close>, a host and a port are as long as they can be.
\<close>

record uri =
  u_scheme :: json
  u_host :: json
  u_port :: json
  u_path :: json

definition none_of :: "string \<Rightarrow> 16 word \<Rightarrow> bool" where
  "none_of cs c \<longleftrightarrow> c \<notin> set (js cs)"

text \<open>\<open>[^...]+\<close> and what follows it.\<close>

definition run :: "string \<Rightarrow> jstr \<Rightarrow> (jstr \<times> jstr) option" where
  "run cs s = (if takeWhile (none_of cs) s = [] then None
     else Some (takeWhile (none_of cs) s, dropWhile (none_of cs) s))"

definition scheme_part :: "jstr \<Rightarrow> json \<times> jstr" where
  "scheme_part s = (case run '':/#?'' s of
      Some (name, rest) \<Rightarrow> if starts_with (js '':'') rest then (VStr name, tl rest) else (VUndef, s)
    | None \<Rightarrow> (VUndef, s))"

text \<open>\<open>user@\<close> or \<open>user:password@\<close>.\<close>

definition skip_user :: "jstr \<Rightarrow> jstr" where
  "skip_user s = (case run '':@/#?'' s of
      None \<Rightarrow> s
    | Some (_, rest) \<Rightarrow>
        if starts_with (js ''@'') rest then tl rest
        else if starts_with (js '':'') rest then
          (case run '':@/#?'' (tl rest) of
             Some (_, rest') \<Rightarrow> if starts_with (js ''@'') rest' then tl rest' else s
           | None \<Rightarrow> s)
        else s)"

definition host_part :: "jstr \<Rightarrow> (jstr \<times> jstr) option" where
  "host_part s = (case run '':/#?][''  s of
      Some r \<Rightarrow> Some r
    | None \<Rightarrow>
        if starts_with (js ''['') s then
          (case run ''/]@#?'' (tl s) of
             Some (inside, rest) \<Rightarrow>
               if starts_with (js '']'') rest then Some (js ''['' @ inside @ js '']'', tl rest) else None
           | None \<Rightarrow> None)
        else None)"

text \<open>A user is given up when no host follows.\<close>

definition authority :: "jstr \<Rightarrow> (jstr \<times> jstr) option" where
  "authority s = (case host_part (skip_user s) of Some r \<Rightarrow> Some r | None \<Rightarrow> host_part s)"

definition port_part :: "jstr \<Rightarrow> json \<times> jstr" where
  "port_part s =
    (if starts_with (js '':'') s \<and> takeWhile is_digit (tl s) \<noteq> []
     then (VStr (takeWhile is_digit (tl s)), dropWhile is_digit (tl s)) else (VUndef, s))"

text \<open>\<open>(?:[^\/\?#]+\/+)*\<close>.\<close>

function after_folders :: "jstr \<Rightarrow> jstr" where
  "after_folders s = (case run ''/?#'' s of
      Some (_, rest) \<Rightarrow> if starts_with (js ''/'') rest then after_folders (dropWhile (\<lambda>c. c = 47) rest) else s
    | None \<Rightarrow> s)"
  by auto
termination
proof (relation "measure length", goal_cases)
  case (2 s p taken rest)
  then have "s = taken @ rest" "taken \<noteq> []" by (auto simp: run_def split: if_splits)
  then show ?case using length_dropWhile_le [of "\<lambda>c. c = 47" rest] by (cases taken) auto
qed simp

declare after_folders.simps [simp del]

definition parseUri :: "jstr \<Rightarrow> uri" where
  "parseUri s =
    (let (scheme, s1) = scheme_part s;
         (host, port, s2) =
           (if starts_with (js ''//'') s1 then
              (case authority (drop 2 s1) of
                 Some (h, rest) \<Rightarrow> let (p, rest') = port_part rest in (VStr h, p, rest')
               | None \<Rightarrow> (VUndef, VUndef, drop 2 s1))
            else (VUndef, VUndef, s1));
         file = takeWhile (none_of ''?#'') (after_folders (if starts_with (js ''/'') s2 then tl s2 else s2))
     in \<lparr>u_scheme = scheme, u_host = host, u_port = port, u_path = VStr file\<rparr>)"

text \<open>
  The scheme the client calls: \<open>protocol\<close> is that of the page, if there is one, \<open>scheme\<close> what the
  options gave, \<open>schemes\<close> the list of the specification.
\<close>

definition choose_scheme :: "jstr option \<Rightarrow> json \<Rightarrow> json list \<Rightarrow> uri \<Rightarrow> json" where
  "choose_scheme protocol scheme schemes location =
    (let https = VStr (js ''https'') in
     if schemes = [] then
       (case protocol of Some p \<Rightarrow> VStr (replace_first (js '':'') [] p)
        | None \<Rightarrow> orElse (u_scheme location) (VStr (js ''http'')))
     else case protocol of
       Some p \<Rightarrow>
         if starts_with (js ''chrome-extension'') p then u_scheme location
         else if scheme = VUndef then
           (let own = VStr (replace_first (js '':'') [] p) in
            if own = https \<and> own \<notin> set schemes then VStr (js ''http'')
            else if own \<in> set schemes then own
            else if https \<in> set schemes then https
            else VStr (js ''http''))
         else scheme
     | None \<Rightarrow> if scheme = VUndef then orElse (hd schemes) (u_scheme location) else scheme)"

definition choose_host :: "json \<Rightarrow> uri \<Rightarrow> json" where
  "choose_host host location =
    (if host = VUndef \<or> host = VStr [] then
       (if truthy (u_port location) then VStr (to_str (u_host location) @ js '':'' @ to_str (u_port location))
        else u_host location)
     else host)"

section \<open>Building\<close>

text \<open>The vendor extensions of the specification's security definitions and of their scopes.\<close>

definition scope_extensions :: "json \<Rightarrow> jserr + json" where
  "scope_extensions scopes = bindE (settable scopes) (\<lambda>_.
    let scopes = put scopes (js ''vendorExtensions'') (VObj []) in
    Inr (foldl (\<lambda>v s. case extractExtensions (VStr s) v VUndef of
        VObj m \<Rightarrow> if starts_with (js ''x-'') s then VObj (delete_field m s) else VObj m
      | v \<Rightarrow> v) scopes (keys_of scopes)))"

definition security_extensions :: "json \<Rightarrow> jserr + json" where
  "security_extensions definition' = bindE (settable definition') (\<lambda>_.
    let d = add_extensions (put definition' (js ''vendorExtensions'') (VObj [])); scopes = fld d ''scopes''
    in if scopes = VNull \<or> is_object scopes \<and> \<not> is_fun scopes
       then bindE (scope_extensions scopes) (\<lambda>s. Inr (put d (js ''scopes'') s)) else Inr d)"

definition map_fields :: "(json \<Rightarrow> jserr + json) \<Rightarrow> json \<Rightarrow> jserr + json" where
  "map_fields f v = (case v of
      VObj m \<Rightarrow> bindE (map_until (\<lambda>(k, v). bindE (f v) (\<lambda>w. Inr (k, w))) m) (\<lambda>m. Inr (VObj m))
    | _ \<Rightarrow> Inr v)"

text \<open>The tags the specification describes, by name.\<close>

definition tag_definition :: "json \<Rightarrow> json" where
  "tag_definition t = add_extensions
    (case fld t ''externalDocs'' of
       VObj m \<Rightarrow> put t (js ''externalDocs'') (add_extensions (VObj m))
     | _ \<Rightarrow> t)"

definition define_tags :: "json \<Rightarrow> jserr + fields" where
  "define_tags tags = bindE (map_until present_value (items_of tags)) (\<lambda>ts. Inr
    (foldl (\<lambda>m t. set_field m (to_str (fld t ''name'')) (tag_definition t)) [] ts))"

text \<open>
  The properties taken from the specification, then the scheme and the host; \<open>schemes\<close>, where it is
  given, is a list.
\<close>

definition spec_fields :: "json \<Rightarrow> json \<Rightarrow> fields \<Rightarrow> fields" where
  "spec_fields response securityDefinitions m = assign
    ([(''basePath'', orElse (fld response ''basePath'') (VStr [])), (''apisArray'', VArr []),
      (''consumes'', fld response ''consumes''), (''host'', orElse (fld response ''host'') (VStr [])),
      (''info'', orElse (fld response ''info'') (VObj [])), (''produces'', fld response ''produces''),
      (''schemes'', orElse (fld response ''schemes'') (VArr [])), (''securityDefinitions'', securityDefinitions),
      (''security'', fld response ''security''), (''title'', orElse (fld response ''title'') (VStr []))]
     @ (if truthy (fld response ''externalDocs'') then [(''externalDocs'', fld response ''externalDocs'')] else [])
     @ [(''authSchemes'', securityDefinitions), (''definitions'', fld response ''definitions'')]) m"

definition address_fields :: "jstr option \<Rightarrow> fields \<Rightarrow> fields" where
  "address_fields protocol m =
    (let scheme = lookup_field m (js ''scheme''); schemes = items_of (lookup_field m (js ''schemes'')) in
     case lookup_field m (js ''url'') of
       VStr url \<Rightarrow> assign [(''scheme'', choose_scheme protocol scheme schemes (parseUri url)),
           (''host'', choose_host (lookup_field m (js ''host'')) (parseUri url))] m
     | _ \<Rightarrow> assign [(''scheme'', if schemes = [] then VStr (js ''http'')
           else if scheme = VUndef then hd schemes else scheme)] m)"

section \<open>Operations\<close>

text \<open>
  What the construction of operations needs besides the client: the texts of schema-markup, the
  page's host and the macro for parameters.
\<close>

record build_env =
  b_markup :: markup
  b_window_host :: jstr
  b_macro :: "json \<Rightarrow> json"

definition operation_tags :: "json \<Rightarrow> json" where
  "operation_tags operation =
    (if is_array (fld operation ''tags'') \<and> items_of (fld operation ''tags'') \<noteq> [] then operation
     else put operation (js ''tags'') (VArr [VStr (js ''default'')]))"

definition docs_extensions :: "json \<Rightarrow> jserr + json" where
  "docs_extensions externalDocs =
    (if \<not> truthy externalDocs then Inr externalDocs
     else bindE (settable externalDocs) (\<lambda>d. Inr (add_extensions (put d (js ''vendorExtensions'') (VObj [])))))"

text \<open>The operation object of an operation, with its identifier and its tags.\<close>

definition make_operation ::
  "build_env \<Rightarrow> client \<Rightarrow> jstr \<Rightarrow> jstr \<Rightarrow> json \<Rightarrow> jserr + client_operation \<times> jstr \<times> json list" where
  "make_operation env self path method operation0 =
    (let operation = operation_tags operation0 in
     bindE (idFromOp path method operation) (\<lambda>(operationId, operation).
     bindE (Operation (b_markup env) (b_window_host env) (b_macro env) (VObj (c_fields self)) (fld operation ''scheme'')
         (VStr operationId) (VStr method) (VStr path) operation (lookup_field (c_fields self) (js ''definitions''))
         (c_models self) (c_authz self)) (\<lambda>object.
     let extensions = foldl (\<lambda>v (k, x). extractExtensions (VStr k) v x)
           (VObj [(js ''vendorExtensions'', VObj [])]) (fields_of operation)
     in bindE (docs_extensions (fld operation ''externalDocs'')) (\<lambda>docs.
       Inr (\<lparr>co_object = object, co_vendorExtensions = fld extensions ''vendorExtensions'', co_externalDocs = docs\<rparr>,
            operationId, items_of (fld operation ''tags''))))))"

definition op_of :: "client \<Rightarrow> nat \<Rightarrow> operation" where
  "op_of c i = op (co_object (c_ops c ! i))"

definition change_op :: "(operation \<Rightarrow> operation) \<Rightarrow> nat \<Rightarrow> client \<Rightarrow> client" where
  "change_op f i c = c\<lparr>c_ops := (c_ops c)[i := (c_ops c ! i)\<lparr>co_object :=
     (co_object (c_ops c ! i))\<lparr>op := f (op_of c i)\<rparr>\<rparr>]\<rparr>"

definition change_group :: "(group \<Rightarrow> group) \<Rightarrow> nat \<Rightarrow> client \<Rightarrow> client" where
  "change_group f g c = c\<lparr>c_heap := (c_heap c)[g := f (c_heap c ! g)]\<rparr>"

definition group_nicknames :: "client \<Rightarrow> nat \<Rightarrow> jstr list" where
  "group_nicknames c g = map (\<lambda>(k, i). o_nickname (op_of c i)) (g_operations (c_heap c ! g))"

text \<open>An identifier that would hide a property of the group gets an underscore, as does the nickname.\<close>

definition free_nickname :: "nat \<Rightarrow> jstr \<Rightarrow> client \<Rightarrow> jstr \<times> client" where
  "free_nickname i operationId c =
    (if operationId \<in> set reservedApiTags
     then (js ''_'' @ operationId, change_op (\<lambda>op. op\<lparr>o_nickname := js ''_'' @ operationId\<rparr>) i c)
     else (operationId, c))"

text \<open>
  The group under the client's property for the tag.  A property that is something else serves as
  the group: then it has no \<open>operations\<close>, and the first access to them throws.
\<close>

definition find_group :: "fields \<Rightarrow> json \<Rightarrow> nat \<Rightarrow> client \<Rightarrow> jserr + nat \<times> client" where
  "find_group definedTags tag i self =
    (let cp = clientProperty (to_str tag); ap = apiProperty (to_str tag); tagDef = lookup_field definedTags (to_str tag) in
     case map_of (c_groups self) cp of
       Some g \<Rightarrow> Inr (g, self)
     | None \<Rightarrow>
        if defined_on self cp then Inl not_object
        else
          let g = length (c_heap self);
              group = \<lparr>g_label = ap, g_operations = [], g_apis = [], g_calls = [],
                g_description = fld tagDef ''description'', g_externalDocs = fld tagDef ''externalDocs'',
                g_vendorExtensions = fld tagDef ''vendorExtensions''\<rparr>
          in Inr (g, self\<lparr>c_heap := c_heap self @ [group], c_groups := AList.update cp g (c_groups self),
                       c_apis := AList.update ap g (c_apis self),
                       c_apisArray := c_apisArray self @ [OperationGroup tag (g_description group) (g_externalDocs group) i]\<rparr>))"

fun push_operation :: "json \<Rightarrow> nat \<Rightarrow> operation_group list \<Rightarrow> operation_group list" where
  "push_operation tag i [] = []"
| "push_operation tag i (api # apis) =
    (if strict_eq (og_tag api) tag then api\<lparr>og_operationsArray := og_operationsArray api @ [i]\<rparr> # apis
     else api # push_operation tag i apis)"

text \<open>Operation \<open>i\<close> is entered under its tag; the identifier it gets is the one to try for the next.\<close>

definition bind_tag :: "fields \<Rightarrow> nat \<Rightarrow> json \<Rightarrow> jstr \<times> client \<Rightarrow> jserr + jstr \<times> client" where
  "bind_tag definedTags i tag = (\<lambda>(operationId, self).
    let (operationId, self) = free_nickname i operationId self in
    bindE (find_group definedTags tag i self) (\<lambda>(g, self).
      case map_of (c_apis self) (apiProperty (to_str tag)) of
        None \<Rightarrow> Inl not_object
      | Some a \<Rightarrow>
          let operationId = makeUniqueOperationId operationId (group_nicknames self a);
              call = (\<lambda>group. group\<lparr>g_calls := AList.update operationId i (g_calls group)\<rparr>);
              enter = (\<lambda>group. group\<lparr>g_apis := AList.update operationId i (g_apis group),
                g_operations := AList.update operationId i (g_operations group)\<rparr>);
              self = change_group enter g (change_group call g (change_group call a self))
          in Inr (operationId, self\<lparr>c_apisArray := push_operation tag i (c_apisArray self)\<rparr>)))"

fun bind_tags :: "fields \<Rightarrow> nat \<Rightarrow> json list \<Rightarrow> jstr \<times> client \<Rightarrow> jserr + jstr \<times> client" where
  "bind_tags definedTags i [] st = Inr st"
| "bind_tags definedTags i (tag # tags) st = bindE (bind_tag definedTags i tag st) (bind_tags definedTags i tags)"

text \<open>A path that is not an object is skipped, and so is a method whose value is not one.\<close>

fun is_plain :: "json \<Rightarrow> bool" where
  "is_plain (VObj m) = True"
| "is_plain v = False"

definition spec_operations :: "json \<Rightarrow> (jstr \<times> jstr \<times> json) list" where
  "spec_operations paths = concat (map (\<lambda>(path, pathObj).
     if is_plain pathObj
     then map (\<lambda>method. (path, method, get pathObj method)) (filter (\<lambda>method. is_plain (get pathObj method)) supportedOperationMethods)
     else []) (for_in paths))"

definition add_operation :: "build_env \<Rightarrow> fields \<Rightarrow> jstr \<times> jstr \<times> json \<Rightarrow> client \<Rightarrow> jserr + client" where
  "add_operation env definedTags = (\<lambda>(path, method, operation) self.
    bindE (make_operation env self path method operation) (\<lambda>(object, operationId, tags).
    bindE (bind_tags definedTags (length (c_ops self)) tags (operationId, self\<lparr>c_ops := c_ops self @ [object]\<rparr>)) (\<lambda>(_, self).
      Inr self)))"

fun add_operations :: "build_env \<Rightarrow> fields \<Rightarrow> (jstr \<times> jstr \<times> json) list \<Rightarrow> client \<Rightarrow> jserr + client" where
  "add_operations env definedTags [] self = Inr self"
| "add_operations env definedTags (x # xs) self =
    bindE (add_operation env definedTags x self) (add_operations env definedTags xs)"

text \<open>The groups in the order of the tags the specification describes, then the others.\<close>

fun sort_apis :: "jstr list \<Rightarrow> operation_group list \<Rightarrow> operation_group list" where
  "sort_apis [] apis = apis"
| "sort_apis (tag # tags) apis =
    filter (\<lambda>api. og_tag api = VStr tag) apis @ sort_apis tags (filter (\<lambda>api. og_tag api \<noteq> VStr tag) apis)"

text \<open>The definitions learn their names; the models share them.\<close>

definition named_definition :: "jstr \<Rightarrow> json \<Rightarrow> json" where
  "named_definition name d = put (put d (js ''id'') (VStr (to_lower name))) (js ''name'') (VStr name)"

definition define_models :: "fields \<Rightarrow> models \<Rightarrow> jserr + models" where
  "define_models definitions models = bindE (map_until (\<lambda>(k, d). present_value d) definitions) (\<lambda>_.
    Inr (foldl (\<lambda>ms (k, d). AList.update k (Model (VStr k) d) ms) models definitions))"

definition buildFromSpec :: "build_env \<Rightarrow> jstr option \<Rightarrow> json \<Rightarrow> client \<Rightarrow> jserr + client" where
  "buildFromSpec env protocol response this =
    (if truthy (lookup_field (c_fields this) (js ''isBuilt'')) then Inr this
     else
       bindE (map_fields security_extensions (fld response ''securityDefinitions'')) (\<lambda>securityDefinitions.
       bindE (if is_array (fld response ''tags'') then define_tags (fld response ''tags'') else Inr []) (\<lambda>definedTags.
       let fields = address_fields protocol (spec_fields response securityDefinitions (c_fields this));
           definitions = fields_of (fld response ''definitions'')
       in bindE (define_models definitions (c_models this)) (\<lambda>models.
       bindE (add_operations env definedTags (spec_operations (fld response ''paths''))
           (this\<lparr>c_fields := fields, c_models := models, c_apis := [], c_apisArray := []\<rparr>)) (\<lambda>this.
       bindE (map_until (\<lambda>(k, d). settable d) definitions) (\<lambda>_.
       let names = map (\<lambda>(k, d). (k, named_definition k d)) definitions;
           built = assign ([(''isBuilt'', VBool True)]
             @ (if truthy (lookup_field (c_fields this) (js ''usePromise'')) then [(''isValid'', VBool True)] else [])) (c_fields this)
       in Inr (this\<lparr>c_fields := built,
            c_models := foldl (\<lambda>ms (k, d). AList.update k (Model (VStr k) d) ms) (c_models this) names,
            c_apisArray := sort_apis (map fst definedTags) (c_apisArray this),
            c_modelsArray := c_modelsArray this @ map snd names\<rparr>)))))))"

section \<open>Changing the address\<close>

text \<open>
  \<open>setHost\<close>, \<open>setBasePath\<close> and \<open>setSchemes\<close> change the operations of all groups of \<open>apis\<close>.
\<close>

definition api_operations_of :: "client \<Rightarrow> nat list" where
  "api_operations_of c = concat (map (\<lambda>(k, g). map snd (g_operations (c_heap c ! g))) (c_apis c))"

definition for_operations :: "(operation \<Rightarrow> operation) \<Rightarrow> client \<Rightarrow> client" where
  "for_operations f c = fold (change_op f) (api_operations_of c) c"

definition setHost :: "jstr \<Rightarrow> client \<Rightarrow> client" where
  "setHost host this =
    for_operations (\<lambda>op. op\<lparr>o_host := host\<rparr>) (this\<lparr>c_fields := set_field (c_fields this) (js ''host'') (VStr host)\<rparr>)"

definition setBasePath :: "jstr \<Rightarrow> client \<Rightarrow> client" where
  "setBasePath basePath this =
    for_operations (\<lambda>op. op\<lparr>o_basePath := basePath\<rparr>) (this\<lparr>c_fields := set_field (c_fields this) (js ''basePath'') (VStr basePath)\<rparr>)"

definition setSchemes :: "jstr list \<Rightarrow> client \<Rightarrow> client" where
  "setSchemes schemes this =
    (let this = this\<lparr>c_fields := set_field (c_fields this) (js ''schemes'') (VArr (map VStr schemes))\<rparr>
     in if schemes \<noteq> [] then for_operations (\<lambda>op. op\<lparr>o_scheme := hd schemes\<rparr>) this else this)"

section \<open>Help\<close>

text \<open>\<open>help\<close> of the client, and of a group.\<close>

definition operation_line :: "client \<Rightarrow> jstr \<times> nat \<Rightarrow> jstr" where
  "operation_line c = (\<lambda>(name, i). js ''  * '' @ name @ js '': '' @ o_summary (op_of c i) @ [10])"

definition tag_heading :: "jstr \<Rightarrow> jstr" where
  "tag_heading label = js ''operations for the '' @ [0x27] @ label @ [0x27] @ js '' tag'' @ [10]"

definition client_help :: "client \<Rightarrow> jstr" where
  "client_help c = concat (map (\<lambda>(name, g). tag_heading name @
     concat (map (operation_line c) (g_operations (c_heap c ! g)))) (c_apis c))"

definition group_help :: "client \<Rightarrow> nat \<Rightarrow> jstr" where
  "group_help c g = tag_heading (g_label (c_heap c ! g)) @ concat (map (operation_line c) (g_apis (c_heap c ! g)))"

end
