(* ===== verification/ClientBuild.thy ===== *)
theory ClientBuild
  imports SwaggerClient "HOL-Library.Multiset"
begin

text \<open>
  What \<open>buildFromSpec\<close> builds: the list of groups the page shows, the tables of the client, the
  names of the operations, and the address of the server.
\<close>

section \<open>Names\<close>

lemma unique_from_spec:
  "\<exists>n \<ge> n0. unique_from nicknames operationId n0 = numbered operationId n \<and>
     numbered operationId n \<notin> set nicknames \<and> (\<forall>m. n0 \<le> m \<and> m < n \<longrightarrow> numbered operationId m \<in> set nicknames)"
proof (induction nicknames operationId n0 rule: unique_from.induct)
  case (1 nicknames operationId n0)
  show ?case
  proof (cases "numbered operationId n0 \<in> set nicknames")
    case True
    with 1 obtain n where "Suc n0 \<le> n" "unique_from nicknames operationId (Suc n0) = numbered operationId n"
      "numbered operationId n \<notin> set nicknames"
      "\<forall>m. Suc n0 \<le> m \<and> m < n \<longrightarrow> numbered operationId m \<in> set nicknames" by blast
    then show ?thesis using True by (intro exI [of _ n]) (auto simp: unique_from.simps [of _ _ n0] le_Suc_eq dest: le_neq_implies_less Suc_leI)
  next
    case False
    then show ?thesis by (intro exI [of _ n0]) (auto simp add: unique_from.simps [of _ _ n0])
  qed
qed

text \<open>
  The identifier an operation gets in a group is no nickname of the group's operations: the
  one it asks for if that is free, or else that with the least number that makes it free.
\<close>

theorem operation_id_unique:
  "makeUniqueOperationId operationId nicknames \<notin> set nicknames \<and>
   (if operationId \<notin> set nicknames then makeUniqueOperationId operationId nicknames = operationId
    else \<exists>n. makeUniqueOperationId operationId nicknames = numbered operationId n \<and>
           (\<forall>m < n. numbered operationId m \<in> set nicknames))"
  using unique_from_spec [of 0 nicknames operationId] by (auto simp: makeUniqueOperationId_def)

text \<open>
  The nicknames are not those the operations got: a third operation that asks for the same
  identifier gets the identifier of the second, and takes its place.
\<close>

lemma third_operation_replaces:
  "makeUniqueOperationId operationId [operationId] = numbered operationId 0"
  "makeUniqueOperationId operationId [operationId, operationId] = numbered operationId 0"
  by (simp_all add: makeUniqueOperationId_def unique_from.simps numbered_def)

text \<open>The shape of an identifier: single underscores between characters that are none of the class.\<close>

definition id_like :: "jstr \<Rightarrow> bool" where
  "id_like s \<longleftrightarrow> (\<forall>c \<in> set s. \<not> not_id_char c \<or> c = 95) \<and> (s \<noteq> [] \<longrightarrow> hd s \<noteq> 95 \<and> last s \<noteq> 95) \<and>
     successively (\<lambda>c d. \<not> (c = 95 \<and> d = 95)) s"

lemma squeeze_single: "successively (\<lambda>c d. \<not> (c = 95 \<and> d = 95)) (squeeze s)"
proof (induction s rule: squeeze.induct)
  case (1 c d s)
  have "squeeze (d # s) \<noteq> [] \<and> hd (squeeze (d # s)) = d" by (induction s arbitrary: d) auto
  then show ?case using 1 by (cases "squeeze (d # s)") auto
qed auto

lemma set_squeeze: "set (squeeze s) \<subseteq> set s"
  by (induction s rule: squeeze.induct) auto

lemma squeeze_id: "successively (\<lambda>c d. \<not> (c = 95 \<and> d = 95)) s \<Longrightarrow> squeeze s = s"
  by (induction s rule: squeeze.induct) auto

lemma successively_dropWhile: "successively P s \<Longrightarrow> successively P (dropWhile Q s)"
  by (induction s) (auto simp: successively_Cons)

lemma hd_dropWhile_not: "dropWhile Q s \<noteq> [] \<Longrightarrow> \<not> Q (hd (dropWhile Q s))"
  by (induction s) auto

lemma dropWhile_hd: "s \<noteq> [] \<Longrightarrow> \<not> Q (hd s) \<Longrightarrow> dropWhile Q s = s"
  by (cases s) auto

lemma last_dropWhile_same: "dropWhile Q s \<noteq> [] \<Longrightarrow> last (dropWhile Q s) = last s"
  by (induction s) (auto split: if_splits)

lemma clean_id_like:
  assumes "\<forall>c \<in> set s. \<not> not_id_char c \<or> c = 95"
  shows "id_like (clean_id s)"
proof -
  define t where "t = dropWhile (\<lambda>c. c = 95) (squeeze s)"
  define u where "u = dropWhile (\<lambda>c. c = 95) (rev t)"
  have t: "successively (\<lambda>c d. \<not> (c = 95 \<and> d = 95)) t" "t \<noteq> [] \<Longrightarrow> hd t \<noteq> 95"
    unfolding t_def using successively_dropWhile [OF squeeze_single] hd_dropWhile_not [of "\<lambda>c. c = 95" "squeeze s"] by auto
  have r: "successively (\<lambda>c d. \<not> (d = 95 \<and> c = 95)) (rev t)" using t(1) by (auto elim: successively_mono)
  have u: "successively (\<lambda>c d. \<not> (d = 95 \<and> c = 95)) u" "u \<noteq> [] \<Longrightarrow> hd u \<noteq> 95"
    unfolding u_def using successively_dropWhile [OF r] hd_dropWhile_not [of "\<lambda>c. c = 95" "rev t"] by blast+
  have "set u \<subseteq> set s"
    using set_squeeze [of s] by (auto simp: u_def t_def dest!: set_dropWhileD)
  moreover have "last u \<noteq> 95" if "u \<noteq> []"
  proof -
    have "last u = last (rev t)" using that unfolding u_def by (rule last_dropWhile_same)
    then show ?thesis using t(2) that by (cases "t = []") (auto simp: u_def last_rev)
  qed
  ultimately show ?thesis
    using u assms by (auto simp: id_like_def clean_id_def t_def [symmetric] u_def [symmetric] hd_rev last_rev elim: successively_mono)
qed

lemma clean_id_id: "id_like s \<Longrightarrow> clean_id s = s"
  by (cases "s = []") (auto simp: id_like_def clean_id_def squeeze_id dropWhile_hd hd_rev)

text \<open>
  The identifier of an operation is made of characters that are neither blank nor punctuation,
  with single underscores between them, whatever the specification calls the operation; an
  identifier that has this shape is kept.
\<close>

theorem operation_id_shape:
  assumes "idFromOp path httpMethod operation = Inr (operationId, operation')"
  shows "id_like operationId \<and>
    (\<forall>s. fld operation ''operationId'' = VStr s \<longrightarrow> s \<noteq> [] \<longrightarrow> id_like s \<longrightarrow> operationId = s)"
proof -
  let ?clean = "map (\<lambda>c. if not_id_char c then 95 else c)"
  obtain s0 where s0: "fld operation' ''operationId'' = VStr s0" "s0 \<noteq> []" "operationId = clean_id (?clean s0)"
    using assms by (cases operation) (auto simp: idFromOp_def Let_def bindE_eq_Inr as_string_def orElse_def
      split: if_splits json.splits)
  have kept: "s0 = s" if "fld operation ''operationId'' = VStr s" "s \<noteq> []" for s
    using assms s0(1) that by (cases operation) (auto simp: idFromOp_def Let_def bindE_eq_Inr split: if_splits)
  have "id_like operationId" unfolding s0(3) by (rule clean_id_like) auto
  moreover have "?clean s = s" if "id_like s" for s
    using that by (auto simp: id_like_def intro: map_idI)
  ultimately show ?thesis using kept s0(3) clean_id_id by auto
qed

section \<open>The address\<close>

text \<open>
  On a page served over http or https, the client calls the server by a scheme the
  specification lists, if the options do not set one and the specification lists http.
\<close>

theorem scheme_listed:
  assumes "VStr (js ''http'') \<in> set schemes" "protocol \<in> {js ''http:'', js ''https:''}"
  shows "choose_scheme (Some protocol) VUndef schemes location \<in> set schemes"
proof -
  have "\<not> starts_with (js ''chrome-extension'') (js ''http:'')" "\<not> starts_with (js ''chrome-extension'') (js ''https:'')"
    "replace_first (js '':'') [] (js ''http:'') = js ''http''" "replace_first (js '':'') [] (js ''https:'') = js ''https''"
    by code_simp+
  then show ?thesis using assms by (auto simp: choose_scheme_def Let_def)
qed

text \<open>With no schemes in the specification, the scheme of the options is not used.\<close>

lemma scheme_of_options_ignored:
  "choose_scheme (Some protocol) scheme [] location = VStr (replace_first (js '':'') [] protocol)"
  by (simp add: choose_scheme_def)

lemma run_plain:
  assumes "s \<noteq> []" "list_all (none_of cs) s" "t = [] \<or> \<not> none_of cs (hd t)"
  shows "run cs (s @ t) = Some (s, t)"
proof -
  have "takeWhile (none_of cs) (s @ t) = s @ takeWhile (none_of cs) t" "dropWhile (none_of cs) (s @ t) = dropWhile (none_of cs) t"
    using assms(2) by (auto simp: list_all_iff intro: takeWhile_append2 dropWhile_append2)
  moreover have "takeWhile (none_of cs) t = []" "dropWhile (none_of cs) t = t"
    using assms(3) by (cases t; simp)+
  ultimately show ?thesis using assms(1) by (simp add: run_def)
qed

text \<open>The characters a host may have, and the digits of a port.\<close>

definition host_name :: "jstr \<Rightarrow> bool" where
  "host_name s \<longleftrightarrow> s \<noteq> [] \<and> list_all (none_of '':/#?][@'') s"

lemma none_of_mono: "set cs \<subseteq> set ds \<Longrightarrow> none_of ds c \<Longrightarrow> none_of cs c"
  by (auto simp: none_of_def js_def)

lemma host_name_none_of: "host_name s \<Longrightarrow> set cs \<subseteq> set '':/#?][@'' \<Longrightarrow> list_all (none_of cs) s"
  unfolding host_name_def list_all_iff using none_of_mono by blast

lemma starts_with_Cons: "starts_with (c # p) s \<longleftrightarrow> s \<noteq> [] \<and> hd s = c \<and> starts_with p (tl s)" "starts_with [] s"
  by (cases s; auto simp: starts_with_def)+

lemma host_run:
  "host_name s \<Longrightarrow> set cs \<subseteq> set '':/#?][@'' \<Longrightarrow> t = [] \<or> \<not> none_of cs (hd t) \<Longrightarrow> run cs (s @ t) = Some (s, t)"
  by (intro run_plain host_name_none_of) (auto simp: host_name_def)

lemma url_units: "js '':'' = [58]" "js ''/'' = [47]" "js ''//'' = [47, 47]" "js ''://'' = [58, 47, 47]" "js ''@'' = [64]" "js ''['' = [91]"
  by (simp_all add: js_def)

lemma colon_not: "\<not> none_of '':/#?'' 58" "\<not> none_of '':@/#?'' 58" "\<not> none_of '':/#?]['' 58"
  by (simp_all add: none_of_def js_def)

lemma digits_run:
  assumes "port \<noteq> []" "list_all is_digit port" "path = [] \<or> hd path = 47"
  shows "port_part (58 # port @ path) = (VStr port, path)"
proof -
  have "takeWhile is_digit (port @ path) = port @ takeWhile is_digit path" "dropWhile is_digit (port @ path) = dropWhile is_digit path"
    using assms(2) by (auto simp: list_all_iff intro: takeWhile_append2 dropWhile_append2)
  moreover have "\<not> is_digit 47" by (simp add: is_digit_def)
  then have "takeWhile is_digit path = []" "dropWhile is_digit path = path"
    using assms(3) by (cases path; auto)+
  ultimately show ?thesis using assms(1) by (simp add: port_part_def url_units starts_with_Cons)
qed

lemma authority_host:
  assumes "host_name host" "port \<noteq> []" "list_all is_digit port" "path = [] \<or> hd path = 47"
  shows "authority (host @ 58 # port @ path) = Some (host, 58 # port @ path)"
proof -
  have d: "list_all (none_of '':@/#?'') port"
    using assms(3) by (auto simp: list_all_iff is_digit_def none_of_def js_def)
  have p: "path = [] \<or> \<not> none_of '':@/#?'' (hd path)" using assms(4) by (auto simp: none_of_def js_def)
  have u: "run '':@/#?'' (host @ 58 # port @ path) = Some (host, 58 # port @ path)"
    by (rule host_run [OF assms(1)]) (auto simp: colon_not)
  have "run '':@/#?'' (port @ path) = Some (port, path)"
    by (rule run_plain [OF assms(2) d p])
  moreover have "\<not> starts_with [64] path" using assms(4) by (auto simp: starts_with_Cons)
  ultimately have "skip_user (host @ 58 # port @ path) = host @ 58 # port @ path"
    using u by (auto simp: skip_user_def url_units starts_with_Cons)
  moreover have "host_part (host @ 58 # port @ path) = Some (host, 58 # port @ path)"
    using host_run [OF assms(1), of "'':/#?][''" "58 # port @ path"] by (simp add: host_part_def colon_not)
  ultimately show ?thesis by (simp add: authority_def)
qed

text \<open>
  The address of the specification is taken apart: scheme, host and port are found, whatever
  the path.
\<close>

theorem parseUri_parts:
  assumes "host_name scheme" "host_name host" "port \<noteq> []" "list_all is_digit port" "path = [] \<or> hd path = 47"
  shows "let u = parseUri (scheme @ js ''://'' @ host @ js '':'' @ port @ path)
    in u_scheme u = VStr scheme \<and> u_host u = VStr host \<and> u_port u = VStr port"
proof -
  have "run '':/#?'' (scheme @ 58 # 47 # 47 # host @ 58 # port @ path) = Some (scheme, 58 # 47 # 47 # host @ 58 # port @ path)"
    by (rule host_run [OF assms(1)]) (auto simp: colon_not)
  then have "scheme_part (scheme @ 58 # 47 # 47 # host @ 58 # port @ path) = (VStr scheme, 47 # 47 # host @ 58 # port @ path)"
    by (simp add: scheme_part_def url_units starts_with_Cons)
  then show ?thesis
    using authority_host [OF assms(2-5)] digits_run [OF assms(3-5)]
    by (simp add: parseUri_def url_units Let_def starts_with_Cons)
qed

section \<open>The list of groups\<close>

text \<open>
  The operations are entered under their tags one after the other; \<open>listing c pairs\<close> holds when
  the groups of the list are those of the pairs entered so far, each with its operations in the
  order of entry.  \<open>used\<close> are the tags of the specification, which are texts no two of which
  lead to the same property of the client.
\<close>

definition listing :: "jstr set \<Rightarrow> client \<Rightarrow> (nat \<times> jstr) list \<Rightarrow> bool" where
  "listing used c pairs \<longleftrightarrow> distinct (map og_tag (c_apisArray c)) \<and>
     og_tag ` set (c_apisArray c) = (\<lambda>p. VStr (snd p)) ` set pairs \<and>
     (\<forall>api \<in> set (c_apisArray c). og_operationsArray api = map fst (filter (\<lambda>p. VStr (snd p) = og_tag api) pairs)) \<and>
     (\<forall>t \<in> used. map_of (c_groups c) (clientProperty t) \<noteq> None \<longleftrightarrow> t \<in> snd ` set pairs)"

lemma listing_cong:
  "c_apisArray c' = c_apisArray c \<Longrightarrow> c_groups c' = c_groups c \<Longrightarrow> listing used c' pairs = listing used c pairs"
  by (simp add: listing_def)

lemma change_simps [simp]:
  "c_apisArray (change_op f i c) = c_apisArray c" "c_groups (change_op f i c) = c_groups c"
  "c_heap (change_op f i c) = c_heap c" "c_apis (change_op f i c) = c_apis c" "c_fields (change_op f i c) = c_fields c"
  "c_apisArray (change_group h g c) = c_apisArray c" "c_groups (change_group h g c) = c_groups c"
  "c_ops (change_group h g c) = c_ops c" "c_apis (change_group h g c) = c_apis c" "c_fields (change_group h g c) = c_fields c"
  by (simp_all add: change_op_def change_group_def)

lemma push_operation_listed:
  assumes "distinct (map og_tag apis)" "VStr t \<in> og_tag ` set apis"
  shows "push_operation (VStr t) i apis = map (\<lambda>api. if og_tag api = VStr t
    then api\<lparr>og_operationsArray := og_operationsArray api @ [i]\<rparr> else api) apis"
  using assms
proof (induction apis)
  case (Cons api apis)
  show ?case
  proof (cases "og_tag api = VStr t")
    case True
    then have "VStr t \<notin> og_tag ` set apis" using Cons.prems(1) by auto
    then have "map (\<lambda>api. if og_tag api = VStr t then api\<lparr>og_operationsArray := og_operationsArray api @ [i]\<rparr> else api) apis = apis"
      by (intro map_idI) (auto simp: image_iff)
    then show ?thesis using True by (simp add: strict_eq_def)
  qed (use Cons in \<open>auto simp: strict_eq_def\<close>)
qed simp

lemma find_group_listing:
  assumes "find_group definedTags (VStr t) i c = Inr (g, c')" "listing used c pairs" "t \<in> used" "inj_on clientProperty used"
  shows "distinct (map og_tag (c_apisArray c')) \<and>
     og_tag ` set (c_apisArray c') = (\<lambda>p. VStr (snd p)) ` set (pairs @ [(i, t)]) \<and>
     (\<forall>api \<in> set (c_apisArray c'). og_operationsArray api = map fst (filter (\<lambda>p. VStr (snd p) = og_tag api) pairs)) \<and>
     (\<forall>s \<in> used. map_of (c_groups c') (clientProperty s) \<noteq> None \<longleftrightarrow> s \<in> snd ` set (pairs @ [(i, t)]))"
proof (cases "map_of (c_groups c) (clientProperty t)")
  case (Some g')
  then have "t \<in> snd ` set pairs" "c' = c" using assms by (auto simp: listing_def find_group_def Let_def)
  then show ?thesis using assms(2) by (auto simp: listing_def)
next
  case None
  then have new: "t \<notin> snd ` set pairs" using assms(2,3) by (auto simp: listing_def)
  then have nt: "VStr t \<notin> og_tag ` set (c_apisArray c)" using assms(2) by (auto simp: listing_def)
  from None assms(1) obtain d e where apis: "c_apisArray c' = c_apisArray c @ [OperationGroup (VStr t) d e i]"
    and groups: "c_groups c' = AList.update (clientProperty t) g (c_groups c)"
    by (auto simp: find_group_def Let_def split: if_splits)
  have "filter (\<lambda>p. snd p = t) pairs = []" using new by (force simp: filter_empty_conv)
  moreover have "map_of (c_groups c') (clientProperty s) \<noteq> None \<longleftrightarrow> s = t \<or> s \<in> snd ` set pairs" if "s \<in> used" for s
    using that assms(2-4) groups by (auto simp: listing_def update_conv' inj_on_def)
  ultimately show ?thesis
    using assms(2) nt apis by (auto simp: listing_def OperationGroup_def)
qed

text \<open>The steps of \<open>bind_tag\<close>.\<close>

definition enter_operation :: "jstr \<Rightarrow> nat \<Rightarrow> group \<Rightarrow> group" where
  "enter_operation operationId i = (\<lambda>gr. gr\<lparr>g_apis := AList.update operationId i (g_apis gr),
     g_operations := AList.update operationId i (g_operations gr)\<rparr>)"

definition enter_call :: "jstr \<Rightarrow> nat \<Rightarrow> group \<Rightarrow> group" where
  "enter_call operationId i = (\<lambda>gr. gr\<lparr>g_calls := AList.update operationId i (g_calls gr)\<rparr>)"

lemma bind_tag_steps:
  assumes "bind_tag definedTags i tag (operationId, c) = Inr (operationId', c')"
  obtains id1 c1 g c2 a where "free_nickname i operationId c = (id1, c1)"
    "find_group definedTags tag i c1 = Inr (g, c2)" "map_of (c_apis c2) (apiProperty (to_str tag)) = Some a"
    "operationId' = makeUniqueOperationId id1 (group_nicknames c2 a)"
    "c' = (change_group (enter_operation operationId' i) g (change_group (enter_call operationId' i) g
       (change_group (enter_call operationId' i) a c2)))\<lparr>c_apisArray := push_operation tag i (c_apisArray c2)\<rparr>"
proof -
  obtain id1 c1 where f: "free_nickname i operationId c = (id1, c1)" by fastforce
  obtain g c2 where g: "find_group definedTags tag i c1 = Inr (g, c2)"
    using assms by (auto simp: bind_tag_def f bindE_eq_Inr)
  obtain a where a: "map_of (c_apis c2) (apiProperty (to_str tag)) = Some a"
    using assms by (cases "map_of (c_apis c2) (apiProperty (to_str tag))") (simp_all add: bind_tag_def f g)
  have "operationId' = makeUniqueOperationId id1 (group_nicknames c2 a)"
    "c' = (change_group (enter_operation operationId' i) g (change_group (enter_call operationId' i) g
       (change_group (enter_call operationId' i) a c2)))\<lparr>c_apisArray := push_operation tag i (c_apisArray c2)\<rparr>"
    using assms by (auto simp add: bind_tag_def f g a Let_def enter_operation_def enter_call_def)
  with that f g a show thesis by blast
qed

lemma bind_tag_listing:
  assumes "bind_tag definedTags i (VStr t) (operationId, c) = Inr (operationId', c')" "listing used c pairs"
    "t \<in> used" "inj_on clientProperty used"
  shows "listing used c' (pairs @ [(i, t)])"
proof -
  obtain id1 c1 g c2 where f: "free_nickname i operationId c = (id1, c1)"
    and g: "find_group definedTags (VStr t) i c1 = Inr (g, c2)"
    and c': "c_apisArray c' = push_operation (VStr t) i (c_apisArray c2)" "c_groups c' = c_groups c2"
    using assms(1) by (rule bind_tag_steps) simp
  from f have "c_apisArray c1 = c_apisArray c" "c_groups c1 = c_groups c" by (auto simp: free_nickname_def split: if_splits)
  then have "listing used c1 pairs" using assms(2) listing_cong by blast
  note found = find_group_listing [OF g \<open>listing used c1 pairs\<close> assms(3,4)]
  define push where "push = (\<lambda>api :: operation_group. if og_tag api = VStr t then api\<lparr>og_operationsArray := og_operationsArray api @ [i]\<rparr> else api)"
  have a: "c_apisArray c' = map push (c_apisArray c2)"
    unfolding c'(1) push_def using found by (intro push_operation_listed) auto
  have tag: "og_tag (push api) = og_tag api" for api by (simp add: push_def)
  have ops: "og_operationsArray (push api) = map fst (filter (\<lambda>p. VStr (snd p) = og_tag api) (pairs @ [(i, t)]))"
    if "api \<in> set (c_apisArray c2)" for api
    using found that by (simp add: push_def)
  show ?thesis unfolding listing_def c'(2)
  proof (intro conjI)
    show "distinct (map og_tag (c_apisArray c'))" using found by (simp add: a tag comp_def)
    show "og_tag ` set (c_apisArray c') = (\<lambda>p. VStr (snd p)) ` set (pairs @ [(i, t)])"
      using found by (simp add: a image_image tag)
    show "\<forall>api\<in>set (c_apisArray c'). og_operationsArray api = map fst (filter (\<lambda>p. VStr (snd p) = og_tag api) (pairs @ [(i, t)]))"
      using ops by (simp add: a tag)
    show "\<forall>s\<in>used. (map_of (c_groups c2) (clientProperty s) \<noteq> None) = (s \<in> snd ` set (pairs @ [(i, t)]))"
      using found by blast
  qed
qed

lemma bind_tags_listing:
  "bind_tags definedTags i (map VStr ts) (operationId, c) = Inr (operationId', c') \<Longrightarrow> listing used c pairs \<Longrightarrow>
     set ts \<subseteq> used \<Longrightarrow> inj_on clientProperty used \<Longrightarrow> listing used c' (pairs @ map (Pair i) ts)"
proof (induction ts arbitrary: operationId c pairs)
  case (Cons t ts)
  from Cons.prems(1) obtain id1 c1 where b: "bind_tag definedTags i (VStr t) (operationId, c) = Inr (id1, c1)"
    and r: "bind_tags definedTags i (map VStr ts) (id1, c1) = Inr (operationId', c')"
    by (auto simp: bindE_eq_Inr)
  have "listing used c1 (pairs @ [(i, t)])" using bind_tag_listing [OF b Cons.prems(2)] Cons.prems(3,4) by simp
  from Cons.IH [OF r this] Cons.prems(3,4) show ?case by simp
qed simp

text \<open>What an operation is called for, besides its identifier, never changes.\<close>

definition route :: "client_operation \<Rightarrow> jstr \<times> jstr" where
  "route x = (o_path (op (co_object x)), o_method (op (co_object x)))"

abbreviation routes :: "client \<Rightarrow> (jstr \<times> jstr) list" where
  "routes c \<equiv> map route (c_ops c)"

lemma change_op_routes:
  "(\<And>x. o_path (f x) = o_path x \<and> o_method (f x) = o_method x) \<Longrightarrow> routes (change_op f i c) = routes c"
  by (cases "i < length (c_ops c)")
    (auto simp: change_op_def map_update route_def op_of_def list_update_beyond intro!: list_update_same_conv [THEN iffD2])

lemma bind_tag_routes: "bind_tag definedTags i tag (operationId, c) = Inr (operationId', c') \<Longrightarrow> routes c' = routes c"
  by (erule bind_tag_steps)
    (auto simp: free_nickname_def find_group_def Let_def change_op_routes split: if_splits option.splits)

lemma bind_tags_routes: "bind_tags definedTags i tags (operationId, c) = Inr (operationId', c') \<Longrightarrow> routes c' = routes c"
proof (induction tags arbitrary: operationId c)
  case (Cons tag tags)
  from Cons.prems obtain id1 c1 where "bind_tag definedTags i tag (operationId, c) = Inr (id1, c1)"
    "bind_tags definedTags i tags (id1, c1) = Inr (operationId', c')" by (auto simp: bindE_eq_Inr)
  then show ?case using Cons.IH bind_tag_routes by metis
qed simp

text \<open>The tags of an operation, and the pairs of all operations.\<close>

definition op_tags :: "json \<Rightarrow> jstr list" where
  "op_tags operation = map to_str (items_of (fld (operation_tags operation) ''tags''))"

definition text_tags :: "json \<Rightarrow> bool" where
  "text_tags operation \<longleftrightarrow> list_all is_string (items_of (fld (operation_tags operation) ''tags''))"

definition tag_pairs :: "nat \<Rightarrow> (jstr \<times> jstr \<times> json) list \<Rightarrow> (nat \<times> jstr) list" where
  "tag_pairs n xs = concat (map (\<lambda>(i, path, verb, operation). map (Pair i) (op_tags operation)) (enumerate n xs))"

lemma text_tags_map: "text_tags operation \<Longrightarrow> items_of (fld (operation_tags operation) ''tags'') = map VStr (op_tags operation)"
  unfolding op_tags_def text_tags_def map_map by (rule map_idI [symmetric]) (auto simp: list_all_iff elim!: is_string.elims)

lemma make_operation_facts:
  assumes "make_operation env self path verb operation = Inr (object, operationId, tags)"
  shows "tags = items_of (fld (operation_tags operation) ''tags'') \<and> route object = (path, verb)"
proof -
  obtain op' ob where i: "idFromOp path verb (operation_tags operation) = Inr (operationId, op')"
    and t: "tags = items_of (fld op' ''tags'')" and o: "co_object object = ob"
    and r: "Operation (b_markup env) (b_window_host env) (b_macro env) (VObj (c_fields self)) (fld op' ''scheme'')
         (VStr operationId) (VStr verb) (VStr path) op' (lookup_field (c_fields self) (js ''definitions''))
         (c_models self) (c_authz self) = Inr ob"
    using assms by (auto simp: make_operation_def Let_def bindE_eq_Inr)
  have "fld op' ''tags'' = fld (operation_tags operation) ''tags''"
    using i by (cases "operation_tags operation") (auto simp: idFromOp_def Let_def bindE_eq_Inr orElse_def split: if_splits)
  moreover have "o_path (op ob) = path \<and> o_method (op ob) = verb"
    using r by (auto simp: Operation_def Let_def bindE_eq_Inr spec_operation_def case_prod_beta)
  ultimately show ?thesis using t o by (simp add: route_def)
qed

lemma add_operations_listing:
  assumes "add_operations env definedTags xs c = Inr c'" "listing used c pairs" "inj_on clientProperty used"
    and "\<forall>(path, verb, operation) \<in> set xs. text_tags operation \<and> set (op_tags operation) \<subseteq> used"
  shows "listing used c' (pairs @ tag_pairs (length (c_ops c)) xs) \<and>
    routes c' = routes c @ map (\<lambda>(path, verb, operation). (path, verb)) xs"
  using assms
proof (induction xs arbitrary: c pairs)
  case Nil
  then show ?case by (simp add: tag_pairs_def)
next
  case (Cons x xs)
  obtain path verb operation where x: "x = (path, verb, operation)" by (cases x)
  from Cons.prems(1) x obtain object operationId tags id1 c1 where
    m: "make_operation env c path verb operation = Inr (object, operationId, tags)"
    and b: "bind_tags definedTags (length (c_ops c)) tags (operationId, c\<lparr>c_ops := c_ops c @ [object]\<rparr>) = Inr (id1, c1)"
    and r: "add_operations env definedTags xs c1 = Inr c'"
    by (auto simp: add_operation_def bindE_eq_Inr)
  have tags: "tags = map VStr (op_tags operation)" "set (op_tags operation) \<subseteq> used"
    using make_operation_facts [OF m] text_tags_map Cons.prems(4) x by auto
  have "listing used (c\<lparr>c_ops := c_ops c @ [object]\<rparr>) pairs" using Cons.prems(2) by (simp add: listing_def)
  from bind_tags_listing [OF b [unfolded tags(1)] this tags(2) Cons.prems(3)]
  have l: "listing used c1 (pairs @ map (Pair (length (c_ops c))) (op_tags operation))" .
  have ro: "routes c1 = routes c @ [(path, verb)]" using bind_tags_routes [OF b] make_operation_facts [OF m] by simp
  have "length (c_ops c1) = Suc (length (c_ops c))" using arg_cong [OF ro, of length] by simp
  with Cons.IH [OF r l Cons.prems(3)] Cons.prems(4) ro x show ?case by (simp add: tag_pairs_def)
qed

lemma mset_sort_apis: "mset (sort_apis tags apis) = mset apis"
  by (induction tags arbitrary: apis) (simp_all add: multiset_partition [symmetric])

lemma set_sort_apis: "set (sort_apis tags apis) = set apis"
  by (metis mset_sort_apis mset_eq_setD)

lemma distinct_sort_apis: "distinct (map og_tag (sort_apis tags apis)) = distinct (map og_tag apis)"
  by (metis mset_sort_apis mset_map mset_eq_imp_distinct_iff)

text \<open>
  C19. The list of groups the page shows is complete: it has one group for each tag of the
  specification's operations, and the group has the operations that carry the tag, in the order
  of the specification; an operation keeps its path and its method.  The tags must be texts no
  two of which lead to the same property of the client.
\<close>

theorem sidebar_complete:
  assumes "buildFromSpec env protocol response c = Inr c'"
    and "\<not> truthy (lookup_field (c_fields c) (js ''isBuilt''))" "c_ops c = []" "c_groups c = []"
    and "xs = spec_operations (fld response ''paths'')" "\<forall>(path, verb, operation) \<in> set xs. text_tags operation"
    and "inj_on clientProperty (snd ` set (tag_pairs 0 xs))"
  shows "distinct (map og_tag (c_apisArray c')) \<and>
    og_tag ` set (c_apisArray c') = VStr ` snd ` set (tag_pairs 0 xs) \<and>
    (\<forall>api \<in> set (c_apisArray c'). og_operationsArray api = map fst (filter (\<lambda>p. VStr (snd p) = og_tag api) (tag_pairs 0 xs))) \<and>
    routes c' = map (\<lambda>(path, verb, operation). (path, verb)) xs"
proof -
  let ?used = "snd ` set (tag_pairs 0 xs)"
  from assms(1,2,5) obtain fields models definedTags c1 where
    b: "add_operations env definedTags xs (c\<lparr>c_fields := fields, c_models := models, c_apis := [], c_apisArray := []\<rparr>) = Inr c1"
    and c': "c_apisArray c' = sort_apis (map fst definedTags) (c_apisArray c1)" "c_ops c' = c_ops c1"
    by (auto simp: buildFromSpec_def Let_def bindE_eq_Inr simp del: add_operations.simps)
  have l: "listing ?used (c\<lparr>c_fields := fields, c_models := models, c_apis := [], c_apisArray := []\<rparr>) []"
    using assms(4) by (simp add: listing_def)
  have t: "\<forall>(path, verb, operation) \<in> set xs. text_tags operation \<and> set (op_tags operation) \<subseteq> ?used"
  proof (clarify, intro conjI subsetI)
    fix path verb operation tag
    assume x: "(path, verb, operation) \<in> set xs"
    then show "text_tags operation" using assms(6) by auto
    assume "tag \<in> set (op_tags operation)"
    moreover obtain i where "i < length xs" "xs ! i = (path, verb, operation)" using x by (auto simp: in_set_conv_nth)
    then have "(i, path, verb, operation) \<in> set (enumerate 0 xs)" by (simp add: in_set_enumerate_eq)
    ultimately have "(i, tag) \<in> set (tag_pairs 0 xs)"
      unfolding tag_pairs_def by (auto intro!: bexI [of _ "(i, path, verb, operation)"])
    then show "tag \<in> ?used" by (metis imageI snd_conv)
  qed
  from add_operations_listing [OF b l assms(7) t] assms(3)
  have "listing ?used c1 (tag_pairs 0 xs)" "routes c1 = map (\<lambda>(path, verb, operation). (path, verb)) xs" by simp_all
  then show ?thesis by (auto simp: c' listing_def set_sort_apis distinct_sort_apis image_comp comp_def)
qed

section \<open>The tables of the client\<close>

text \<open>
  Every reference leads to a group or an operation that exists, a group has the label it is found
  by under \<open>apis\<close>, and its two tables of operations are the same.
\<close>

definition good_group :: "nat \<Rightarrow> group \<Rightarrow> bool" where
  "good_group n gr \<longleftrightarrow> g_apis gr = g_operations gr \<and> distinct (map fst (g_operations gr)) \<and>
     snd ` set (g_operations gr) \<subseteq> {..<n}"

definition tables :: "client \<Rightarrow> bool" where
  "tables c \<longleftrightarrow> list_all (good_group (length (c_ops c))) (c_heap c) \<and>
     (\<forall>(k, g) \<in> set (c_groups c). g < length (c_heap c)) \<and>
     (\<forall>(k, g) \<in> set (c_apis c). g < length (c_heap c) \<and> g_label (c_heap c ! g) = k)"

lemma tables_group: "tables c \<Longrightarrow> g < length (c_heap c) \<Longrightarrow> good_group (length (c_ops c)) (c_heap c ! g)"
  by (simp add: tables_def list_all_length)

lemma tables_client: "tables c \<Longrightarrow> (k, g) \<in> set (c_groups c) \<Longrightarrow> g < length (c_heap c)"
  by (auto simp: tables_def)

lemma tables_apis: "tables c \<Longrightarrow> (k, g) \<in> set (c_apis c) \<Longrightarrow> g < length (c_heap c) \<and> g_label (c_heap c ! g) = k"
  by (auto simp: tables_def)

lemma good_group_mono: "good_group m gr \<Longrightarrow> m \<le> n \<Longrightarrow> good_group n gr"
  by (auto simp: good_group_def)

lemma update_subset: "set (AList.update k v m) \<subseteq> insert (k, v) (set m)"
  by (induction m) auto

lemma label_enter [simp]: "g_label (enter_operation k i gr) = g_label gr" "g_label (enter_call k i gr) = g_label gr"
  by (simp_all add: enter_operation_def enter_call_def)

lemma good_enter: "good_group n gr \<Longrightarrow> i < n \<Longrightarrow> good_group n (enter_operation k i gr)"
  using update_subset [of k i "g_operations gr"] by (force simp: good_group_def enter_operation_def distinct_update)

lemma good_call: "good_group n (enter_call k i gr) = good_group n gr"
  by (simp add: good_group_def enter_call_def)

lemma tables_change_group:
  assumes "tables c" "\<And>gr. good_group (length (c_ops c)) gr \<Longrightarrow> good_group (length (c_ops c)) (f gr)"
    "\<And>gr. g_label (f gr) = g_label gr"
  shows "tables (change_group f g c)"
proof (cases "g < length (c_heap c)")
  case True
  then have "good_group (length (c_ops c)) (f (c_heap c ! g))" using assms(1,2) by (simp add: tables_def list_all_length)
  then have "list_all (good_group (length (c_ops c))) ((c_heap c)[g := f (c_heap c ! g)])"
    using assms(1) True by (auto simp: tables_def list_all_length nth_list_update)
  moreover have "g_label ((c_heap c)[g := f (c_heap c ! g)] ! h) = g_label (c_heap c ! h)" for h
    using True assms(3) by (cases "h = g") simp_all
  ultimately show ?thesis using assms(1) by (auto simp: tables_def change_group_def)
next
  case False
  then show ?thesis using assms(1) by (simp add: change_group_def list_update_beyond)
qed

lemma length_change_op [simp]: "length (c_ops (change_op f i c)) = length (c_ops c)"
  by (simp add: change_op_def)

lemma tables_change_op: "tables (change_op f i c) = tables c"
  by (simp add: tables_def)

lemma find_group_tables:
  assumes "find_group definedTags tag i c = Inr (g, c')" "tables c"
  shows "tables c' \<and> c_ops c' = c_ops c"
proof (cases "map_of (c_groups c) (clientProperty (to_str tag))")
  case None
  define n where "n = length (c_heap c)"
  from None assms(1) obtain gr where h: "c_heap c' = c_heap c @ [gr]" "g_label gr = apiProperty (to_str tag)"
    "g_operations gr = []" "g_apis gr = []" and c': "c_ops c' = c_ops c"
    "c_groups c' = AList.update (clientProperty (to_str tag)) n (c_groups c)"
    "c_apis c' = AList.update (apiProperty (to_str tag)) n (c_apis c)"
    by (auto simp: find_group_def Let_def n_def split: if_splits)
  have g: "h < Suc n" if "(k, h) \<in> set (c_groups c')" for k h
  proof -
    have "(k, h) = (clientProperty (to_str tag), n) \<or> (k, h) \<in> set (c_groups c)"
      using subsetD [OF update_subset that [unfolded c'(2)]] by simp
    then show ?thesis using tables_client [OF assms(2), of k h] unfolding n_def by (elim disjE) simp_all
  qed
  have a: "g < Suc n \<and> g_label (c_heap c' ! g) = k" if "(k, g) \<in> set (c_apis c')" for k g
  proof -
    have "(k, g) = (apiProperty (to_str tag), n) \<or> (k, g) \<in> set (c_apis c)"
      using subsetD [OF update_subset that [unfolded c'(3)]] by simp
    then show ?thesis using tables_apis [OF assms(2), of k g] h unfolding n_def by (elim disjE) (simp_all add: nth_append)
  qed
  have "list_all (good_group (length (c_ops c'))) (c_heap c')"
    using assms(2) h c'(1) by (simp add: tables_def good_group_def)
  then show ?thesis using g a h(1) c'(1) unfolding tables_def by (auto simp: n_def)
qed (use assms in \<open>auto simp: find_group_def Let_def\<close>)

lemma bind_tag_tables:
  assumes "bind_tag definedTags i tag (operationId, c) = Inr (operationId', c')" "tables c" "i < length (c_ops c)"
  shows "tables c' \<and> length (c_ops c') = length (c_ops c)"
  using assms(1)
proof (rule bind_tag_steps)
  fix id1 c1 g c2 a
  assume f: "free_nickname i operationId c = (id1, c1)" and g: "find_group definedTags tag i c1 = Inr (g, c2)"
    and c': "c' = (change_group (enter_operation operationId' i) g (change_group (enter_call operationId' i) g
       (change_group (enter_call operationId' i) a c2)))\<lparr>c_apisArray := push_operation tag i (c_apisArray c2)\<rparr>"
  from f assms(2) have c1: "tables c1" "length (c_ops c1) = length (c_ops c)"
    by (auto simp: free_nickname_def tables_change_op split: if_splits)
  from find_group_tables [OF g c1(1)] c1(2) have c2: "tables c2" "length (c_ops c2) = length (c_ops c)" by simp_all
  have "tables (change_group (enter_operation operationId' i) g (change_group (enter_call operationId' i) g
       (change_group (enter_call operationId' i) a c2)))"
    using c2 assms(3) by (intro tables_change_group) (auto simp: good_enter good_call)
  then show ?thesis using c2 by (simp add: c' tables_def)
qed

lemma bind_tags_tables:
  "bind_tags definedTags i tags (operationId, c) = Inr (operationId', c') \<Longrightarrow> tables c \<Longrightarrow> i < length (c_ops c) \<Longrightarrow> tables c'"
proof (induction tags arbitrary: operationId c)
  case (Cons tag tags)
  from Cons.prems(1) obtain id1 c1 where b: "bind_tag definedTags i tag (operationId, c) = Inr (id1, c1)"
    and r: "bind_tags definedTags i tags (id1, c1) = Inr (operationId', c')" by (auto simp: bindE_eq_Inr)
  from bind_tag_tables [OF b Cons.prems(2,3)] Cons.prems(3) show ?case using Cons.IH [OF r] by simp
qed simp

lemma add_operations_tables: "add_operations env definedTags xs c = Inr c' \<Longrightarrow> tables c \<Longrightarrow> tables c'"
proof (induction xs arbitrary: c)
  case (Cons x xs)
  obtain path verb operation where x: "x = (path, verb, operation)" by (cases x)
  from Cons.prems(1) x obtain object operationId tags id1 c1 where
    b: "bind_tags definedTags (length (c_ops c)) tags (operationId, c\<lparr>c_ops := c_ops c @ [object]\<rparr>) = Inr (id1, c1)"
    and r: "add_operations env definedTags xs c1 = Inr c'"
    by (auto simp: add_operation_def bindE_eq_Inr)
  have "tables (c\<lparr>c_ops := c_ops c @ [object]\<rparr>)"
    using Cons.prems(2) good_group_mono by (fastforce simp: tables_def list_all_iff)
  from bind_tags_tables [OF b this] have "tables c1" by simp
  then show ?case using Cons.IH [OF r] by simp
qed simp

lemma tables_fold: "tables (fold (change_op f) ids c) = tables c"
  by (induction ids arbitrary: c) (simp_all add: tables_change_op)

text \<open>
  The tables of a client fit together when it is built, and after every change of its address:
  \<open>apis\<close> and the groups lead to operations that exist, a group is found under its label, and its
  two tables have the same entries, one for each identifier.
\<close>

theorem tables_fit:
  assumes "buildFromSpec env protocol response c = Inr c'" "tables c"
  shows "tables c' \<and> tables (setHost host c') \<and> tables (setBasePath basePath c') \<and> tables (setSchemes schemes c')"
proof -
  have "tables c'"
  proof (cases "truthy (lookup_field (c_fields c) (js ''isBuilt''))")
    case False
    from assms(1) False obtain fields models definedTags c1 where
      b: "add_operations env definedTags (spec_operations (fld response ''paths''))
        (c\<lparr>c_fields := fields, c_models := models, c_apis := [], c_apisArray := []\<rparr>) = Inr c1"
      and c': "c_ops c' = c_ops c1" "c_heap c' = c_heap c1" "c_groups c' = c_groups c1" "c_apis c' = c_apis c1"
      by (auto simp: buildFromSpec_def Let_def bindE_eq_Inr simp del: add_operations.simps)
    have "tables c1" using add_operations_tables [OF b] assms(2) by (simp add: tables_def)
    then show ?thesis by (simp add: tables_def c')
  qed (use assms in \<open>simp add: buildFromSpec_def\<close>)
  then show ?thesis
    by (simp add: setHost_def setBasePath_def setSchemes_def for_operations_def Let_def tables_fold) (simp add: tables_def)
qed

lemma fold_change_op:
  assumes "\<And>x. f (f x) = f x" "set ids \<subseteq> {..<length (c_ops c)}" "i < length (c_ops c)"
  shows "op_of (fold (change_op f) ids c) i = (if i \<in> set ids then f (op_of c i) else op_of c i)"
  using assms(2,3)
proof (induction ids arbitrary: c)
  case (Cons j ids)
  have "op_of (change_op f j c) i = (if i = j then f (op_of c i) else op_of c i)"
    using Cons.prems by (simp add: change_op_def op_of_def)
  then show ?case using Cons by (auto simp: assms(1))
qed simp

text \<open>
  \<open>setHost\<close> changes the host of every operation that is reached from \<open>apis\<close>, and nothing else of
  any operation.
\<close>

theorem host_reaches_operations:
  assumes "tables c" "i < length (c_ops c)"
  shows "op_of (setHost host c) i = (if i \<in> set (api_operations_of c) then (op_of c i)\<lparr>o_host := host\<rparr> else op_of c i)"
proof -
  have "snd ` set (g_operations (c_heap c ! g)) \<subseteq> {..<length (c_ops c)}" if "(k, g) \<in> set (c_apis c)" for k g
    using tables_apis [OF assms(1) that] tables_group [OF assms(1)] by (simp add: good_group_def)
  then have "set (api_operations_of c) \<subseteq> {..<length (c_ops c)}"
    unfolding api_operations_of_def by fastforce
  moreover have "api_operations_of (c\<lparr>c_fields := m\<rparr>) = api_operations_of c" "op_of (c\<lparr>c_fields := m\<rparr>) i = op_of c i" for m
    by (simp_all add: api_operations_of_def op_of_def)
  ultimately show ?thesis
    using assms(2) fold_change_op [of "\<lambda>op. op\<lparr>o_host := host\<rparr>" "api_operations_of c"
        "c\<lparr>c_fields := set_field (c_fields c) (js ''host'') (VStr host)\<rparr>" i]
    by (simp add: setHost_def for_operations_def)
qed

section \<open>When tags can be entered\<close>

text \<open>
  A tag must not name a property the client has for another purpose, and a group the client has
  for it must be among its \<open>apis\<close>.
\<close>

definition linked :: "jstr set \<Rightarrow> client \<Rightarrow> bool" where
  "linked used c \<longleftrightarrow> (\<forall>t \<in> used. \<not> defined_on c (clientProperty t) \<and>
     (map_of (c_groups c) (clientProperty t) \<noteq> None \<longrightarrow> map_of (c_apis c) (apiProperty t) \<noteq> None))"

lemma bind_tag_linked:
  assumes "linked used c" "t \<in> used" "inj_on clientProperty used"
  shows "\<exists>operationId' c'. bind_tag definedTags i (VStr t) (operationId, c) = Inr (operationId', c') \<and> linked used c'"
proof -
  obtain id1 c1 where f: "free_nickname i operationId c = (id1, c1)" by fastforce
  then have l1: "linked used c1" using assms(1) by (auto simp: free_nickname_def linked_def defined_on_def split: if_splits)
  obtain g c2 where g: "find_group definedTags (VStr t) i c1 = Inr (g, c2)" "linked used c2"
    "map_of (c_apis c2) (apiProperty t) \<noteq> None"
  proof (cases "map_of (c_groups c1) (clientProperty t)")
    case None
    have d: "\<not> defined_on c1 (clientProperty t)" using l1 assms(2) by (simp add: linked_def)
    from None d obtain c2 n where r: "find_group definedTags (VStr t) i c1 = Inr (n, c2)"
      and c2: "c_fields c2 = c_fields c1" "c_groups c2 = AList.update (clientProperty t) n (c_groups c1)"
        "c_apis c2 = AList.update (apiProperty t) n (c_apis c1)"
      by (simp add: find_group_def Let_def)
    have "linked used c2"
      using l1 assms(2,3) by (auto simp: linked_def defined_on_def c2 update_conv' inj_on_def)
    moreover have "map_of (c_apis c2) (apiProperty t) \<noteq> None" by (simp add: c2 update_conv')
    ultimately show ?thesis using r that by blast
  next
    case (Some g)
    then have "map_of (c_apis c1) (apiProperty t) \<noteq> None" using l1 assms(2) by (auto simp: linked_def)
    moreover have "find_group definedTags (VStr t) i c1 = Inr (g, c1)" using Some by (simp add: find_group_def)
    ultimately show ?thesis using that l1 by blast
  qed
  have same: "linked used (c'\<lparr>c_apisArray := apis\<rparr>) = linked used c'" "linked used (change_group h n c') = linked used c'" for c' apis h n
    by (simp_all add: linked_def defined_on_def)
  obtain a where a: "map_of (c_apis c2) (apiProperty t) = Some a" using g(3) by blast
  show ?thesis using g(2) by (simp add: bind_tag_def f g(1) a Let_def same)
qed

lemma tags_entered_lemma:
  assumes "linked used c" "set ts \<subseteq> used" "inj_on clientProperty used"
  shows "\<exists>operationId' c'. bind_tags definedTags i (map VStr ts) (operationId, c) = Inr (operationId', c') \<and> linked used c'"
  using assms(1,2)
proof (induction ts arbitrary: operationId c)
  case (Cons t ts)
  then obtain id1 c1 where "bind_tag definedTags i (VStr t) (operationId, c) = Inr (id1, c1)" "linked used c1"
    using bind_tag_linked [OF Cons.prems(1) _ assms(3), of t definedTags i operationId] Cons.prems(2) by auto
  then show ?case using Cons by simp
qed simp

text \<open>
  C39. Tags are entered without an exception if they are texts that do not name another property
  of the client and no two of them lead to the same property; each operation then also leaves the
  client ready for the next.
\<close>

theorem tags_entered:
  assumes "linked used c" "set ts \<subseteq> used" "inj_on clientProperty used"
  shows "\<exists>operationId' c'. bind_tags definedTags i (map VStr ts) (operationId, c) = Inr (operationId', c') \<and> linked used c'"
  using assms by (rule tags_entered_lemma)

text \<open>A tag that names something else, as \<open>definitions\<close> does in most specifications, ends the construction.\<close>

lemma tag_of_property_fails:
  assumes "defined_on c (clientProperty t)" "map_of (c_groups c) (clientProperty t) = None"
  shows "bind_tag definedTags i (VStr t) (operationId, c) = Inl not_object"
  using assms by (simp add: bind_tag_def free_nickname_def find_group_def defined_on_def Let_def)

lemma add_operations_linked:
  assumes "linked used c" "inj_on clientProperty used"
    and "\<forall>(path, verb, operation) \<in> set xs. text_tags operation \<and> set (op_tags operation) \<subseteq> used \<and>
      (\<forall>self. \<exists>r. make_operation env self path verb operation = Inr r)"
  shows "\<exists>c'. add_operations env definedTags xs c = Inr c'"
  using assms(1,3)
proof (induction xs arbitrary: c)
  case (Cons x xs)
  obtain path verb operation where x: "x = (path, verb, operation)" by (cases x)
  then obtain object operationId tags where m: "make_operation env c path verb operation = Inr (object, operationId, tags)"
    using Cons.prems(2) by fastforce
  have tags: "tags = map VStr (op_tags operation)" "set (op_tags operation) \<subseteq> used"
    using make_operation_facts [OF m] text_tags_map Cons.prems(2) x by auto
  have "linked used (c\<lparr>c_ops := c_ops c @ [object]\<rparr>)" using Cons.prems(1) by (simp add: linked_def defined_on_def)
  from tags_entered_lemma [OF this tags(2) assms(2)] obtain id1 c1 where
    "bind_tags definedTags (length (c_ops c)) tags (operationId, c\<lparr>c_ops := c_ops c @ [object]\<rparr>) = Inr (id1, c1)" "linked used c1"
    unfolding tags(1) by blast
  then show ?case using Cons x m by (simp add: add_operation_def)
qed simp

section \<open>Examples\<close>

text \<open>Two tags on two paths.\<close>

definition pet_operation :: "string \<Rightarrow> string list \<Rightarrow> json" where
  "pet_operation name tags =
    VObj [(js ''operationId'', VStr (js name)), (js ''tags'', VArr (map (\<lambda>t. VStr (js t)) tags))]"

definition pet_spec :: json where
  "pet_spec = VObj [(js ''paths'', VObj [(js ''/a'', VObj
     [(js ''get'', pet_operation ''one'' [''x'']), (js ''put'', pet_operation ''two'' [''y'', ''x''])])])]"

definition pet_env :: build_env where
  "pet_env = \<lparr>b_markup = \<lparr>mockSignature = (\<lambda>m. []), sampleJSON = (\<lambda>m. VUndef)\<rparr>, b_window_host = js ''here'', b_macro = own_default\<rparr>"

lemma pet_ids:
  "idFromOp p m (pet_operation ''one'' tags) = Inr (js ''one'', pet_operation ''one'' tags)"
  "idFromOp p m (pet_operation ''two'' tags) = Inr (js ''two'', pet_operation ''two'' tags)"
proof -
  have "clean_id (map (\<lambda>c. if not_id_char c then 95 else c) (js ''one'')) = js ''one''" by code_simp
  moreover have "clean_id (map (\<lambda>c. if not_id_char c then 95 else c) (js ''two'')) = js ''two''" by code_simp
  ultimately show "idFromOp p m (pet_operation ''one'' tags) = Inr (js ''one'', pet_operation ''one'' tags)"
    "idFromOp p m (pet_operation ''two'' tags) = Inr (js ''two'', pet_operation ''two'' tags)"
    by (simp_all add: idFromOp_def pet_operation_def as_string_def)
qed

lemma pet_operations: "spec_operations (fld pet_spec ''paths'') =
  [(js ''/a'', js ''get'', pet_operation ''one'' [''x'']), (js ''/a'', js ''put'', pet_operation ''two'' [''y'', ''x''])]"
  by (simp add: spec_operations_def pet_spec_def supportedOperationMethods_def pet_operation_def)

lemma pet_tags: "tags \<noteq> [] \<Longrightarrow> operation_tags (pet_operation name tags) = pet_operation name tags"
  "tags \<noteq> [] \<Longrightarrow> op_tags (pet_operation name tags) = map js tags"
  "tags \<noteq> [] \<Longrightarrow> text_tags (pet_operation name tags)"
  by (simp_all add: operation_tags_def op_tags_def text_tags_def pet_operation_def comp_def list_all_iff)

definition pet_object :: "client \<Rightarrow> jstr \<Rightarrow> jstr \<Rightarrow> string \<Rightarrow> string list \<Rightarrow> client_operation" where
  "pet_object self path verb name tags = fst (projr (make_operation pet_env self path verb (pet_operation name tags)))"

lemma pet_make:
  assumes "name = ''one'' \<or> name = ''two''" "tags \<noteq> []"
  shows "make_operation pet_env self path verb (pet_operation name tags) =
    Inr (pet_object self path verb name tags, js name, map (\<lambda>t. VStr (js t)) tags)"
proof -
  have ids: "idFromOp p m (pet_operation name tags) = Inr (js name, pet_operation name tags)" for p m
    using assms(1) pet_ids by auto
  have params: "orElse (fld (orElse (pet_operation name tags) (VObj [])) ''parameters'') (VArr []) = VArr []"
    and docs: "fld (pet_operation name tags) ''externalDocs'' = VUndef"
    and tags: "items_of (fld (pet_operation name tags) ''tags'') = map (\<lambda>t. VStr (js t)) tags"
    by (simp_all add: pet_operation_def orElse_def)
  have "\<exists>ob. make_operation pet_env self path verb (pet_operation name tags) = Inr (ob, js name, map (\<lambda>t. VStr (js t)) tags)"
    using assms(2) ids by (simp add: make_operation_def pet_tags Let_def Operation_def params docs tags docs_extensions_def case_prod_beta)
  then show ?thesis unfolding pet_object_def by (elim exE) simp
qed

lemma pet_names:
  "clientProperty (js ''x'') = js ''x''" "clientProperty (js ''y'') = js ''y''" "apiProperty (js ''x'') = js ''x''"
  "apiProperty (js ''y'') = js ''y''" "js ''one'' \<notin> set reservedApiTags" "js ''two'' \<notin> set reservedApiTags"
  "js ''x'' \<notin> set inherited" "js ''y'' \<notin> set inherited"
  by (simp_all add: collide_free_def reservedClientTags_def reservedApiTags_def inherited_def)

lemma pet_built: "\<exists>c'. buildFromSpec pet_env (Some (js ''http:'')) pet_spec new_client = Inr c'"
proof -
  have spec: "fld pet_spec ''securityDefinitions'' = VUndef" "fld pet_spec ''tags'' = VUndef" "fld pet_spec ''definitions'' = VUndef"
    by (simp_all add: pet_spec_def)
  have new: "\<not> truthy (lookup_field (c_fields new_client) (js ''isBuilt''))" by (simp add: new_client_def assign_def)
  define fields where "fields = address_fields (Some (js ''http:'')) (spec_fields pet_spec VUndef (c_fields new_client))"
  have free: "lookup_field fields (js ''x'') = VUndef" "lookup_field fields (js ''y'') = VUndef"
    by (simp_all add: fields_def address_fields_def spec_fields_def new_client_def assign_def Let_def pet_spec_def)
  have l: "linked (js ` {''x'', ''y''}) (new_client\<lparr>c_fields := fields, c_models := [], c_apis := [], c_apisArray := []\<rparr>)"
    using free by (simp add: linked_def defined_on_def pet_names new_client_def)
  have i: "inj_on clientProperty (js ` {''x'', ''y''})" by (simp add: inj_on_def pet_names)
  have "\<exists>c'. add_operations pet_env [] (spec_operations (fld pet_spec ''paths''))
      (new_client\<lparr>c_fields := fields, c_models := [], c_apis := [], c_apisArray := []\<rparr>) = Inr c'"
    by (rule add_operations_linked [OF l i]) (simp add: pet_operations pet_tags pet_make)
  moreover have "c_models new_client = []" by (simp add: new_client_def)
  ultimately show ?thesis
    by (auto simp: buildFromSpec_def new spec map_fields_def define_models_def Let_def simp flip: fields_def)
qed

theorem operation_id_unique_witness:
  "makeUniqueOperationId (js ''get'') [js ''put'', js ''get''] \<notin> {js ''put'', js ''get''}"
  using operation_id_unique [of "js ''get''" "[js ''put'', js ''get'']"] by simp

theorem operation_id_shape_witness: "id_like (js ''one'')"
  using operation_id_shape [OF pet_ids(1)] by blast

theorem scheme_listed_witness:
  "choose_scheme (Some (js ''https:'')) VUndef [VStr (js ''ws''), VStr (js ''http'')] (parseUri []) \<in> {VStr (js ''ws''), VStr (js ''http'')}"
  using scheme_listed [of "[VStr (js ''ws''), VStr (js ''http'')]" "js ''https:''" "parseUri []"] by simp

theorem parseUri_parts_witness:
  "u_host (parseUri (js ''http'' @ js ''://'' @ js ''node'' @ js '':'' @ js ''6869'' @ js ''/api'')) = VStr (js ''node'')"
proof -
  have "host_name (js ''http'')" "host_name (js ''node'')" "list_all is_digit (js ''6869'')" "hd (js ''/api'') = 47"
    by code_simp+
  then show ?thesis
    using parseUri_parts [of "js ''http''" "js ''node''" "js ''6869''" "js ''/api''"] by (simp add: Let_def)
qed

lemma pet_pairs: "tag_pairs 0 (spec_operations (fld pet_spec ''paths'')) = [(0, js ''x''), (1, js ''y''), (1, js ''x'')]"
  by (simp add: pet_operations tag_pairs_def pet_tags)

theorem sidebar_complete_witness:
  "case buildFromSpec pet_env (Some (js ''http:'')) pet_spec new_client of
     Inr c \<Rightarrow> \<forall>api \<in> set (c_apisArray c). og_tag api = VStr (js ''x'') \<longrightarrow> og_operationsArray api = [0, 1]
   | Inl _ \<Rightarrow> False"
proof -
  obtain c' where b: "buildFromSpec pet_env (Some (js ''http:'')) pet_spec new_client = Inr c'" using pet_built by blast
  have "inj_on clientProperty (snd ` set (tag_pairs 0 (spec_operations (fld pet_spec ''paths''))))"
    by (simp add: inj_on_def pet_pairs pet_names)
  then have "\<forall>api \<in> set (c_apisArray c'). og_operationsArray api = map fst (filter (\<lambda>p. VStr (snd p) = og_tag api)
      [(0, js ''x''), (1, js ''y''), (1, js ''x'')])"
    using sidebar_complete [OF b _ _ _ refl]
    by (simp add: pet_pairs) (simp add: new_client_def assign_def pet_operations pet_tags)
  then show ?thesis using b by simp
qed

lemma new_client_tables: "tables new_client"
  by (simp add: tables_def new_client_def)

theorem tables_fit_witness:
  "case buildFromSpec pet_env (Some (js ''http:'')) pet_spec new_client of
     Inr c \<Rightarrow> tables (setHost (js ''there'') c) | Inl _ \<Rightarrow> False"
proof -
  obtain c' where b: "buildFromSpec pet_env (Some (js ''http:'')) pet_spec new_client = Inr c'" using pet_built by blast
  then show ?thesis using tables_fit [OF b new_client_tables] by simp
qed

definition small_client :: client where
  "small_client = new_client\<lparr>c_ops := [pet_object new_client (js ''/a'') (js ''get'') ''one'' [''x'']],
     c_heap := [\<lparr>g_label = js ''x'', g_operations = [(js ''one'', 0)], g_apis = [(js ''one'', 0)], g_calls = [],
       g_description = VUndef, g_externalDocs = VUndef, g_vendorExtensions = VUndef\<rparr>], c_apis := [(js ''x'', 0)]\<rparr>"

theorem host_reaches_operations_witness: "o_host (op_of (setHost (js ''there'') small_client) 0) = js ''there''"
proof -
  have "tables small_client" by (simp add: tables_def small_client_def good_group_def new_client_def)
  then have "op_of (setHost (js ''there'') small_client) 0 =
    (if 0 \<in> set (api_operations_of small_client) then (op_of small_client 0)\<lparr>o_host := js ''there''\<rparr> else op_of small_client 0)"
    by (rule host_reaches_operations) (simp add: small_client_def)
  then show ?thesis by (simp add: api_operations_of_def small_client_def)
qed

theorem tags_entered_witness:
  "\<exists>operationId' c'. bind_tags [] 0 (map VStr [js ''x'', js ''y'', js ''x'']) (js ''one'', new_client) = Inr (operationId', c') \<and>
     linked (js ` {''x'', ''y''}) c'"
  by (rule tags_entered) (simp_all add: linked_def defined_on_def new_client_def assign_def pet_names)

end
