(* ===== verification/SpecConverter.thy ===== *)
theory SpecConverter
  imports SwaggerAuth
begin

text \<open>
  \<open>lib/spec-converter.js\<close>: a specification of Swagger 1.x becomes one of Swagger 2.0.  The
  converter's state is \<open>this.modelMap\<close> and \<open>this.docLocation\<close>; the document under construction
  (\<open>swagger\<close>) is the list of its properties.  A specification is what \<open>JSON.parse\<close> makes, and
  its names are not those of properties every object inherits.

  An exception leaves the document as far as it was built: the operations that write to it
  answer the state and the exception, if there was one, side by side (\<open>outcome\<close>).
\<close>

section \<open>Outcomes\<close>

type_synonym 's outcome = "'s \<times> jserr option"

definition andThen :: "'s outcome \<Rightarrow> ('s \<Rightarrow> 's outcome) \<Rightarrow> 's outcome" where
  "andThen r f = (case r of (s, None) \<Rightarrow> f s | (s, Some e) \<Rightarrow> (s, Some e))"

fun each :: "('a \<Rightarrow> 's \<Rightarrow> 's outcome) \<Rightarrow> 'a list \<Rightarrow> 's \<Rightarrow> 's outcome" where
  "each f [] s = (s, None)"
| "each f (x # xs) s = andThen (f x s) (each f xs)"

text \<open>A step that computes a value, which may throw, and then stores it.\<close>

definition storing :: "jserr + 'a \<Rightarrow> ('a \<Rightarrow> 's) \<Rightarrow> 's \<Rightarrow> 's outcome" where
  "storing r f s = (case r of Inl e \<Rightarrow> (s, Some e) | Inr a \<Rightarrow> (f a, None))"

section \<open>Types\<close>

type_synonym model_map = "(jstr \<times> jstr) list"

text \<open>\<open>this.modelMap[k]\<close>, where an empty name counts as none.\<close>

definition model_name :: "model_map \<Rightarrow> json \<Rightarrow> jstr option" where
  "model_name mm k = (case map_of mm (to_str k) of Some n \<Rightarrow> (if n = [] then None else Some n) | None \<Rightarrow> None)"

definition reference_to :: "jstr \<Rightarrow> json" where
  "reference_to n = VStr (definitions_prefix @ n)"

definition type_obj :: "string \<Rightarrow> json" where
  "type_obj t = VObj [(js ''type'', VStr (js t))]"

definition typed :: "string \<Rightarrow> string \<Rightarrow> json" where
  "typed t f = VObj [(js ''type'', VStr (js t)), (js ''format'', VStr (js f))]"

definition array_obj :: "json \<Rightarrow> json" where
  "array_obj it = VObj [(js ''type'', VStr (js ''array'')), (js ''items'', it)]"

definition ref_obj :: "json \<Rightarrow> json" where
  "ref_obj r = VObj [(js ''$ref'', r)]"

definition detected :: "json \<Rightarrow> json" where
  "detected source = orElse (fld source ''type'')
     (orElse (fld source ''dataType'') (orElse (fld source ''responseClass'') (VStr [])))"

text \<open>The branches of \<open>toJsonSchema\<close> between \<open>list[\<close> and \<open>array\<close>.\<close>

definition primitive_schema :: "jstr \<Rightarrow> jstr \<Rightarrow> json option" where
  "primitive_schema lcType format =
    (if lcType = js ''int'' \<or> lcType = js ''integer'' \<and> format = js ''int32'' then Some (typed ''integer'' ''int32'')
     else if lcType = js ''long'' \<or> lcType = js ''integer'' \<and> format = js ''int64'' then Some (typed ''integer'' ''int64'')
     else if lcType = js ''integer'' then Some (typed ''integer'' ''int64'')
     else if lcType = js ''float'' \<or> lcType = js ''number'' \<and> format = js ''float'' then Some (typed ''number'' ''float'')
     else if lcType = js ''double'' \<or> lcType = js ''number'' \<and> format = js ''double'' then Some (typed ''number'' ''double'')
     else if lcType = js ''string'' \<and> format = js ''date-time'' \<or> lcType = js ''date'' then Some (typed ''string'' ''date-time'')
     else if lcType = js ''string'' then Some (type_obj ''string'')
     else if lcType = js ''file'' then Some (type_obj ''file'')
     else if lcType = js ''boolean'' then Some (type_obj ''boolean'')
     else None)"

definition list_prefix :: jstr where
  "list_prefix = js ''list[''"

text \<open>\<open>substring(5, length - 1)\<close> of a text of at least five code units; the arguments are swapped if need be.\<close>

definition inner_type :: "jstr \<Rightarrow> jstr" where
  "inner_type s = str_slice s (min 5 (length s - 1)) (max 5 (length s - 1))"

lemma lookup_field_size: "lookup_field m k \<noteq> VUndef \<Longrightarrow> size (lookup_field m k) < size (VObj m)"
  by (induction m) auto

lemma get_size: "truthy (get v k) \<Longrightarrow> k \<noteq> js ''name'' \<Longrightarrow> size (get v k) < size v"
proof (cases v)
  case (VObj m)
  assume "truthy (get v k)"
  then have "lookup_field m k \<noteq> VUndef" using VObj by (metis get.simps(1) truthy.simps(1))
  then show ?thesis using lookup_field_size [of m k] VObj by simp
qed auto

lemma string_field_size:
  "get v k = VStr s \<Longrightarrow> k \<noteq> js ''name'' \<Longrightarrow> size (VObj [(k', VStr s')]) \<le> size v"
proof (cases v)
  case (VObj m)
  assume "get v k = VStr s"
  then have "lookup_field m k = VStr s" using VObj by simp
  then show ?thesis unfolding VObj by (induction m) (auto split: if_splits)
qed (auto split: if_splits)

lemma detected_cases:
  assumes "as_string (detected source) = Inr d" "d \<noteq> []"
  obtains k where "get source k = VStr d" "k \<noteq> js ''name''"
  using assms by (auto simp: detected_def orElse_def as_string_def split: json.splits if_splits)

lemma detected_size:
  "as_string (detected source) = Inr d \<Longrightarrow> d \<noteq> [] \<Longrightarrow> size (VObj [(k, VStr s)]) \<le> size source"
  by (erule (1) detected_cases) (rule string_field_size)

lemma list_prefix_length: "starts_with list_prefix s \<Longrightarrow> 5 \<le> length s"
  by (auto simp: starts_with_iff list_prefix_def)

lemma length_inner_type: "5 \<le> length s \<Longrightarrow> length (inner_type s) < length s"
  by (simp add: inner_type_def str_slice_def)

lemma detected_type_obj: "detected (VObj [(js ''type'', VStr s)]) = VStr s"
  by (simp add: detected_def orElse_def)

function toJsonSchema :: "model_map \<Rightarrow> json \<Rightarrow> jserr + json" where
  "toJsonSchema mm source =
    (if \<not> truthy source then Inr (VStr (js ''object''))
     else case as_string (detected source) of
       Inl e \<Rightarrow> Inl e
     | Inr detectedType \<Rightarrow> (case as_string (orElse (fld source ''format'') (VStr [])) of
         Inl e \<Rightarrow> Inl e
       | Inr fmt \<Rightarrow>
          (let lcType = to_lower detectedType; format = to_lower fmt in
           if starts_with list_prefix lcType then
             bindE (toJsonSchema mm (VObj [(js ''type'', VStr (inner_type detectedType))])) (\<lambda>t. Inr (array_obj t))
           else case primitive_schema lcType format of
             Some t \<Rightarrow> Inr t
           | None \<Rightarrow>
              if lcType = js ''array'' \<or> lcType = js ''list'' then
                (if truthy (fld source ''items'')
                 then bindE (toJsonSchema mm (fld source ''items'')) (\<lambda>t. Inr (array_obj t))
                 else Inr (array_obj (type_obj ''object'')))
              else if truthy (fld source ''$ref'') then
                Inr (ref_obj (case model_name mm (fld source ''$ref'') of
                  Some n \<Rightarrow> reference_to n | None \<Rightarrow> fld source ''$ref''))
              else if lcType = js ''void'' \<or> lcType = [] then Inr (VObj [])
              else (case model_name mm (fld source ''type'') of
                  Some n \<Rightarrow> Inr (ref_obj (reference_to n))
                | None \<Rightarrow> Inr (VObj [(js ''type'', fld source ''type'')])))))"
  by pat_completeness auto

text \<open>
  The recursion ends: a list type has a shorter type inside, and the items of an array are a
  part of it.
\<close>

definition type_length :: "json \<Rightarrow> nat" where
  "type_length source = (case detected source of VStr s \<Rightarrow> length s | _ \<Rightarrow> 0)"

termination toJsonSchema
proof (relation "measures [\<lambda>(mm, s). size s, \<lambda>(mm, s). type_length s]", goal_cases)
  case (2 mm source d f lc fmt)
  then have d: "5 \<le> length d" by (metis list_prefix_length length_to_lower)
  then have "d \<noteq> []" by auto
  moreover have "detected source = VStr d" using 2 by (auto simp: as_string_def split: json.splits)
  ultimately show ?case
    using d length_inner_type [of d] detected_size [of source d "js ''type''" "inner_type d"] 2
    by (auto simp: type_length_def detected_type_obj simp del: json.size)
next
  case (3 mm source)
  then show ?case using get_size by auto
qed simp

declare toJsonSchema.simps [simp del]

section \<open>Properties, models and parameters\<close>

definition dataType :: "model_map \<Rightarrow> json \<Rightarrow> fields \<Rightarrow> jserr + fields" where
  "dataType mm source target =
    (if \<not> is_object source then Inr target
     else
       let target = set_if ''minimum'' (fld source ''minimum'') target;
           target = set_if ''maximum'' (fld source ''maximum'') target;
           target = set_if ''format'' (fld source ''format'') target;
           target = (if fld source ''defaultValue'' = VUndef then target
             else set_field target (js ''default'') (fld source ''defaultValue''))
       in bindE (toJsonSchema mm source) (\<lambda>jsonSchemaType. Inr (
            let target = set_if ''type'' (fld jsonSchemaType ''type'') target;
                target = set_if ''format'' (fld jsonSchemaType ''format'') target;
                target = (if truthy (fld jsonSchemaType ''$ref'')
                  then set_field target (js ''schema'') (ref_obj (fld jsonSchemaType ''$ref'')) else target)
            in set_if ''items'' (fld jsonSchemaType ''items'') target)))"

definition is_required :: "json \<Rightarrow> bool" where
  "is_required p \<longleftrightarrow> fld p ''required'' = VBool True \<or> fld p ''required'' = VStr (js ''true'')"

definition convert_property :: "model_map \<Rightarrow> json \<Rightarrow> jserr + fields" where
  "convert_property mm existing = bindE (dataType mm existing []) (\<lambda>property.
     bindE (present_value existing) (\<lambda>_. Inr (
       set_if ''enum'' (fld existing ''enum'') (set_if ''description'' (fld existing ''description'') property))))"

fun convert_properties :: "model_map \<Rightarrow> fields \<Rightarrow> fields \<Rightarrow> json list \<Rightarrow> jserr + fields \<times> json list" where
  "convert_properties mm [] properties required = Inr (properties, required)"
| "convert_properties mm ((n, existing) # ps) properties required =
    bindE (convert_property mm existing) (\<lambda>property.
      convert_properties mm ps (set_field properties n (VObj property))
        (if is_required existing then required @ [VStr n] else required))"

definition convert_model :: "model_map \<Rightarrow> json \<Rightarrow> jserr + json" where
  "convert_model mm existing = bindE (present_value existing) (\<lambda>_.
     bindE (convert_properties mm (for_in (fld existing ''properties'')) [] []) (\<lambda>(properties, required). Inr (
       VObj [(js ''properties'', VObj properties),
         (js ''required'', if required \<noteq> [] then VArr required else fld existing ''required'')])))"

definition models :: "model_map \<Rightarrow> json \<Rightarrow> fields \<Rightarrow> fields outcome" where
  "models mm obj swagger =
    (if \<not> is_object obj then (swagger, None)
     else each (\<lambda>(name, existing) swagger. storing (convert_model mm existing)
           (\<lambda>schema. set_field swagger (js ''definitions'')
             (put (lookup_field swagger (js ''definitions'')) name schema)) swagger)
         (for_in obj)
         (set_field swagger (js ''definitions'') (orElse (lookup_field swagger (js ''definitions'')) (VObj []))))"

definition convert_parameter :: "model_map \<Rightarrow> json \<Rightarrow> jserr + json" where
  "convert_parameter mm existing = bindE (present_value existing) (\<lambda>_.
    let paramType = fld existing ''paramType'';
        parameter = set_if ''enum'' (fld existing ''enum'')
          [(js ''name'', if paramType = VStr (js ''body'') then VStr (js ''body'') else fld existing ''name''),
           (js ''description'', fld existing ''description''),
           (js ''required'', fld existing ''required''),
           (js ''in'', if paramType = VStr (js ''form'') then VStr (js ''formData'') else paramType)]
    in bindE
      (if fld existing ''allowMultiple'' = VBool True \<or> fld existing ''allowMultiple'' = VStr (js ''true'') then
         bindE (dataType mm existing []) (\<lambda>innerType.
           let parameter = set_field (set_field parameter (js ''type'') (VStr (js ''array''))) (js ''items'') (VObj innerType);
               av = fld existing ''allowableValues''
           in Inr (if truthy av \<and> fld av ''valueType'' = VStr (js ''LIST'')
                then set_field parameter (js ''enum'') (fld av ''values'') else parameter))
       else dataType mm existing parameter)
      (\<lambda>parameter. Inr (VObj (if fld existing ''defaultValue'' = VUndef then parameter
         else set_field parameter (js ''default'') (fld existing ''defaultValue'')))))"

text \<open>\<open>parameters\<close>, which adds to an operation that has none yet.\<close>

definition convert_parameters :: "model_map \<Rightarrow> fields \<Rightarrow> json \<Rightarrow> jserr + fields" where
  "convert_parameters mm operation obj = bindE (map_until (convert_parameter mm) (items_of obj)) (\<lambda>ps.
     Inr (if ps = [] then operation else set_field operation (js ''parameters'') (VArr ps)))"

section \<open>Responses and operations\<close>

definition default_response :: "model_map \<Rightarrow> json \<Rightarrow> jserr + json" where
  "default_response mm existing = bindE (dataType mm existing []) (\<lambda>r. Inr (VObj (
     if \<not> truthy (lookup_field r (js ''schema'')) \<and> truthy (lookup_field r (js ''type''))
     then [(js ''schema'', VObj r)] else r)))"

definition convert_response :: "json \<Rightarrow> jserr + jstr \<times> json" where
  "convert_response existing = bindE (present_value existing) (\<lambda>_. Inr (to_str (fld existing ''code''), VObj (
     (js ''description'', fld existing ''message'') #
     (if truthy (fld existing ''responseModel'')
      then [(js ''schema'', ref_obj (reference_to (to_str (fld existing ''responseModel''))))] else []))))"

definition responseMessages :: "model_map \<Rightarrow> fields \<Rightarrow> json \<Rightarrow> jserr + fields" where
  "responseMessages mm operation existing =
    (if \<not> is_object existing then Inr operation
     else bindE (default_response mm existing) (\<lambda>defaultResponse.
       bindE (map_until convert_response (items_of (fld existing ''responseMessages''))) (\<lambda>rs.
         let responses = foldl (\<lambda>m (code, r). set_field m code r) [] rs;
             has200 = (\<exists>r \<in> set (items_of (fld existing ''responseMessages'')). fld r ''code'' = VNum 200)
         in Inr (set_field operation (js ''responses'')
              (VObj (set_field responses (js (if has200 then ''default'' else ''200'')) defaultResponse))))))"

definition ends_with :: "jstr \<Rightarrow> jstr \<Rightarrow> bool" where
  "ends_with p s \<longleftrightarrow> length p \<le> length s \<and> drop (length s - length p) s = p"

definition extractTag :: "json \<Rightarrow> jserr + jstr" where
  "extractTag resourcePath = bindE (as_string (orElse resourcePath (VStr (js ''default'')))) (\<lambda>pathString.
     let pathString = (if starts_with (js ''http:'') pathString \<or> starts_with (js ''https:'') pathString
           then last (split_at 47 pathString) else pathString);
         pathString = (if ends_with (js ''.json'') pathString
           then take (length pathString - 5) pathString else pathString)
     in Inr (replace_first (js ''/'') [] pathString))"

definition tags_of :: "fields \<Rightarrow> json list" where
  "tags_of swagger = items_of (orElse (lookup_field swagger (js ''tags'')) (VArr []))"

definition add_tag :: "jstr \<Rightarrow> fields \<Rightarrow> fields" where
  "add_tag tag swagger = set_field swagger (js ''tags'') (VArr (
     if \<exists>t \<in> set (tags_of swagger). fld t ''name'' = VStr tag then tags_of swagger
     else tags_of swagger @ [VObj [(js ''name'', VStr tag)]]))"

definition scope_list :: "json \<Rightarrow> jserr + json list" where
  "scope_list scopes =
    map_until (\<lambda>(_, s). bindE (present_value s) (\<lambda>s. Inr (fld s ''scope''))) (for_in scopes)"

definition requirement :: "jstr \<times> json \<Rightarrow> jserr + json" where
  "requirement = (\<lambda>(key, scopes).
     bindE (if truthy scopes then scope_list scopes else Inr []) (\<lambda>ss. Inr (VObj [(key, VArr ss)])))"

definition effective_auth :: "json \<Rightarrow> json \<Rightarrow> json" where
  "effective_auth existing resourceLevelAuth =
    (if truthy existing \<and> for_in existing = [] then resourceLevelAuth else existing)"

definition operation_head :: "fields \<Rightarrow> jstr \<Rightarrow> json \<Rightarrow> json list \<Rightarrow> fields" where
  "operation_head swagger tag existing security =
    (let inherited = (\<lambda>k. orElse (fld existing k) (lookup_field swagger (js k)));
         operation = [(js ''tags'', VArr [VStr tag])];
         operation = (if security = [] then operation else set_field operation (js ''security'') (VArr security));
         operation = set_if ''consumes'' (inherited ''consumes'') operation;
         operation = set_if ''produces'' (inherited ''produces'') operation;
         operation = set_if ''summary'' (fld existing ''summary'') operation;
         operation = set_if ''description'' (fld existing ''notes'') operation;
         operation = set_if ''operationId'' (fld existing ''nickname'') operation
     in set_if ''deprecated'' (fld existing ''deprecated'') operation)"

definition convert_operation :: "model_map \<Rightarrow> fields \<Rightarrow> jstr \<Rightarrow> json \<Rightarrow> json \<Rightarrow> jserr + jstr \<times> json" where
  "convert_operation mm swagger tag resourceLevelAuth existing =
    bindE (present_value existing) (\<lambda>_.
    bindE (as_string (orElse (fld existing ''method'') (fld existing ''httpMethod''))) (\<lambda>m.
    bindE (map_until requirement (for_in (effective_auth (fld existing ''authorizations'') resourceLevelAuth))) (\<lambda>security.
    bindE (convert_parameters mm (operation_head swagger tag existing security) (fld existing ''parameters'')) (\<lambda>operation.
    bindE (responseMessages mm operation existing) (\<lambda>operation. Inr (to_lower m, VObj operation))))))"

text \<open>
  The object of a path the document has already is written to in place, one that is new is
  stored after the loop.
\<close>

definition operations :: "model_map \<Rightarrow> json \<Rightarrow> json \<Rightarrow> json \<Rightarrow> json \<Rightarrow> fields \<Rightarrow> fields outcome" where
  "operations mm path resourcePath obj resourceLevelAuth swagger =
    (if \<not> is_array obj then (swagger, None)
     else
       let swagger = (if truthy (lookup_field swagger (js ''paths'')) then swagger
             else set_field swagger (js ''paths'') (VObj []));
           existing = get (lookup_field swagger (js ''paths'')) (to_str path)
       in case extractTag resourcePath of
            Inl e \<Rightarrow> (swagger, Some e)
          | Inr tag \<Rightarrow>
             (let swagger = add_tag tag swagger;
                  (pathObj, thrown) = each (\<lambda>op pathObj.
                    storing (convert_operation mm swagger tag resourceLevelAuth op)
                      (\<lambda>(method, operation). set_field pathObj method operation) pathObj)
                    (items_of obj) (fields_of existing)
              in (if thrown = None \<or> truthy existing
                  then set_field swagger (js ''paths'') (put (lookup_field swagger (js ''paths'')) (to_str path) (VObj pathObj))
                  else swagger, thrown)))"

section \<open>Declarations\<close>

definition split_url :: "jstr \<Rightarrow> fields \<Rightarrow> fields" where
  "split_url p swagger =
    (let pos = index_of p (js ''/'') in
     if pos > 0 then set_field (set_field swagger (js ''host'') (VStr (take (nat pos) p)))
       (js ''basePath'') (VStr (drop (nat pos) p))
     else set_field (set_field swagger (js ''host'') (VStr p)) (js ''basePath'') (VStr (js ''/'')))"

definition set_base :: "json \<Rightarrow> fields \<Rightarrow> jserr + fields" where
  "set_base basePath swagger = bindE (as_string basePath) (\<lambda>b. Inr (
     if starts_with (js ''http://'') b then split_url (drop 7 b) swagger
     else if starts_with (js ''https://'') b then split_url (drop 8 b) swagger
     else set_field swagger (js ''basePath'') (VStr b)))"

definition map_models :: "json \<Rightarrow> model_map \<Rightarrow> model_map outcome" where
  "map_models obj = each (\<lambda>(name, existing) mm.
     storing (present_value existing) (\<lambda>m. AList.update (to_str (orElse (fld m ''id'') (VStr name))) name mm) mm)
     (for_in (fld obj ''models''))"

definition api_operations :: "model_map \<Rightarrow> json \<Rightarrow> json \<Rightarrow> json \<Rightarrow> fields \<Rightarrow> fields outcome" where
  "api_operations mm obj resourceLevelAuth api swagger =
    (if api = VUndef \<or> api = VNull then (swagger, Some not_object)
     else operations mm (fld api ''path'') (fld obj ''resourcePath'') (fld api ''operations'') resourceLevelAuth swagger)"

definition declare_apis :: "model_map \<Rightarrow> json \<Rightarrow> fields \<Rightarrow> fields outcome" where
  "declare_apis mm obj swagger =
    (let resourceLevelAuth = (if truthy (fld obj ''authorizations'') then fld obj ''authorizations'' else VUndef)
     in andThen (each (api_operations mm obj resourceLevelAuth) (items_of (fld obj ''apis'')) swagger)
          (models mm (orElse (fld obj ''models'') (VObj []))))"

definition api_declaration :: "json \<Rightarrow> model_map \<times> fields \<Rightarrow> (model_map \<times> fields) outcome" where
  "api_declaration obj = (\<lambda>(mm, swagger).
    if \<not> truthy (fld obj ''apis'') then ((mm, swagger), None)
    else case set_base (fld obj ''basePath'') swagger of
      Inl e \<Rightarrow> ((mm, swagger), Some e)
    | Inr swagger \<Rightarrow>
       (let swagger = set_if ''consumes'' (fld obj ''consumes'') swagger;
            swagger = set_if ''produces'' (fld obj ''produces'') swagger
        in case map_models obj mm of
             (mm, Some e) \<Rightarrow> ((mm, swagger), Some e)
           | (mm, None) \<Rightarrow> (case declare_apis mm obj swagger of (swagger, thrown) \<Rightarrow> ((mm, swagger), thrown))))"

section \<open>The head of the document\<close>

text \<open>\<open>apiInfo\<close> answers the document and the warnings it adds.\<close>

definition apiInfo :: "json \<Rightarrow> fields \<Rightarrow> fields \<times> string list" where
  "apiInfo obj swagger =
    (if \<not> truthy (fld obj ''info'') then (swagger, [''missing info section''])
     else
       let info = fld obj ''info'';
           i = (if truthy (fld info ''contact'')
             then [(js ''contact'', VObj [(js ''email'', fld info ''contact'')])] else []);
           i = set_if ''description'' (fld info ''description'') i;
           i = set_if ''title'' (fld info ''title'') i;
           i = set_if ''termsOfService'' (fld info ''termsOfServiceUrl'') i;
           swagger = set_field swagger (js ''info'') (VObj i)
       in (if truthy (fld info ''license'') \<or> truthy (fld info ''licenseUrl'')
           then set_field swagger (js ''license'') (VObj
             (set_if ''url'' (fld info ''licenseUrl'') (set_if ''name'' (fld info ''license'') [])))
           else swagger, []))"

text \<open>
  \<open>i > 0\<close> of a key \<open>i\<close>: the scopes of a definition are an array, whose keys are decimal numerals;
  another key is not a number.  Before the first key, \<open>i\<close> is \<open>undefined\<close>.
\<close>

definition positive_key :: "jstr option \<Rightarrow> bool" where
  "positive_key i = (case i of None \<Rightarrow> False
     | Some k \<Rightarrow> list_all (\<lambda>c. 48 \<le> code c \<and> code c \<le> 57) k \<and> list_ex (\<lambda>c. c \<noteq> 48) k)"

fun collect_scopes :: "fields \<Rightarrow> fields \<Rightarrow> jstr option \<Rightarrow> jserr + fields \<times> jstr option" where
  "collect_scopes [] scopes i = Inr (scopes, i)"
| "collect_scopes ((k, scope) # r) scopes i = bindE (present_value scope) (\<lambda>scope.
     collect_scopes r (set_field scopes (to_str (fld scope ''scope'')) (fld scope ''description'')) (Some k))"

definition grant_fields :: "json \<Rightarrow> fields \<Rightarrow> jserr + fields \<times> bool" where
  "grant_fields grantTypes d =
    (let implicit = fld grantTypes ''implicit''; authCode = fld grantTypes ''authorization_code'';
         isValid = truthy implicit;
         d = (if truthy implicit then set_field (set_field d (js ''flow'') (VStr (js ''implicit'')))
           (js ''authorizationUrl'') (fld implicit ''loginEndpoint'') else d)
     in if truthy authCode \<and> \<not> truthy (lookup_field d (js ''flow'')) then
          bindE (present_value (fld authCode ''tokenRequestEndpoint'')) (\<lambda>request.
          bindE (present_value (fld authCode ''tokenEndpoint'')) (\<lambda>token.
            Inr (set_field (set_field (set_field d (js ''flow'') (VStr (js ''accessCode'')))
              (js ''authorizationUrl'') (fld request ''url'')) (js ''tokenUrl'') (fld token ''url''), True)))
        else Inr (d, isValid))"

text \<open>One definition, with the variable \<open>i\<close>, which the loop over the definitions shares.\<close>

definition security_definition :: "jstr \<Rightarrow> json \<Rightarrow> jstr option \<Rightarrow> jserr + (fields \<times> bool) \<times> jstr option" where
  "security_definition name definition i = bindE (present_value definition) (\<lambda>_.
    let d = [(js ''vendorExtensions'', VObj [])]; type = fld definition ''type'' in
    if type = VStr (js ''apiKey'') then
      Inr ((d @ [(js ''type'', VStr (js ''apiKey'')), (js ''in'', fld definition ''passAs''),
        (js ''name'', orElse (fld definition ''keyname'') (VStr name))], True), i)
    else if type = VStr (js ''basicAuth'') then Inr ((d @ [(js ''type'', VStr (js ''basicAuth''))], True), i)
    else if type = VStr (js ''oauth2'') then
      bindE (collect_scopes (for_in (orElse (fld definition ''scopes'') (VArr []))) [] i) (\<lambda>(scopes, i).
        let d = d @ [(js ''type'', VStr (js ''oauth2''))];
            d = (if positive_key i then set_field d (js ''scopes'') (VObj scopes) else d)
        in bindE (if truthy (fld definition ''grantTypes'') then grant_fields (fld definition ''grantTypes'') d
             else Inr (d, False)) (\<lambda>r. Inr (r, i)))
    else Inr ((d, False), i))"

fun security_loop :: "fields \<Rightarrow> jstr option \<Rightarrow> fields \<Rightarrow> jserr + fields" where
  "security_loop [] i swagger = Inr swagger"
| "security_loop ((name, definition) # r) i swagger =
    bindE (security_definition name definition i) (\<lambda>((d, isValid), i). security_loop r i
      (if isValid then set_field swagger (js ''securityDefinitions'')
         (put (orElse (lookup_field swagger (js ''securityDefinitions'')) (VObj [])) name (VObj d))
       else swagger))"

definition securityDefinitions :: "json \<Rightarrow> fields \<Rightarrow> jserr + fields" where
  "securityDefinitions obj swagger =
    (if truthy (fld obj ''authorizations'') then security_loop (for_in (fld obj ''authorizations'')) None swagger
     else Inr swagger)"

section \<open>Listings\<close>

text \<open>\<open>lastIndexOf('/')\<close>, where there is one.\<close>

definition last_slash :: "jstr \<Rightarrow> nat option" where
  "last_slash s = (if 47 \<in> set s then Some (length s - 1 - length (takeWhile (\<lambda>c. c \<noteq> 47) (rev s))) else None)"

definition getAbsolutePath :: "json \<Rightarrow> json \<Rightarrow> json \<Rightarrow> jserr + jstr" where
  "getAbsolutePath version docLocation path =
    bindE (if version = VStr (js ''1.0'') then
        bindE (as_string docLocation) (\<lambda>d. Inr (VStr (
          if ends_with (js ''.json'') d
          then (case last_slash d of Some pos \<Rightarrow> if pos > 0 then take pos d else d | None \<Rightarrow> d) else d)))
      else Inr docLocation) (\<lambda>docLocation.
    bindE (as_string path) (\<lambda>p.
    bindE (if starts_with (js ''http:'') p \<or> starts_with (js ''https:'') p then Inr p
       else bindE (as_string docLocation) (\<lambda>d.
         Inr ((if ends_with (js ''/'') d then take (length d - 1) d else d) @ p)) ) (\<lambda>location.
    Inr (replace_first (js ''{format}'') (js ''json'') location))))"

text \<open>
  A conversion under way: the document, the requests sent for the declarations, the answers
  that have come, and what the callback was called with.
\<close>

record listing =
  l_models :: model_map
  l_swagger :: fields
  l_expected :: nat
  l_processed :: nat
  l_requests :: "request list"
  l_finished :: "json list"

definition finish :: "listing \<Rightarrow> listing" where
  "finish l = l\<lparr>l_finished := l_finished l @ [VObj (l_swagger l)]\<rparr>"

definition listing_request :: "jstr \<Rightarrow> json \<Rightarrow> json \<Rightarrow> nat \<Rightarrow> request" where
  "listing_request url headers timeout k =
    \<lparr>r_url = url, r_method = js ''get'', r_headers = [(js ''accept'', headers)], r_body = VUndef,
     r_cookieJar = None, r_authz = None, r_timeout = timeout, r_enableCookies = VUndef,
     r_useJQuery = VUndef, r_jqueryAjaxCache = VUndef, r_onResponse = Callback (VFun k), r_onError = Callback (VFun k)\<rparr>"

definition listed_tag :: "json \<Rightarrow> fields \<Rightarrow> jserr + fields" where
  "listed_tag api swagger =
    (if truthy (fld api ''description'') then
       bindE (extractTag (fld api ''path'')) (\<lambda>tag. Inr (set_field swagger (js ''tags'') (VArr (tags_of swagger @
         [VObj [(js ''name'', VStr tag), (js ''description'', fld api ''description'')]]))))
     else Inr swagger)"

definition request_api ::
  "(jstr \<Rightarrow> jnum) \<Rightarrow> jnum \<Rightarrow> json \<Rightarrow> json \<Rightarrow> authz option \<Rightarrow> json \<Rightarrow> json \<Rightarrow> listing \<Rightarrow> listing outcome" where
  "request_api dp now version docLocation clientAuthorizations opts api l =
    (case bindE (present_value api) (\<lambda>_. getAbsolutePath version docLocation (fld api ''path'')) of
      Inl e \<Rightarrow> (l, Some e)
    | Inr absolutePath \<Rightarrow> (case listed_tag api (l_swagger l) of
        Inl e \<Rightarrow> (l, Some e)
      | Inr swagger \<Rightarrow>
         storing (bindE (present_value opts) (\<lambda>_.
             let http = listing_request absolutePath
               (if truthy opts \<and> truthy (fld opts ''swaggerRequestHeaders'') then fld opts ''swaggerRequestHeaders''
                else VStr (js ''application/json'')) (fld opts ''timeout'') (length (l_requests l))
             in (case clientAuthorizations of None \<Rightarrow> Inr http
                | Some z \<Rightarrow> bindE (authorizations_apply dp now z http VUndef) (\<lambda>(http, _). Inr http))))
           (\<lambda>http. l\<lparr>l_swagger := swagger, l_requests := l_requests l @ [http]\<rparr>) (l\<lparr>l_swagger := swagger\<rparr>)))"

definition resourceListing ::
  "(jstr \<Rightarrow> jnum) \<Rightarrow> jnum \<Rightarrow> json \<Rightarrow> fields \<Rightarrow> json \<Rightarrow> authz option \<Rightarrow> json \<Rightarrow> listing outcome" where
  "resourceListing dp now obj swagger docLocation clientAuthorizations opts =
    (let apis = items_of (fld obj ''apis'');
         l = \<lparr>l_models = [], l_swagger = swagger, l_expected = length apis, l_processed = 0,
              l_requests = [], l_finished = []\<rparr>
     in each (request_api dp now (fld obj ''swaggerVersion'') docLocation clientAuthorizations opts) apis
          (if apis = [] then finish l else l))"

datatype answer = Response json | Failure

definition process_answer :: "listing \<Rightarrow> listing" where
  "process_answer l = (if l_processed l = l_expected l then finish l else l)"

fun on_answer :: "answer \<Rightarrow> listing \<Rightarrow> listing outcome" where
  "on_answer (Response obj) l =
    (let l = l\<lparr>l_processed := Suc (l_processed l)\<rparr>;
         ((mm, swagger), thrown) =
           (if truthy obj then api_declaration obj (l_models l, l_swagger l) else ((l_models l, l_swagger l), None));
         l = l\<lparr>l_models := mm, l_swagger := swagger\<rparr>
     in (if thrown = None then process_answer l else l, thrown))"
| "on_answer Failure l = (process_answer (l\<lparr>l_processed := Suc (l_processed l)\<rparr>), None)"

datatype conversion = Finished json | Listed listing "jserr option"

text \<open>The two ways of \<open>convert\<close>: one file with the operations, or a list of declarations to load.\<close>

definition convert_apis ::
  "(jstr \<Rightarrow> jnum) \<Rightarrow> jnum \<Rightarrow> json \<Rightarrow> json \<Rightarrow> authz option \<Rightarrow> json \<Rightarrow> fields \<Rightarrow> json list \<Rightarrow> jserr + conversion" where
  "convert_apis dp now docLocation obj clientAuthorizations opts swagger apis =
    (if \<exists>api \<in> set apis. is_array (fld api ''operations'') then
       (case api_declaration obj ([], swagger) of (s, thrown) \<Rightarrow>
          (case thrown of None \<Rightarrow> Inr (Finished (VObj (snd s))) | Some e \<Rightarrow> Inl e))
     else
       (case resourceListing dp now obj swagger (orElse (fld obj ''basePath'') docLocation) clientAuthorizations opts of
          (l, thrown) \<Rightarrow> Inr (Listed l thrown)))"

definition convert ::
  "(jstr \<Rightarrow> jnum) \<Rightarrow> jnum \<Rightarrow> json \<Rightarrow> json \<Rightarrow> authz option \<Rightarrow> json \<Rightarrow> jserr + conversion" where
  "convert dp now docLocation obj clientAuthorizations opts =
    (if \<not> truthy obj \<or> \<not> is_array (fld obj ''apis'') then Inr (Finished VNull)
     else
       let swagger = fst (apiInfo obj [(js ''swagger'', VStr (js ''2.0'')), (js ''originalVersion'', fld obj ''swaggerVersion'')])
       in bindE (securityDefinitions obj swagger) (\<lambda>swagger.
          bindE (map_until present_value (items_of (fld obj ''apis'')))
            (convert_apis dp now docLocation obj clientAuthorizations opts swagger)))"

section \<open>The callback\<close>

text \<open>
  What happens after \<open>convert\<close> has returned: each request that was sent is answered once, in any
  order, the handler of the answer may throw.  \<open>answered l0 es l\<close>: from \<open>l0\<close>, answers with the
  outcomes \<open>es\<close>, the latest first, lead to \<open>l\<close>.
\<close>

inductive answered :: "listing \<Rightarrow> jserr option list \<Rightarrow> listing \<Rightarrow> bool" for l0 where
  no_answer: "answered l0 [] l0"
| one_answer: "answered l0 es l \<Longrightarrow> length es < length (l_requests l0) \<Longrightarrow> on_answer a l = (l', e) \<Longrightarrow>
    answered l0 (e # es) l'"

lemma andThen_simps [simp]: "andThen (s, None) f = f s" "andThen (s, Some e) f = (s, Some e)"
  by (simp_all add: andThen_def)

lemma storing_simps [simp]: "storing (Inl e) f s = (s, Some e)" "storing (Inr a) f s = (f a, None)"
  by (simp_all add: storing_def)

lemma on_answer_facts:
  assumes "on_answer a l = (l', e)"
  shows "l_processed l' = Suc (l_processed l)" "l_expected l' = l_expected l" "l_requests l' = l_requests l"
    "l_finished l' = l_finished l @ (if e = None \<and> Suc (l_processed l) = l_expected l then [VObj (l_swagger l')] else [])"
  using assms
  by (cases a; auto simp: Let_def process_answer_def finish_def split: prod.splits if_splits)+

lemma request_api_facts:
  assumes "request_api dp now version loc z opts api l = (l', e)"
  shows "length (l_requests l') = length (l_requests l) + (if e = None then 1 else 0)"
    "l_expected l' = l_expected l" "l_processed l' = l_processed l" "l_finished l' = l_finished l"
  using assms by (auto simp: request_api_def storing_def split: sum.splits if_splits)

lemma each_request_facts:
  assumes "each (request_api dp now version loc z opts) apis l = (l', e)"
  shows "length (l_requests l') \<le> length (l_requests l) + length apis"
    "length (l_requests l') = length (l_requests l) + length apis \<longleftrightarrow> e = None"
    "l_expected l' = l_expected l" "l_processed l' = l_processed l" "l_finished l' = l_finished l"
proof -
  have "length (l_requests l') \<le> length (l_requests l) + length apis
    \<and> (length (l_requests l') = length (l_requests l) + length apis \<longleftrightarrow> e = None)
    \<and> l_expected l' = l_expected l \<and> l_processed l' = l_processed l \<and> l_finished l' = l_finished l"
    using assms
  proof (induction apis arbitrary: l)
    case (Cons api apis)
    obtain l1 e1 where r: "request_api dp now version loc z opts api l = (l1, e1)" by fastforce
    show ?case
    proof (cases e1)
      case None
      then have "each (request_api dp now version loc z opts) apis l1 = (l', e)" using Cons.prems r by simp
      from Cons.IH [OF this] show ?thesis using request_api_facts [OF r] None by simp
    next
      case (Some x)
      then show ?thesis using Cons.prems request_api_facts [OF r] r by auto
    qed
  qed simp
  then show "length (l_requests l') \<le> length (l_requests l) + length apis"
    "length (l_requests l') = length (l_requests l) + length apis \<longleftrightarrow> e = None"
    "l_expected l' = l_expected l" "l_processed l' = l_processed l" "l_finished l' = l_finished l" by blast+
qed

text \<open>The facts a listing starts with, whether or not a request could not be built.\<close>

definition started :: "nat \<Rightarrow> listing \<Rightarrow> bool" where
  "started n l \<longleftrightarrow> l_expected l = n \<and> l_processed l = 0 \<and> length (l_requests l) \<le> n
     \<and> l_finished l = (if n = 0 then [VObj (l_swagger l)] else [])"

lemma convert_Listed:
  assumes "convert dp now loc obj z opts = Inr (Listed l thrown)"
  obtains swagger loc' where "resourceListing dp now obj swagger loc' z opts = (l, thrown)"
proof -
  from assms obtain swagger apis where "convert_apis dp now loc obj z opts swagger apis = Inr (Listed l thrown)"
    unfolding convert_def Let_def by (auto simp: bindE_eq_Inr split: if_splits)
  then show ?thesis using that
    by (auto simp: convert_apis_def split: if_splits prod.splits option.splits)
qed

lemma convert_started:
  assumes "convert dp now loc obj z opts = Inr (Listed l thrown)"
  shows "started (length (items_of (fld obj ''apis''))) l"
proof -
  obtain swagger loc' where "resourceListing dp now obj swagger loc' z opts = (l, thrown)"
    using assms by (rule convert_Listed)
  then show ?thesis
    by (auto simp: resourceListing_def Let_def finish_def started_def split: if_splits dest: each_request_facts)
qed

lemma answered_facts:
  assumes "answered l0 es l" "started n l0"
  shows "l_expected l = n \<and> l_processed l = length es \<and> length es \<le> n \<and>
    l_finished l = (if length es = n \<and> (es = [] \<or> hd es = None) then [VObj (l_swagger l)] else [])"
  using assms
proof (induction rule: answered.induct)
  case (one_answer es l a l' e)
  then show ?case using on_answer_facts [OF one_answer.hyps(3)] by (auto simp: started_def)
qed (simp add: started_def)

text \<open>
  C15. The callback of a conversion that loads its declarations is called when the last answer
  comes, once and with the finished document, in whatever order the answers come; not before,
  and never if a request could not be built or the handler of the last answer throws.
\<close>

theorem callback_once:
  assumes "convert date_parse now docLocation obj auths opts = Inr (Listed l0 thrown)" "answered l0 es l"
  shows "l_finished l =
    (if length es = length (items_of (fld obj ''apis'')) \<and> (es = [] \<or> hd es = None)
     then [VObj (l_swagger l)] else [])"
  using answered_facts [OF assms(2) convert_started [OF assms(1)]] by simp

end
