(* ===== verification/SpecDocument.thy ===== *)
theory SpecDocument
  imports SpecConverter
begin

text \<open>
  What the documents look like that \<open>SpecConverter\<close> makes: the schemas of types, the tags and
  responses of operations, the models references point at, and the parts of the base URL.
\<close>

section \<open>Invariants of a document\<close>

lemma set_update_subset: "set (AList.update k v m) \<subseteq> insert (k, v) (set m)"
  by (induction m) auto

lemma each_inv:
  "(\<And>x s. x \<in> set xs \<Longrightarrow> P s \<Longrightarrow> P (fst (f x s))) \<Longrightarrow> P s \<Longrightarrow> P (fst (each f xs s))"
proof (induction xs arbitrary: s)
  case (Cons x xs)
  obtain s' e where "f x s = (s', e)" by fastforce
  then show ?case using Cons.prems(1) [of x s] Cons.prems(2) Cons.IH [of s'] Cons.prems(1) by (cases e) auto
qed simp

lemma storing_inv: "P s \<Longrightarrow> (\<And>a. r = Inr a \<Longrightarrow> P (f a)) \<Longrightarrow> P (fst (storing r f s))"
  by (cases r) auto

definition tag_names :: "fields \<Rightarrow> jstr set" where
  "tag_names swagger = {tag. \<exists>t \<in> set (tags_of swagger). fld t ''name'' = VStr tag}"

text \<open>An operation with one tag, of \<open>T\<close>, and a response for success.\<close>

definition operation_ok :: "jstr set \<Rightarrow> json \<Rightarrow> bool" where
  "operation_ok T op \<longleftrightarrow> (\<exists>tag \<in> T. fld op ''tags'' = VArr [VStr tag]) \<and>
     (\<exists>r. fld (fld op ''responses'') ''200'' = VObj r \<or> fld (fld op ''responses'') ''default'' = VObj r)"

definition path_ok :: "jstr set \<Rightarrow> json \<Rightarrow> bool" where
  "path_ok T v \<longleftrightarrow> (\<exists>po. v = VObj po \<and> (\<forall>(method, op) \<in> set po. operation_ok T op))"

definition document_ok :: "fields \<Rightarrow> bool" where
  "document_ok swagger \<longleftrightarrow> (case lookup_field swagger (js ''paths'') of
     VUndef \<Rightarrow> True
   | VObj ps \<Rightarrow> (\<forall>(path, v) \<in> set ps. path_ok (tag_names swagger) v)
   | _ \<Rightarrow> False)"

lemma path_ok_mono: "path_ok T v \<Longrightarrow> T \<subseteq> T' \<Longrightarrow> path_ok T' v"
  by (fastforce simp: path_ok_def operation_ok_def)

lemma document_ok_cong:
  "document_ok s \<Longrightarrow> lookup_field s' (js ''paths'') = lookup_field s (js ''paths'') \<Longrightarrow>
     tag_names s \<subseteq> tag_names s' \<Longrightarrow> document_ok s'"
  unfolding document_ok_def by (auto split: json.splits intro: path_ok_mono)

lemma tag_names_add: "tag_names (add_tag tag s) = insert tag (tag_names s)"
proof -
  have "tags_of (add_tag tag s) = (if \<exists>t \<in> set (tags_of s). fld t ''name'' = VStr tag then tags_of s
     else tags_of s @ [VObj [(js ''name'', VStr tag)]])"
    by (simp add: add_tag_def tags_of_def orElse_def)
  then show ?thesis by (auto simp: tag_names_def)
qed

lemma tag_names_cong: "lookup_field s' (js ''tags'') = lookup_field s (js ''tags'') \<Longrightarrow> tag_names s' = tag_names s"
  by (simp add: tag_names_def tags_of_def)

lemma lookup_set_if [simp]:
  "lookup_field (set_if k v m) k' = (if truthy v \<and> js k = k' then v else lookup_field m k')"
  by (simp add: set_if_def)

lemma lookup_add_tag [simp]: "k \<noteq> js ''tags'' \<Longrightarrow> lookup_field (add_tag tag s) k = lookup_field s k"
  by (simp add: add_tag_def)

lemma default_response_obj: "default_response mm existing = Inr d \<Longrightarrow> \<exists>m. d = VObj m"
  by (auto simp: default_response_def bindE_eq_Inr)

lemma responseMessages_ok:
  assumes "responseMessages mm operation existing = Inr r" "is_object existing"
  shows "lookup_field r (js ''tags'') = lookup_field operation (js ''tags'') \<and>
    (\<exists>d. fld (lookup_field r (js ''responses'')) ''200'' = VObj d \<or> fld (lookup_field r (js ''responses'')) ''default'' = VObj d)"
  using assms unfolding responseMessages_def
  by (auto simp: bindE_eq_Inr Let_def split: if_splits dest!: default_response_obj)

lemma convert_parameters_tags:
  "convert_parameters mm operation obj = Inr r \<Longrightarrow> lookup_field r (js ''tags'') = lookup_field operation (js ''tags'')"
  by (auto simp: convert_parameters_def bindE_eq_Inr split: if_splits)

lemma operation_head_tags: "lookup_field (operation_head swagger tag existing security) (js ''tags'') = VArr [VStr tag]"
  by (simp add: operation_head_def Let_def)

lemma no_method: "\<not> is_object v \<Longrightarrow> get v k = VUndef"
  by (cases v) auto

lemma convert_operation_ok:
  assumes "convert_operation mm swagger tag auth existing = Inr (m, op)" shows "operation_ok {tag} op"
proof -
  from assms obtain security ps r s where
    s: "as_string (orElse (fld existing ''method'') (fld existing ''httpMethod'')) = Inr s"
    and ps: "convert_parameters mm (operation_head swagger tag existing security) (fld existing ''parameters'') = Inr ps"
    and r: "responseMessages mm ps existing = Inr r" "op = VObj r"
    unfolding convert_operation_def bindE_eq_Inr by blast
  have "is_object existing" using s by (rule_tac ccontr) (simp add: no_method orElse_def as_string_def)
  from responseMessages_ok [OF r(1) this] show ?thesis
    using convert_parameters_tags [OF ps] r(2) by (simp add: operation_ok_def operation_head_tags)
qed

lemma operations_ok: "document_ok swagger \<Longrightarrow> document_ok (fst (operations mm path resourcePath obj auth swagger))"
proof -
  assume ok: "document_ok swagger"
  define s where "s = (if truthy (lookup_field swagger (js ''paths'')) then swagger
    else set_field swagger (js ''paths'') (VObj []))"
  obtain ps where ps: "lookup_field s (js ''paths'') = VObj ps" "\<forall>(p, v) \<in> set ps. path_ok (tag_names s) v"
  proof -
    have "tag_names s = tag_names swagger" by (rule tag_names_cong) (simp add: s_def)
    then show ?thesis using ok that by (auto simp: s_def document_ok_def split: json.splits)
  qed
  have sok: "document_ok s" using ps by (simp add: document_ok_def)
  show ?thesis
  proof (cases "is_array obj")
    case True
    show ?thesis
    proof (cases "extractTag resourcePath")
      case (Inl e)
      then show ?thesis using True sok by (simp add: operations_def Let_def flip: s_def)
    next
      case (Inr tag)
      let ?s = "add_tag tag s"
      let ?e = "get (lookup_field s (js ''paths'')) (to_str path)"
      have ps': "\<forall>(p, v) \<in> set ps. path_ok (tag_names ?s) v"
        using ps(2) by (auto intro: path_ok_mono simp: tag_names_add)
      have aok: "document_ok ?s" using ps(1) ps' by (simp add: document_ok_def)
      let ?step = "\<lambda>op pathObj. storing (convert_operation mm ?s tag auth op)
        (\<lambda>(method, operation). set_field pathObj method operation) pathObj"
      obtain po thrown where po: "each ?step (items_of obj) (fields_of ?e) = (po, thrown)" by fastforce
      have start: "\<forall>(m, op) \<in> set (fields_of ?e). operation_ok (tag_names ?s) op"
      proof (cases "map_of ps (to_str path)")
        case (Some v)
        then have "path_ok (tag_names ?s) v" using ps' by (auto dest: map_of_SomeD)
        then show ?thesis using Some ps(1) by (auto simp: path_ok_def lookup_field_def)
      next
        case None
        then have "get (VObj ps) (to_str path) = VUndef" by (simp add: lookup_field_def)
        then show ?thesis by (simp add: ps(1))
      qed
      have "\<forall>(m, op) \<in> set (fst (each ?step (items_of obj) (fields_of ?e))). operation_ok (tag_names ?s) op"
      proof (rule each_inv [OF storing_inv])
        fix op a and s' :: fields
        assume s': "\<forall>(m, op) \<in> set s'. operation_ok (tag_names ?s) op" and a: "convert_operation mm ?s tag auth op = Inr a"
        obtain m o' where m: "a = (m, o')" by fastforce
        have "operation_ok (tag_names ?s) o'"
          using convert_operation_ok [of mm ?s tag auth op m o'] a m by (auto simp: operation_ok_def tag_names_add)
        then show "\<forall>(m, op) \<in> set ((\<lambda>(method, operation). set_field s' method operation) a). operation_ok (tag_names ?s) op"
          using s' set_update_subset [of m o' s'] by (auto simp: m)
      qed (use start in auto)
      then have "path_ok (tag_names ?s) (VObj po)" by (simp add: po path_ok_def)
      then have "\<forall>(p, v) \<in> set (set_field ps (to_str path) (VObj po)). path_ok (tag_names ?s) v"
        using ps' set_update_subset [of "to_str path" "VObj po" ps] by fastforce
      moreover have "tag_names (set_field ?s (js ''paths'') w) = tag_names ?s" for w by (rule tag_names_cong) simp
      ultimately have "document_ok (set_field ?s (js ''paths'') (put (lookup_field ?s (js ''paths'')) (to_str path) (VObj po)))"
        using ps(1) by (simp add: document_ok_def)
      then show ?thesis using True Inr aok po by (simp add: operations_def Let_def flip: s_def)
    qed
  qed (simp add: operations_def ok)
qed

lemma models_other:
  "k \<noteq> js ''definitions'' \<Longrightarrow> lookup_field (fst (models mm obj swagger)) k = lookup_field swagger k"
  unfolding models_def
  by (simp, intro impI each_inv [where P = "\<lambda>s. lookup_field s k = lookup_field swagger k"])
    (simp_all add: storing_def split: prod.splits sum.splits)

lemma set_base_other:
  "set_base b swagger = Inr s \<Longrightarrow> k \<noteq> js ''host'' \<Longrightarrow> k \<noteq> js ''basePath'' \<Longrightarrow> lookup_field s k = lookup_field swagger k"
  by (auto simp: set_base_def bindE_eq_Inr split_url_def Let_def split: if_splits)

lemma document_ok_same:
  "document_ok s \<Longrightarrow> lookup_field s' (js ''paths'') = lookup_field s (js ''paths'') \<Longrightarrow>
     lookup_field s' (js ''tags'') = lookup_field s (js ''tags'') \<Longrightarrow> document_ok s'"
  using document_ok_cong tag_names_cong by (metis order_refl)

lemma api_operations_ok: "document_ok s \<Longrightarrow> document_ok (fst (api_operations mm obj auth api s))"
  by (simp add: api_operations_def operations_ok)

lemma andThen_inv: "P (fst r) \<Longrightarrow> (\<And>s. P s \<Longrightarrow> P (fst (f s))) \<Longrightarrow> P (fst (andThen r f))"
  by (cases r; cases "snd r") auto

lemma models_ok: "document_ok s \<Longrightarrow> document_ok (fst (models mm obj s))"
  by (erule document_ok_same) (simp_all add: models_other)

lemma declare_apis_ok: "document_ok s \<Longrightarrow> document_ok (fst (declare_apis mm obj s))"
  unfolding declare_apis_def Let_def
  by (rule andThen_inv [where P = document_ok], rule each_inv [where P = document_ok])
    (simp_all add: api_operations_ok models_ok)

lemma api_declaration_ok:
  assumes "document_ok swagger" shows "document_ok (snd (fst (api_declaration obj (mm, swagger))))"
proof (cases "set_base (fld obj ''basePath'') swagger")
  case (Inl e)
  then show ?thesis using assms by (simp add: api_declaration_def)
next
  case (Inr s)
  let ?s = "set_if ''produces'' (fld obj ''produces'') (set_if ''consumes'' (fld obj ''consumes'') s)"
  have ok: "document_ok ?s" by (rule document_ok_same [OF assms]) (simp_all add: set_base_other [OF Inr])
  obtain mm' thrown where m: "map_models obj mm = (mm', thrown)" by fastforce
  obtain s' thrown' where d: "declare_apis mm' obj ?s = (s', thrown')" by fastforce
  have "document_ok s'" using declare_apis_ok [OF ok, of mm' obj] d by simp
  then show ?thesis using Inr ok assms m d by (cases thrown) (simp_all add: api_declaration_def Let_def)
qed

lemma on_answer_ok: "document_ok (l_swagger l) \<Longrightarrow> on_answer a l = (l', e) \<Longrightarrow> document_ok (l_swagger l')"
proof (cases a)
  case (Response obj)
  assume "document_ok (l_swagger l)" "on_answer a l = (l', e)"
  then show ?thesis using api_declaration_ok [of "l_swagger l" obj "l_models l"] Response
    by (auto simp: Let_def process_answer_def finish_def split: prod.splits if_splits)
qed (auto simp: process_answer_def finish_def split: if_splits)

lemma security_loop_other:
  "security_loop ds i swagger = Inr s \<Longrightarrow> k \<noteq> js ''securityDefinitions'' \<Longrightarrow> lookup_field s k = lookup_field swagger k"
proof (induction ds i swagger arbitrary: s rule: security_loop.induct)
  case (2 name def r i swagger)
  from "2.prems"(1) obtain d v i' where d: "security_definition name def i = Inr ((d, v), i')"
    and r: "security_loop r i' (if v then set_field swagger (js ''securityDefinitions'')
         (put (orElse (lookup_field swagger (js ''securityDefinitions'')) (VObj [])) name (VObj d))
       else swagger) = Inr s"
    by (auto simp: bindE_eq_Inr)
  from "2.IH" [OF r "2.prems"(2)] show ?case using "2.prems"(2) by (simp split: if_splits)
qed simp

lemma listed_tag_ok: "document_ok s \<Longrightarrow> listed_tag api s = Inr s' \<Longrightarrow> document_ok s'"
  by (erule document_ok_cong)
    (auto simp: listed_tag_def bindE_eq_Inr tag_names_def tags_of_def orElse_def split: if_splits)

lemma request_api_ok:
  "document_ok (l_swagger l) \<Longrightarrow> document_ok (l_swagger (fst (request_api dp now version loc z opts api l)))"
  by (auto simp: request_api_def storing_def listed_tag_ok split: sum.splits)

lemma convert_start:
  assumes "convert dp now loc obj z opts = Inr c" "c \<noteq> Finished VNull"
  obtains swagger apis where "document_ok swagger" "convert_apis dp now loc obj z opts swagger apis = Inr c"
proof -
  let ?s = "fst (apiInfo obj [(js ''swagger'', VStr (js ''2.0'')), (js ''originalVersion'', fld obj ''swaggerVersion'')])"
  from assms obtain swagger apis where s: "securityDefinitions obj ?s = Inr swagger"
    and c: "convert_apis dp now loc obj z opts swagger apis = Inr c"
    by (auto simp: convert_def bindE_eq_Inr split: if_splits)
  have "lookup_field ?s (js ''paths'') = VUndef" by (simp add: apiInfo_def Let_def)
  then have "lookup_field swagger (js ''paths'') = VUndef"
    using s by (auto simp: securityDefinitions_def security_loop_other split: if_splits)
  then have "document_ok swagger" by (simp add: document_ok_def)
  then show ?thesis using that c by blast
qed

text \<open>
  C16. However a document is converted, every operation in it has exactly one tag, which the
  document lists, and a response under \<open>200\<close> or \<open>default\<close>: this holds for a single file and,
  while declarations are loaded, after each answer, even one whose handler threw halfway.
\<close>

theorem operations_tagged:
  assumes "convert date_parse now docLocation obj auths opts = Inr c"
  shows "case c of
      Finished (VObj swagger) \<Rightarrow> document_ok swagger
    | Finished v \<Rightarrow> v = VNull
    | Listed l0 thrown \<Rightarrow> (\<forall>es l. answered l0 es l \<longrightarrow> document_ok (l_swagger l))"
proof (cases "c = Finished VNull")
  case False
  then obtain s apis where ok: "document_ok s" and c: "convert_apis date_parse now docLocation obj auths opts s apis = Inr c"
    using convert_start assms by blast
  show ?thesis
  proof (cases c)
    case (Finished v)
    then show ?thesis using c api_declaration_ok [OF ok, of obj "[]"]
      by (auto simp: convert_apis_def split: if_splits prod.splits option.splits)
  next
    case (Listed l0 thrown)
    then have "resourceListing date_parse now obj s (orElse (fld obj ''basePath'') docLocation) auths opts = (l0, thrown)"
      using c by (auto simp: convert_apis_def split: if_splits prod.splits option.splits)
    moreover have "document_ok (l_swagger (fst (resourceListing date_parse now obj s d auths opts)))" for d
      unfolding resourceListing_def Let_def
      by (rule each_inv [where P = "\<lambda>l. document_ok (l_swagger l)"]) (simp_all add: request_api_ok finish_def ok)
    ultimately have l0: "document_ok (l_swagger l0)" by (metis fst_conv)
    have "document_ok (l_swagger l)" if a: "answered l0 es l" for es l
      using a l0 by (induction rule: answered.induct) (auto intro: on_answer_ok)
    then show ?thesis using Listed by simp
  qed
qed simp

section \<open>References\<close>

definition definitions_of :: "fields \<Rightarrow> fields" where
  "definitions_of swagger = fields_of (lookup_field swagger (js ''definitions''))"

text \<open>What the model map refers to is defined.\<close>

definition resolved :: "model_map \<Rightarrow> fields \<Rightarrow> bool" where
  "resolved mm swagger \<longleftrightarrow> lookup_field swagger (js ''definitions'') \<in> {VUndef} \<union> range VObj \<and>
     (\<forall>(k, n) \<in> set mm. lookup_field (definitions_of swagger) n \<noteq> VUndef)"

lemma convert_model_obj: "convert_model mm existing = Inr s \<Longrightarrow> s \<noteq> VUndef"
  by (auto simp: convert_model_def bindE_eq_Inr)

lemma models_loop:
  assumes "each (\<lambda>(name, existing) swagger. storing (convert_model mm existing)
      (\<lambda>schema. set_field swagger (js ''definitions'')
        (put (lookup_field swagger (js ''definitions'')) name schema)) swagger) xs s = (s', None)"
    and "lookup_field s (js ''definitions'') = VObj m"
  shows "\<exists>m'. lookup_field s' (js ''definitions'') = VObj m' \<and>
    (\<forall>n. lookup_field m n \<noteq> VUndef \<or> n \<in> fst ` set xs \<longrightarrow> lookup_field m' n \<noteq> VUndef)"
  using assms
proof (induction xs arbitrary: s m)
  case (Cons x xs)
  obtain name existing where x: "x = (name, existing)" by fastforce
  show ?case
  proof (cases "convert_model mm existing")
    case (Inl e)
    then show ?thesis using Cons.prems by (simp add: x)
  next
    case (Inr sch)
    then have "sch \<noteq> VUndef" by (rule convert_model_obj)
    let ?t = "set_field s (js ''definitions'') (VObj (set_field m name sch))"
    have t: "lookup_field ?t (js ''definitions'') = VObj (set_field m name sch)" by simp
    from Cons.prems have "each (\<lambda>(name, existing) swagger. storing (convert_model mm existing)
      (\<lambda>schema. set_field swagger (js ''definitions'')
        (put (lookup_field swagger (js ''definitions'')) name schema)) swagger) xs ?t = (s', None)"
      by (simp add: x Inr)
    from Cons.IH [OF this t] show ?thesis using \<open>sch \<noteq> VUndef\<close> x by (auto split: if_splits)
  qed
qed auto

lemma models_define:
  assumes "models mm obj s = (s', None)" "lookup_field s (js ''definitions'') \<in> {VUndef} \<union> range VObj"
  shows "lookup_field s' (js ''definitions'') \<in> {VUndef} \<union> range VObj \<and>
    (\<forall>n. lookup_field (definitions_of s) n \<noteq> VUndef \<longrightarrow> lookup_field (definitions_of s') n \<noteq> VUndef) \<and>
    (is_object obj \<longrightarrow> (\<forall>n \<in> fst ` set (for_in obj). lookup_field (definitions_of s') n \<noteq> VUndef))"
proof (cases "is_object obj")
  case True
  let ?m = "definitions_of s"
  let ?s = "set_field s (js ''definitions'') (orElse (lookup_field s (js ''definitions'')) (VObj []))"
  have "lookup_field ?s (js ''definitions'') = VObj ?m"
    using assms(2) by (auto simp: definitions_of_def orElse_def)
  from models_loop [OF assms(1) [unfolded models_def, simplified True not_True_eq_False if_False] this]
  show ?thesis by (auto simp: definitions_of_def)
qed (use assms in \<open>simp add: models_def\<close>)

lemma map_models_names:
  assumes "map_models obj mm = (mm', e)" "(k, n) \<in> set mm'"
  shows "(k, n) \<in> set mm \<or> n \<in> fst ` set (for_in (fld obj ''models''))"
proof -
  let ?N = "fst ` set (for_in (fld obj ''models''))"
  have "\<forall>(k, n) \<in> set (fst (map_models obj mm)). (k, n) \<in> set mm \<or> n \<in> ?N"
    unfolding map_models_def
  proof (rule each_inv)
    fix x :: "jstr \<times> json" and s :: model_map
    assume x: "x \<in> set (for_in (fld obj ''models''))" and s: "\<forall>(k, n) \<in> set s. (k, n) \<in> set mm \<or> n \<in> ?N"
    obtain name existing where n: "x = (name, existing)" by fastforce
    then have "name \<in> ?N" using x by force
    then show "\<forall>(k, n) \<in> set (fst ((\<lambda>(name, existing) mm. storing (present_value existing)
        (\<lambda>m. AList.update (to_str (orElse (fld m ''id'') (VStr name))) name mm) mm) x s)). (k, n) \<in> set mm \<or> n \<in> ?N"
      using s by (auto simp: n storing_def split: sum.splits dest!: set_mp [OF set_update_subset])
  qed auto
  then show ?thesis using assms by auto
qed

lemma operations_other:
  "k \<noteq> js ''paths'' \<Longrightarrow> k \<noteq> js ''tags'' \<Longrightarrow>
     lookup_field (fst (operations mm path resourcePath obj auth s)) k = lookup_field s k"
  by (auto simp: operations_def Let_def split: sum.splits prod.splits)

lemma apis_other:
  "lookup_field (fst (each (api_operations mm obj auth) apis s)) (js ''definitions'') = lookup_field s (js ''definitions'')"
  by (rule each_inv [where P = "\<lambda>t. lookup_field t (js ''definitions'') = lookup_field s (js ''definitions'')"])
    (simp_all add: api_operations_def operations_other)

text \<open>
  C17. The references a conversion makes by way of its model map point at models the document
  defines: a declaration that is converted without an exception keeps this true, whatever the
  declarations before it were.  (\<open>models\<close> must not be a text.)
\<close>

theorem references_defined:
  assumes "api_declaration obj (mm, swagger) = ((mm', swagger'), None)" "resolved mm swagger"
    and "\<not> is_string (fld obj ''models'')"
  shows "resolved mm' swagger' \<and> (case model_name mm' k of
      Some n \<Rightarrow> lookup_field (definitions_of swagger') n \<noteq> VUndef | None \<Rightarrow> True)"
proof -
  have "resolved mm' swagger'"
  proof (cases "truthy (fld obj ''apis'')")
    case True
    then obtain s where b: "set_base (fld obj ''basePath'') swagger = Inr s"
      using assms(1) by (auto simp: api_declaration_def split: sum.splits)
    let ?s = "set_if ''produces'' (fld obj ''produces'') (set_if ''consumes'' (fld obj ''consumes'') s)"
    obtain mm1 e1 where m: "map_models obj mm = (mm1, e1)" by fastforce
    have m': "map_models obj mm = (mm', None)" and d: "declare_apis mm' obj ?s = (swagger', None)"
      using assms(1) True b m by (cases e1; auto simp: api_declaration_def Let_def split: prod.splits)+
    define auth where "auth = (if truthy (fld obj ''authorizations'') then fld obj ''authorizations'' else VUndef)"
    obtain t e where t: "each (api_operations mm' obj auth) (items_of (fld obj ''apis'')) ?s = (t, e)" by fastforce
    have e: "models mm' (orElse (fld obj ''models'') (VObj [])) t = (swagger', None)"
      using d t by (cases e) (simp_all add: declare_apis_def auth_def)
    have same: "lookup_field t (js ''definitions'') = lookup_field swagger (js ''definitions'')"
      using apis_other [of mm' obj auth "items_of (fld obj ''apis'')" ?s] t by (simp add: set_base_other [OF b])
    then have "lookup_field t (js ''definitions'') \<in> {VUndef} \<union> range VObj"
      using assms(2) by (simp add: resolved_def)
    note defs = models_define [OF e this]
    have names: "is_object (orElse (fld obj ''models'') (VObj [])) \<and> n \<in> fst ` set (for_in (orElse (fld obj ''models'') (VObj [])))"
      if "n \<in> fst ` set (for_in (fld obj ''models''))" for n
      using that assms(3) by (cases "fld obj ''models''") (auto simp: orElse_def)
    have "lookup_field (definitions_of swagger') n \<noteq> VUndef" if "(k, n) \<in> set mm'" for k n
      using map_models_names [OF m' that]
    proof
      assume "(k, n) \<in> set mm"
      then have "lookup_field (definitions_of t) n \<noteq> VUndef"
        using assms(2) same by (auto simp: resolved_def definitions_of_def)
      then show ?thesis using defs by blast
    qed (use names defs in blast)
    then show ?thesis using defs by (auto simp: resolved_def)
  qed (use assms in \<open>simp add: api_declaration_def\<close>)
  then show ?thesis
    by (auto simp: resolved_def model_name_def split: option.splits dest: map_of_SomeD)
qed

section \<open>Types\<close>

text \<open>
  The types of Swagger 1.2 and what they mean in Swagger 2.0, independently of the conversion: the
  text of a type is a name or \<open>List[..]\<close> around one; a type is such a text, a name with a format,
  an array with the type of its items, or a reference.
\<close>

datatype type_text = TypeName jstr | ListText type_text

datatype old_type = TextType type_text | FormatType jstr jstr | ArrayType old_type | RefType jstr

fun text_of_type :: "type_text \<Rightarrow> jstr" where
  "text_of_type (TypeName n) = n"
| "text_of_type (ListText t) = js ''List['' @ text_of_type t @ js '']''"

text \<open>The source of a type, and the schema it stands for.\<close>

fun source_of :: "old_type \<Rightarrow> json" where
  "source_of (TextType t) = VObj [(js ''type'', VStr (text_of_type t))]"
| "source_of (FormatType n f) = VObj [(js ''type'', VStr n), (js ''format'', VStr f)]"
| "source_of (ArrayType t) = VObj [(js ''type'', VStr (js ''array'')), (js ''items'', source_of t)]"
| "source_of (RefType r) = VObj [(js ''$ref'', VStr r)]"

abbreviation list_of_schema :: "json \<Rightarrow> json" where
  "list_of_schema s \<equiv> VObj [(js ''type'', VStr (js ''array'')), (js ''items'', s)]"

abbreviation simple_schema :: "string \<Rightarrow> json" where
  "simple_schema t \<equiv> VObj [(js ''type'', VStr (js t))]"

abbreviation format_schema :: "string \<Rightarrow> string \<Rightarrow> json" where
  "format_schema t f \<equiv> VObj [(js ''type'', VStr (js t)), (js ''format'', VStr (js f))]"

definition simple_types :: "(jstr \<times> json) list" where
  "simple_types = [(js ''int'', format_schema ''integer'' ''int32''), (js ''long'', format_schema ''integer'' ''int64''),
     (js ''integer'', format_schema ''integer'' ''int64''), (js ''float'', format_schema ''number'' ''float''),
     (js ''double'', format_schema ''number'' ''double''), (js ''date'', format_schema ''string'' ''date-time''),
     (js ''string'', simple_schema ''string''), (js ''file'', simple_schema ''file''), (js ''boolean'', simple_schema ''boolean''),
     (js ''array'', list_of_schema (simple_schema ''object'')), (js ''list'', list_of_schema (simple_schema ''object'')),
     (js ''void'', VObj []), ([], VObj [])]"

definition formatted_types :: "((jstr \<times> jstr) \<times> json) list" where
  "formatted_types = [((js ''integer'', js ''int32''), format_schema ''integer'' ''int32''),
     ((js ''integer'', js ''int64''), format_schema ''integer'' ''int64''), ((js ''number'', js ''float''), format_schema ''number'' ''float''),
     ((js ''number'', js ''double''), format_schema ''number'' ''double''), ((js ''string'', js ''date-time''), format_schema ''string'' ''date-time'')]"

text \<open>A name that is not in the table is the name of a model, or is handed on.\<close>

definition named_schema :: "model_map \<Rightarrow> jstr \<Rightarrow> json" where
  "named_schema mm n = (case map_of simple_types (to_lower n) of
     Some s \<Rightarrow> s
   | None \<Rightarrow> if map_of mm n \<notin> {None, Some []} then VObj [(js ''$ref'', VStr (js ''#/definitions/'' @ the (map_of mm n)))]
       else VObj [(js ''type'', VStr n)])"

fun text_schema :: "model_map \<Rightarrow> type_text \<Rightarrow> json" where
  "text_schema mm (TypeName n) = named_schema mm n"
| "text_schema mm (ListText t) = list_of_schema (text_schema mm t)"

fun schema_of :: "model_map \<Rightarrow> old_type \<Rightarrow> json" where
  "schema_of mm (TextType t) = text_schema mm t"
| "schema_of mm (FormatType n f) = (case map_of formatted_types (to_lower n, to_lower f) of Some s \<Rightarrow> s | None \<Rightarrow> named_schema mm n)"
| "schema_of mm (ArrayType t) = list_of_schema (schema_of mm t)"
| "schema_of mm (RefType r) = VObj [(js ''$ref'', VStr (if map_of mm r \<notin> {None, Some []}
     then js ''#/definitions/'' @ the (map_of mm r) else r))]"

text \<open>A name must not look like a list itself, and a reference must not be blank.\<close>

fun name_ok :: "type_text \<Rightarrow> bool" where
  "name_ok (TypeName n) \<longleftrightarrow> \<not> starts_with (js ''list['') (to_lower n)"
| "name_ok (ListText t) \<longleftrightarrow> name_ok t"

fun well_written :: "old_type \<Rightarrow> bool" where
  "well_written (TextType t) \<longleftrightarrow> name_ok t"
| "well_written (FormatType n f) \<longleftrightarrow> name_ok (TypeName n)"
| "well_written (ArrayType t) \<longleftrightarrow> well_written t"
| "well_written (RefType r) \<longleftrightarrow> r \<noteq> []"

text \<open>
  The sources with a type or format that is not a text: the type is the first of three fields that
  is there, and the items of an array count.
\<close>

definition type_field :: "json \<Rightarrow> json option" where
  "type_field source = find truthy [fld source ''type'', fld source ''dataType'', fld source ''responseClass'']"

inductive ill_typed :: "json \<Rightarrow> bool" where
  bad_type: "truthy source \<Longrightarrow> type_field source = Some v \<Longrightarrow> \<not> is_string v \<Longrightarrow> ill_typed source"
| bad_format: "truthy source \<Longrightarrow> truthy (fld source ''format'') \<Longrightarrow> \<not> is_string (fld source ''format'') \<Longrightarrow> ill_typed source"
| bad_items: "truthy source \<Longrightarrow> type_field source = Some (VStr d) \<Longrightarrow> to_lower d \<in> {js ''array'', js ''list''} \<Longrightarrow>
     ill_typed (fld source ''items'') \<Longrightarrow> ill_typed source"

lemma detected_type_field:
  "as_string (detected v) = (case type_field v of None \<Rightarrow> Inr [] | Some w \<Rightarrow> as_string w)"
  unfolding detected_def type_field_def by (simp add: orElse_def as_string_def)

lemma as_string_Inl: "truthy v \<Longrightarrow> as_string v = Inl e \<longleftrightarrow> e = not_function \<and> \<not> is_string v"
  by (cases v) (auto simp: as_string_def)

lemma as_string_Inr: "as_string v = Inr s \<longleftrightarrow> v = VStr s"
  by (cases v) (auto simp: as_string_def)

lemma type_field_truthy: "type_field v = Some w \<Longrightarrow> truthy w"
  by (auto simp: type_field_def split: if_splits)

lemma bindE_eq_Inl: "bindE r f = Inl e \<longleftrightarrow> r = Inl e \<or> (\<exists>a. r = Inr a \<and> f a = Inl e)"
  by (cases r) simp_all

lemma ill_typed_falsy: "\<not> truthy v \<Longrightarrow> \<not> ill_typed v"
  by (subst ill_typed.simps) simp

lemma ill_typed_text: "\<not> ill_typed (VObj [(js ''type'', VStr s)])"
  using ill_typed_falsy [of VUndef] by (subst ill_typed.simps) (auto simp: type_field_def js_def)

text \<open>One call of \<open>toJsonSchema\<close> on a source whose type and format are texts.\<close>

lemma toJsonSchema_step:
  assumes "truthy source" "as_string (detected source) = Inr d" "as_string (orElse (fld source ''format'') (VStr [])) = Inr f"
  shows "starts_with list_prefix (to_lower d) \<Longrightarrow>
      toJsonSchema mm source = bindE (toJsonSchema mm (VObj [(js ''type'', VStr (inner_type d))])) (\<lambda>t. Inr (array_obj t))"
    and "\<not> starts_with list_prefix (to_lower d) \<Longrightarrow> primitive_schema (to_lower d) (to_lower f) = Some s \<Longrightarrow>
      toJsonSchema mm source = Inr s"
    and "to_lower d \<in> {js ''array'', js ''list''} \<Longrightarrow>
      toJsonSchema mm source = (if truthy (fld source ''items'')
        then bindE (toJsonSchema mm (fld source ''items'')) (\<lambda>t. Inr (array_obj t)) else Inr (array_obj (type_obj ''object'')))"
proof -
  note simps = toJsonSchema.simps [of mm source] Let_def assms
  show "starts_with list_prefix (to_lower d) \<Longrightarrow>
      toJsonSchema mm source = bindE (toJsonSchema mm (VObj [(js ''type'', VStr (inner_type d))])) (\<lambda>t. Inr (array_obj t))"
    "\<not> starts_with list_prefix (to_lower d) \<Longrightarrow> primitive_schema (to_lower d) (to_lower f) = Some s \<Longrightarrow> toJsonSchema mm source = Inr s"
    by (simp_all add: simps)
  assume "to_lower d \<in> {js ''array'', js ''list''}"
  moreover from this have "\<not> starts_with list_prefix (to_lower d)" "primitive_schema (to_lower d) (to_lower f) = None"
    by (auto simp: list_prefix_def starts_with_def primitive_schema_def js_def)
  ultimately show "toJsonSchema mm source = (if truthy (fld source ''items'')
        then bindE (toJsonSchema mm (fld source ''items'')) (\<lambda>t. Inr (array_obj t)) else Inr (array_obj (type_obj ''object'')))"
    by (simp add: simps)
qed

lemma toJsonSchema_throws: "toJsonSchema mm source = Inl e \<longleftrightarrow> e = not_function \<and> ill_typed source"
proof (induction mm source arbitrary: e rule: toJsonSchema.induct)
  case (1 mm source)
  show ?case
  proof (cases "truthy source")
    case False
    then show ?thesis using ill_typed_falsy by (simp add: toJsonSchema.simps)
  next
    case True
    show ?thesis
    proof (cases "as_string (detected source)")
      case (Inl e')
      then obtain w where "type_field source = Some w" "as_string w = Inl e'"
        by (auto simp: detected_type_field split: option.splits)
      then have "e' = not_function" "ill_typed source"
        using True as_string_Inl [OF type_field_truthy] bad_type [of source w] by auto
      then show ?thesis using True Inl by (auto simp: toJsonSchema.simps [of mm source])
    next
      case d: (Inr d)
      show ?thesis
      proof (cases "as_string (orElse (fld source ''format'') (VStr []))")
        case (Inl e')
        then have "truthy (fld source ''format'')"
          by (rule_tac ccontr) (simp add: orElse_def as_string_def)
        then have "e' = not_function" "ill_typed source"
          using Inl True as_string_Inl bad_format [of source] by (auto simp: orElse_def)
        then show ?thesis using True d Inl by (auto simp: toJsonSchema.simps [of mm source])
      next
        case f: (Inr f)
        note IH = 1 [OF _ d f refl refl] and step = toJsonSchema_step [OF True d f]
        have v: "type_field source = (if d = [] then None else Some (VStr d))"
          using d type_field_truthy [of source] as_string_Inr by (auto simp: detected_type_field split: option.splits)
        have "\<not> (truthy (fld source ''format'') \<and> \<not> is_string (fld source ''format''))"
          using f by (auto simp: as_string_def orElse_def split: json.splits if_splits)
        then have ill: "ill_typed source \<longleftrightarrow> to_lower d \<in> {js ''array'', js ''list''} \<and> ill_typed (fld source ''items'')"
          using True v by (subst ill_typed.simps) (auto simp: to_lower_def js_def split: if_splits)
        consider (list) "starts_with list_prefix (to_lower d)" | (array) "to_lower d \<in> {js ''array'', js ''list''}"
          | (other) "\<not> starts_with list_prefix (to_lower d)" "to_lower d \<notin> {js ''array'', js ''list''}" by blast
        then show ?thesis
        proof cases
          case list
          then have "to_lower d \<notin> {js ''array'', js ''list''}" by (auto simp: list_prefix_def starts_with_def js_def)
          then show ?thesis using step(1) [OF list] IH(1) [OF _ list] True ill_typed_text ill by (simp add: bindE_eq_Inl)
        next
          case array
          then have "\<not> starts_with list_prefix (to_lower d)" "primitive_schema (to_lower d) (to_lower f) = None"
            by (auto simp: list_prefix_def starts_with_def primitive_schema_def js_def)
          then have "toJsonSchema mm (fld source ''items'') = Inl e \<longleftrightarrow> e = not_function \<and> ill_typed (fld source ''items'')"
            if "truthy (fld source ''items'')" for e
            using IH(2) that True array by blast
          then show ?thesis using step(3) [OF array] ill array ill_typed_falsy [of "fld source ''items''"]
            by (cases "truthy (fld source ''items'')") (simp_all add: bindE_eq_Inl)
        next
          case other
          then show ?thesis using ill by (simp add: toJsonSchema.simps [of mm source] Let_def True d f split: option.splits)
        qed
      qed
    qed
  qed
qed

lemma tables:
  assumes "lc \<notin> {js ''array'', js ''list'', js ''void'', []}"
  shows "primitive_schema lc f = (case map_of formatted_types (lc, f) of Some s \<Rightarrow> Some s | None \<Rightarrow> map_of simple_types lc)"
  using assms unfolding primitive_schema_def formatted_types_def simple_types_def typed_def type_obj_def
  by simp

lemma no_model: "model_name mm (VStr n) = (if map_of mm n \<in> {None, Some []} then None else map_of mm n)"
  by (auto simp: model_name_def split: option.splits)

lemma named_source:
  assumes "truthy source" "as_string (detected source) = Inr n" "as_string (orElse (fld source ''format'') (VStr [])) = Inr f"
    and "fld source ''items'' = VUndef" "fld source ''$ref'' = VUndef" "fld source ''type'' = VStr n"
    and "\<not> starts_with list_prefix (to_lower n)"
  shows "toJsonSchema mm source =
    Inr (case map_of formatted_types (to_lower n, to_lower f) of Some s \<Rightarrow> s | None \<Rightarrow> named_schema mm n)"
proof -
  note simps = toJsonSchema.simps [of mm source] Let_def assms no_model
  show ?thesis
  proof (cases "to_lower n \<in> {js ''array'', js ''list'', js ''void'', []}")
    case True
    then have none: "primitive_schema (to_lower n) (to_lower f) = None" "map_of formatted_types (to_lower n, to_lower f) = None"
      by (auto simp: primitive_schema_def formatted_types_def js_def)
    have "toJsonSchema mm source = Inr (if to_lower n \<in> {js ''array'', js ''list''} then array_obj (type_obj ''object'') else VObj [])"
      using True none by (auto simp: simps)
    moreover have "named_schema mm n = (if to_lower n \<in> {js ''array'', js ''list''} then array_obj (type_obj ''object'') else VObj [])"
      using True by (auto simp: named_schema_def simple_types_def array_obj_def type_obj_def)
    ultimately show ?thesis using none by simp
  next
    case False
    then show ?thesis using tables [OF False, of "to_lower f"]
      by (auto simp: simps named_schema_def ref_obj_def reference_to_def definitions_prefix_def split: option.splits)
  qed
qed

lemma plain_source:
  assumes "\<not> starts_with list_prefix (to_lower n)" "fs = [] \<and> f = [] \<or> fs = [(js ''format'', VStr f)]"
  shows "toJsonSchema mm (VObj ((js ''type'', VStr n) # fs)) =
    Inr (case map_of formatted_types (to_lower n, to_lower f) of Some s \<Rightarrow> s | None \<Rightarrow> named_schema mm n)"
proof (rule named_source [OF _ _ _ _ _ _ assms(1)])
  show "as_string (detected (VObj ((js ''type'', VStr n) # fs))) = Inr n"
    using assms(2) by (cases n) (auto simp: detected_def orElse_def as_string_def js_def)
  show "as_string (orElse (fld (VObj ((js ''type'', VStr n) # fs)) ''format'') (VStr [])) = Inr f"
    using assms(2) by (cases f) (auto simp: orElse_def as_string_def js_def)
qed (use assms(2) in \<open>auto simp: js_def\<close>)

lemma text_sources: "name_ok t \<Longrightarrow> toJsonSchema mm (VObj [(js ''type'', VStr (text_of_type t))]) = Inr (text_schema mm t)"
proof (induction t)
  case (TypeName n)
  have "map_of formatted_types (to_lower n, to_lower []) = None" by (simp add: formatted_types_def to_lower_def js_def)
  then show ?case using TypeName plain_source [of n "[]" "[]" mm] by (simp add: list_prefix_def)
next
  case (ListText t)
  let ?d = "text_of_type (ListText t)"
  have l: "starts_with list_prefix (to_lower ?d)"
    by (simp add: starts_with_iff list_prefix_def js_def to_lower_def lower_unit_def)
  have i: "inner_type ?d = text_of_type t" by (simp add: inner_type_def str_slice_def js_def)
  have d: "as_string (detected (VObj [(js ''type'', VStr ?d)])) = Inr ?d"
    by (simp add: detected_def orElse_def as_string_def js_def)
  have f: "as_string (orElse (fld (VObj [(js ''type'', VStr ?d)]) ''format'') (VStr [])) = Inr []"
    by (simp add: orElse_def as_string_def js_def)
  show ?case using toJsonSchema_step(1) [OF _ d f l, of mm] ListText i by (simp add: array_obj_def del: text_of_type.simps)
qed

lemma type_sources: "well_written t \<Longrightarrow> toJsonSchema mm (source_of t) = Inr (schema_of mm t)"
proof (induction t)
  case (TextType t)
  then show ?case using text_sources by simp
next
  case (FormatType n f)
  then show ?case using plain_source [of n "[(js ''format'', VStr f)]" f mm] by (simp add: list_prefix_def)
next
  case (ArrayType t)
  let ?s = "source_of (ArrayType t)"
  have d: "as_string (detected ?s) = Inr (js ''array'')" by (simp add: detected_def orElse_def as_string_def)
  have f: "as_string (orElse (fld ?s ''format'') (VStr [])) = Inr []" by (simp add: orElse_def as_string_def)
  have "to_lower (js ''array'') = js ''array''" by code_simp
  moreover have "truthy (source_of t)" by (cases t) simp_all
  ultimately show ?case using toJsonSchema_step(3) [OF _ d f, of mm] ArrayType by (simp add: array_obj_def)
next
  case (RefType r)
  let ?s = "source_of (RefType r)"
  have "fld ?s ''$ref'' = VStr r" "as_string (detected ?s) = Inr []" "as_string (orElse (fld ?s ''format'') (VStr [])) = Inr []"
    by (simp_all add: detected_def orElse_def as_string_def)
  moreover have "truthy ?s" "primitive_schema [] [] = None" "\<not> starts_with list_prefix []" "to_lower [] = []"
    by (simp_all add: primitive_schema_def list_prefix_def starts_with_def to_lower_def)
  ultimately show ?case using RefType
    by (auto simp: toJsonSchema.simps [of mm ?s] Let_def no_model ref_obj_def reference_to_def definitions_prefix_def
        simp del: source_of.simps)
qed

text \<open>
  C18. \<open>toJsonSchema\<close> gives each type of Swagger 1.2 that is written in \<open>type\<close> and \<open>format\<close>, \<open>items\<close> or
  \<open>$ref\<close> the schema it stands for: the names of the table theirs, with or without a format, lists
  and arrays to any depth the schema of what is in them, the name of a model, and a reference to
  one, the definition the model map gives, and any other name or reference itself (where no name
  begins with \<open>list[\<close> and no reference is blank).  A source that is not there is \<open>object\<close>; and whatever
  the source, an exception is thrown exactly if the first of its type fields, or the format, is
  there but not a text, or if that is so of the items of an array, and it is the \<open>TypeError\<close> of a
  text method that is no function.
\<close>

theorem schemas_typed:
  assumes "well_written t" "\<not> truthy absent"
  shows "toJsonSchema mm (source_of t) = Inr (schema_of mm t) \<and> toJsonSchema mm absent = Inr (VStr (js ''object'')) \<and>
    (toJsonSchema mm source = Inl e \<longleftrightarrow> e = not_function \<and> ill_typed source)"
  using type_sources [OF assms(1)] toJsonSchema_throws assms(2) by (simp add: toJsonSchema.simps)

theorem schemas_typed_witness:
  "toJsonSchema [(js ''Pet'', js ''Pet'')] (VObj [(js ''type'', VStr (js ''array'')), (js ''items'', VObj [(js ''type'', VStr (js ''List[Pet]''))])]) =
     Inr (list_of_schema (list_of_schema (VObj [(js ''$ref'', VStr (js ''#/definitions/Pet''))])))"
proof -
  let ?t = "ArrayType (TextType (ListText (TypeName (js ''Pet''))))"
  have "well_written ?t" by code_simp
  moreover have "schema_of [(js ''Pet'', js ''Pet'')] ?t = list_of_schema (list_of_schema (VObj [(js ''$ref'', VStr (js ''#/definitions/Pet''))]))"
    by code_simp
  moreover have "source_of ?t = VObj [(js ''type'', VStr (js ''array'')), (js ''items'', VObj [(js ''type'', VStr (js ''List[Pet]''))])]"
    by code_simp
  ultimately show ?thesis using schemas_typed [of ?t VUndef "[(js ''Pet'', js ''Pet'')]"] by simp
qed

section \<open>What a conversion loses\<close>

text \<open>
  An operation of Swagger 1.1 that names the model it answers as \<open>responseClass\<close> loses it:
  \<open>toJsonSchema\<close> reads \<open>responseClass\<close> to find the kind of type, but looks the model up under
  \<open>type\<close>, so the default response has neither a schema nor a type.
\<close>

theorem responseClass_lost:
  assumes "fld op ''responseClass'' = VStr c" "fld op ''type'' = VUndef" "fld op ''dataType'' = VUndef"
    and "fld op ''format'' = VUndef" "fld op ''$ref'' = VUndef" "model_name mm VUndef = None"
    and "\<not> starts_with list_prefix (to_lower c)" "primitive_schema (to_lower c) [] = None"
    and "to_lower c \<notin> {js ''array'', js ''list''}"
  shows "case default_response mm op of Inl e \<Rightarrow> False
    | Inr r \<Rightarrow> fld r ''schema'' = VUndef \<and> fld r ''type'' = VUndef"
proof -
  have op: "is_object op" "truthy op" using assms(1) by (cases op; auto)+
  have d: "detected op = VStr c" using assms(1-3) by (simp add: detected_def orElse_def)
  have "\<exists>s. toJsonSchema mm op = Inr s \<and> fld s ''type'' = VUndef \<and> fld s ''$ref'' = VUndef \<and> fld s ''items'' = VUndef"
    using assms op by (simp add: toJsonSchema.simps [of mm op] Let_def d as_string_def orElse_def to_lower_def)
  then show ?thesis using op assms(4)
    by (auto simp: default_response_def dataType_def Let_def bindE_def)
qed

lemma last_key:
  "collect_scopes m scopes i = Inr (scopes', i') \<Longrightarrow> i' = (if m = [] then i else Some (fst (last m)))"
  by (induction m scopes i rule: collect_scopes.induct) (auto simp: bindE_eq_Inr)

lemma code_of_digit: "n < 10 \<Longrightarrow> code (of_nat (48 + n)) = 48 + int n"
  by (simp add: unsigned_of_nat take_bit_nat_eq_self del: of_nat_add)

lemma nat_digits_numeral: "list_all (\<lambda>c. 48 \<le> code c \<and> code c \<le> 57) (nat_digits n)"
proof (induction n rule: nat_digits.induct)
  case (1 n)
  then show ?case using code_of_digit [of n] code_of_digit [of "n mod 10"]
    by (subst nat_digits.simps) (auto simp del: of_nat_add)
qed

lemma nat_digits_zero: "list_ex (\<lambda>c. c \<noteq> 48) (nat_digits n) \<longleftrightarrow> 0 < n"
proof (induction n rule: nat_digits.induct)
  case (1 n)
  have z: "(of_nat (48 + k) :: 16 word) = 48 \<longleftrightarrow> k = 0" if "k < 10" for k
    using code_of_digit [OF that] by (auto simp del: of_nat_add simp: word_uint_eq_iff)
  show ?case
  proof (cases "n < 10")
    case True
    then show ?thesis using z [OF True] by (simp add: nat_digits.simps [of n] del: of_nat_add)
  next
    case False
    then have "0 < n div 10" by (simp add: div_greater_zero_iff)
    then show ?thesis using False 1 by (simp add: nat_digits.simps [of n] del: of_nat_add)
  qed
qed

lemma positive_key_digits: "positive_key (Some (nat_digits n)) \<longleftrightarrow> 0 < n"
  unfolding positive_key_def by (simp only: option.case nat_digits_numeral nat_digits_zero simp_thms)


text \<open>
  The scopes of an OAuth definition reach the document only if there are at least two of
  them: the test is \<open>i > 0\<close>, on the index of the last scope instead of their number.
\<close>

theorem single_scope_dropped:
  assumes "security_definition name def None = Inr ((d, valid), i)"
    and "fld def ''type'' = VStr (js ''oauth2'')" "fld def ''scopes'' = VArr scopes"
  shows "lookup_field d (js ''scopes'') \<noteq> VUndef \<longleftrightarrow> 2 \<le> length scopes"
proof -
  have o: "orElse (VArr scopes) (VArr []) = VArr scopes" by (simp add: orElse_def)
  from assms obtain scs where scs: "collect_scopes (for_in (VArr scopes)) [] None = Inr (scs, i)"
    and d: "(if truthy (fld def ''grantTypes'') then grant_fields (fld def ''grantTypes'')
          (if positive_key i then set_field ([(js ''vendorExtensions'', VObj [])] @ [(js ''type'', VStr (js ''oauth2''))]) (js ''scopes'') (VObj scs)
           else [(js ''vendorExtensions'', VObj [])] @ [(js ''type'', VStr (js ''oauth2''))])
        else Inr (if positive_key i then set_field ([(js ''vendorExtensions'', VObj [])] @ [(js ''type'', VStr (js ''oauth2''))]) (js ''scopes'') (VObj scs)
           else [(js ''vendorExtensions'', VObj [])] @ [(js ''type'', VStr (js ''oauth2''))], False)) = Inr (d, valid)"
    by (auto simp: security_definition_def bindE_eq_Inr Let_def o)
  have g: "lookup_field d' (js ''scopes'') = lookup_field d0 (js ''scopes'')" if "grant_fields g d0 = Inr (d', v)" for g d0 d' v
    using that by (auto simp: grant_fields_def Let_def bindE_eq_Inr split: if_splits)
  have "lookup_field d (js ''scopes'') = (if positive_key i then VObj scs else VUndef)"
    using d by (auto split: if_splits dest: g)
  moreover have "positive_key i \<longleftrightarrow> 2 \<le> length scopes"
  proof (cases "scopes = []")
    case False
    then have "enumerate 0 scopes \<noteq> []" by (metis length_0_conv length_enumerate)
    then have "i = Some (nat_digits (length scopes - 1))"
      using False last_key [OF scs] by (simp add: last_conv_nth nth_enumerate_eq split: prod.splits)
    then show ?thesis using False by (cases scopes) (auto simp: positive_key_digits Suc_le_eq)
  qed (use last_key [OF scs] in \<open>simp add: positive_key_def\<close>)
  ultimately show ?thesis by simp
qed

section \<open>The base URL\<close>

text \<open>
  The base URL of a declaration is cut into a host without a slash and a path that begins
  with one, and putting them together gives the URL back (a missing path becomes a slash); the
  scheme is not kept.  Another text becomes the base path as it is.
\<close>

theorem base_url_parts:
  assumes "r \<noteq> []" "hd r \<noteq> 47" "s \<in> {''http://'', ''https://''}"
  shows "case set_base (VStr (js s @ r)) swagger of Inl e \<Rightarrow> False
    | Inr swagger' \<Rightarrow> (case (lookup_field swagger' (js ''host''), lookup_field swagger' (js ''basePath'')) of
        (VStr host, VStr path) \<Rightarrow> host \<noteq> [] \<and> 47 \<notin> set host \<and>
          (if 47 \<in> set r then host @ path = r \<and> hd path = 47 else host = r \<and> path = js ''/'')
      | _ \<Rightarrow> False)"
proof -
  have "set_base (VStr (js s @ r)) swagger = Inr (split_url r swagger)"
    using assms(3) by (auto simp: set_base_def as_string_def starts_with_def js_Cons)
  moreover have js: "js ''/'' = [47]" by (simp add: js_def)
  have cut: "(\<exists>j \<le> length r. index_of r [47] = int j \<and> starts_with [47] (drop j r) \<and> (\<forall>i < j. \<not> starts_with [47] (drop i r))) \<or>
    index_of r [47] = -1 \<and> (\<forall>j \<le> length r. \<not> starts_with [47] (drop j r))"
    using find_at_cases [of 0 r "[47]"] by (auto simp: index_of_def)
  have slash: "starts_with [47] (drop i r) \<longleftrightarrow> i < length r \<and> r ! i = 47" for i
    by (cases "i < length r") (auto simp: starts_with_def Cons_nth_drop_Suc [symmetric])
  ultimately show ?thesis using cut
  proof (elim disjE exE conjE)
    fix j assume j: "j \<le> length r" "index_of r [47] = int j" "starts_with [47] (drop j r)" "\<forall>i < j. \<not> starts_with [47] (drop i r)"
    then have "j < length r" "r ! j = 47" "\<forall>i < j. r ! i \<noteq> 47" using slash by auto
    moreover have "0 < j" using assms(1,2) calculation by (cases j) (auto simp: hd_conv_nth)
    moreover have "47 \<notin> set (take j r)" "47 \<in> set r" using calculation by (auto simp: in_set_conv_nth)
    ultimately show ?thesis
      using \<open>set_base (VStr (js s @ r)) swagger = Inr (split_url r swagger)\<close> j(2)
      by (auto simp: split_url_def js Let_def hd_drop_conv_nth)
  next
    assume "index_of r [47] = -1" "\<forall>j \<le> length r. \<not> starts_with [47] (drop j r)"
    moreover then have "47 \<notin> set r" using slash by (metis in_set_conv_nth less_imp_le)
    ultimately show ?thesis
      using \<open>set_base (VStr (js s @ r)) swagger = Inr (split_url r swagger)\<close> assms(1)
      by (auto simp: split_url_def js Let_def)
  qed
qed

section \<open>The properties at concrete documents\<close>

text \<open>A resource listing with one declaration to load, and that declaration.\<close>

definition text_obj :: "(string \<times> string) list \<Rightarrow> json" where
  "text_obj m = VObj (map (\<lambda>(k, v). (js k, VStr (js v))) m)"

definition sample_listing :: json where
  "sample_listing = VObj [(js ''basePath'', VStr (js ''http://h/d'')),
     (js ''apis'', VArr [text_obj [(''path'', ''/p'')]])]"

definition sample_declaration :: json where
  "sample_declaration = VObj [(js ''basePath'', VStr (js ''http://h'')), (js ''resourcePath'', VStr (js ''/p'')),
     (js ''apis'', VArr [VObj [(js ''path'', VStr (js ''/p'')),
        (js ''operations'', VArr [text_obj [(''method'', ''GET''), (''type'', ''M'')]])]]),
     (js ''models'', VObj [(js ''M'', VObj [])])]"

lemma sample_listed:
  "case convert (\<lambda>s. NaN) NaN VUndef sample_listing None (VObj []) of
     Inr (Listed l thrown) \<Rightarrow> length (l_requests l) = 1 | _ \<Rightarrow> False"
  by code_simp

theorem callback_once_witness:
  "\<exists>l0 l thrown. convert (\<lambda>s. NaN) NaN VUndef sample_listing None (VObj []) = Inr (Listed l0 thrown) \<and>
     answered l0 [None] l \<and> l_finished l = [VObj (l_swagger l)]"
proof -
  obtain l0 thrown where c: "convert (\<lambda>s. NaN) NaN VUndef sample_listing None (VObj []) = Inr (Listed l0 thrown)"
    and n: "length (l_requests l0) = 1"
    using sample_listed by (auto split: sum.splits conversion.splits)
  obtain l where l: "on_answer Failure l0 = (l, None)" by simp
  have a: "answered l0 [None] l" by (rule one_answer [OF no_answer _ l]) (simp add: n)
  have "length (items_of (fld sample_listing ''apis'')) = 1" by (simp add: sample_listing_def)
  then have "l_finished l = [VObj (l_swagger l)]" using callback_once [OF c a] by simp
  then show ?thesis using a c by blast
qed

lemma sample_finished:
  "case convert (\<lambda>s. NaN) NaN VUndef sample_declaration None VUndef of
     Inr (Finished (VObj swagger)) \<Rightarrow> True | _ \<Rightarrow> False"
  by code_simp

theorem operations_tagged_witness:
  "case convert (\<lambda>s. NaN) NaN VUndef sample_declaration None VUndef of
     Inr (Finished (VObj swagger)) \<Rightarrow> document_ok swagger | _ \<Rightarrow> False"
  using sample_finished operations_tagged [of "\<lambda>s. NaN" NaN VUndef sample_declaration None VUndef]
  by (auto split: sum.splits conversion.splits json.splits)

lemma sample_declared: "snd (api_declaration sample_declaration ([], [])) = None"
  by code_simp

theorem references_defined_witness:
  "case api_declaration sample_declaration ([], []) of ((mm, swagger), thrown) \<Rightarrow> resolved mm swagger"
proof -
  obtain mm swagger where d: "api_declaration sample_declaration ([], []) = ((mm, swagger), None)"
    using sample_declared by (metis prod.exhaust snd_conv)
  have "resolved [] []" by (simp add: resolved_def)
  moreover have "\<not> is_string (fld sample_declaration ''models'')" by (simp add: sample_declaration_def)
  ultimately show ?thesis using references_defined [OF d] d by simp
qed

theorem responseClass_lost_witness:
  "case default_response [(js ''Pet'', js ''Pet'')] (text_obj [(''responseClass'', ''Pet'')]) of Inl e \<Rightarrow> False
    | Inr r \<Rightarrow> fld r ''schema'' = VUndef \<and> fld r ''type'' = VUndef"
proof (rule responseClass_lost [where c = "js ''Pet''"])
  show "\<not> starts_with list_prefix (to_lower (js ''Pet''))" "primitive_schema (to_lower (js ''Pet'')) [] = None"
    "to_lower (js ''Pet'') \<notin> {js ''array'', js ''list''}"
    by code_simp+
qed (simp_all add: text_obj_def model_name_def)

definition one_scope :: json where
  "one_scope = VObj [(js ''type'', VStr (js ''oauth2'')), (js ''scopes'', VArr [text_obj [(''scope'', ''read'')]])]"

theorem single_scope_dropped_witness:
  "case security_definition (js ''o'') one_scope None of
     Inr ((d, valid), i) \<Rightarrow> lookup_field d (js ''scopes'') = VUndef | Inl e \<Rightarrow> False"
proof -
  have "case security_definition (js ''o'') one_scope None of Inr r \<Rightarrow> True | Inl e \<Rightarrow> False" by code_simp
  then obtain d v i where r: "security_definition (js ''o'') one_scope None = Inr ((d, v), i)"
    by (auto split: sum.splits)
  have "lookup_field d (js ''scopes'') = VUndef"
    using single_scope_dropped [OF r] by (simp add: one_scope_def)
  then show ?thesis by (simp add: r)
qed

theorem base_url_parts_witness:
  "case set_base (VStr (js ''https://'' @ js ''h:80/v1'')) [] of Inl e \<Rightarrow> False
    | Inr swagger' \<Rightarrow> (case (lookup_field swagger' (js ''host''), lookup_field swagger' (js ''basePath'')) of
        (VStr host, VStr path) \<Rightarrow> host @ path = js ''h:80/v1'' \<and> hd path = 47
      | _ \<Rightarrow> False)"
proof -
  have h: "js ''h:80/v1'' \<noteq> []" "hd (js ''h:80/v1'') \<noteq> 47" "47 \<in> set (js ''h:80/v1'')" by code_simp+
  show ?thesis using base_url_parts [OF h(1,2), where s = "''https://''" and swagger = "[]"] h(3)
    by (auto split: sum.splits json.splits)
qed

end
