(* ===== verification/LangTables.thy ===== *)
theory LangTables
  imports JsString
begin

text \<open>
  The language files \<open>lang/*.js\<close>: the argument each of them passes to
  \<open>window.SwaggerTranslator.learn\<close>, the English phrases with their translations in the order
  of the file.  The phrases are ASCII; a translation that is not is the list of its UTF-16
  code units.
\<close>

type_synonym table = "(string \<times> jstr) list"

definition ca_words :: table where
  "ca_words = [(''Warning: Deprecated'',
      [65, 100, 118, 101, 114, 116, 232, 110, 99, 105, 97, 58, 32, 79, 98, 115, 111, 108, 101,
      116]),
    (''Implementation Notes'',
      [78, 111, 116, 101, 115, 32, 100, 39, 105, 109, 112, 108, 101, 109, 101, 110, 116, 97, 99,
      105, 243]),
    (''Response Class'', js ''Classe de la Resposta''),
    (''Status'', js ''Estatus''),
    (''Parameters'', [80, 97, 114, 224, 109, 101, 116, 114, 101, 115]),
    (''Parameter'', [80, 97, 114, 224, 109, 101, 116, 114, 101]),
    (''Value'', js ''Valor''),
    (''Description'', [68, 101, 115, 99, 114, 105, 112, 99, 105, 243]),
    (''Parameter Type'',
      [84, 105, 112, 117, 115, 32, 100, 101, 108, 32, 80, 97, 114, 224, 109, 101, 116, 114,
      101]),
    (''Data Type'', js ''Tipus de la Dada''),
    (''Response Messages'', js ''Missatges de la Resposta''),
    (''HTTP Status Code'', js ''Codi d'Estatus HTTP''),
    (''Reason'', [82, 97, 243]),
    (''Response Model'', js ''Model de la Resposta''),
    (''Request URL'',
      [85, 82, 76, 32, 100, 101, 32, 108, 97, 32, 83, 111, 108, 183, 108, 105, 99, 105, 116,
      117, 100]),
    (''Response Body'', js ''Cos de la Resposta''),
    (''Response Code'', js ''Codi de la Resposta''),
    (''Response Headers'',
      [67, 97, 112, 231, 97, 108, 101, 114, 101, 115, 32, 100, 101, 32, 108, 97, 32, 82, 101,
      115, 112, 111, 115, 116, 97]),
    (''Hide Response'', js ''Amagar Resposta''),
    (''Try it out!'', js ''Prova-ho!''),
    (''Show/Hide'', js ''Mostrar/Amagar''),
    (''List Operations'', js ''Llista Operacions''),
    (''Expand Operations'', js ''Expandir Operacions''),
    (''Raw'', js ''Cru''),
    (''can't parse JSON.  Raw result'', js ''no puc analitzar el JSON.  Resultat cru''),
    (''Example Value'', js ''Valor d'Exemple''),
    (''Model Schema'', js ''Esquema del Model''),
    (''Model'', js ''Model''),
    (''apply'', js ''aplicar''),
    (''Username'', js ''Nom d'usuari''),
    (''Password'', js ''Contrasenya''),
    (''Terms of service'', js ''Termes del servei''),
    (''Created by'', js ''Creat per''),
    (''See more at'', [86, 101, 117, 114, 101, 32, 109, 233, 115, 32, 101, 110]),
    (''Contact the developer'', js ''Contactar amb el desenvolupador''),
    (''api version'',
      [118, 101, 114, 115, 105, 243, 32, 100, 101, 32, 108, 97, 32, 97, 112, 105]),
    (''Response Content Type'', js ''Tipus de Contingut de la Resposta''),
    (''fetching resource'', js ''recollint recurs''),
    (''fetching resource list'', js ''recollins llista de recursos''),
    (''Explore'', js ''Explorant''),
    (''Show Swagger Petstore Example Apis'', js ''Mostrar API d'Exemple Swagger Petstore''),
    (''Can't read from server.  It may not have the appropriate access-control-origin settings.'',
      [78, 111, 32, 101, 115, 32, 112, 111, 116, 32, 108, 108, 101, 103, 105, 114, 32, 100, 101,
      108, 32, 115, 101, 114, 118, 105, 100, 111, 114, 46, 32, 80, 111, 116, 115, 101, 114, 32,
      110, 111, 32, 116, 101, 110, 105, 117, 32, 108, 97, 32, 99, 111, 110, 102, 105, 103, 117,
      114, 97, 99, 105, 243, 32, 100, 101, 32, 99, 111, 110, 116, 114, 111, 108, 32, 100, 39,
      97, 99, 99, 233, 115, 32, 97, 112, 114, 111, 112, 105, 97, 100, 97, 46]),
    (''Please specify the protocol for'', js ''Si us plau, especifiqueu el protocol per a''),
    (''Can't read swagger JSON from'', js ''No es pot llegir el JSON de swagger des de''),
    (''Finished Loading Resource Information. Rendering Swagger UI'',
      [70, 105, 110, 97, 108, 105, 116, 122, 97, 100, 97, 32, 108, 97, 32, 99, 224, 114, 114,
      101, 103, 97, 32, 100, 101, 108, 32, 114, 101, 99, 117, 114, 115, 32, 105, 110, 102, 111,
      114, 109, 97, 116, 105, 117, 46, 32, 82, 101, 110, 100, 101, 114, 105, 116, 122, 97, 110,
      116, 32, 83, 119, 97, 103, 103, 101, 114, 32, 85, 73]),
    (''Unable to read api'', js ''No es pot llegir l'api''),
    (''from path'', js ''des de la ruta''),
    (''server returned'', js ''el servidor ha retornat'')]"

definition el_words :: table where
  "el_words = [(''Warning: Deprecated'',
      [928, 961, 959, 949, 953, 948, 959, 960, 959, 943, 951, 963, 951, 58, 32, 904, 967, 949,
      953, 32, 945, 960, 959, 963, 965, 961, 952, 949, 943]),
    (''Implementation Notes'',
      [931, 951, 956, 949, 953, 974, 963, 949, 953, 962, 32, 933, 955, 959, 960, 959, 943, 951,
      963, 951, 962]),
    (''Response Class'', [913, 960, 972, 954, 961, 953, 963, 951]),
    (''Status'', [922, 945, 964, 940, 963, 964, 945, 963, 951]),
    (''Parameters'', [928, 945, 961, 940, 956, 949, 964, 961, 959, 953]),
    (''Parameter'', [928, 945, 961, 940, 956, 949, 964, 961, 959, 962]),
    (''Value'', [932, 953, 956, 942]),
    (''Description'', [928, 949, 961, 953, 947, 961, 945, 966, 942]),
    (''Parameter Type'',
      [932, 973, 960, 959, 962, 32, 928, 945, 961, 945, 956, 941, 964, 961, 959, 965]),
    (''Data Type'', [932, 973, 960, 959, 962, 32, 916, 949, 948, 959, 956, 941, 957, 969, 957]),
    (''Response Messages'',
      [924, 951, 957, 973, 956, 945, 964, 945, 32, 913, 960, 972, 954, 961, 953, 963, 951,
      962]),
    (''HTTP Status Code'',
      [922, 969, 948, 953, 954, 972, 962, 32, 922, 945, 964, 940, 963, 964, 945, 963, 951, 962,
      32, 72, 84, 84, 80]),
    (''Reason'', [913, 953, 964, 953, 959, 955, 959, 947, 943, 945]),
    (''Response Model'',
      [924, 959, 957, 964, 941, 955, 959, 32, 913, 960, 972, 954, 961, 953, 963, 951, 962]),
    (''Request URL'', [85, 82, 76, 32, 913, 953, 964, 942, 956, 945, 964, 959, 962]),
    (''Response Body'', [931, 974, 956, 945, 32, 913, 960, 972, 954, 961, 953, 963, 951, 962]),
    (''Response Code'',
      [922, 969, 948, 953, 954, 972, 962, 32, 913, 960, 972, 954, 961, 953, 963, 951, 962]),
    (''Response Headers'',
      [917, 960, 953, 954, 949, 966, 945, 955, 943, 948, 949, 962, 32, 913, 960, 972, 954, 961,
      953, 963, 951, 962]),
    (''Hide Response'',
      [913, 960, 972, 954, 961, 965, 968, 951, 32, 913, 960, 972, 954, 961, 953, 963, 951,
      962]),
    (''Headers'', [917, 960, 953, 954, 949, 966, 945, 955, 943, 948, 949, 962]),
    (''Try it out!'', [916, 959, 954, 953, 956, 940, 963, 964, 949, 32, 964, 959, 33]),
    (''Show/Hide'',
      [917, 956, 966, 940, 957, 953, 963, 951, 47, 913, 960, 972, 954, 961, 965, 968, 951]),
    (''List Operations'',
      [923, 943, 963, 964, 945, 32, 923, 949, 953, 964, 959, 965, 961, 947, 953, 974, 957]),
    (''Expand Operations'',
      [913, 957, 940, 960, 964, 965, 958, 951, 32, 923, 949, 953, 964, 959, 965, 961, 947, 953,
      974, 957]),
    (''Raw'', [913, 954, 945, 964, 941, 961, 947, 945, 963, 964, 959]),
    (''can't parse JSON.  Raw result'',
      [945, 948, 965, 957, 945, 956, 943, 945, 32, 945, 957, 940, 955, 965, 963, 951, 962, 32,
      74, 83, 79, 78, 46, 32, 32, 913, 954, 945, 964, 941, 961, 947, 945, 963, 964, 959, 32,
      945, 960, 959, 964, 941, 955, 949, 963, 956, 945]),
    (''Example Value'',
      [928, 945, 961, 940, 948, 949, 953, 947, 956, 945, 32, 932, 953, 956, 942, 962]),
    (''Model Schema'', [931, 967, 942, 956, 945, 32, 924, 959, 957, 964, 941, 955, 959, 965]),
    (''Model'', [924, 959, 957, 964, 941, 955, 959]),
    (''Click to set as parameter value'',
      [928, 945, 964, 942, 963, 964, 949, 32, 947, 953, 945, 32, 957, 945, 32, 952, 941, 963,
      949, 964, 949, 32, 964, 953, 956, 942, 32, 960, 945, 961, 945, 956, 941, 964, 961, 959,
      965]),
    (''apply'', [949, 966, 945, 961, 956, 959, 947, 942]),
    (''Username'', [908, 957, 959, 956, 945, 32, 967, 961, 942, 963, 951]),
    (''Password'',
      [922, 969, 948, 953, 954, 972, 962, 32, 960, 961, 972, 963, 946, 945, 963, 951, 962]),
    (''Terms of service'', [908, 961, 959, 953, 32, 967, 961, 942, 963, 951, 962]),
    (''Created by'',
      [916, 951, 956, 953, 959, 965, 961, 947, 942, 952, 951, 954, 949, 32, 945, 960, 972]),
    (''See more at'',
      [916, 949, 943, 964, 949, 32, 960, 949, 961, 953, 963, 963, 972, 964, 949, 961, 945, 32,
      963, 964, 959]),
    (''Contact the developer'',
      [917, 960, 953, 954, 959, 953, 957, 969, 957, 942, 963, 964, 949, 32, 956, 949, 32, 964,
      959, 957, 32, 960, 961, 959, 947, 961, 945, 956, 956, 945, 964, 953, 963, 964, 942]),
    (''api version'', [941, 954, 948, 959, 963, 951, 32, 97, 112, 105]),
    (''Response Content Type'',
      [932, 973, 960, 959, 962, 32, 928, 949, 961, 953, 949, 967, 959, 956, 941, 957, 959, 965,
      32, 913, 960, 972, 954, 961, 953, 963, 951, 962]),
    (''Parameter content type:'',
      [932, 973, 960, 959, 962, 32, 960, 949, 961, 953, 949, 967, 959, 956, 941, 957, 959, 965,
      32, 960, 945, 961, 945, 956, 941, 964, 961, 959, 965, 58]),
    (''fetching resource'',
      [960, 945, 961, 945, 955, 945, 946, 942, 32, 960, 972, 961, 959, 965]),
    (''fetching resource list'',
      [960, 945, 961, 945, 955, 945, 946, 942, 32, 955, 943, 963, 964, 945, 962, 32, 960, 972,
      961, 969, 957]),
    (''Explore'', [917, 958, 949, 961, 949, 973, 957, 951, 963, 951]),
    (''Show Swagger Petstore Example Apis'',
      [917, 956, 966, 940, 957, 953, 963, 951, 32, 65, 112, 105, 32, 916, 949, 953, 947, 956,
      940, 964, 969, 957, 32, 80, 101, 116, 115, 116, 111, 114, 101, 32, 964, 959, 965, 32, 83,
      119, 97, 103, 103, 101, 114]),
    (''Can't read from server.  It may not have the appropriate access-control-origin settings.'',
      [913, 948, 965, 957, 945, 956, 943, 945, 32, 945, 957, 940, 947, 957, 969, 963, 951, 962,
      32, 945, 960, 972, 32, 964, 959, 957, 32, 949, 958, 965, 960, 951, 961, 949, 964, 951,
      964, 942, 46, 32, 32, 924, 960, 959, 961, 949, 943, 32, 957, 945, 32, 956, 951, 957, 32,
      941, 967, 949, 953, 32, 954, 945, 964, 940, 955, 955, 951, 955, 949, 962, 32, 961, 965,
      952, 956, 943, 963, 949, 953, 962, 32, 947, 953, 945, 32, 97, 99, 99, 101, 115, 115, 45,
      99, 111, 110, 116, 114, 111, 108, 45, 111, 114, 105, 103, 105, 110, 46]),
    (''Please specify the protocol for'',
      [928, 945, 961, 945, 954, 945, 955, 974, 32, 960, 961, 959, 963, 948, 953, 959, 961, 943,
      963, 964, 949, 32, 964, 959, 32, 960, 961, 969, 964, 972, 954, 959, 955, 955, 959, 32,
      947, 953, 945]),
    (''Can't read swagger JSON from'',
      [913, 948, 965, 957, 945, 956, 943, 945, 32, 945, 957, 940, 947, 957, 969, 963, 951, 962,
      32, 115, 119, 97, 103, 103, 101, 114, 32, 74, 83, 79, 78, 32, 945, 960, 972]),
    (''Finished Loading Resource Information. Rendering Swagger UI'',
      [927, 955, 959, 954, 955, 942, 961, 969, 963, 951, 32, 934, 972, 961, 964, 969, 963, 951,
      962, 32, 928, 955, 951, 961, 959, 966, 959, 961, 953, 954, 974, 957, 32, 928, 972, 961,
      959, 965, 46, 32, 928, 945, 961, 959, 965, 963, 943, 945, 963, 951, 32, 83, 119, 97, 103,
      103, 101, 114, 32, 85, 73]),
    (''Unable to read api'',
      [913, 948, 965, 957, 945, 956, 943, 945, 32, 945, 957, 940, 947, 957, 969, 963, 951, 962,
      32, 97, 112, 105]),
    (''from path'', [945, 960, 972, 32, 964, 959, 32, 956, 959, 957, 959, 960, 940, 964, 953]),
    (''server returned'',
      [959, 32, 949, 958, 965, 960, 951, 961, 949, 964, 951, 961, 942, 962, 32, 949, 960, 941,
      963, 964, 961, 949, 968, 949])]"

definition en_words :: table where
  "en_words = [(''Warning: Deprecated'', js ''Warning: Deprecated''),
    (''Implementation Notes'', js ''Implementation Notes''),
    (''Response Class'', js ''Response Class''),
    (''Status'', js ''Status''),
    (''Parameters'', js ''Parameters''),
    (''Parameter'', js ''Parameter''),
    (''Value'', js ''Value''),
    (''Description'', js ''Description''),
    (''Parameter Type'', js ''Parameter Type''),
    (''Data Type'', js ''Data Type''),
    (''Response Messages'', js ''Response Messages''),
    (''HTTP Status Code'', js ''HTTP Status Code''),
    (''Reason'', js ''Reason''),
    (''Response Model'', js ''Response Model''),
    (''Request URL'', js ''Request URL''),
    (''Response Body'', js ''Response Body''),
    (''Response Code'', js ''Response Code''),
    (''Response Headers'', js ''Response Headers''),
    (''Hide Response'', js ''Hide Response''),
    (''Headers'', js ''Headers''),
    (''Try it out!'', js ''Try it out!''),
    (''Show/Hide'', js ''Show/Hide''),
    (''List Operations'', js ''List Operations''),
    (''Expand Operations'', js ''Expand Operations''),
    (''Raw'', js ''Raw''),
    (''can't parse JSON.  Raw result'', js ''can't parse JSON.  Raw result''),
    (''Example Value'', js ''Example Value''),
    (''Model Schema'', js ''Model Schema''),
    (''Model'', js ''Model''),
    (''Click to set as parameter value'', js ''Click to set as parameter value''),
    (''apply'', js ''apply''),
    (''Username'', js ''Username''),
    (''Password'', js ''Password''),
    (''Terms of service'', js ''Terms of service''),
    (''Created by'', js ''Created by''),
    (''See more at'', js ''See more at''),
    (''Contact the developer'', js ''Contact the developer''),
    (''api version'', js ''api version''),
    (''Response Content Type'', js ''Response Content Type''),
    (''Parameter content type:'', js ''Parameter content type:''),
    (''fetching resource'', js ''fetching resource''),
    (''fetching resource list'', js ''fetching resource list''),
    (''Explore'', js ''Explore''),
    (''Show Swagger Petstore Example Apis'', js ''Show Swagger Petstore Example Apis''),
    (''Can't read from server.  It may not have the appropriate access-control-origin settings.'',
      js ''Can't read from server.  It may not have the appropriate access-control-origin settings.''),
    (''Please specify the protocol for'', js ''Please specify the protocol for''),
    (''Can't read swagger JSON from'', js ''Can't read swagger JSON from''),
    (''Finished Loading Resource Information. Rendering Swagger UI'',
      js ''Finished Loading Resource Information. Rendering Swagger UI''),
    (''Unable to read api'', js ''Unable to read api''),
    (''from path'', js ''from path''),
    (''server returned'', js ''server returned'')]"

definition es_words :: table where
  "es_words = [(''Warning: Deprecated'', js ''Advertencia: Obsoleto''),
    (''Implementation Notes'',
      [78, 111, 116, 97, 115, 32, 100, 101, 32, 105, 109, 112, 108, 101, 109, 101, 110, 116, 97,
      99, 105, 243, 110]),
    (''Response Class'', js ''Clase de la Respuesta''),
    (''Status'', js ''Status''),
    (''Parameters'', [80, 97, 114, 225, 109, 101, 116, 114, 111, 115]),
    (''Parameter'', [80, 97, 114, 225, 109, 101, 116, 114, 111]),
    (''Value'', js ''Valor''),
    (''Description'', [68, 101, 115, 99, 114, 105, 112, 99, 105, 243, 110]),
    (''Parameter Type'',
      [84, 105, 112, 111, 32, 100, 101, 108, 32, 80, 97, 114, 225, 109, 101, 116, 114, 111]),
    (''Data Type'', js ''Tipo del Dato''),
    (''Response Messages'', js ''Mensajes de la Respuesta''),
    (''HTTP Status Code'',
      [67, 243, 100, 105, 103, 111, 32, 100, 101, 32, 83, 116, 97, 116, 117, 115, 32, 72, 84,
      84, 80]),
    (''Reason'', [82, 97, 122, 243, 110]),
    (''Response Model'', js ''Modelo de la Respuesta''),
    (''Request URL'', js ''URL de la Solicitud''),
    (''Response Body'', js ''Cuerpo de la Respuesta''),
    (''Response Code'',
      [67, 243, 100, 105, 103, 111, 32, 100, 101, 32, 108, 97, 32, 82, 101, 115, 112, 117, 101,
      115, 116, 97]),
    (''Response Headers'', js ''Encabezados de la Respuesta''),
    (''Hide Response'', js ''Ocultar Respuesta''),
    (''Try it out!'', [80, 114, 117, 233, 98, 97, 108, 111, 33]),
    (''Show/Hide'', js ''Mostrar/Ocultar''),
    (''List Operations'', js ''Listar Operaciones''),
    (''Expand Operations'', js ''Expandir Operaciones''),
    (''Raw'', js ''Crudo''),
    (''can't parse JSON.  Raw result'', js ''no puede parsear el JSON.  Resultado crudo''),
    (''Example Value'', js ''Valor de Ejemplo''),
    (''Model Schema'', js ''Esquema del Modelo''),
    (''Model'', js ''Modelo''),
    (''apply'', js ''aplicar''),
    (''Username'', js ''Nombre de usuario''),
    (''Password'', [67, 111, 110, 116, 114, 97, 115, 101, 241, 97]),
    (''Terms of service'',
      [84, 233, 114, 109, 105, 110, 111, 115, 32, 100, 101, 32, 83, 101, 114, 118, 105, 99, 105,
      111]),
    (''Created by'', js ''Creado por''),
    (''See more at'', [86, 101, 114, 32, 109, 225, 115, 32, 101, 110]),
    (''Contact the developer'', js ''Contactar al desarrollador''),
    (''api version'',
      [118, 101, 114, 115, 105, 243, 110, 32, 100, 101, 32, 108, 97, 32, 97, 112, 105]),
    (''Response Content Type'', js ''Tipo de Contenido (Content Type) de la Respuesta''),
    (''fetching resource'', js ''buscando recurso''),
    (''fetching resource list'', js ''buscando lista del recurso''),
    (''Explore'', js ''Explorar''),
    (''Show Swagger Petstore Example Apis'', js ''Mostrar Api Ejemplo de Swagger Petstore''),
    (''Can't read from server.  It may not have the appropriate access-control-origin settings.'',
      [78, 111, 32, 115, 101, 32, 112, 117, 101, 100, 101, 32, 108, 101, 101, 114, 32, 100, 101,
      108, 32, 115, 101, 114, 118, 105, 100, 111, 114, 46, 32, 84, 97, 108, 32, 118, 101, 122,
      32, 110, 111, 32, 116, 105, 101, 110, 101, 32, 108, 97, 32, 99, 111, 110, 102, 105, 103,
      117, 114, 97, 99, 105, 243, 110, 32, 100, 101, 32, 99, 111, 110, 116, 114, 111, 108, 32,
      100, 101, 32, 97, 99, 99, 101, 115, 111, 32, 100, 101, 32, 111, 114, 105, 103, 101, 110,
      32, 40, 97, 99, 99, 101, 115, 115, 45, 99, 111, 110, 116, 114, 111, 108, 45, 111, 114,
      105, 103, 105, 110, 41, 32, 97, 112, 114, 111, 112, 105, 97, 100, 111, 46]),
    (''Please specify the protocol for'', js ''Por favor, especificar el protocola para''),
    (''Can't read swagger JSON from'', js ''No se puede leer el JSON de swagger desde''),
    (''Finished Loading Resource Information. Rendering Swagger UI'',
      [70, 105, 110, 97, 108, 105, 122, 97, 100, 97, 32, 108, 97, 32, 99, 97, 114, 103, 97, 32,
      100, 101, 108, 32, 114, 101, 99, 117, 114, 115, 111, 32, 100, 101, 32, 73, 110, 102, 111,
      114, 109, 97, 99, 105, 243, 110, 46, 32, 77, 111, 115, 116, 114, 97, 110, 100, 111, 32,
      83, 119, 97, 103, 103, 101, 114, 32, 85, 73]),
    (''Unable to read api'', js ''No se puede leer la api''),
    (''from path'', js ''desde ruta''),
    (''server returned'',
      [101, 108, 32, 115, 101, 114, 118, 105, 100, 111, 114, 32, 114, 101, 116, 111, 114, 110,
      243])]"

definition fr_words :: table where
  "fr_words = [(''Warning: Deprecated'',
      [65, 118, 101, 114, 116, 105, 115, 115, 101, 109, 101, 110, 116, 32, 58, 32, 79, 98, 115,
      111, 108, 232, 116, 101]),
    (''Implementation Notes'',
      [78, 111, 116, 101, 115, 32, 100, 39, 105, 109, 112, 108, 233, 109, 101, 110, 116, 97,
      116, 105, 111, 110]),
    (''Response Class'',
      [67, 108, 97, 115, 115, 101, 32, 100, 101, 32, 108, 97, 32, 114, 233, 112, 111, 110, 115,
      101]),
    (''Status'', js ''Statut''),
    (''Parameters'', [80, 97, 114, 97, 109, 232, 116, 114, 101, 115]),
    (''Parameter'', [80, 97, 114, 97, 109, 232, 116, 114, 101]),
    (''Value'', js ''Valeur''),
    (''Description'', js ''Description''),
    (''Parameter Type'',
      [84, 121, 112, 101, 32, 100, 117, 32, 112, 97, 114, 97, 109, 232, 116, 114, 101]),
    (''Data Type'', [84, 121, 112, 101, 32, 100, 101, 32, 100, 111, 110, 110, 233, 101, 115]),
    (''Response Messages'',
      [77, 101, 115, 115, 97, 103, 101, 115, 32, 100, 101, 32, 108, 97, 32, 114, 233, 112, 111,
      110, 115, 101]),
    (''HTTP Status Code'', js ''Code de statut HTTP''),
    (''Reason'', js ''Raison''),
    (''Response Model'',
      [77, 111, 100, 232, 108, 101, 32, 100, 101, 32, 114, 233, 112, 111, 110, 115, 101]),
    (''Request URL'', [85, 82, 76, 32, 97, 112, 112, 101, 108, 233, 101]),
    (''Response Body'',
      [67, 111, 114, 112, 115, 32, 100, 101, 32, 108, 97, 32, 114, 233, 112, 111, 110, 115,
      101]),
    (''Response Code'',
      [67, 111, 100, 101, 32, 100, 101, 32, 108, 97, 32, 114, 233, 112, 111, 110, 115, 101]),
    (''Response Headers'',
      [69, 110, 45, 116, 234, 116, 101, 115, 32, 100, 101, 32, 108, 97, 32, 114, 233, 112, 111,
      110, 115, 101]),
    (''Hide Response'',
      [67, 97, 99, 104, 101, 114, 32, 108, 97, 32, 114, 233, 112, 111, 110, 115, 101]),
    (''Headers'', [69, 110, 45, 116, 234, 116, 101, 115]),
    (''Try it out!'', js ''Testez !''),
    (''Show/Hide'', js ''Afficher/Masquer''),
    (''List Operations'',
      [76, 105, 115, 116, 101, 32, 100, 101, 115, 32, 111, 112, 233, 114, 97, 116, 105, 111,
      110, 115]),
    (''Expand Operations'',
      [68, 233, 118, 101, 108, 111, 112, 112, 101, 114, 32, 108, 101, 115, 32, 111, 112, 233,
      114, 97, 116, 105, 111, 110, 115]),
    (''Raw'', js ''Brut''),
    (''can't parse JSON.  Raw result'',
      [105, 109, 112, 111, 115, 115, 105, 98, 108, 101, 32, 100, 101, 32, 100, 233, 99, 111,
      100, 101, 114, 32, 108, 101, 32, 74, 83, 79, 78, 46, 32, 32, 82, 233, 115, 117, 108, 116,
      97, 116, 32, 98, 114, 117, 116]),
    (''Example Value'', js ''Exemple la valeur''),
    (''Model Schema'',
      [68, 233, 102, 105, 110, 105, 116, 105, 111, 110, 32, 100, 117, 32, 109, 111, 100, 232,
      108, 101]),
    (''Model'', [77, 111, 100, 232, 108, 101]),
    (''apply'', js ''appliquer''),
    (''Username'', js ''Nom d'utilisateur''),
    (''Password'', js ''Mot de passe''),
    (''Terms of service'', js ''Conditions de service''),
    (''Created by'', [67, 114, 233, 233, 32, 112, 97, 114]),
    (''See more at'', js ''Voir plus sur''),
    (''Contact the developer'',
      [67, 111, 110, 116, 97, 99, 116, 101, 114, 32, 108, 101, 32, 100, 233, 118, 101, 108, 111,
      112, 112, 101, 117, 114]),
    (''api version'', js ''version de l'api''),
    (''Response Content Type'',
      [67, 111, 110, 116, 101, 110, 116, 32, 84, 121, 112, 101, 32, 100, 101, 32, 108, 97, 32,
      114, 233, 112, 111, 110, 115, 101]),
    (''fetching resource'',
      [114, 233, 99, 117, 112, 233, 114, 97, 116, 105, 111, 110, 32, 100, 101, 32, 108, 97, 32,
      114, 101, 115, 115, 111, 117, 114, 99, 101]),
    (''fetching resource list'',
      [114, 233, 99, 117, 112, 233, 114, 97, 116, 105, 111, 110, 32, 100, 101, 32, 108, 97, 32,
      108, 105, 115, 116, 101, 32, 100, 101, 32, 114, 101, 115, 115, 111, 117, 114, 99, 101,
      115]),
    (''Explore'', js ''Explorer''),
    (''Show Swagger Petstore Example Apis'',
      js ''Montrer les Apis de l'exemple Petstore de Swagger''),
    (''Can't read from server.  It may not have the appropriate access-control-origin settings.'',
      [73, 109, 112, 111, 115, 115, 105, 98, 108, 101, 32, 100, 101, 32, 108, 105, 114, 101, 32,
      224, 32, 112, 97, 114, 116, 105, 114, 32, 100, 117, 32, 115, 101, 114, 118, 101, 117, 114,
      46, 32, 73, 108, 32, 115, 101, 32, 112, 101, 117, 116, 32, 113, 117, 101, 32, 108, 101,
      115, 32, 114, 233, 103, 108, 97, 103, 101, 115, 32, 97, 99, 99, 101, 115, 115, 45, 99,
      111, 110, 116, 114, 111, 108, 45, 111, 114, 105, 103, 105, 110, 32, 110, 101, 32, 115,
      111, 105, 101, 110, 116, 32, 112, 97, 115, 32, 97, 112, 112, 114, 111, 112, 114, 105, 233,
      115, 46]),
    (''Please specify the protocol for'',
      [86, 101, 117, 105, 108, 108, 101, 122, 32, 115, 112, 233, 99, 105, 102, 105, 101, 114,
      32, 117, 110, 32, 112, 114, 111, 116, 111, 99, 111, 108, 101, 32, 112, 111, 117, 114]),
    (''Can't read swagger JSON from'',
      [73, 109, 112, 111, 115, 115, 105, 98, 108, 101, 32, 100, 101, 32, 108, 105, 114, 101, 32,
      108, 101, 32, 74, 83, 79, 78, 32, 115, 119, 97, 103, 103, 101, 114, 32, 224, 32, 112, 97,
      114, 116, 105, 114, 32, 100, 101]),
    (''Finished Loading Resource Information. Rendering Swagger UI'',
      [67, 104, 97, 114, 103, 101, 109, 101, 110, 116, 32, 100, 101, 115, 32, 105, 110, 102,
      111, 114, 109, 97, 116, 105, 111, 110, 115, 32, 116, 101, 114, 109, 105, 110, 233, 46, 32,
      65, 102, 102, 105, 99, 104, 97, 103, 101, 32, 100, 101, 32, 83, 119, 97, 103, 103, 101,
      114, 32, 85, 73]),
    (''Unable to read api'', js ''Impossible de lire l'api''),
    (''from path'',
      [224, 32, 112, 97, 114, 116, 105, 114, 32, 100, 117, 32, 99, 104, 101, 109, 105, 110]),
    (''server returned'',
      [114, 233, 112, 111, 110, 115, 101, 32, 100, 117, 32, 115, 101, 114, 118, 101, 117,
      114])]"

definition geo_words :: table where
  "geo_words = [(''Warning: Deprecated'',
      [4327, 4323, 4320, 4304, 4307, 4326, 4308, 4305, 4304, 58, 32, 4304, 4326, 4304, 4320, 32,
      4306, 4304, 4315, 4317, 4312, 4327, 4308, 4316, 4308, 4305, 4304]),
    (''Implementation Notes'',
      [4312, 4315, 4318, 4314, 4308, 4315, 4308, 4316, 4322, 4304, 4330, 4312, 4312, 4321, 32,
      4304, 4326, 4332, 4308, 4320, 4304]),
    (''Response Class'',
      [4320, 4308, 4321, 4318, 4317, 4316, 4321, 32, 4313, 4314, 4304, 4321, 4312]),
    (''Status'', [4321, 4322, 4304, 4322, 4323, 4321, 4312]),
    (''Parameters'', [4318, 4304, 4320, 4304, 4315, 4308, 4322, 4320, 4308, 4305, 4312]),
    (''Parameter'', [4318, 4304, 4320, 4304, 4315, 4308, 4322, 4320, 4312]),
    (''Value'', [4315, 4316, 4312, 4328, 4309, 4316, 4308, 4314, 4317, 4305, 4304]),
    (''Description'', [4304, 4326, 4332, 4308, 4320, 4304]),
    (''Parameter Type'',
      [4318, 4304, 4320, 4304, 4315, 4308, 4322, 4320, 4312, 4321, 32, 4322, 4312, 4318, 4312]),
    (''Data Type'',
      [4315, 4317, 4316, 4304, 4330, 4308, 4315, 4312, 4321, 32, 4322, 4312, 4318, 4312]),
    (''Response Messages'', [4318, 4304, 4321, 4323, 4334, 4312]),
    (''HTTP Status Code'', [72, 84, 84, 80, 32, 4321, 4322, 4304, 4322, 4323, 4321, 4312]),
    (''Reason'', [4315, 4312, 4310, 4308, 4310, 4312]),
    (''Response Model'',
      [4320, 4308, 4321, 4318, 4317, 4316, 4321, 32, 4315, 4317, 4307, 4308, 4314, 4312]),
    (''Request URL'', [4315, 4317, 4311, 4334, 4317, 4309, 4316, 4312, 4321, 32, 85, 82, 76]),
    (''Response Body'',
      [4318, 4304, 4321, 4323, 4334, 4312, 4321, 32, 4321, 4334, 4308, 4323, 4314, 4312]),
    (''Response Code'', [4318, 4304, 4321, 4323, 4334, 4312, 4321, 32, 4313, 4317, 4307, 4312]),
    (''Response Headers'',
      [4318, 4304, 4321, 4323, 4334, 4312, 4321, 32, 4336, 4308, 4307, 4308, 4320, 4308, 4305,
      4312]),
    (''Hide Response'',
      [4307, 4304, 4315, 4304, 4314, 4308, 32, 4318, 4304, 4321, 4323, 4334, 4312]),
    (''Headers'', [4336, 4308, 4307, 4308, 4320, 4308, 4305, 4312]),
    (''Try it out!'', [4330, 4304, 4307, 4308, 32, 33]),
    (''Show/Hide'',
      [4306, 4304, 4315, 4317, 4329, 4308, 4316, 4304, 47, 4307, 4304, 4315, 4304, 4314, 4309,
      4304]),
    (''List Operations'',
      [4317, 4318, 4308, 4320, 4304, 4330, 4312, 4308, 4305, 4312, 4321, 32, 4321, 4312, 4304]),
    (''Expand Operations'',
      [4317, 4318, 4308, 4320, 4304, 4330, 4312, 4308, 4305, 4312, 32, 4309, 4320, 4330, 4314,
      4304, 4307]),
    (''Raw'', [4316, 4308, 4307, 4314, 4312]),
    (''can't parse JSON.  Raw result'',
      [74, 83, 79, 78, 45, 4312, 4321, 32, 4307, 4304, 4315, 4323, 4328, 4304, 4309, 4308, 4305,
      4304, 32, 4309, 4308, 4320, 32, 4315, 4317, 4334, 4308, 4320, 4334, 4307, 4304, 46, 32,
      32, 4316, 4308, 4307, 4314, 4312, 32, 4318, 4304, 4321, 4323, 4334, 4312]),
    (''Example Value'', [4315, 4304, 4306, 4304, 4314, 4312, 4311, 4312]),
    (''Model Schema'',
      [4315, 4317, 4307, 4308, 4314, 4312, 4321, 32, 4321, 4322, 4320, 4323, 4325, 4322, 4323,
      4320, 4304]),
    (''Model'', [4315, 4317, 4307, 4308, 4314, 4312]),
    (''Click to set as parameter value'',
      [4318, 4304, 4320, 4304, 4315, 4308, 4322, 4320, 4312, 4321, 4311, 4309, 4312, 4321, 32,
      4315, 4316, 4312, 4328, 4309, 4316, 4308, 4314, 4317, 4305, 4312, 4321, 32, 4315, 4312,
      4321, 4304, 4316, 4312, 4333, 4308, 4305, 4314, 4304, 4307, 44, 32, 4307, 4304, 4304,
      4313, 4314, 4312, 4313, 4308]),
    (''apply'', [4306, 4304, 4315, 4317, 4327, 4308, 4316, 4308, 4305, 4304]),
    (''Username'', [4315, 4317, 4334, 4315, 4304, 4320, 4308, 4305, 4308, 4314, 4312]),
    (''Password'', [4318, 4304, 4320, 4317, 4314, 4312]),
    (''Terms of service'',
      [4315, 4317, 4315, 4321, 4304, 4334, 4323, 4320, 4308, 4305, 4312, 4321, 32, 4318, 4312,
      4320, 4317, 4305, 4308, 4305, 4312]),
    (''Created by'', [4328, 4308, 4325, 4315, 4316, 4304]),
    (''See more at'', [4316, 4304, 4334, 4308, 32, 4309, 4320, 4330, 4314, 4304, 4307]),
    (''Contact the developer'',
      [4307, 4304, 4323, 4313, 4304, 4309, 4328, 4312, 4320, 4307, 4312, 32, 4307, 4308, 4309,
      4308, 4314, 4317, 4318, 4308, 4320, 4321]),
    (''api version'', [97, 112, 105, 32, 4309, 4308, 4320, 4321, 4312, 4304]),
    (''Response Content Type'',
      [4318, 4304, 4321, 4323, 4334, 4312, 4321, 32, 4313, 4317, 4316, 4322, 4308, 4316, 4322,
      4312, 4321, 32, 4322, 4312, 4318, 4312]),
    (''Parameter content type:'',
      [4318, 4304, 4320, 4304, 4315, 4308, 4322, 4320, 4312, 4321, 32, 4313, 4317, 4316, 4322,
      4308, 4316, 4322, 4312, 4321, 32, 4322, 4312, 4318, 4312, 58]),
    (''fetching resource'',
      [4320, 4308, 4321, 4323, 4320, 4321, 4308, 4305, 4312, 4321, 32, 4315, 4312, 4326, 4308,
      4305, 4304]),
    (''fetching resource list'',
      [4320, 4308, 4321, 4323, 4320, 4321, 4308, 4305, 4312, 4321, 32, 4321, 4312, 4312, 4321,
      32, 4315, 4312, 4326, 4308, 4305, 4304]),
    (''Explore'', [4316, 4304, 4334, 4309, 4304]),
    (''Show Swagger Petstore Example Apis'',
      [4316, 4304, 4334, 4308, 32, 83, 119, 97, 103, 103, 101, 114, 32, 80, 101, 116, 115, 116,
      111, 114, 101, 32, 4321, 4304, 4315, 4304, 4306, 4304, 4314, 4312, 4311, 4317, 32, 65,
      112, 105]),
    (''Can't read from server.  It may not have the appropriate access-control-origin settings.'',
      [4321, 4308, 4320, 4309, 4308, 4320, 4311, 4304, 4316, 32, 4307, 4304, 4313, 4304, 4309,
      4328, 4312, 4320, 4308, 4305, 4304, 32, 4309, 4308, 4320, 32, 4334, 4308, 4320, 4334,
      4307, 4308, 4305, 4304, 46, 32, 32, 4328, 4308, 4304, 4315, 4317, 4332, 4315, 4308, 4311,
      32, 97, 99, 99, 101, 115, 115, 45, 99, 111, 110, 116, 114, 111, 108, 45, 111, 114, 105,
      103, 105, 110, 46]),
    (''Please specify the protocol for'',
      [4315, 4312, 4323, 4311, 4312, 4311, 4308, 4311, 32, 4318, 4320, 4317, 4322, 4317, 4313,
      4317, 4314, 4312]),
    (''Can't read swagger JSON from'',
      [115, 119, 97, 103, 103, 101, 114, 32, 74, 83, 79, 78, 32, 4332, 4304, 4313, 4312, 4311,
      4334, 4309, 4304, 32, 4309, 4308, 4320, 32, 4315, 4317, 4334, 4308, 4320, 4334, 4307,
      4304]),
    (''Finished Loading Resource Information. Rendering Swagger UI'',
      [4320, 4308, 4321, 4323, 4320, 4321, 4308, 4305, 4312, 4321, 32, 4329, 4304, 4322, 4309,
      4312, 4320, 4311, 4309, 4304, 32, 4321, 4320, 4323, 4314, 4307, 4308, 4305, 4304, 46, 32,
      83, 119, 97, 103, 103, 101, 114, 32, 85, 73, 32, 4320, 4308, 4316, 4307, 4308, 4320, 4307,
      4308, 4305, 4304]),
    (''Unable to read api'',
      [97, 112, 105, 32, 4332, 4304, 4313, 4312, 4311, 4334, 4309, 4304, 32, 4309, 4308, 4320,
      32, 4315, 4317, 4334, 4308, 4320, 4334, 4307, 4304]),
    (''from path'', [4315, 4312, 4321, 4304, 4315, 4304, 4320, 4311, 4312, 4307, 4304, 4316]),
    (''server returned'',
      [4321, 4308, 4320, 4309, 4308, 4320, 4315, 4304, 32, 4307, 4304, 4304, 4305, 4320, 4323,
      4316, 4304])]"

definition it_words :: table where
  "it_words = [(''Warning: Deprecated'', js ''Attenzione: Deprecato''),
    (''Implementation Notes'', js ''Note di implementazione''),
    (''Response Class'', js ''Classe della risposta''),
    (''Status'', js ''Stato''),
    (''Parameters'', js ''Parametri''),
    (''Parameter'', js ''Parametro''),
    (''Value'', js ''Valore''),
    (''Description'', js ''Descrizione''),
    (''Parameter Type'', js ''Tipo di parametro''),
    (''Data Type'', js ''Tipo di dato''),
    (''Response Messages'', js ''Messaggi della risposta''),
    (''HTTP Status Code'', js ''Codice stato HTTP''),
    (''Reason'', js ''Motivo''),
    (''Response Model'', js ''Modello di risposta''),
    (''Request URL'', js ''URL della richiesta''),
    (''Response Body'', js ''Corpo della risposta''),
    (''Response Code'', js ''Oggetto della risposta''),
    (''Response Headers'', js ''Intestazioni della risposta''),
    (''Hide Response'', js ''Nascondi risposta''),
    (''Try it out!'', js ''Provalo!''),
    (''Show/Hide'', js ''Mostra/Nascondi''),
    (''List Operations'', js ''Mostra operazioni''),
    (''Expand Operations'', js ''Espandi operazioni''),
    (''Raw'', js ''Grezzo (raw)''),
    (''can't parse JSON.  Raw result'',
      [110, 111, 110, 32, 232, 32, 112, 111, 115, 115, 105, 98, 105, 108, 101, 32, 112, 97, 114,
      115, 97, 114, 101, 32, 105, 108, 32, 74, 83, 79, 78, 46, 32, 82, 105, 115, 117, 108, 116,
      97, 116, 111, 32, 103, 114, 101, 122, 122, 111, 32, 40, 114, 97, 119, 41, 46]),
    (''Model Schema'', js ''Schema del modello''),
    (''Model'', js ''Modello''),
    (''apply'', js ''applica''),
    (''Username'', js ''Nome utente''),
    (''Password'', js ''Password''),
    (''Terms of service'', js ''Condizioni del servizio''),
    (''Created by'', js ''Creato da''),
    (''See more at'', js ''Informazioni aggiuntive:''),
    (''Contact the developer'', js ''Contatta lo sviluppatore''),
    (''api version'', js ''versione api''),
    (''Response Content Type'', js ''Tipo di contenuto (content type) della risposta''),
    (''fetching resource'', js ''recuperando la risorsa''),
    (''fetching resource list'', js ''recuperando lista risorse''),
    (''Explore'', js ''Esplora''),
    (''Show Swagger Petstore Example Apis'', js ''Mostra le api di esempio di Swagger Petstore''),
    (''Can't read from server.  It may not have the appropriate access-control-origin settings.'',
      [78, 111, 110, 32, 232, 32, 112, 111, 115, 115, 105, 98, 105, 108, 101, 32, 108, 101, 103,
      103, 101, 114, 101, 32, 100, 97, 108, 32, 115, 101, 114, 118, 101, 114, 46, 32, 80, 111,
      116, 114, 101, 98, 98, 101, 32, 110, 111, 110, 32, 97, 118, 101, 114, 101, 32, 108, 101,
      32, 105, 109, 112, 111, 115, 116, 97, 122, 105, 111, 110, 105, 32, 100, 105, 32, 99, 111,
      110, 116, 114, 111, 108, 108, 111, 32, 97, 99, 99, 101, 115, 115, 111, 32, 111, 114, 105,
      103, 105, 110, 101, 32, 40, 97, 99, 99, 101, 115, 115, 45, 99, 111, 110, 116, 114, 111,
      108, 45, 111, 114, 105, 103, 105, 110, 41, 32, 97, 112, 112, 114, 111, 112, 114, 105, 97,
      116, 101, 46]),
    (''Please specify the protocol for'', js ''Si prega di specificare il protocollo per''),
    (''Can't read swagger JSON from'', js ''Impossibile leggere JSON swagger da:''),
    (''Finished Loading Resource Information. Rendering Swagger UI'',
      js ''Lettura informazioni risorse termianta. Swagger UI viene mostrata''),
    (''Unable to read api'', js ''Impossibile leggere la api''),
    (''from path'', js ''da cartella''),
    (''server returned'', js ''il server ha restituito'')]"

definition ja_words :: table where
  "ja_words = [(''Warning: Deprecated'', [35686, 21578, 58, 32, 24259, 27490, 20104, 23450]),
    (''Implementation Notes'', [23455, 35013, 12513, 12514]),
    (''Response Class'', [12524, 12473, 12509, 12531, 12473, 12463, 12521, 12473]),
    (''Status'', [12473, 12486, 12540, 12479, 12473]),
    (''Parameters'', [12497, 12521, 12513, 12540, 12479, 32676]),
    (''Parameter'', [12497, 12521, 12513, 12540, 12479]),
    (''Value'', [20516]),
    (''Description'', [35500, 26126]),
    (''Parameter Type'', [12497, 12521, 12513, 12540, 12479, 12479, 12452, 12503]),
    (''Data Type'', [12487, 12540, 12479, 12479, 12452, 12503]),
    (''Response Messages'',
      [12524, 12473, 12509, 12531, 12473, 12513, 12483, 12475, 12540, 12472]),
    (''HTTP Status Code'',
      [72, 84, 84, 80, 12473, 12486, 12540, 12479, 12473, 12467, 12540, 12489]),
    (''Reason'', [29702, 30001]),
    (''Response Model'', [12524, 12473, 12509, 12531, 12473, 12514, 12487, 12523]),
    (''Request URL'', [12522, 12463, 12456, 12473, 12488, 85, 82, 76]),
    (''Response Body'', [12524, 12473, 12509, 12531, 12473, 12508, 12487, 12451]),
    (''Response Code'', [12524, 12473, 12509, 12531, 12473, 12467, 12540, 12489]),
    (''Response Headers'', [12524, 12473, 12509, 12531, 12473, 12504, 12483, 12480]),
    (''Hide Response'', [12524, 12473, 12509, 12531, 12473, 12434, 38560, 12377]),
    (''Headers'', [12504, 12483, 12480]),
    (''Try it out!'', [23455, 38555, 12395, 23455, 34892, 33]),
    (''Show/Hide'', [34920, 31034, 47, 38750, 34920, 31034]),
    (''List Operations'', [25805, 20316, 19968, 35239]),
    (''Expand Operations'', [25805, 20316, 12398, 23637, 38283]),
    (''Raw'', [26410, 21152, 24037]),
    (''can't parse JSON.  Raw result'',
      [74, 83, 79, 78, 12408, 35299, 37320, 12391, 12365, 12414, 12379, 12435, 46, 32, 32,
      26410, 21152, 24037, 12398, 32080, 26524]),
    (''Example Value'', [20516, 12398, 20363]),
    (''Model Schema'', [12514, 12487, 12523, 12473, 12461, 12540, 12510]),
    (''Model'', [12514, 12487, 12523]),
    (''Click to set as parameter value'',
      [12497, 12521, 12513, 12540, 12479, 20516, 12392, 35373, 23450, 12377, 12427, 12395,
      12399, 12463, 12522, 12483, 12463]),
    (''apply'', [23455, 34892]),
    (''Username'', [12518, 12540, 12470, 21517]),
    (''Password'', [12497, 12473, 12527, 12540, 12489]),
    (''Terms of service'', [12469, 12540, 12499, 12473, 21033, 29992, 35215, 32004]),
    (''Created by'', js ''Created by''),
    (''See more at'', [35443, 32048, 12434, 35211, 12427]),
    (''Contact the developer'', [38283, 30330, 32773, 12395, 36899, 32097]),
    (''api version'', [65, 80, 73, 12496, 12540, 12472, 12519, 12531]),
    (''Response Content Type'',
      [12524, 12473, 12509, 12531, 12473, 32, 12467, 12531, 12486, 12531, 12484, 12479, 12452,
      12503]),
    (''Parameter content type:'',
      [12497, 12521, 12513, 12540, 12479, 12467, 12531, 12486, 12531, 12484, 12479, 12452,
      12503, 58]),
    (''fetching resource'', [12522, 12477, 12540, 12473, 12398, 21462, 24471]),
    (''fetching resource list'', [12522, 12477, 12540, 12473, 19968, 35239, 12398, 21462, 24471]),
    (''Explore'', [35519, 26619]),
    (''Show Swagger Petstore Example Apis'',
      [83, 119, 97, 103, 103, 101, 114, 12506, 12483, 12488, 12473, 12488, 12450, 65, 80, 73,
      12398, 34920, 31034]),
    (''Can't read from server.  It may not have the appropriate access-control-origin settings.'',
      [12469, 12540, 12496, 12363, 12425, 35501, 12415, 36796, 12417, 12414, 12379, 12435, 46,
      32, 32, 36969, 20999, 12394, 97, 99, 99, 101, 115, 115, 45, 99, 111, 110, 116, 114, 111,
      108, 45, 111, 114, 105, 103, 105, 110, 35373, 23450, 12434, 25345, 12387, 12390, 12356,
      12394, 12356, 21487, 33021, 24615, 12364, 12354, 12426, 12414, 12377, 46]),
    (''Please specify the protocol for'',
      [12503, 12525, 12488, 12467, 12523, 12434, 25351, 23450, 12375, 12390, 12367, 12384,
      12373, 12356]),
    (''Can't read swagger JSON from'',
      [27425, 12363, 12425, 115, 119, 97, 103, 103, 101, 114, 32, 74, 83, 79, 78, 12434, 35501,
      12415, 36796, 12417, 12414, 12379, 12435]),
    (''Finished Loading Resource Information. Rendering Swagger UI'',
      [12522, 12477, 12540, 12473, 24773, 22577, 12398, 35501, 12415, 36796, 12415, 12364,
      23436, 20102, 12375, 12414, 12375, 12383, 46, 32, 83, 119, 97, 103, 103, 101, 114, 32, 85,
      73, 12434, 25551, 30011, 12375, 12390, 12356, 12414, 12377]),
    (''Unable to read api'',
      [65, 80, 73, 12434, 35501, 12415, 36796, 12417, 12414, 12379, 12435]),
    (''from path'', [27425, 12398, 12497, 12473, 12363, 12425]),
    (''server returned'', [12469, 12540, 12496, 12363, 12425, 12398, 36820, 31572])]"

definition ko_kr_words :: table where
  "ko_kr_words = [(''Warning: Deprecated'', [44221, 44256, 65306, 54224, 44592, 50696, 51221, 46120]),
    (''Implementation Notes'', [44396, 54788, 32, 45432, 53944]),
    (''Response Class'', [51025, 45813, 32, 53364, 47000, 49828]),
    (''Status'', [49345, 53468]),
    (''Parameters'', [47588, 44060, 48320, 49688, 46308]),
    (''Parameter'', [47588, 44060, 48320, 49688]),
    (''Value'', [44050]),
    (''Description'', [49444, 47749]),
    (''Parameter Type'', [47588, 44060, 48320, 49688, 32, 53440, 51077]),
    (''Data Type'', [45936, 51060, 53552, 32, 53440, 51077]),
    (''Response Messages'', [51025, 45813, 32, 47700, 49464, 51648]),
    (''HTTP Status Code'', [72, 84, 84, 80, 32, 49345, 53468, 32, 53076, 46300]),
    (''Reason'', [50896, 51064]),
    (''Response Model'', [51025, 45813, 32, 47784, 45944]),
    (''Request URL'', [50836, 52397, 32, 85, 82, 76]),
    (''Response Body'', [51025, 45813, 32, 48376, 47928]),
    (''Response Code'', [51025, 45813, 32, 53076, 46300]),
    (''Response Headers'', [51025, 45813, 32, 54756, 45908]),
    (''Hide Response'', [51025, 45813, 32, 49704, 44592, 44592]),
    (''Headers'', [54756, 45908]),
    (''Try it out!'', [50024, 48372, 44592, 65281]),
    (''Show/Hide'', [48372, 51060, 44592, 47, 49704, 44592, 44592]),
    (''List Operations'', [47785, 47197, 32, 51089, 50629]),
    (''Expand Operations'', [51204, 44060, 32, 51089, 50629]),
    (''Raw'', [50896, 48376]),
    (''can't parse JSON.  Raw result'',
      [74, 83, 79, 78, 51012, 32, 54028, 49905, 54624, 49688, 32, 50630, 51020, 46, 32, 50896,
      48376, 44208, 44284, 58]),
    (''Model Schema'', [47784, 45944, 32, 49828, 53412, 47560]),
    (''Model'', [47784, 45944]),
    (''apply'', [51201, 50857]),
    (''Username'', [49324, 50857, 51088, 32, 51060, 47492]),
    (''Password'', [50516, 54840]),
    (''Terms of service'', [51060, 50857, 50557, 44288]),
    (''Created by'', [51089, 49457, 51088]),
    (''See more at'', [52628, 44032, 51221, 48372, 65306]),
    (''Contact the developer'', [44060, 48156, 51088, 50640, 44172, 32, 47928, 51032]),
    (''api version'', [97, 112, 105, 48260, 51204]),
    (''Response Content Type'',
      [51025, 45813, 67, 111, 110, 116, 101, 110, 116, 32, 84, 121, 112, 101]),
    (''fetching resource'', [47532, 49548, 49828, 32, 44032, 51256, 50724, 44592]),
    (''fetching resource list'',
      [47532, 49548, 49828, 32, 47785, 47197, 32, 44032, 51256, 50724, 44592]),
    (''Explore'', [53456, 49353]),
    (''Show Swagger Petstore Example Apis'',
      [83, 119, 97, 103, 103, 101, 114, 32, 80, 101, 116, 115, 116, 111, 114, 101, 32, 50696,
      51228, 32, 48372, 44592]),
    (''Can't read from server.  It may not have the appropriate access-control-origin settings.'',
      [49436, 48260, 47196, 48512, 53552, 32, 51069, 50612, 46308, 51068, 49688, 32, 50630,
      49845, 45768, 45796, 46, 32, 97, 99, 99, 101, 115, 115, 45, 99, 111, 110, 116, 114, 111,
      108, 45, 111, 114, 105, 103, 105, 110, 32, 49444, 51221, 51060, 32, 50732, 48148, 47476,
      51648, 32, 50506, 51012, 49688, 32, 51080, 49845, 45768, 45796, 46]),
    (''Please specify the protocol for'',
      [45796, 51020, 51012, 32, 50948, 54620, 32, 54532, 47196, 53664, 53084, 51012, 32, 51221,
      54616, 49464, 50836]),
    (''Can't read swagger JSON from'',
      [115, 119, 97, 103, 103, 101, 114, 32, 74, 83, 79, 78, 32, 51012, 32, 45796, 51020, 51004,
      47196, 32, 48512, 53552, 32, 51069, 51012, 49688, 32, 50630, 49845, 45768, 45796]),
    (''Finished Loading Resource Information. Rendering Swagger UI'',
      [47532, 49548, 49828, 32, 51221, 48372, 32, 48520, 47084, 50724, 44592, 32, 50756, 47308,
      46, 32, 83, 119, 97, 103, 103, 101, 114, 32, 85, 73, 32, 47004, 45908, 47553]),
    (''Unable to read api'',
      [97, 112, 105, 47484, 32, 51069, 51012, 32, 49688, 32, 50630, 49845, 45768, 45796, 46]),
    (''from path'', [45796, 51020, 32, 44221, 47196, 47196, 32, 48512, 53552]),
    (''server returned'', [49436, 48260, 32, 51025, 45813, 54632, 46])]"

definition pl_words :: table where
  "pl_words = [(''Warning: Deprecated'', js ''Uwaga: Wycofane''),
    (''Implementation Notes'', js ''Uwagi Implementacji''),
    (''Response Class'', js ''Klasa Odpowiedzi''),
    (''Status'', js ''Status''),
    (''Parameters'', js ''Parametry''),
    (''Parameter'', js ''Parametr''),
    (''Value'', [87, 97, 114, 116, 111, 347, 263]),
    (''Description'', js ''Opis''),
    (''Parameter Type'', js ''Typ Parametru''),
    (''Data Type'', js ''Typ Danych''),
    (''Response Messages'',
      [87, 105, 97, 100, 111, 109, 111, 347, 99, 105, 32, 79, 100, 112, 111, 119, 105, 101, 100,
      122, 105]),
    (''HTTP Status Code'', js ''Kod Statusu HTTP''),
    (''Reason'', js ''Przyczyna''),
    (''Response Model'', js ''Model Odpowiedzi''),
    (''Request URL'', [85, 82, 76, 32, 87, 121, 119, 111, 322, 97, 110, 105, 97]),
    (''Response Body'',
      [84, 114, 101, 347, 263, 32, 79, 100, 112, 111, 119, 105, 101, 100, 122, 105]),
    (''Response Code'', js ''Kod Odpowiedzi''),
    (''Response Headers'',
      [78, 97, 103, 322, 243, 119, 107, 105, 32, 79, 100, 112, 111, 119, 105, 101, 100, 122,
      105]),
    (''Hide Response'', [85, 107, 114, 121, 106, 32, 79, 100, 112, 111, 119, 105, 101, 100, 378]),
    (''Headers'', [78, 97, 103, 322, 243, 119, 107, 105]),
    (''Try it out!'', [87, 121, 112, 114, 243, 98, 117, 106, 33]),
    (''Show/Hide'', [80, 111, 107, 97, 380, 47, 85, 107, 114, 121, 106]),
    (''List Operations'', js ''Lista Operacji''),
    (''Expand Operations'',
      [82, 111, 122, 119, 105, 324, 32, 79, 112, 101, 114, 97, 99, 106, 101]),
    (''Raw'', js ''Nieprzetworzone''),
    (''can't parse JSON.  Raw result'',
      [110, 105, 101, 32, 109, 111, 380, 110, 97, 32, 112, 114, 122, 101, 116, 119, 111, 114,
      122, 121, 263, 32, 112, 108, 105, 107, 117, 32, 74, 83, 79, 78, 46, 32, 32, 78, 105, 101,
      112, 114, 122, 101, 116, 119, 111, 114, 122, 111, 110, 101, 32, 100, 97, 110, 101]),
    (''Model Schema'', js ''Schemat Modelu''),
    (''Model'', js ''Model''),
    (''apply'', [117, 380, 121, 106]),
    (''Username'',
      [78, 97, 122, 119, 97, 32, 117, 380, 121, 116, 107, 111, 119, 110, 105, 107, 97]),
    (''Password'', [72, 97, 115, 322, 111]),
    (''Terms of service'',
      [87, 97, 114, 117, 110, 107, 105, 32, 117, 380, 121, 119, 97, 110, 105, 97]),
    (''Created by'', js ''Utworzone przez''),
    (''See more at'', [90, 111, 98, 97, 99, 122, 32, 119, 105, 281, 99, 101, 106, 32, 110, 97]),
    (''Contact the developer'', js ''Kontakt z deweloperem''),
    (''api version'', js ''wersja api''),
    (''Response Content Type'', js ''Typ Zasobu Odpowiedzi''),
    (''fetching resource'',
      [322, 97, 100, 111, 119, 97, 110, 105, 101, 32, 122, 97, 115, 111, 98, 117]),
    (''fetching resource list'',
      [322, 97, 100, 111, 119, 97, 110, 105, 101, 32, 108, 105, 115, 116, 121, 32, 122, 97, 115,
      111, 98, 243, 119]),
    (''Explore'', js ''Eksploruj''),
    (''Show Swagger Petstore Example Apis'',
      [80, 111, 107, 97, 380, 32, 80, 114, 122, 121, 107, 322, 97, 100, 111, 119, 101, 32, 65,
      112, 105, 32, 83, 119, 97, 103, 103, 101, 114, 32, 80, 101, 116, 115, 116, 111, 114,
      101]),
    (''Can't read from server.  It may not have the appropriate access-control-origin settings.'',
      [66, 114, 97, 107, 32, 112, 111, 322, 261, 99, 122, 101, 110, 105, 97, 32, 122, 32, 115,
      101, 114, 119, 101, 114, 101, 109, 46, 32, 77, 111, 380, 101, 32, 111, 110, 32, 110, 105,
      101, 32, 109, 105, 101, 263, 32, 111, 100, 112, 111, 119, 105, 101, 100, 110, 105, 99,
      104, 32, 117, 115, 116, 97, 119, 105, 101, 324, 32, 97, 99, 99, 101, 115, 115, 45, 99,
      111, 110, 116, 114, 111, 108, 45, 111, 114, 105, 103, 105, 110, 46]),
    (''Please specify the protocol for'',
      [80, 114, 111, 115, 122, 281, 32, 112, 111, 100, 97, 263, 32, 112, 114, 111, 116, 111,
      107, 243, 322, 32, 100, 108, 97]),
    (''Can't read swagger JSON from'',
      [78, 105, 101, 32, 109, 111, 380, 110, 97, 32, 111, 100, 99, 122, 121, 116, 97, 263, 32,
      115, 119, 97, 103, 103, 101, 114, 32, 74, 83, 79, 78, 32, 122]),
    (''Finished Loading Resource Information. Rendering Swagger UI'',
      [85, 107, 111, 324, 99, 122, 111, 110, 111, 32, 321, 97, 100, 111, 119, 97, 110, 105, 101,
      32, 73, 110, 102, 111, 114, 109, 97, 99, 106, 105, 32, 111, 32, 90, 97, 115, 111, 98, 105,
      101, 46, 32, 82, 101, 110, 100, 101, 114, 111, 119, 97, 110, 105, 101, 32, 83, 119, 97,
      103, 103, 101, 114, 32, 85, 73]),
    (''Unable to read api'',
      [78, 105, 101, 32, 109, 111, 380, 110, 97, 32, 111, 100, 99, 122, 121, 116, 97, 263, 32,
      97, 112, 105]),
    (''from path'', [122, 101, 32, 347, 99, 105, 101, 380, 107, 105]),
    (''server returned'', [115, 101, 114, 119, 101, 114, 32, 122, 119, 114, 243, 99, 105, 322])]"

definition pt_words :: table where
  "pt_words = [(''Warning: Deprecated'', js ''Aviso: Depreciado''),
    (''Implementation Notes'',
      [78, 111, 116, 97, 115, 32, 100, 101, 32, 73, 109, 112, 108, 101, 109, 101, 110, 116, 97,
      231, 227, 111]),
    (''Response Class'', js ''Classe de resposta''),
    (''Status'', js ''Status''),
    (''Parameters'', [80, 97, 114, 226, 109, 101, 116, 114, 111, 115]),
    (''Parameter'', [80, 97, 114, 226, 109, 101, 116, 114, 111]),
    (''Value'', js ''Valor''),
    (''Description'', [68, 101, 115, 99, 114, 105, 231, 227, 111]),
    (''Parameter Type'',
      [84, 105, 112, 111, 32, 100, 101, 32, 112, 97, 114, 226, 109, 101, 116, 114, 111]),
    (''Data Type'', js ''Tipo de dados''),
    (''Response Messages'', js ''Mensagens de resposta''),
    (''HTTP Status Code'',
      [67, 243, 100, 105, 103, 111, 32, 100, 101, 32, 115, 116, 97, 116, 117, 115, 32, 72, 84,
      84, 80]),
    (''Reason'', [82, 97, 122, 227, 111]),
    (''Response Model'', js ''Modelo resposta''),
    (''Request URL'', [85, 82, 76, 32, 114, 101, 113, 117, 105, 115, 105, 231, 227, 111]),
    (''Response Body'', js ''Corpo da resposta''),
    (''Response Code'',
      [67, 243, 100, 105, 103, 111, 32, 100, 97, 32, 114, 101, 115, 112, 111, 115, 116, 97]),
    (''Response Headers'',
      [67, 97, 98, 101, 231, 97, 108, 104, 111, 32, 100, 97, 32, 114, 101, 115, 112, 111, 115,
      116, 97]),
    (''Headers'', [67, 97, 98, 101, 231, 97, 108, 104, 111, 115]),
    (''Hide Response'', js ''Esconder resposta''),
    (''Try it out!'', js ''Tente agora!''),
    (''Show/Hide'', js ''Mostrar/Esconder''),
    (''List Operations'',
      [76, 105, 115, 116, 97, 114, 32, 111, 112, 101, 114, 97, 231, 245, 101, 115]),
    (''Expand Operations'',
      [69, 120, 112, 97, 110, 100, 105, 114, 32, 111, 112, 101, 114, 97, 231, 245, 101, 115]),
    (''Raw'', js ''Cru''),
    (''can't parse JSON.  Raw result'', js ''Falha ao analisar JSON.  Resulto cru''),
    (''Model Schema'', js ''Modelo esquema''),
    (''Model'', js ''Modelo''),
    (''apply'', js ''Aplicar''),
    (''Username'', [85, 115, 117, 225, 114, 105, 111]),
    (''Password'', js ''Senha''),
    (''Terms of service'',
      [84, 101, 114, 109, 111, 115, 32, 100, 111, 32, 115, 101, 114, 118, 105, 231, 111]),
    (''Created by'', js ''Criado por''),
    (''See more at'', js ''Veja mais em''),
    (''Contact the developer'', js ''Contate o desenvolvedor''),
    (''api version'', [86, 101, 114, 115, 227, 111, 32, 97, 112, 105]),
    (''Response Content Type'',
      [84, 105, 112, 111, 32, 100, 101, 32, 99, 111, 110, 116, 101, 250, 100, 111, 32, 100, 97,
      32, 114, 101, 115, 112, 111, 115, 116, 97]),
    (''fetching resource'', js ''busca recurso''),
    (''fetching resource list'', js ''buscando lista de recursos''),
    (''Explore'', js ''Explorar''),
    (''Show Swagger Petstore Example Apis'', js ''Show Swagger Petstore Example Apis''),
    (''Can't read from server.  It may not have the appropriate access-control-origin settings.'',
      [78, 227, 111, 32, 233, 32, 112, 111, 115, 115, 237, 118, 101, 108, 32, 108, 101, 114, 32,
      100, 111, 32, 115, 101, 114, 118, 105, 100, 111, 114, 46, 32, 80, 111, 100, 101, 32, 110,
      227, 111, 32, 116, 101, 114, 32, 97, 115, 32, 97, 112, 114, 111, 112, 114, 105, 97, 100,
      97, 115, 32, 99, 111, 110, 102, 105, 103, 117, 114, 97, 231, 245, 101, 115, 32, 97, 99,
      99, 101, 115, 115, 45, 99, 111, 110, 116, 114, 111, 108, 45, 111, 114, 105, 103, 105,
      110]),
    (''Please specify the protocol for'', js ''Por favor especifique o protocolo''),
    (''Can't read swagger JSON from'',
      [78, 227, 111, 32, 233, 32, 112, 111, 115, 115, 237, 118, 101, 108, 32, 108, 101, 114, 32,
      111, 32, 74, 83, 79, 78, 32, 83, 119, 97, 103, 103, 101, 114, 32, 100, 101]),
    (''Finished Loading Resource Information. Rendering Swagger UI'',
      [67, 97, 114, 114, 101, 103, 97, 114, 32, 105, 110, 102, 111, 114, 109, 97, 231, 227, 111,
      32, 100, 101, 32, 114, 101, 99, 117, 114, 115, 111, 32, 102, 105, 110, 97, 108, 105, 122,
      97, 100, 97, 46, 32, 82, 101, 110, 100, 101, 114, 105, 122, 97, 110, 100, 111, 32, 83,
      119, 97, 103, 103, 101, 114, 32, 85, 73]),
    (''Unable to read api'',
      [78, 227, 111, 32, 102, 111, 105, 32, 112, 111, 115, 115, 237, 118, 101, 108, 32, 108,
      101, 114, 32, 97, 112, 105]),
    (''from path'', js ''do caminho''),
    (''server returned'', js ''servidor retornou'')]"

definition ru_words :: table where
  "ru_words = [(''Warning: Deprecated'',
      [1055, 1088, 1077, 1076, 1091, 1087, 1088, 1077, 1078, 1076, 1077, 1085, 1080, 1077, 58,
      32, 1059, 1089, 1090, 1072, 1088, 1077, 1083, 1086]),
    (''Implementation Notes'', [1047, 1072, 1084, 1077, 1090, 1082, 1080]),
    (''Response Class'',
      [1055, 1088, 1080, 1084, 1077, 1088, 32, 1086, 1090, 1074, 1077, 1090, 1072]),
    (''Status'', [1057, 1090, 1072, 1090, 1091, 1089]),
    (''Parameters'', [1055, 1072, 1088, 1072, 1084, 1077, 1090, 1088, 1099]),
    (''Parameter'', [1055, 1072, 1088, 1072, 1084, 1077, 1090, 1088]),
    (''Value'', [1047, 1085, 1072, 1095, 1077, 1085, 1080, 1077]),
    (''Description'', [1054, 1087, 1080, 1089, 1072, 1085, 1080, 1077]),
    (''Parameter Type'',
      [1058, 1080, 1087, 32, 1087, 1072, 1088, 1072, 1084, 1077, 1090, 1088, 1072]),
    (''Data Type'', [1058, 1080, 1087, 32, 1076, 1072, 1085, 1085, 1099, 1093]),
    (''HTTP Status Code'', [72, 84, 84, 80, 32, 1082, 1086, 1076]),
    (''Reason'', [1055, 1088, 1080, 1095, 1080, 1085, 1072]),
    (''Response Model'',
      [1057, 1090, 1088, 1091, 1082, 1090, 1091, 1088, 1072, 32, 1086, 1090, 1074, 1077, 1090,
      1072]),
    (''Request URL'', [85, 82, 76, 32, 1079, 1072, 1087, 1088, 1086, 1089, 1072]),
    (''Response Body'', [1058, 1077, 1083, 1086, 32, 1086, 1090, 1074, 1077, 1090, 1072]),
    (''Response Code'',
      [72, 84, 84, 80, 32, 1082, 1086, 1076, 32, 1086, 1090, 1074, 1077, 1090, 1072]),
    (''Response Headers'',
      [1047, 1072, 1075, 1086, 1083, 1086, 1074, 1082, 1080, 32, 1086, 1090, 1074, 1077, 1090,
      1072]),
    (''Hide Response'',
      [1057, 1087, 1088, 1103, 1090, 1072, 1090, 1100, 32, 1086, 1090, 1074, 1077, 1090]),
    (''Headers'', [1047, 1072, 1075, 1086, 1083, 1086, 1074, 1082, 1080]),
    (''Response Messages'',
      [1063, 1090, 1086, 32, 1084, 1086, 1078, 1077, 1090, 32, 1087, 1088, 1080, 1081, 1090,
      1080, 32, 1074, 32, 1086, 1090, 1074, 1077, 1090]),
    (''Try it out!'', [1055, 1086, 1087, 1088, 1086, 1073, 1086, 1074, 1072, 1090, 1100, 33]),
    (''Show/Hide'',
      [1055, 1086, 1082, 1072, 1079, 1072, 1090, 1100, 47, 1057, 1082, 1088, 1099, 1090, 1100]),
    (''List Operations'',
      [1054, 1087, 1077, 1088, 1072, 1094, 1080, 1080, 32, 1082, 1088, 1072, 1090, 1082, 1086]),
    (''Expand Operations'',
      [1054, 1087, 1077, 1088, 1072, 1094, 1080, 1080, 32, 1087, 1086, 1076, 1088, 1086, 1073,
      1085, 1086]),
    (''Raw'', [1042, 32, 1089, 1099, 1088, 1086, 1084, 32, 1074, 1080, 1076, 1077]),
    (''can't parse JSON.  Raw result'',
      [1053, 1077, 32, 1091, 1076, 1072, 1077, 1090, 1089, 1103, 32, 1088, 1072, 1089, 1087,
      1072, 1088, 1089, 1080, 1090, 1100, 32, 1086, 1090, 1074, 1077, 1090, 58]),
    (''Example Value'', [1055, 1088, 1080, 1084, 1077, 1088]),
    (''Model Schema'', [1057, 1090, 1088, 1091, 1082, 1090, 1091, 1088, 1072]),
    (''Model'', [1054, 1087, 1080, 1089, 1072, 1085, 1080, 1077]),
    (''Click to set as parameter value'',
      [1053, 1072, 1078, 1084, 1080, 1090, 1077, 44, 32, 1095, 1090, 1086, 1073, 1099, 32, 1080,
      1089, 1087, 1083, 1100, 1079, 1086, 1074, 1072, 1090, 1100, 32, 1074, 32, 1082, 1072,
      1095, 1077, 1089, 1090, 1074, 1077, 32, 1079, 1085, 1072, 1095, 1077, 1085, 1080, 1103,
      32, 1087, 1072, 1088, 1072, 1084, 1077, 1090, 1088, 1072]),
    (''apply'', [1087, 1088, 1080, 1084, 1077, 1085, 1080, 1090, 1100]),
    (''Username'',
      [1048, 1084, 1103, 32, 1087, 1086, 1083, 1100, 1079, 1086, 1074, 1072, 1090, 1077, 1083,
      1103]),
    (''Password'', [1055, 1072, 1088, 1086, 1083, 1100]),
    (''Terms of service'',
      [1059, 1089, 1083, 1086, 1074, 1080, 1103, 32, 1080, 1089, 1087, 1086, 1083, 1100, 1079,
      1086, 1074, 1072, 1085, 1080, 1103]),
    (''Created by'', [1056, 1072, 1079, 1088, 1072, 1073, 1086, 1090, 1072, 1085, 1086]),
    (''See more at'', [1045, 1097, 1077, 32, 1090, 1091, 1090]),
    (''Contact the developer'',
      [1057, 1074, 1103, 1079, 1072, 1090, 1100, 1089, 1103, 32, 1089, 32, 1088, 1072, 1079,
      1088, 1072, 1073, 1086, 1090, 1095, 1080, 1082, 1086, 1084]),
    (''api version'', [1042, 1077, 1088, 1089, 1080, 1103, 32, 65, 80, 73]),
    (''Response Content Type'',
      [67, 111, 110, 116, 101, 110, 116, 32, 84, 121, 112, 101, 32, 1086, 1090, 1074, 1077,
      1090, 1072]),
    (''Parameter content type:'',
      [67, 111, 110, 116, 101, 110, 116, 32, 84, 121, 112, 101, 32, 1087, 1072, 1088, 1072,
      1084, 1077, 1090, 1088, 1072, 58]),
    (''fetching resource'',
      [1055, 1086, 1083, 1091, 1095, 1077, 1085, 1080, 1077, 32, 1088, 1077, 1089, 1091, 1088,
      1089, 1072]),
    (''fetching resource list'',
      [1055, 1086, 1083, 1091, 1095, 1077, 1085, 1080, 1077, 32, 1088, 1077, 1089, 1091, 1088,
      1089, 1086, 1074]),
    (''Explore'', [1055, 1086, 1082, 1072, 1079, 1072, 1090, 1100]),
    (''Show Swagger Petstore Example Apis'',
      [1055, 1086, 1082, 1072, 1079, 1072, 1090, 1100, 32, 1087, 1088, 1080, 1084, 1077, 1088,
      1099, 32, 1040, 1055, 1048]),
    (''Can't read from server. It may not have the appropriate access-control-origin settings.'',
      [1053, 1077, 32, 1091, 1076, 1072, 1077, 1090, 1089, 1103, 32, 1087, 1086, 1083, 1091,
      1095, 1080, 1090, 1100, 32, 1086, 1090, 1074, 1077, 1090, 32, 1086, 1090, 32, 1089, 1077,
      1088, 1074, 1077, 1088, 1072, 46, 32, 1042, 1086, 1079, 1084, 1086, 1078, 1085, 1086, 44,
      32, 1087, 1088, 1086, 1073, 1083, 1077, 1084, 1072, 32, 1089, 32, 1085, 1072, 1089, 1090,
      1088, 1086, 1081, 1082, 1072, 1084, 1080, 32, 1076, 1086, 1089, 1090, 1091, 1087, 1072]),
    (''Please specify the protocol for'',
      [1055, 1086, 1078, 1072, 1083, 1091, 1081, 1089, 1090, 1072, 44, 32, 1091, 1082, 1072,
      1078, 1080, 1090, 1077, 32, 1087, 1088, 1086, 1090, 1086, 1082, 1086, 1083, 32, 1076,
      1083, 1103]),
    (''Can't read swagger JSON from'',
      [1053, 1077, 32, 1087, 1086, 1083, 1091, 1095, 1072, 1077, 1090, 1089, 1103, 32, 1087,
      1088, 1086, 1095, 1080, 1090, 1072, 1090, 1100, 32, 115, 119, 97, 103, 103, 101, 114, 32,
      106, 115, 111, 110, 32, 1080, 1079]),
    (''Finished Loading Resource Information. Rendering Swagger UI'',
      [1047, 1072, 1075, 1088, 1091, 1079, 1082, 1072, 32, 1080, 1085, 1092, 1086, 1088, 1084,
      1072, 1094, 1080, 1080, 32, 1086, 32, 1088, 1077, 1089, 1091, 1088, 1089, 1072, 1093, 32,
      1079, 1072, 1074, 1077, 1088, 1096, 1077, 1085, 1072, 46, 32, 1056, 1077, 1085, 1076,
      1077, 1088, 1080, 1084]),
    (''Unable to read api'',
      [1053, 1077, 32, 1091, 1076, 1072, 1083, 1086, 1089, 1100, 32, 1087, 1088, 1086, 1095,
      1080, 1090, 1072, 1090, 1100, 32, 97, 112, 105]),
    (''from path'', [1087, 1086, 32, 1072, 1076, 1088, 1077, 1089, 1091]),
    (''server returned'',
      [1089, 1077, 1088, 1074, 1077, 1088, 32, 1089, 1082, 1072, 1079, 1072, 1083])]"

definition tr_words :: table where
  "tr_words = [(''Warning: Deprecated'',
      [85, 121, 97, 114, 305, 58, 32, 68, 101, 112, 114, 101, 99, 97, 116, 101, 100]),
    (''Implementation Notes'',
      [71, 101, 114, 231, 101, 107, 108, 101, 351, 116, 105, 114, 105, 109, 32, 78, 111, 116,
      108, 97, 114, 305]),
    (''Response Class'', [68, 246, 110, 101, 110, 32, 83, 305, 110, 305, 102]),
    (''Status'', [83, 116, 97, 116, 252]),
    (''Parameters'', js ''Parametreler''),
    (''Parameter'', js ''Parametre''),
    (''Value'', [68, 101, 287, 101, 114]),
    (''Description'', [65, 231, 305, 107, 108, 97, 109, 97]),
    (''Parameter Type'', js ''Parametre Tipi''),
    (''Data Type'', js ''Veri Tipi''),
    (''Response Messages'', [68, 246, 110, 252, 351, 32, 77, 101, 115, 97, 106, 305]),
    (''HTTP Status Code'', [72, 84, 84, 80, 32, 83, 116, 97, 116, 252, 32, 75, 111, 100, 117]),
    (''Reason'', [71, 101, 114, 101, 107, 231, 101]),
    (''Response Model'', [68, 246, 110, 252, 351, 32, 77, 111, 100, 101, 108, 105]),
    (''Request URL'', [304, 115, 116, 101, 107, 32, 85, 82, 76]),
    (''Response Body'', [68, 246, 110, 252, 351, 32, 304, 231, 101, 114, 105, 287, 105]),
    (''Response Code'', [68, 246, 110, 252, 351, 32, 75, 111, 100, 117]),
    (''Response Headers'',
      [68, 246, 110, 252, 351, 32, 220, 115, 116, 32, 66, 105, 108, 103, 105, 108, 101, 114,
      105]),
    (''Hide Response'', [68, 246, 110, 252, 351, 252, 32, 71, 105, 122, 108, 101]),
    (''Headers'', [220, 115, 116, 32, 66, 105, 108, 103, 105, 108, 101, 114]),
    (''Try it out!'', js ''Dene!''),
    (''Show/Hide'', [71, 246, 115, 116, 101, 114, 47, 71, 105, 122, 108, 101]),
    (''List Operations'',
      [79, 112, 101, 114, 97, 115, 121, 111, 110, 108, 97, 114, 305, 32, 76, 105, 115, 116, 101,
      108, 101]),
    (''Expand Operations'',
      [79, 112, 101, 114, 97, 115, 121, 111, 110, 108, 97, 114, 305, 32, 65, 231]),
    (''Raw'', js ''Ham''),
    (''can't parse JSON.  Raw result'',
      [74, 83, 79, 78, 32, 231, 246, 122, 252, 109, 108, 101, 110, 101, 109, 105, 121, 111, 114,
      46, 32, 32, 72, 97, 109, 32, 115, 111, 110, 117, 231]),
    (''Model Schema'', [77, 111, 100, 101, 108, 32, 350, 101, 109, 97]),
    (''Model'', js ''Model''),
    (''apply'', js ''uygula''),
    (''Username'', [75, 117, 108, 108, 97, 110, 305, 99, 305, 32, 65, 100, 305]),
    (''Password'', js ''Parola''),
    (''Terms of service'',
      [83, 101, 114, 118, 105, 115, 32, 351, 97, 114, 116, 108, 97, 114, 305]),
    (''Created by'', [79, 108, 117, 351, 116, 117, 114, 97, 110]),
    (''See more at'',
      [68, 97, 104, 97, 32, 102, 97, 122, 108, 97, 115, 305, 32, 105, 231, 105, 110]),
    (''Contact the developer'',
      [71, 101, 108, 105, 351, 116, 105, 114, 105, 99, 105, 32, 105, 108, 101, 32, 304, 108,
      101, 116, 105, 351, 105, 109, 101, 32, 71, 101, 231, 105, 110]),
    (''api version'', js ''api versiyon''),
    (''Response Content Type'',
      [68, 246, 110, 252, 351, 32, 304, 231, 101, 114, 105, 107, 32, 84, 105, 112, 105]),
    (''fetching resource'', js ''kaynak getiriliyor''),
    (''fetching resource list'', js ''kaynak listesi getiriliyor''),
    (''Explore'', [75, 101, 351, 102, 101, 116]),
    (''Show Swagger Petstore Example Apis'',
      [83, 119, 97, 103, 103, 101, 114, 32, 80, 101, 116, 115, 116, 111, 114, 101, 32, 214, 114,
      110, 101, 107, 32, 65, 112, 105, 39, 121, 105, 32, 71, 246, 114]),
    (''Can't read from server.  It may not have the appropriate access-control-origin settings.'',
      [83, 117, 110, 117, 99, 117, 100, 97, 110, 32, 111, 107, 117, 109, 97, 32, 121, 97, 112,
      305, 108, 97, 109, 305, 121, 111, 114, 46, 32, 83, 117, 110, 117, 99, 117, 32, 97, 99, 99,
      101, 115, 115, 45, 99, 111, 110, 116, 114, 111, 108, 45, 111, 114, 105, 103, 105, 110, 32,
      97, 121, 97, 114, 108, 97, 114, 305, 110, 305, 122, 305, 32, 107, 111, 110, 116, 114, 111,
      108, 32, 101, 100, 105, 110, 46]),
    (''Please specify the protocol for'',
      [76, 252, 116, 102, 101, 110, 32, 105, 115, 116, 101, 110, 101, 110, 32, 97, 100, 114,
      101, 115, 32, 105, 231, 105, 110, 32, 112, 114, 111, 116, 111, 107, 111, 108, 32, 98, 101,
      108, 105, 114, 116, 105, 110, 105, 122]),
    (''Can't read swagger JSON from'',
      [83, 119, 97, 103, 103, 101, 114, 32, 74, 83, 79, 78, 32, 98, 117, 32, 107, 97, 121, 110,
      97, 107, 116, 97, 110, 32, 111, 107, 117, 110, 97, 109, 305, 121, 111, 114]),
    (''Finished Loading Resource Information. Rendering Swagger UI'',
      [75, 97, 121, 110, 97, 107, 32, 98, 97, 103, 108, 97, 110, 116, 305, 115, 305, 32, 116,
      97, 109, 97, 109, 108, 97, 110, 100, 305, 46, 32, 83, 119, 97, 103, 103, 101, 114, 32, 85,
      73, 32, 103, 246, 115, 116, 101, 114, 105, 109, 101, 32, 104, 97, 122, 305, 114, 108, 97,
      110, 305, 121, 111, 114]),
    (''Unable to read api'', [97, 112, 105, 32, 111, 107, 117, 110, 97, 109, 97, 100, 305]),
    (''from path'', js ''yoldan''),
    (''server returned'',
      [115, 117, 110, 117, 99, 117, 121, 97, 32, 100, 246, 110, 252, 108, 100, 252])]"

definition zh_cn_words :: table where
  "zh_cn_words = [(''Warning: Deprecated'', [35686, 21578, 65306, 24050, 36807, 26102]),
    (''Implementation Notes'', [23454, 29616, 22791, 27880]),
    (''Response Class'', [21709, 24212, 31867]),
    (''Status'', [29366, 24577]),
    (''Parameters'', [21442, 25968]),
    (''Parameter'', [21442, 25968]),
    (''Value'', [20540]),
    (''Description'', [25551, 36848]),
    (''Parameter Type'', [21442, 25968, 31867, 22411]),
    (''Data Type'', [25968, 25454, 31867, 22411]),
    (''Response Messages'', [21709, 24212, 28040, 24687]),
    (''HTTP Status Code'', [72, 84, 84, 80, 29366, 24577, 30721]),
    (''Reason'', [21407, 22240]),
    (''Response Model'', [21709, 24212, 27169, 22411]),
    (''Request URL'', [35831, 27714, 85, 82, 76]),
    (''Response Body'', [21709, 24212, 20307]),
    (''Response Code'', [21709, 24212, 30721]),
    (''Response Headers'', [21709, 24212, 22836]),
    (''Hide Response'', [38544, 34255, 21709, 24212]),
    (''Headers'', [22836]),
    (''Try it out!'', [35797, 19968, 19979, 65281]),
    (''Show/Hide'', [26174, 31034, 47, 38544, 34255]),
    (''List Operations'', [26174, 31034, 25805, 20316]),
    (''Expand Operations'', [23637, 24320, 25805, 20316]),
    (''Raw'', [21407, 22987]),
    (''can't parse JSON.  Raw result'',
      [26080, 27861, 35299, 26512, 74, 83, 79, 78, 46, 32, 21407, 22987, 32467, 26524]),
    (''Example Value'', [31034, 20363]),
    (''Click to set as parameter value'', [28857, 20987, 35774, 32622, 21442, 25968]),
    (''Model Schema'', [27169, 22411, 26550, 26500]),
    (''Model'', [27169, 22411]),
    (''apply'', [24212, 29992]),
    (''Username'', [29992, 25143, 21517]),
    (''Password'', [23494, 30721]),
    (''Terms of service'', [26381, 21153, 26465, 27454]),
    (''Created by'', [21019, 24314, 32773]),
    (''See more at'', [26597, 30475, 26356, 22810, 65306]),
    (''Contact the developer'', [32852, 31995, 24320, 21457, 32773]),
    (''api version'', [97, 112, 105, 29256, 26412]),
    (''Response Content Type'',
      [21709, 24212, 67, 111, 110, 116, 101, 110, 116, 32, 84, 121, 112, 101]),
    (''Parameter content type:'', [21442, 25968, 31867, 22411, 58]),
    (''fetching resource'', [27491, 22312, 33719, 21462, 36164, 28304]),
    (''fetching resource list'', [27491, 22312, 33719, 21462, 36164, 28304, 21015, 34920]),
    (''Explore'', [27983, 35272]),
    (''Show Swagger Petstore Example Apis'',
      [26174, 31034, 32, 83, 119, 97, 103, 103, 101, 114, 32, 80, 101, 116, 115, 116, 111, 114,
      101, 32, 31034, 20363, 32, 65, 112, 105, 115]),
    (''Can't read from server.  It may not have the appropriate access-control-origin settings.'',
      [26080, 27861, 20174, 26381, 21153, 22120, 35835, 21462, 12290, 21487, 33021, 27809,
      26377, 27491, 30830, 35774, 32622, 97, 99, 99, 101, 115, 115, 45, 99, 111, 110, 116, 114,
      111, 108, 45, 111, 114, 105, 103, 105, 110, 12290]),
    (''Please specify the protocol for'', [35831, 25351, 23450, 21327, 35758, 65306]),
    (''Can't read swagger JSON from'',
      [26080, 27861, 35835, 21462, 115, 119, 97, 103, 103, 101, 114, 32, 74, 83, 79, 78,
      20110]),
    (''Finished Loading Resource Information. Rendering Swagger UI'',
      [24050, 21152, 36733, 36164, 28304, 20449, 24687, 12290, 27491, 22312, 28210, 26579, 83,
      119, 97, 103, 103, 101, 114, 32, 85, 73]),
    (''Unable to read api'', [26080, 27861, 35835, 21462, 97, 112, 105]),
    (''from path'', [20174, 36335, 24452]),
    (''server returned'', [26381, 21153, 22120, 36820, 22238])]"

end
