(* ===== verification/Translator.thy ===== *)
theory Translator
  imports LangTables JsValue
begin

text \<open>
  \<open>lang/translator.js\<close>: the translator of the documentation page.  jQuery's \<open>html\<close>, \<open>val\<close> and
  \<open>attr\<close> read and set the three texts of an element.
\<close>

type_synonym words_map = "(jstr \<times> jstr) list"

record element =
  e_html :: json
  e_val :: json
  e_title :: json

text \<open>\<open>learn\<close> replaces the words, which are empty at first.\<close>

definition initial_words :: words_map where
  "initial_words = []"

definition learn :: "table \<Rightarrow> words_map" where
  "learn wordsMap = map (\<lambda>(phrase, v). (js phrase, v)) wordsMap"

text \<open>\<open>$.trim\<close> makes the empty text of a value that is missing.\<close>

definition jquery_trim :: "json \<Rightarrow> jstr" where
  "jquery_trim w = (if w = VUndef \<or> w = VNull then [] else trim (to_str w))"

definition tryTranslate :: "words_map \<Rightarrow> json \<Rightarrow> json" where
  "tryTranslate words w = (case map_of words (jquery_trim w) of Some v \<Rightarrow> VStr v | None \<Rightarrow> w)"

definition translate_element :: "words_map \<Rightarrow> element \<Rightarrow> element" where
  "translate_element words e =
    (let e = e\<lparr>e_html := tryTranslate words (e_html e)\<rparr>;
         e = e\<lparr>e_val := tryTranslate words (e_val e)\<rparr>
     in e\<lparr>e_title := tryTranslate words (e_title e)\<rparr>)"

text \<open>The elements the selector finds.\<close>

definition translate :: "words_map \<Rightarrow> element list \<Rightarrow> element list" where
  "translate words sel = map (translate_element words) sel"

section \<open>The phrases of a table\<close>

definition phrases :: "table \<Rightarrow> string list" where
  "phrases t = map fst t"

definition unknown_phrases :: "table \<Rightarrow> string list" where
  "unknown_phrases t = [k \<leftarrow> phrases t. k \<notin> set (phrases en_words)]"

text \<open>The phrases at these places of the English table.\<close>

definition english :: "nat list \<Rightarrow> string list" where
  "english is = map ((!) (phrases en_words)) is"

lemma en_phrases: "phrases en_words = [''Warning: Deprecated'',
    ''Implementation Notes'',
    ''Response Class'',
    ''Status'',
    ''Parameters'',
    ''Parameter'',
    ''Value'',
    ''Description'',
    ''Parameter Type'',
    ''Data Type'',
    ''Response Messages'',
    ''HTTP Status Code'',
    ''Reason'',
    ''Response Model'',
    ''Request URL'',
    ''Response Body'',
    ''Response Code'',
    ''Response Headers'',
    ''Hide Response'',
    ''Headers'',
    ''Try it out!'',
    ''Show/Hide'',
    ''List Operations'',
    ''Expand Operations'',
    ''Raw'',
    ''can't parse JSON.  Raw result'',
    ''Example Value'',
    ''Model Schema'',
    ''Model'',
    ''Click to set as parameter value'',
    ''apply'',
    ''Username'',
    ''Password'',
    ''Terms of service'',
    ''Created by'',
    ''See more at'',
    ''Contact the developer'',
    ''api version'',
    ''Response Content Type'',
    ''Parameter content type:'',
    ''fetching resource'',
    ''fetching resource list'',
    ''Explore'',
    ''Show Swagger Petstore Example Apis'',
    ''Can't read from server.  It may not have the appropriate access-control-origin settings.'',
    ''Please specify the protocol for'',
    ''Can't read swagger JSON from'',
    ''Finished Loading Resource Information. Rendering Swagger UI'',
    ''Unable to read api'',
    ''from path'',
    ''server returned'']"
  by (simp add: phrases_def en_words_def)

lemma phrases_English: "length (phrases en_words) = 51" "distinct (phrases en_words)"
  by (simp_all add: en_phrases)

lemma english_distinct: "distinct is \<Longrightarrow> \<forall>i \<in> set is. i < 51 \<Longrightarrow> distinct (english is)"
  using phrases_English by (auto simp: english_def distinct_map inj_on_def nth_eq_iff_index_eq)

lemma english_known: "\<forall>i \<in> set is. i < 51 \<Longrightarrow> set (english is) \<subseteq> set (phrases en_words)"
  using phrases_English by (auto simp: english_def)

lemma english_table:
  assumes "phrases t = english is" "distinct is" "\<forall>i \<in> set is. i < 51"
  shows "distinct (phrases t) \<and> unknown_phrases t = []"
  using english_distinct [OF assms(2,3)] english_known [OF assms(3)] assms(1)
  by (auto simp: unknown_phrases_def filter_empty_conv)

lemma ca_phrases: "phrases ca_words = english
  [0, 1, 2, 3, 4, 5, 6, 7, 8, 9, 10, 11, 12, 13, 14, 15, 16, 17, 18, 20, 21, 22, 23, 24, 25, 26,
    27, 28, 30, 31, 32, 33, 34, 35, 36, 37, 38, 40, 41, 42, 43, 44, 45, 46, 47, 48, 49, 50]"
  by (simp add: phrases_def ca_words_def english_def en_phrases [unfolded phrases_def])

lemma el_phrases: "phrases el_words = english
  [0, 1, 2, 3, 4, 5, 6, 7, 8, 9, 10, 11, 12, 13, 14, 15, 16, 17, 18, 19, 20, 21, 22, 23, 24, 25,
    26, 27, 28, 29, 30, 31, 32, 33, 34, 35, 36, 37, 38, 39, 40, 41, 42, 43, 44, 45, 46, 47, 48,
    49, 50]"
  by (simp add: phrases_def el_words_def english_def en_phrases [unfolded phrases_def])

lemma es_phrases: "phrases es_words = english
  [0, 1, 2, 3, 4, 5, 6, 7, 8, 9, 10, 11, 12, 13, 14, 15, 16, 17, 18, 20, 21, 22, 23, 24, 25, 26,
    27, 28, 30, 31, 32, 33, 34, 35, 36, 37, 38, 40, 41, 42, 43, 44, 45, 46, 47, 48, 49, 50]"
  by (simp add: phrases_def es_words_def english_def en_phrases [unfolded phrases_def])

lemma fr_phrases: "phrases fr_words = english
  [0, 1, 2, 3, 4, 5, 6, 7, 8, 9, 10, 11, 12, 13, 14, 15, 16, 17, 18, 19, 20, 21, 22, 23, 24, 25,
    26, 27, 28, 30, 31, 32, 33, 34, 35, 36, 37, 38, 40, 41, 42, 43, 44, 45, 46, 47, 48, 49, 50]"
  by (simp add: phrases_def fr_words_def english_def en_phrases [unfolded phrases_def])

lemma geo_phrases: "phrases geo_words = english
  [0, 1, 2, 3, 4, 5, 6, 7, 8, 9, 10, 11, 12, 13, 14, 15, 16, 17, 18, 19, 20, 21, 22, 23, 24, 25,
    26, 27, 28, 29, 30, 31, 32, 33, 34, 35, 36, 37, 38, 39, 40, 41, 42, 43, 44, 45, 46, 47, 48,
    49, 50]"
  by (simp add: phrases_def geo_words_def english_def en_phrases [unfolded phrases_def])

lemma it_phrases: "phrases it_words = english
  [0, 1, 2, 3, 4, 5, 6, 7, 8, 9, 10, 11, 12, 13, 14, 15, 16, 17, 18, 20, 21, 22, 23, 24, 25, 27,
    28, 30, 31, 32, 33, 34, 35, 36, 37, 38, 40, 41, 42, 43, 44, 45, 46, 47, 48, 49, 50]"
  by (simp add: phrases_def it_words_def english_def en_phrases [unfolded phrases_def])

lemma ja_phrases: "phrases ja_words = english
  [0, 1, 2, 3, 4, 5, 6, 7, 8, 9, 10, 11, 12, 13, 14, 15, 16, 17, 18, 19, 20, 21, 22, 23, 24, 25,
    26, 27, 28, 29, 30, 31, 32, 33, 34, 35, 36, 37, 38, 39, 40, 41, 42, 43, 44, 45, 46, 47, 48,
    49, 50]"
  by (simp add: phrases_def ja_words_def english_def en_phrases [unfolded phrases_def])

lemma ko_kr_phrases: "phrases ko_kr_words = english
  [0, 1, 2, 3, 4, 5, 6, 7, 8, 9, 10, 11, 12, 13, 14, 15, 16, 17, 18, 19, 20, 21, 22, 23, 24, 25,
    27, 28, 30, 31, 32, 33, 34, 35, 36, 37, 38, 40, 41, 42, 43, 44, 45, 46, 47, 48, 49, 50]"
  by (simp add: phrases_def ko_kr_words_def english_def en_phrases [unfolded phrases_def])

lemma pl_phrases: "phrases pl_words = english
  [0, 1, 2, 3, 4, 5, 6, 7, 8, 9, 10, 11, 12, 13, 14, 15, 16, 17, 18, 19, 20, 21, 22, 23, 24, 25,
    27, 28, 30, 31, 32, 33, 34, 35, 36, 37, 38, 40, 41, 42, 43, 44, 45, 46, 47, 48, 49, 50]"
  by (simp add: phrases_def pl_words_def english_def en_phrases [unfolded phrases_def])

lemma pt_phrases: "phrases pt_words = english
  [0, 1, 2, 3, 4, 5, 6, 7, 8, 9, 10, 11, 12, 13, 14, 15, 16, 17, 19, 18, 20, 21, 22, 23, 24, 25,
    27, 28, 30, 31, 32, 33, 34, 35, 36, 37, 38, 40, 41, 42, 43, 44, 45, 46, 47, 48, 49, 50]"
  by (simp add: phrases_def pt_words_def english_def en_phrases [unfolded phrases_def])

lemma ru_phrases: "phrases ru_words = english
  [0, 1, 2, 3, 4, 5, 6, 7, 8, 9, 11, 12, 13, 14, 15, 16, 17, 18, 19, 10, 20, 21, 22, 23, 24, 25,
    26, 27, 28, 29, 30, 31, 32, 33, 34, 35, 36, 37, 38, 39, 40, 41, 42, 43] @
  [''Can't read from server. It may not have the appropriate access-control-origin settings.''] @ english
  [45, 46, 47, 48, 49, 50]"
  by (simp add: phrases_def ru_words_def english_def en_phrases [unfolded phrases_def])

lemma tr_phrases: "phrases tr_words = english
  [0, 1, 2, 3, 4, 5, 6, 7, 8, 9, 10, 11, 12, 13, 14, 15, 16, 17, 18, 19, 20, 21, 22, 23, 24, 25,
    27, 28, 30, 31, 32, 33, 34, 35, 36, 37, 38, 40, 41, 42, 43, 44, 45, 46, 47, 48, 49, 50]"
  by (simp add: phrases_def tr_words_def english_def en_phrases [unfolded phrases_def])

lemma zh_cn_phrases: "phrases zh_cn_words = english
  [0, 1, 2, 3, 4, 5, 6, 7, 8, 9, 10, 11, 12, 13, 14, 15, 16, 17, 18, 19, 20, 21, 22, 23, 24, 25,
    26, 29, 27, 28, 30, 31, 32, 33, 34, 35, 36, 37, 38, 39, 40, 41, 42, 43, 44, 45, 46, 47, 48,
    49, 50]"
  by (simp add: phrases_def zh_cn_words_def english_def en_phrases [unfolded phrases_def])


definition tables :: "(string \<times> table) list" where
  "tables =
    [(''ca'', ca_words),
     (''el'', el_words),
     (''en'', en_words),
     (''es'', es_words),
     (''fr'', fr_words),
     (''geo'', geo_words),
     (''it'', it_words),
     (''ja'', ja_words),
     (''ko-kr'', ko_kr_words),
     (''pl'', pl_words),
     (''pt'', pt_words),
     (''ru'', ru_words),
     (''tr'', tr_words),
     (''zh-cn'', zh_cn_words)]"

lemma learn_phrase [simp]: "map_of (learn t) (js k) = map_of t k"
  by (induction t) (auto simp: learn_def)

lemma learn_other: "s \<notin> js ` set (phrases t) \<Longrightarrow> map_of (learn t) s = None"
  by (induction t) (auto simp: learn_def phrases_def)

lemma english_values: "list_all (\<lambda>(k, v). v = js k) en_words"
  by (simp add: en_words_def)

section \<open>Properties\<close>

text \<open>
  The tables of the languages: no table has a phrase twice, and every table translates
  phrases of the English table only, but for the Russian one, which has one phrase that no
  page has; so the phrase it stands for is the one English phrase that has no Russian
  translation, and is shown in English.
\<close>

theorem tables_translate_english:
  "list_all (\<lambda>(language, t). distinct (phrases t) \<and> unknown_phrases t =
      (if language = ''ru''
       then [''Can't read from server. It may not have the appropriate access-control-origin settings.'']
       else [])) tables \<and>
   [k \<leftarrow> phrases en_words. map_of ru_words k = None]
      = [''Can't read from server.  It may not have the appropriate access-control-origin settings.''] \<and>
   tryTranslate (learn ru_words)
      (VStr (js ''Can't read from server.  It may not have the appropriate access-control-origin settings.''))
    = VStr (js ''Can't read from server.  It may not have the appropriate access-control-origin settings.'')"
proof -
  have none: "map_of t k = None \<longleftrightarrow> k \<notin> set (phrases t)" for t :: table and k
    by (auto simp: map_of_eq_None_iff phrases_def)
  have en: "distinct (phrases en_words) \<and> unknown_phrases en_words = []"
    using phrases_English by (simp add: unknown_phrases_def filter_empty_conv)
  have ru: "distinct (phrases ru_words)"
    "unknown_phrases ru_words =
       [''Can't read from server. It may not have the appropriate access-control-origin settings.'']"
    "[k \<leftarrow> phrases en_words. map_of ru_words k = None]
      = [''Can't read from server.  It may not have the appropriate access-control-origin settings.'']"
    unfolding none ru_phrases unknown_phrases_def en_phrases english_def by simp_all
  have phrase: "jquery_trim (VStr (js ''Can't read from server.  It may not have the appropriate access-control-origin settings.''))
      = js ''Can't read from server.  It may not have the appropriate access-control-origin settings.''"
    by code_simp
  have "map_of ru_words ''Can't read from server.  It may not have the appropriate access-control-origin settings.'' = None"
    using arg_cong [OF ru(3), of set] by auto
  moreover have "list_all (\<lambda>(language, t). distinct (phrases t) \<and> unknown_phrases t =
      (if language = ''ru''
       then [''Can't read from server. It may not have the appropriate access-control-origin settings.'']
       else [])) tables"
    using english_table [OF ca_phrases] english_table [OF el_phrases] english_table [OF es_phrases] english_table [OF fr_phrases] english_table [OF geo_phrases] english_table [OF it_phrases] english_table [OF ja_phrases] english_table [OF ko_kr_phrases] english_table [OF pl_phrases] english_table [OF pt_phrases] english_table [OF tr_phrases] english_table [OF zh_cn_phrases] en ru(1,2)
    by (simp add: tables_def)
  ultimately show ?thesis using ru(3) phrase by (simp only: tryTranslate_def learn_phrase option.case simp_thms)
qed

text \<open>
  \<open>_tryTranslate\<close> with a table: a text that is a phrase of the table, but for white space at
  its ends, becomes the translation; every other one stays as it is.  With the English table
  nothing changes but that white space.
\<close>

theorem tryTranslate_phrases:
  "tryTranslate (learn t) w =
     (if jquery_trim w \<in> js ` set (phrases t)
      then VStr (the (map_of t (the_inv js (jquery_trim w)))) else w) \<and>
   tryTranslate (learn en_words) w =
     (if jquery_trim w \<in> js ` set (phrases en_words) then VStr (jquery_trim w) else w)"
proof -
  have inv: "the_inv js (js k) = k" for k by (rule the_inv_f_f) (simp add: inj_def)
  have known: "map_of t k = Some (the (map_of t k))" if "k \<in> set (phrases t)" for t :: table and k
    using that by (cases "map_of t k") (auto simp: map_of_eq_None_iff phrases_def)
  have val: "the (map_of en_words k) = js k" if "k \<in> set (phrases en_words)" for k
    using map_of_SomeD [OF known [OF that]] english_values by (auto simp: list_all_iff)
  have one: "tryTranslate (learn t) w =
      (if jquery_trim w \<in> js ` set (phrases t)
       then VStr (the (map_of t (the_inv js (jquery_trim w)))) else w)" for t
  proof (cases "jquery_trim w \<in> js ` set (phrases t)")
    case True
    then obtain k where k: "k \<in> set (phrases t)" "jquery_trim w = js k" by blast
    obtain v where "map_of t k = Some v" using known [OF k(1)] by blast
    then show ?thesis using k by (simp add: tryTranslate_def inv)
  next
    case False
    then show ?thesis by (simp add: tryTranslate_def learn_other)
  qed
  show ?thesis using one [of t] one [of en_words] val by (auto simp: inv)
qed

end
