(* ===== verification/QPromise.thy ===== *)
theory QPromise
  imports Prelude
begin

text \<open>
  The core of \<open>Q\<close>, the promises of the client: \<open>defer\<close>, \<open>then\<close>, the queue of \<open>nextTick\<close> and the
  tracking of rejections.  Promises and calls of \<open>then\<close> are kept in lists and referred to by their
  position.  A callback is a function from the value it is called with to what it returns or
  throws; what else it does, with the promises it can reach, are actions of the same kind as those
  of the program, which come before its task.  Only the operation \<open>when\<close> is sent to a promise, and
  the deprecated \<open>valueOf\<close> of a promise, which may shorten a chain of promises, is not called.
\<close>

section \<open>State\<close>

text \<open>
  A value is no promise, a promise, or an object of another library with a method \<open>then\<close>, which
  may throw when it is called.
\<close>

datatype 'a val = Plain 'a | Promise nat | Thenable "'a option"

datatype 'a outcome = Return "'a val" | Throw "'a val"

text \<open>The two messages of a call of \<open>then\<close>: its callbacks, and its listener for progress.\<close>

datatype message = When nat | Watch nat

text \<open>
  A promise of \<open>defer\<close> has its messages and progress listeners, or the promise it was resolved
  with; the promises of \<open>fulfill\<close> and \<open>reject\<close> have a value.
\<close>

datatype 'a promise = Pending "message list" "nat list" | Resolved nat
  | Fulfilled "'a val" | Rejected "'a val"

datatype 'a task = Start nat | Dispatch nat message | CallProgress nat "'a val" | Assimilate nat "'a option"

text \<open>
  The late tasks: a report that a rejection is not handled, with its reason, or that it was after
  all, with the place its reason had; and what the process is told.
\<close>

datatype 'a late = ReportUnhandled nat "'a val" | ReportHandled nat nat

datatype 'a event = UnhandledRejection "'a val" nat | RejectionHandled "'a val option" nat

record 'a reaction =
  t_self :: nat
  t_fulfilled :: "('a val \<Rightarrow> 'a outcome) option"
  t_rejected :: "('a val \<Rightarrow> 'a outcome) option"
  t_progressed :: "('a val \<Rightarrow> 'a outcome) option"
  t_deferred :: nat
  t_done :: bool

text \<open>
  The reasons of the rejections are kept themselves, where the code keeps the text made from each.
  \<open>emitted\<close> is what the process was told, \<open>calls\<close> are the callbacks called so far: of which
  \<open>then\<close>, whether the first, with what.
\<close>

record 'a q =
  promises :: "'a promise list"
  reactions :: "'a reaction list"
  tasks :: "'a task list"
  laterQueue :: "'a late list"
  unhandledRejections :: "nat list"
  unhandledReasons :: "'a val list"
  reportedRejections :: "nat list"
  trackRejections :: bool
  emitted :: "'a event list"
  calls :: "(nat \<times> bool \<times> 'a val) list"

definition initial :: "'a q" where
  "initial = \<lparr>promises = [], reactions = [], tasks = [], laterQueue = [], unhandledRejections = [],
     unhandledReasons = [], reportedRejections = [], trackRejections = True, emitted = [], calls = []\<rparr>"

definition nextTick :: "'a task \<Rightarrow> 'a q \<Rightarrow> 'a q" where
  "nextTick task st = st\<lparr>tasks := tasks st @ [task]\<rparr>"

definition next_ticks :: "'a task list \<Rightarrow> 'a q \<Rightarrow> 'a q" where
  "next_ticks ts st = st\<lparr>tasks := tasks st @ ts\<rparr>"

definition make_promise :: "'a promise \<Rightarrow> 'a q \<Rightarrow> nat \<times> 'a q" where
  "make_promise p st = (length (promises st), st\<lparr>promises := promises st @ [p]\<rparr>)"

section \<open>Rejections\<close>

definition trackRejection :: "nat \<Rightarrow> 'a val \<Rightarrow> 'a q \<Rightarrow> 'a q" where
  "trackRejection p reason st =
    (if \<not> trackRejections st then st
     else st\<lparr>laterQueue := laterQueue st @ [ReportUnhandled p reason],
             unhandledRejections := unhandledRejections st @ [p], unhandledReasons := unhandledReasons st @ [reason]\<rparr>)"

text \<open>\<open>array_indexOf\<close>, where it finds something, and \<open>splice(at, 1)\<close>.\<close>

fun index_in :: "'b \<Rightarrow> 'b list \<Rightarrow> nat option" where
  "index_in x [] = None"
| "index_in x (y # ys) = (if x = y then Some 0 else map_option Suc (index_in x ys))"

definition remove_at :: "nat \<Rightarrow> 'b list \<Rightarrow> 'b list" where
  "remove_at k xs = take k xs @ drop (Suc k) xs"

definition untrackRejection :: "nat \<Rightarrow> 'a q \<Rightarrow> 'a q" where
  "untrackRejection p st =
    (if \<not> trackRejections st then st
     else case index_in p (unhandledRejections st) of
       None \<Rightarrow> st
     | Some k \<Rightarrow> st\<lparr>laterQueue := laterQueue st @ [ReportHandled p k],
         unhandledRejections := remove_at k (unhandledRejections st),
         unhandledReasons := remove_at k (unhandledReasons st)\<rparr>)"

definition resetUnhandledRejections :: "'a q \<Rightarrow> 'a q" where
  "resetUnhandledRejections st = st\<lparr>unhandledRejections := [], unhandledReasons := [], trackRejections := True\<rparr>"

definition stopUnhandledRejectionTracking :: "'a q \<Rightarrow> 'a q" where
  "stopUnhandledRejectionTracking st = (resetUnhandledRejections st)\<lparr>trackRejections := False\<rparr>"

section \<open>Settling\<close>

definition fulfill :: "'a val \<Rightarrow> 'a q \<Rightarrow> nat \<times> 'a q" where
  "fulfill v st = make_promise (Fulfilled v) st"

definition reject :: "'a val \<Rightarrow> 'a q \<Rightarrow> nat \<times> 'a q" where
  "reject reason st = (let (p, st) = make_promise (Rejected reason) st in (p, trackRejection p reason st))"

definition q_defer :: "'a q \<Rightarrow> nat \<times> 'a q" where
  "q_defer st = make_promise (Pending [] []) st"

definition coerce :: "'a option \<Rightarrow> 'a q \<Rightarrow> nat \<times> 'a q" where
  "coerce thrown st = (let (d, st) = q_defer st in (d, nextTick (Assimilate d thrown) st))"

text \<open>\<open>Q(value)\<close>.\<close>

definition Q :: "'a val \<Rightarrow> 'a q \<Rightarrow> nat \<times> 'a q" where
  "Q v st = (case v of Promise p \<Rightarrow> (p, st) | Thenable thrown \<Rightarrow> coerce thrown st | Plain a \<Rightarrow> fulfill v st)"

definition become :: "nat \<Rightarrow> nat \<Rightarrow> 'a q \<Rightarrow> 'a q" where
  "become d p st = (case promises st ! d of
      Pending messages listeners \<Rightarrow>
        next_ticks (map (Dispatch p) messages) (st\<lparr>promises := (promises st)[d := Resolved p]\<rparr>)
    | _ \<Rightarrow> st)"

definition is_pending :: "'a promise \<Rightarrow> bool" where
  "is_pending p \<longleftrightarrow> (case p of Pending _ _ \<Rightarrow> True | _ \<Rightarrow> False)"

text \<open>The methods of a deferred; they do nothing once it is resolved.\<close>

definition deferred_by :: "('a q \<Rightarrow> nat \<times> 'a q) \<Rightarrow> nat \<Rightarrow> 'a q \<Rightarrow> 'a q" where
  "deferred_by create d st =
    (if is_pending (promises st ! d) then (let (p, st) = create st in become d p st) else st)"

definition deferred_resolve :: "nat \<Rightarrow> 'a val \<Rightarrow> 'a q \<Rightarrow> 'a q" where
  "deferred_resolve d v = deferred_by (Q v) d"

definition deferred_fulfill :: "nat \<Rightarrow> 'a val \<Rightarrow> 'a q \<Rightarrow> 'a q" where
  "deferred_fulfill d v = deferred_by (fulfill v) d"

definition deferred_reject :: "nat \<Rightarrow> 'a val \<Rightarrow> 'a q \<Rightarrow> 'a q" where
  "deferred_reject d reason = deferred_by (reject reason) d"

definition deferred_notify :: "nat \<Rightarrow> 'a val \<Rightarrow> 'a q \<Rightarrow> 'a q" where
  "deferred_notify d progress st = (case promises st ! d of
      Pending messages listeners \<Rightarrow> next_ticks (map (\<lambda>t. CallProgress t progress) listeners) st
    | _ \<Rightarrow> st)"

section \<open>Callbacks\<close>

text \<open>
  \<open>_fulfilled\<close> and \<open>_rejected\<close> with what the deferred of \<open>then\<close> is resolved with; a missing callback
  hands the value or the rejection on.
\<close>

definition settle_with :: "nat \<Rightarrow> 'a outcome \<Rightarrow> 'a q \<Rightarrow> 'a q" where
  "settle_with d outcome st = (case outcome of
      Return w \<Rightarrow> deferred_resolve d w st
    | Throw e \<Rightarrow> (let (p, st) = reject e st in deferred_resolve d (Promise p) st))"

definition run_callback :: "bool \<Rightarrow> nat \<Rightarrow> 'a val \<Rightarrow> 'a q \<Rightarrow> 'a q" where
  "run_callback ok t v st =
    (let r = reactions st ! t in
     if t_done r then st
     else
       let callback = (if ok then t_fulfilled r else t_rejected r);
           st = st\<lparr>reactions := (reactions st)[t := r\<lparr>t_done := True\<rparr>]\<rparr>
       in case callback of
         Some f \<Rightarrow> settle_with (t_deferred r) (f v) (st\<lparr>calls := calls st @ [(t, ok, v)]\<rparr>)
       | None \<Rightarrow> settle_with (t_deferred r) (if ok then Return v else Throw v) st)"

text \<open>\<open>promiseDispatch\<close> with the operation \<open>when\<close>.\<close>

definition promiseDispatch :: "nat \<Rightarrow> message \<Rightarrow> 'a q \<Rightarrow> 'a q" where
  "promiseDispatch p m st = (case promises st ! p of
      Pending messages listeners \<Rightarrow> st\<lparr>promises := (promises st)[p := Pending (messages @ [m])
        (case m of Watch t \<Rightarrow> listeners @ [t] | When t \<Rightarrow> listeners)]\<rparr>
    | Resolved q \<Rightarrow> nextTick (Dispatch q m) st
    | Fulfilled v \<Rightarrow> (case m of When t \<Rightarrow> run_callback True t v st | Watch t \<Rightarrow> st)
    | Rejected reason \<Rightarrow> (case m of When t \<Rightarrow> run_callback False t reason (untrackRejection p st) | Watch t \<Rightarrow> st))"

definition promise_then ::
  "nat \<Rightarrow> ('a val \<Rightarrow> 'a outcome) option \<Rightarrow> ('a val \<Rightarrow> 'a outcome) option \<Rightarrow> ('a val \<Rightarrow> 'a outcome) option
    \<Rightarrow> 'a q \<Rightarrow> nat \<times> 'a q" where
  "promise_then self fulfilled rejected progressed st =
    (let (d, st) = q_defer st; t = length (reactions st);
         st = st\<lparr>reactions := reactions st @ [\<lparr>t_self = self, t_fulfilled = fulfilled, t_rejected = rejected,
           t_progressed = progressed, t_deferred = d, t_done = False\<rparr>]\<rparr>
     in (d, promiseDispatch self (Watch t) (nextTick (Start t) st)))"

section \<open>The queue\<close>

definition run_task :: "'a task \<Rightarrow> 'a q \<Rightarrow> 'a q" where
  "run_task task st = (case task of
      Start t \<Rightarrow> promiseDispatch (t_self (reactions st ! t)) (When t) st
    | Dispatch p m \<Rightarrow> promiseDispatch p m st
    | CallProgress t v \<Rightarrow>
        (case (case t_progressed (reactions st ! t) of Some f \<Rightarrow> f v | None \<Rightarrow> Return v) of
           Return w \<Rightarrow> deferred_notify (t_deferred (reactions st ! t)) w st
         | Throw e \<Rightarrow> st)
    | Assimilate d thrown \<Rightarrow> (case thrown of Some e \<Rightarrow> deferred_reject d (Plain e) st | None \<Rightarrow> st))"

text \<open>The late tasks, which report to the process and run the last one first.\<close>

definition run_late :: "'a late \<Rightarrow> 'a q \<Rightarrow> 'a q" where
  "run_late task st = (case task of
      ReportUnhandled p reason \<Rightarrow>
        (if p \<in> set (unhandledRejections st)
         then st\<lparr>emitted := emitted st @ [UnhandledRejection reason p], reportedRejections := reportedRejections st @ [p]\<rparr>
         else st)
    | ReportHandled p k \<Rightarrow>
        (case index_in p (reportedRejections st) of
           Some i \<Rightarrow> st\<lparr>emitted := emitted st @ [RejectionHandled
               (if k < length (unhandledReasons st) then Some (unhandledReasons st ! k) else None) p],
             reportedRejections := remove_at i (reportedRejections st)\<rparr>
         | None \<Rightarrow> st))"

text \<open>One turn of \<open>flush\<close>, and the whole of it.\<close>

definition flush_step :: "'a q \<Rightarrow> 'a q" where
  "flush_step st = (case tasks st of
      task # rest \<Rightarrow> run_task task (st\<lparr>tasks := rest\<rparr>)
    | [] \<Rightarrow> if laterQueue st = [] then st
           else run_late (last (laterQueue st)) (st\<lparr>laterQueue := butlast (laterQueue st)\<rparr>))"

partial_function (option) flush :: "'a q \<Rightarrow> 'a q option" where
  "flush st = (if tasks st = [] \<and> laterQueue st = [] then Some st else flush (flush_step st))"

section \<open>Looking at a promise\<close>

datatype 'a inspection = IsPending | IsFulfilled "'a val" | IsRejected "'a val"

text \<open>\<open>inspect\<close> follows the promise a deferred was resolved with; a circle exhausts the stack.\<close>

partial_function (option) inspect :: "'a promise list \<Rightarrow> nat \<Rightarrow> 'a inspection option" where
  "inspect ps p = (case ps ! p of
      Pending messages listeners \<Rightarrow> Some IsPending
    | Resolved q \<Rightarrow> inspect ps q
    | Fulfilled v \<Rightarrow> Some (IsFulfilled v)
    | Rejected reason \<Rightarrow> Some (IsRejected reason))"

definition nearer :: "'a promise list \<Rightarrow> 'a val \<Rightarrow> 'a val option" where
  "nearer ps v = (case v of
      Promise p \<Rightarrow> map_option (\<lambda>i. case i of IsFulfilled w \<Rightarrow> w | _ \<Rightarrow> v) (inspect ps p)
    | _ \<Rightarrow> Some v)"

definition isPending :: "'a promise list \<Rightarrow> 'a val \<Rightarrow> bool option" where
  "isPending ps v = (case v of Promise p \<Rightarrow> map_option (\<lambda>i. i = IsPending) (inspect ps p) | _ \<Rightarrow> Some False)"

definition isFulfilled :: "'a promise list \<Rightarrow> 'a val \<Rightarrow> bool option" where
  "isFulfilled ps v = (case v of Promise p \<Rightarrow> map_option (\<lambda>i. \<exists>w. i = IsFulfilled w) (inspect ps p) | _ \<Rightarrow> Some True)"

definition isRejected :: "'a promise list \<Rightarrow> 'a val \<Rightarrow> bool option" where
  "isRejected ps v = (case v of Promise p \<Rightarrow> map_option (\<lambda>i. \<exists>e. i = IsRejected e) (inspect ps p) | _ \<Rightarrow> Some False)"

section \<open>Short ways to \<open>then\<close>\<close>

definition q_when ::
  "'a val \<Rightarrow> ('a val \<Rightarrow> 'a outcome) option \<Rightarrow> ('a val \<Rightarrow> 'a outcome) option \<Rightarrow> ('a val \<Rightarrow> 'a outcome) option
    \<Rightarrow> 'a q \<Rightarrow> nat \<times> 'a q" where
  "q_when v fulfilled rejected progressed st = (let (p, st) = Q v st in promise_then p fulfilled rejected progressed st)"

definition thenResolve :: "nat \<Rightarrow> 'a val \<Rightarrow> 'a q \<Rightarrow> nat \<times> 'a q" where
  "thenResolve p v = promise_then p (Some (\<lambda>_. Return v)) None None"

definition thenReject :: "nat \<Rightarrow> 'a val \<Rightarrow> 'a q \<Rightarrow> nat \<times> 'a q" where
  "thenReject p reason = promise_then p (Some (\<lambda>_. Throw reason)) None None"

definition q_fail :: "nat \<Rightarrow> ('a val \<Rightarrow> 'a outcome) \<Rightarrow> 'a q \<Rightarrow> nat \<times> 'a q" where
  "q_fail p rejected = promise_then p None (Some rejected) None"

definition q_progress :: "nat \<Rightarrow> ('a val \<Rightarrow> 'a outcome) \<Rightarrow> 'a q \<Rightarrow> nat \<times> 'a q" where
  "q_progress p progressed = promise_then p None None (Some progressed)"

section \<open>What a program does\<close>

text \<open>
  The calls a program makes, in any order and between any two tasks; a program can only name
  promises there are, and resolve those that \<open>defer\<close> has given it.
\<close>

datatype 'a action = Defer | Resolve nat "'a val" | Fulfil nat "'a val" | Reject nat "'a val" | Notify nat "'a val"
  | Then nat "('a val \<Rightarrow> 'a outcome) option" "('a val \<Rightarrow> 'a outcome) option" "('a val \<Rightarrow> 'a outcome) option"
  | ResetTracking | StopTracking | Tick

definition perform :: "'a action \<Rightarrow> 'a q \<Rightarrow> 'a q" where
  "perform a st = (case a of
      Defer \<Rightarrow> snd (q_defer st)
    | Resolve d v \<Rightarrow> deferred_resolve d v st
    | Fulfil d v \<Rightarrow> deferred_fulfill d v st
    | Reject d v \<Rightarrow> deferred_reject d v st
    | Notify d v \<Rightarrow> deferred_notify d v st
    | Then p f r g \<Rightarrow> snd (promise_then p f r g st)
    | ResetTracking \<Rightarrow> resetUnhandledRejections st
    | StopTracking \<Rightarrow> stopUnhandledRejectionTracking st
    | Tick \<Rightarrow> flush_step st)"

end
