(* ===== verification/PromiseLaws.thy ===== *)
theory PromiseLaws
  imports QPromise
begin

text \<open>
  What \<open>Q\<close> guarantees, for every program and every order of its calls and the tasks of the queue: a
  promise keeps what it was settled with, a callback is called at most once and in a later turn,
  and once the queue is empty every callback of a settled promise has been called.
\<close>

section \<open>Steps\<close>

definition resolved_exist :: "'a q \<Rightarrow> bool" where
  "resolved_exist st \<longleftrightarrow> (\<forall>p \<in> set (promises st). case p of Resolved q \<Rightarrow> q < length (promises st) | _ \<Rightarrow> True)"

definition allowed :: "'a action \<Rightarrow> 'a q \<Rightarrow> bool" where
  "allowed a st \<longleftrightarrow> (case a of
      Resolve d v \<Rightarrow> d < length (promises st)
    | Fulfil d v \<Rightarrow> d < length (promises st)
    | Reject d v \<Rightarrow> d < length (promises st)
    | Notify d v \<Rightarrow> d < length (promises st)
    | Then p f r g \<Rightarrow> p < length (promises st)
    | _ \<Rightarrow> True)"

text \<open>A promise can only be resolved with a promise that exists.\<close>

inductive step :: "'a q \<Rightarrow> 'a q \<Rightarrow> bool" where
  "allowed a st \<Longrightarrow> resolved_exist (perform a st) \<Longrightarrow> step st (perform a st)"

abbreviation steps :: "'a q \<Rightarrow> 'a q \<Rightarrow> bool" where
  "steps \<equiv> step\<^sup>*\<^sup>*"

lemmas op_defs = nextTick_def next_ticks_def make_promise_def trackRejection_def untrackRejection_def
  fulfill_def reject_def q_defer_def coerce_def Q_def Let_def

section \<open>Promises change once\<close>

definition later :: "'a promise list \<Rightarrow> 'a promise list \<Rightarrow> bool" where
  "later ps ps' \<longleftrightarrow> length ps \<le> length ps' \<and> (\<forall>p < length ps. ps' ! p = ps ! p \<or> is_pending (ps ! p))"

lemma later_refl [simp]: "later ps ps"
  by (simp add: later_def)

lemma later_trans: "later ps ps1 \<Longrightarrow> later ps1 ps2 \<Longrightarrow> later ps ps2"
  by (auto simp: later_def) (metis order.strict_trans2)

lemma later_append [simp]: "later ps (ps @ qs)"
  by (simp add: later_def nth_append)

lemma later_update: "is_pending (ps ! d) \<Longrightarrow> later ps (ps[d := p])"
  by (cases "d < length ps") (auto simp: later_def nth_list_update list_update_beyond)

lemma is_pending_simps [simp]: "is_pending (Pending ms ls)" "\<not> is_pending (Resolved q)" "\<not> is_pending (Fulfilled v)"
  "\<not> is_pending (Rejected v)"
  by (simp_all add: is_pending_def)

text \<open>The operations that make a promise add it at the end, and enter no message anywhere.\<close>

lemma create_simps:
  "promises (snd (fulfill v st)) = promises st @ [Fulfilled v]" "promises (snd (reject v st)) = promises st @ [Rejected v]"
  "promises (snd (q_defer st)) = promises st @ [Pending [] []]"
  "fst (fulfill v st) = length (promises st)" "fst (reject v st) = length (promises st)" "fst (q_defer st) = length (promises st)"
  "tasks (snd (fulfill v st)) = tasks st" "tasks (snd (reject v st)) = tasks st" "tasks (snd (q_defer st)) = tasks st"
  "reactions (snd (fulfill v st)) = reactions st" "reactions (snd (reject v st)) = reactions st"
  "reactions (snd (q_defer st)) = reactions st" "calls (snd (fulfill v st)) = calls st"
  "calls (snd (reject v st)) = calls st" "calls (snd (q_defer st)) = calls st"
  by (simp_all add: op_defs)

lemma Q_promises: "promises (snd (Q v st)) = promises st @ (case v of Promise p \<Rightarrow> [] | Thenable e \<Rightarrow> [Pending [] []] | Plain a \<Rightarrow> [Fulfilled v])"
  "fst (Q v st) = (case v of Promise p \<Rightarrow> p | _ \<Rightarrow> length (promises st))"
  "reactions (snd (Q v st)) = reactions st" "calls (snd (Q v st)) = calls st"
  "tasks (snd (Q v st)) = tasks st @ (case v of Thenable e \<Rightarrow> [Assimilate (length (promises st)) e] | _ \<Rightarrow> [])"
  by (simp_all add: op_defs split: val.splits)

lemma untrack_simps [simp]:
  "promises (untrackRejection p st) = promises st" "tasks (untrackRejection p st) = tasks st"
  "reactions (untrackRejection p st) = reactions st" "calls (untrackRejection p st) = calls st"
  by (simp_all add: untrackRejection_def split: option.splits)

lemma become_simps [simp]: "reactions (become d p st) = reactions st" "calls (become d p st) = calls st"
  by (simp_all add: become_def next_ticks_def split: promise.splits)

lemma become_later: "later (promises st) (promises (become d p st))"
  by (auto simp: become_def next_ticks_def intro: later_update split: promise.splits)

lemma deferred_by_later:
  "later (promises st) (promises (snd (create st))) \<Longrightarrow> later (promises st) (promises (deferred_by create d st))"
  by (auto simp: deferred_by_def split: prod.splits intro: later_trans become_later)

lemma deferred_later:
  "later (promises st) (promises (deferred_resolve d v st))" "later (promises st) (promises (deferred_fulfill d v st))"
  "later (promises st) (promises (deferred_reject d v st))" "promises (deferred_notify d v st) = promises st"
  by (simp_all add: deferred_resolve_def deferred_fulfill_def deferred_reject_def deferred_by_later create_simps Q_promises
      deferred_notify_def next_ticks_def split: promise.splits)

lemma settle_later: "later (promises st) (promises (settle_with d outcome st))"
proof (cases outcome)
  case (Throw e)
  have "later (promises st) (promises (snd (reject e st)))" by (simp add: create_simps)
  then show ?thesis using Throw by (auto simp: settle_with_def split: prod.splits intro: later_trans [OF _ deferred_later(1)])
qed (simp add: settle_with_def deferred_later)

lemma run_callback_later: "later (promises st) (promises (run_callback ok t v st))"
proof -
  have "later (promises st) (promises (settle_with d outcome st'))" if "promises st' = promises st" for d outcome st'
    using settle_later [of st' d outcome] that by simp
  then show ?thesis by (simp add: run_callback_def Let_def split: option.splits)
qed

lemma dispatch_later: "later (promises st) (promises (promiseDispatch p m st))"
proof (cases "promises st ! p")
  case (Rejected reason)
  then show ?thesis
    using run_callback_later [of "untrackRejection p st"] by (simp add: promiseDispatch_def split: message.splits)
qed (auto simp: promiseDispatch_def nextTick_def run_callback_later intro: later_update split: message.splits)

lemma run_task_later: "later (promises st) (promises (run_task task st))"
  by (simp add: run_task_def dispatch_later deferred_later split: task.splits outcome.splits option.splits)

lemma flush_step_later: "later (promises st) (promises (flush_step st))"
proof (cases "tasks st")
  case (Cons task rest)
  then show ?thesis using run_task_later [of "st\<lparr>tasks := rest\<rparr>" task] by (simp add: flush_step_def)
qed (simp add: flush_step_def run_late_def split: late.splits option.splits)

lemma then_later: "later (promises st) (promises (snd (promise_then p f r g st)))"
  using dispatch_later
  by (auto simp: promise_then_def op_defs split: prod.splits intro!: later_trans [OF _ dispatch_later])

lemma perform_later: "later (promises st) (promises (perform a st))"
  by (simp add: perform_def create_simps deferred_later then_later flush_step_later resetUnhandledRejections_def
      stopUnhandledRejectionTracking_def split: action.splits)

lemma steps_later: "steps st st' \<Longrightarrow> later (promises st) (promises st')"
  by (induction rule: rtranclp_induct) (auto elim!: step.cases intro: later_trans perform_later)

lemma reach_exist: "steps initial st \<Longrightarrow> resolved_exist st"
  by (induction rule: rtranclp_induct) (auto elim!: step.cases simp: initial_def resolved_exist_def)

definition keeps :: "'a promise list \<Rightarrow> 'a promise list \<Rightarrow> nat \<Rightarrow> 'a inspection \<Rightarrow> bool" where
  "keeps ps' ps p i \<longleftrightarrow> (i \<noteq> IsPending \<and> p < length ps \<and>
     (\<forall>q r. q < length ps \<longrightarrow> ps ! q = Resolved r \<longrightarrow> r < length ps) \<and> later ps ps' \<longrightarrow> inspect ps' p = Some i)"

lemma inspect_later: "inspect ps p = Some i \<Longrightarrow> keeps ps' ps p i"
proof (rule inspect.raw_induct [of "keeps ps'"], goal_cases)
  case (1 f ps p i)
  show ?case
  proof (cases "p < length ps \<and> later ps ps'")
    case True
    then have e: "ps' ! p = ps ! p \<or> is_pending (ps ! p)" by (simp add: later_def)
    show ?thesis
    proof (cases "ps ! p")
      case (Resolved q)
      then have f: "f ps q = Some i" and p': "inspect ps' p = inspect ps' q"
        using 1(3) e by (simp, subst inspect.simps, simp)
      show ?thesis using 1(2) [OF f] Resolved p' unfolding keeps_def by metis
    qed (use 1(3) e in \<open>subst keeps_def, subst inspect.simps; simp\<close>)+
  qed (auto simp: keeps_def)
qed

text \<open>
  C7. A promise that is fulfilled or rejected stays so, with the same value, whatever the program
  and the tasks do afterwards.
\<close>

theorem settled_for_ever:
  assumes "steps initial st" "steps st st'" "p < length (promises st)"
    and "inspect (promises st) p = Some i" "i \<noteq> IsPending"
  shows "inspect (promises st') p = Some i"
proof -
  have "r < length (promises st)" if "q < length (promises st)" "promises st ! q = Resolved r" for q r
    using reach_exist [OF assms(1)] that nth_mem [OF that(1)] by (force simp: resolved_exist_def)
  then show ?thesis using inspect_later [OF assms(4)] steps_later [OF assms(2)] assms(3,5) unfolding keeps_def by blast
qed

section \<open>Bookkeeping\<close>

text \<open>\<open>leads ps p q\<close>: the promise \<open>p\<close> was resolved with \<open>q\<close>, perhaps in several steps.\<close>

abbreviation leads :: "'a promise list \<Rightarrow> nat \<Rightarrow> nat \<Rightarrow> bool" where
  "leads ps \<equiv> (\<lambda>p q. p < length ps \<and> ps ! p = Resolved q)\<^sup>*\<^sup>*"

fun reaction_of :: "message \<Rightarrow> nat" where
  "reaction_of (When t) = t"
| "reaction_of (Watch t) = t"

definition task_ok :: "nat \<Rightarrow> nat \<Rightarrow> 'a task \<Rightarrow> bool" where
  "task_ok n m task \<longleftrightarrow> (case task of Start t \<Rightarrow> t < m | Dispatch p x \<Rightarrow> p < n \<and> reaction_of x < m
     | CallProgress t v \<Rightarrow> t < m | Assimilate d e \<Rightarrow> d < n)"

definition promise_ok :: "nat \<Rightarrow> nat \<Rightarrow> 'a promise \<Rightarrow> bool" where
  "promise_ok n m p \<longleftrightarrow> (case p of Pending ms ls \<Rightarrow> (\<forall>x \<in> set ms. reaction_of x < m) \<and> (\<forall>t \<in> set ls. t < m)
     | Resolved q \<Rightarrow> q < n | _ \<Rightarrow> True)"

definition ranges :: "'a q \<Rightarrow> bool" where
  "ranges st \<longleftrightarrow> (\<forall>r \<in> set (reactions st). t_self r < length (promises st) \<and> t_deferred r < length (promises st)) \<and>
     (\<forall>x \<in> set (tasks st). task_ok (length (promises st)) (length (reactions st)) x) \<and>
     (\<forall>x \<in> set (promises st). promise_ok (length (promises st)) (length (reactions st)) x)"

text \<open>Where the callbacks of a call of \<open>then\<close> are before they are called.\<close>

definition waits :: "'a q \<Rightarrow> nat \<Rightarrow> nat \<Rightarrow> bool" where
  "waits st t p \<longleftrightarrow> Dispatch p (When t) \<in> set (tasks st) \<or>
     p < length (promises st) \<and> (case promises st ! p of Pending ms ls \<Rightarrow> When t \<in> set ms | _ \<Rightarrow> False)"

definition routes :: "'a q \<Rightarrow> bool" where
  "routes st \<longleftrightarrow> (\<forall>t p. waits st t p \<longrightarrow> leads (promises st) (t_self (reactions st ! t)) p)"

definition located :: "'a q \<Rightarrow> nat \<Rightarrow> bool" where
  "located st t \<longleftrightarrow> Start t \<in> set (tasks st) \<or> (\<exists>p. waits st t p)"

definition called_right :: "'a q \<Rightarrow> nat \<times> bool \<times> 'a val \<Rightarrow> bool" where
  "called_right st c \<longleftrightarrow> (case c of (t, ok, v) \<Rightarrow> t < length (reactions st) \<and> t_done (reactions st ! t) \<and>
     (\<exists>p < length (promises st). leads (promises st) (t_self (reactions st ! t)) p \<and>
        promises st ! p = (if ok then Fulfilled v else Rejected v)))"

text \<open>The invariant; the calls of \<open>then\<close> in \<open>X\<close> are just being dispatched.\<close>

definition inv :: "nat set \<Rightarrow> 'a q \<Rightarrow> bool" where
  "inv X st \<longleftrightarrow> ranges st \<and> routes st \<and>
     (\<forall>t < length (reactions st). t \<notin> X \<longrightarrow> \<not> t_done (reactions st ! t) \<longrightarrow> located st t) \<and>
     distinct (map fst (calls st)) \<and> (\<forall>c \<in> set (calls st). called_right st c)"

lemma leads_later: "leads ps p q \<Longrightarrow> later ps ps' \<Longrightarrow> leads ps' p q"
proof (induction rule: rtranclp_induct)
  case (step q r)
  then have "leads ps' p q" "q < length ps' \<and> ps' ! q = Resolved r" by (auto simp: later_def)
  then show ?case by (rule rtranclp.rtrancl_into_rtrancl)
qed simp

lemma task_ok_mono: "task_ok n m x \<Longrightarrow> n \<le> n' \<Longrightarrow> m \<le> m' \<Longrightarrow> task_ok n' m' x"
  by (auto simp: task_ok_def split: task.splits)

lemma promise_ok_mono: "promise_ok n m x \<Longrightarrow> n \<le> n' \<Longrightarrow> m \<le> m' \<Longrightarrow> promise_ok n' m' x"
  by (auto simp: promise_ok_def split: promise.splits)

lemma ranges_mono: "(\<forall>x \<in> set xs. task_ok n m x) \<Longrightarrow> n \<le> n' \<Longrightarrow> m \<le> m' \<Longrightarrow> \<forall>x \<in> set xs. task_ok n' m' x"
  "(\<forall>x \<in> set ps. promise_ok n m x) \<Longrightarrow> n \<le> n' \<Longrightarrow> m \<le> m' \<Longrightarrow> \<forall>x \<in> set ps. promise_ok n' m' x"
  by (meson task_ok_mono promise_ok_mono)+

text \<open>What the operations do that call no callback.\<close>

definition proceeds :: "'a q \<Rightarrow> 'a q \<Rightarrow> bool" where
  "proceeds st st' \<longleftrightarrow> reactions st' = reactions st \<and> calls st' = calls st \<and> later (promises st) (promises st') \<and>
     set (tasks st) \<subseteq> set (tasks st') \<and> (\<forall>t p. waits st t p \<longrightarrow> (\<exists>q. waits st' t q)) \<and>
     (ranges st \<longrightarrow> ranges st') \<and> (routes st \<longrightarrow> routes st')"

lemma proceeds_refl [simp]: "proceeds st st"
  by (auto simp: proceeds_def)

lemma proceeds_trans: "proceeds st st1 \<Longrightarrow> proceeds st1 st2 \<Longrightarrow> proceeds st st2"
  by (auto simp: proceeds_def intro: later_trans)

lemma later_settled:
  "later ps ps' \<Longrightarrow> p < length ps \<Longrightarrow> \<not> is_pending (ps ! p) \<Longrightarrow> p < length ps' \<and> ps' ! p = ps ! p"
  by (auto simp: later_def)

lemma called_right_later:
  assumes "called_right st c" "later (promises st) (promises st')" "length (reactions st) \<le> length (reactions st')"
    "\<And>t. t < length (reactions st) \<Longrightarrow> t_self (reactions st' ! t) = t_self (reactions st ! t) \<and>
      (t_done (reactions st ! t) \<longrightarrow> t_done (reactions st' ! t))"
  shows "called_right st' c"
proof -
  obtain t ok v p where p: "c = (t, ok, v)" "t < length (reactions st)" "t_done (reactions st ! t)" "p < length (promises st)"
    "leads (promises st) (t_self (reactions st ! t)) p" "promises st ! p = (if ok then Fulfilled v else Rejected v)"
    using assms(1) by (auto simp: called_right_def split: prod.splits)
  have "p < length (promises st') \<and> promises st' ! p = promises st ! p"
    by (rule later_settled [OF assms(2) p(4)]) (simp add: p(6))
  then show ?thesis
    using p assms(3) assms(4) [OF p(2)] leads_later [OF p(5) assms(2)] unfolding called_right_def by auto
qed

lemma inv_grows: "inv X st \<Longrightarrow> proceeds st st' \<Longrightarrow> inv X st'"
  by (auto simp: inv_def proceeds_def located_def intro: called_right_later) blast+

text \<open>The operations that make promises, and those of a deferred.\<close>

lemma waits_append:
  "waits (st\<lparr>promises := promises st @ [x]\<rparr>) t p \<longleftrightarrow>
    waits st t p \<or> p = length (promises st) \<and> (case x of Pending ms ls \<Rightarrow> When t \<in> set ms | _ \<Rightarrow> False)"
  by (auto simp: waits_def nth_append split: promise.splits)

lemma routes_later:
  assumes "routes st" "later (promises st) (promises st')" "reactions st' = reactions st" "\<And>t p. waits st' t p \<Longrightarrow> waits st t p"
  shows "routes st'"
  unfolding routes_def
proof (intro allI impI)
  fix t p assume "waits st' t p"
  then have "leads (promises st) (t_self (reactions st ! t)) p" using assms(1,4) by (simp add: routes_def)
  then show "leads (promises st') (t_self (reactions st' ! t)) p" using leads_later [OF _ assms(2)] assms(3) by simp
qed

lemma ranges_nth:
  "ranges st \<Longrightarrow> p < length (promises st) \<Longrightarrow> promise_ok (length (promises st)) (length (reactions st)) (promises st ! p)"
  by (simp add: ranges_def)

lemma proceeds_make:
  assumes "case x of Pending ms ls \<Rightarrow> ms = [] \<and> ls = [] | Resolved q \<Rightarrow> False | _ \<Rightarrow> True"
  shows "proceeds st (st\<lparr>promises := promises st @ [x]\<rparr>)"
proof -
  have w: "waits (st\<lparr>promises := promises st @ [x]\<rparr>) t p \<longleftrightarrow> waits st t p" for t p
    using assms by (auto simp: waits_append split: promise.splits)
  have "ranges (st\<lparr>promises := promises st @ [x]\<rparr>)" if "ranges st"
    using that assms ranges_mono [of _ "length (promises st)" _ "Suc (length (promises st))"]
    by (auto simp: ranges_def promise_ok_def less_SucI split: promise.splits)
  moreover have "routes (st\<lparr>promises := promises st @ [x]\<rparr>)" if "routes st"
    using that by (rule routes_later) (simp_all add: w)
  ultimately show ?thesis using w by (auto simp: proceeds_def)
qed

lemma proceeds_tasks:
  assumes "\<forall>x \<in> set xs. task_ok (length (promises st)) (length (reactions st)) x \<and> (case x of Dispatch _ _ \<Rightarrow> False | _ \<Rightarrow> True)"
  shows "proceeds st (st\<lparr>tasks := tasks st @ xs\<rparr>)"
proof -
  have "waits (st\<lparr>tasks := tasks st @ xs\<rparr>) t p \<longleftrightarrow> waits st t p" for t p
    using assms by (auto simp: waits_def)
  then show ?thesis using assms by (auto simp: proceeds_def routes_def ranges_def)
qed

lemma proceeds_hidden:
  assumes "promises st' = promises st" "tasks st' = tasks st" "reactions st' = reactions st" "calls st' = calls st"
  shows "proceeds st st'"
proof -
  have "waits st' = waits st" using assms by (simp add: waits_def fun_eq_iff)
  then show ?thesis using assms by (auto simp: proceeds_def routes_def ranges_def)
qed


lemma proceeds_become:
  assumes d: "d < length (promises st)" and p: "p < length (promises st)"
  shows "proceeds st (become d p st)"
proof (cases "promises st ! d")
  case (Pending ms ls)
  define st' where "st' = become d p st"
  have st': "promises st' = (promises st)[d := Resolved p]" "tasks st' = tasks st @ map (Dispatch p) ms" "reactions st' = reactions st"
    "calls st' = calls st"
    by (simp_all add: st'_def become_def next_ticks_def Pending)
  have l: "later (promises st) (promises st')" using st'(1) by (simp add: later_update Pending)
  have w: "waits st' t q \<longleftrightarrow> (waits st t q \<and> (q = d \<longrightarrow> Dispatch d (When t) \<in> set (tasks st))) \<or> (q = p \<and> When t \<in> set ms)" for t q
    using d by (auto simp: waits_def st' nth_list_update Pending)
  have "ranges st'" if r: "ranges st"
  proof -
    have "promise_ok (length (promises st)) (length (reactions st)) (promises st ! d)" using r d by (rule ranges_nth)
    moreover have "set (promises st') \<subseteq> insert (Resolved p) (set (promises st))" by (simp add: st' set_update_subset_insert)
    ultimately show ?thesis using r p Pending by (auto simp: ranges_def st' promise_ok_def task_ok_def)
  qed
  moreover have "routes st'" if r: "routes st"
    unfolding routes_def
  proof (intro allI impI)
    fix t q assume "waits st' t q"
    then consider "waits st t q" | "q = p" "When t \<in> set ms" using w by blast
    then show "leads (promises st') (t_self (reactions st' ! t)) q"
    proof cases
      case 1
      then show ?thesis using r leads_later [OF _ l] by (simp add: routes_def st'(3))
    next
      case 2
      then have "waits st t d" using d by (simp add: waits_def Pending)
      then have "leads (promises st') (t_self (reactions st' ! t)) d" using r leads_later [OF _ l] by (simp add: routes_def st'(3))
      moreover have "d < length (promises st') \<and> promises st' ! d = Resolved q" using d 2 by (simp add: st')
      ultimately show ?thesis by (rule rtranclp.rtrancl_into_rtrancl)
    qed
  qed
  moreover have "\<exists>q. waits st' t q" if "waits st t q" for t q
    using that w [of t q] w [of t p] by (cases "q = d") (auto simp: waits_def Pending)
  ultimately show ?thesis using l st' unfolding proceeds_def by (auto simp: st'_def [symmetric])
qed (simp_all add: become_def)

lemma proceeds_deferred_by:
  assumes "d < length (promises st)" "proceeds st (snd (create st))"
    and "is_pending (promises st ! d) \<Longrightarrow> promises (snd (create st)) ! d = promises st ! d"
    and "resolved_exist (deferred_by create d st)"
  shows "proceeds st (deferred_by create d st)"
proof (cases "is_pending (promises st ! d)")
  case True
  obtain p st1 where c: "create st = (p, st1)" by fastforce
  have d: "d < length (promises st1)" using assms(1,2) c by (auto simp: proceeds_def later_def)
  have e: "deferred_by create d st = become d p st1" using True c by (simp add: deferred_by_def)
  have "p < length (promises st1)"
  proof -
    have "promises (become d p st1) = (promises st1)[d := Resolved p]"
      using True assms(3) c by (auto simp: become_def next_ticks_def is_pending_def split: promise.splits)
    then have "Resolved p \<in> set (promises (become d p st1))" "length (promises (become d p st1)) = length (promises st1)"
      using d by (auto intro: set_update_memI)
    then show ?thesis using assms(4) e by (force simp: resolved_exist_def)
  qed
  then show ?thesis using proceeds_trans [OF assms(2), of "become d p st1"] proceeds_become [OF d] c e by simp
qed (simp add: deferred_by_def)

lemma proceeds_created:
  "proceeds st (snd (fulfill v st))" "proceeds st (snd (reject v st))" "proceeds st (snd (q_defer st))" "proceeds st (snd (Q v st))"
proof -
  show f: "proceeds st (snd (fulfill v st))" for v :: "'a val" by (simp add: fulfill_def make_promise_def proceeds_make)
  show d: "proceeds st (snd (q_defer st))" by (simp add: q_defer_def make_promise_def proceeds_make)
  have "proceeds (st\<lparr>promises := promises st @ [Rejected v]\<rparr>) (snd (reject v st))"
    by (rule proceeds_hidden) (simp_all add: op_defs)
  then show "proceeds st (snd (reject v st))" by (rule proceeds_trans [rotated]) (simp add: proceeds_make)
  show "proceeds st (snd (Q v st))"
  proof (cases v)
    case (Thenable e)
    have "proceeds (snd (q_defer st)) (snd (Q v st))"
      using proceeds_tasks [of "[Assimilate (length (promises st)) e]" "snd (q_defer st)"] Thenable
      by (simp add: op_defs task_ok_def)
    then show ?thesis by (rule proceeds_trans [OF d])
  qed (simp_all add: Q_def f)
qed

lemma proceeds_deferred:
  assumes "d < length (promises st)"
  shows "resolved_exist (deferred_resolve d v st) \<Longrightarrow> proceeds st (deferred_resolve d v st)"
    "resolved_exist (deferred_fulfill d v st) \<Longrightarrow> proceeds st (deferred_fulfill d v st)"
    "resolved_exist (deferred_reject d v st) \<Longrightarrow> proceeds st (deferred_reject d v st)"
  unfolding deferred_resolve_def deferred_fulfill_def deferred_reject_def
  by (rule proceeds_deferred_by [OF assms]; simp add: proceeds_created create_simps Q_promises nth_append assms)+

lemma proceeds_settle:
  assumes "d < length (promises st)" "resolved_exist (settle_with d outcome st)"
  shows "proceeds st (settle_with d outcome st)"
proof (cases outcome)
  case (Throw e)
  obtain p st1 where c: "reject e st = (p, st1)" by fastforce
  then have g: "proceeds st st1" using proceeds_created(2) [of st e] by simp
  then have "d < length (promises st1)" using assms(1) by (auto simp: proceeds_def later_def)
  then show ?thesis using proceeds_trans [OF g proceeds_deferred(1) [of d st1 "Promise p"]] assms(2) Throw c by (simp add: settle_with_def)
qed (use assms in \<open>simp add: settle_with_def proceeds_deferred\<close>)

lemma proceeds_notify:
  assumes "d < length (promises st)"
  shows "proceeds st (deferred_notify d v st)"
proof (cases "promises st ! d")
  case (Pending ms ls)
  have "proceeds st (st\<lparr>tasks := tasks st @ map (\<lambda>t. CallProgress t v) ls\<rparr>)" if "ranges st"
  proof (rule proceeds_tasks)
    have "promise_ok (length (promises st)) (length (reactions st)) (promises st ! d)" using that assms by (rule ranges_nth)
    then show "\<forall>x \<in> set (map (\<lambda>t. CallProgress t v) ls). task_ok (length (promises st)) (length (reactions st)) x \<and>
        (case x of Dispatch _ _ \<Rightarrow> False | _ \<Rightarrow> True)"
      using Pending by (auto simp: promise_ok_def task_ok_def)
  qed
  moreover have "waits (deferred_notify d v st) = waits st"
    by (auto simp: waits_def fun_eq_iff deferred_notify_def next_ticks_def Pending split: promise.splits)
  ultimately show ?thesis by (auto simp: proceeds_def deferred_notify_def next_ticks_def Pending routes_def)
qed (simp_all add: deferred_notify_def)

section \<open>Calling back\<close>

text \<open>A change of the calls of \<open>then\<close> that moves none of them and only marks some as done.\<close>

lemma inv_marked:
  assumes "inv {t} st" "t < length (reactions st)" "p < length (promises st)" "leads (promises st) (t_self (reactions st ! t)) p"
    and "promises st ! p = (if ok then Fulfilled v else Rejected v)" "\<not> t_done (reactions st ! t)"
    and "cs = [] \<or> cs = [(t, ok, v)]"
  shows "inv {} (st\<lparr>reactions := (reactions st)[t := (reactions st ! t)\<lparr>t_done := True\<rparr>], calls := calls st @ cs\<rparr>)"
    (is "inv {} ?st")
proof -
  have r: "reactions ?st ! s = (if s = t then (reactions st ! t)\<lparr>t_done := True\<rparr> else reactions st ! s)"
    if "s < length (reactions st)" for s
    using that by (simp add: nth_list_update)
  have self: "t_self (reactions ?st ! s) = t_self (reactions st ! s)" for s
    by (cases "s = t") (simp_all add: assms(2))
  have marked: "t_done (reactions ?st ! s)" if "t_done (reactions st ! s)" for s
    using that by (cases "s = t") (simp_all add: assms(2))
  have "set (reactions ?st) \<subseteq> insert ((reactions st ! t)\<lparr>t_done := True\<rparr>) (set (reactions st))"
    by (simp add: set_update_subset_insert)
  then have "ranges ?st" using assms(1,2) nth_mem [OF assms(2)] by (auto simp: inv_def ranges_def)
  moreover have w: "waits ?st = waits st" by (simp add: waits_def fun_eq_iff)
  then have "routes ?st" using assms(1) self by (simp add: inv_def routes_def)
  moreover have "located ?st s" if "s < length (reactions ?st)" "\<not> t_done (reactions ?st ! s)" for s
    using that assms(1) r [of s] w by (auto simp: inv_def located_def split: if_splits)
  moreover have "called_right ?st c" if "c \<in> set (calls st)" for c
    by (rule called_right_later [of st]) (use that assms(1) self marked in \<open>auto simp: inv_def\<close>)
  moreover have "called_right ?st (t, ok, v)"
    using assms(2-5) self [of t] r [of t] by (auto simp: called_right_def)
  moreover have "(t, x) \<notin> set (calls st)" for x using assms(1,6) by (fastforce simp: inv_def called_right_def)
  ultimately show ?thesis using assms(1,7) by (auto simp: inv_def)
qed

lemma run_callback_settles:
  assumes "\<not> t_done (reactions st ! t)"
  obtains outcome cs where "cs = [] \<or> cs = [(t, ok, v)]"
    "run_callback ok t v st = settle_with (t_deferred (reactions st ! t)) outcome
       (st\<lparr>reactions := (reactions st)[t := (reactions st ! t)\<lparr>t_done := True\<rparr>], calls := calls st @ cs\<rparr>)"
proof (cases "if ok then t_fulfilled (reactions st ! t) else t_rejected (reactions st ! t)")
  case None
  show ?thesis
    by (rule that [of "[]" "if ok then Return v else Throw v"])
      (use assms None in \<open>simp_all add: run_callback_def Let_def split: if_splits\<close>)
next
  case (Some f)
  show ?thesis
    by (rule that [of "[(t, ok, v)]" "f v"]) (use assms Some in \<open>simp_all add: run_callback_def Let_def split: if_splits\<close>)
qed

lemma inv_run_callback:
  assumes "inv {t} st" "t < length (reactions st)" "p < length (promises st)" "leads (promises st) (t_self (reactions st ! t)) p"
    and "promises st ! p = (if ok then Fulfilled v else Rejected v)" "resolved_exist (run_callback ok t v st)"
  shows "inv {} (run_callback ok t v st)"
proof (cases "t_done (reactions st ! t)")
  case True
  then show ?thesis using assms(1) by (auto simp: run_callback_def inv_def)
next
  case False
  have d: "t_deferred (reactions st ! t) < length (promises st)"
    using assms(1,2) nth_mem [OF assms(2)] by (auto simp: inv_def ranges_def)
  obtain outcome cs where c: "cs = [] \<or> cs = [(t, ok, v)]"
    and e: "run_callback ok t v st = settle_with (t_deferred (reactions st ! t)) outcome
       (st\<lparr>reactions := (reactions st)[t := (reactions st ! t)\<lparr>t_done := True\<rparr>], calls := calls st @ cs\<rparr>)"
    by (rule run_callback_settles [OF False])
  show ?thesis
    using inv_grows [OF inv_marked [OF assms(1-5) False c] proceeds_settle [OF _ assms(6) [unfolded e]]] d by (simp add: e)
qed

lemma inv_subset: "inv {} st \<Longrightarrow> inv X st"
  by (simp add: inv_def)

fun held :: "message \<Rightarrow> nat set" where
  "held (When t) = {t}"
| "held (Watch t) = {}"

lemma inv_stored:
  assumes "inv (held m) st" "p < length (promises st)" "reaction_of m < length (reactions st)"
    and "\<And>t. m = When t \<Longrightarrow> leads (promises st) (t_self (reactions st ! t)) p" "promises st ! p = Pending ms ls"
  shows "inv {} (promiseDispatch p m st)"
proof -
  let ?st = "promiseDispatch p m st"
  let ?x = "Pending (ms @ [m]) (case m of Watch t \<Rightarrow> ls @ [t] | When t \<Rightarrow> ls)"
  have st: "promises ?st = (promises st)[p := ?x]" "tasks ?st = tasks st" "reactions ?st = reactions st" "calls ?st = calls st"
    by (simp_all add: promiseDispatch_def assms(5))
  have l: "later (promises st) (promises ?st)" unfolding st(1) by (rule later_update) (simp add: assms(5))
  have tk: "set (tasks st) \<subseteq> set (tasks ?st)" by (simp add: st)
  have w: "waits ?st t q \<longleftrightarrow> waits st t q \<or> (q = p \<and> m = When t)" for t q
    using assms(2,5) by (auto simp: waits_def st nth_list_update)
  have "ranges st" using assms(1) by (simp add: inv_def)
  then have "ranges ?st"
    using ranges_nth [of st p] assms(2,3,5) set_update_subset_insert [of "promises st" p ?x]
    by (auto simp: ranges_def st promise_ok_def split: message.splits)
  moreover have "routes ?st" unfolding routes_def
  proof (intro allI impI)
    fix t q assume "waits ?st t q"
    then have "leads (promises st) (t_self (reactions st ! t)) q" using w assms(1,4) by (auto simp: inv_def routes_def)
    then show "leads (promises ?st) (t_self (reactions ?st ! t)) q" using leads_later [OF _ l] st(3) by simp
  qed
  moreover have "called_right ?st c" if "c \<in> set (calls st)" for c
    by (rule called_right_later [OF _ l]) (use that assms(1) st in \<open>auto simp: inv_def\<close>)
  moreover have "located ?st t" if "t < length (reactions st)" "\<not> t_done (reactions st ! t)" for t
    using that assms(1) w tk by (cases m) (auto simp: inv_def located_def)
  ultimately show ?thesis using assms(1) by (simp add: inv_def st)
qed

lemma inv_forwarded:
  assumes "inv (held m) st" "p < length (promises st)" "reaction_of m < length (reactions st)"
    and "\<And>t. m = When t \<Longrightarrow> leads (promises st) (t_self (reactions st ! t)) p" "promises st ! p = Resolved q"
  shows "inv {} (promiseDispatch p m st)"
proof -
  let ?st = "promiseDispatch p m st"
  have st: "?st = st\<lparr>tasks := tasks st @ [Dispatch q m]\<rparr>"
    by (simp add: promiseDispatch_def nextTick_def assms(5))
  have tk: "set (tasks st) \<subseteq> set (tasks ?st)" by (auto simp: st)
  have w: "waits ?st t r \<longleftrightarrow> waits st t r \<or> (r = q \<and> m = When t)" for t r
    by (auto simp: waits_def st)
  have rg: "ranges st" using assms(1) by (simp add: inv_def)
  then have "q < length (promises st)" using ranges_nth [OF rg assms(2)] assms(5) by (simp add: promise_ok_def)
  then have "ranges ?st" using rg assms(3) by (auto simp: ranges_def st task_ok_def)
  moreover have "routes ?st" unfolding routes_def
  proof (intro allI impI)
    fix t r assume "waits ?st t r"
    then consider "waits st t r" | "r = q" "m = When t" using w by auto
    then show "leads (promises ?st) (t_self (reactions ?st ! t)) r"
    proof cases
      case 2
      have "leads (promises st) (t_self (reactions st ! t)) q"
        by (rule rtranclp.rtrancl_into_rtrancl [OF assms(4) [OF 2(2)]]) (simp add: assms(2,5))
      then show ?thesis unfolding st 2(1) by simp
    qed (use assms(1) in \<open>simp add: inv_def routes_def st\<close>)
  qed
  moreover have "called_right ?st c" if "c \<in> set (calls st)" for c
    by (rule called_right_later [of st]) (use that assms(1) st in \<open>auto simp: inv_def\<close>)
  moreover have "located ?st t" if "t < length (reactions st)" "\<not> t_done (reactions st ! t)" for t
    using that assms(1) w tk by (cases m) (auto simp: inv_def located_def)
  ultimately show ?thesis using assms(1) by (simp add: inv_def st)
qed

lemma inv_dispatch:
  assumes "inv (held m) st" "p < length (promises st)" "reaction_of m < length (reactions st)"
    and "\<And>t. m = When t \<Longrightarrow> leads (promises st) (t_self (reactions st ! t)) p" "resolved_exist (promiseDispatch p m st)"
  shows "inv {} (promiseDispatch p m st)"
proof (cases "promises st ! p")
  case (Fulfilled v)
  show ?thesis
  proof (cases m)
    case (When t)
    then show ?thesis
      using inv_run_callback [of t st p True v] assms Fulfilled by (simp add: promiseDispatch_def)
  qed (use assms(1) Fulfilled in \<open>simp add: promiseDispatch_def\<close>)
next
  case (Rejected v)
  show ?thesis
  proof (cases m)
    case (When t)
    have "inv {t} (untrackRejection p st)" using inv_grows [OF assms(1) proceeds_hidden] When by simp
    then show ?thesis
      using inv_run_callback [of t "untrackRejection p st" p False v] assms Rejected When by (simp add: promiseDispatch_def)
  qed (use assms(1) Rejected in \<open>simp add: promiseDispatch_def\<close>)
qed (rule inv_stored [OF assms(1-4)] inv_forwarded [OF assms(1-4)]; assumption)+

lemma flush_step_Cons:
  "tasks st = task # rest \<Longrightarrow> flush_step st = run_task task (st\<lparr>tasks := rest\<rparr>)"
  by (simp add: flush_step_def)

fun dispatched :: "'a task \<Rightarrow> nat set" where
  "dispatched (Start t) = {t}"
| "dispatched (Dispatch p m) = held m"
| "dispatched task = {}"

lemma inv_taken:
  assumes "inv {} st" "tasks st = task # rest"
  shows "inv (dispatched task) (st\<lparr>tasks := rest\<rparr>)"
proof -
  let ?st = "st\<lparr>tasks := rest\<rparr>"
  have w: "waits st t p \<longleftrightarrow> waits ?st t p \<or> task = Dispatch p (When t)" for t p
    using assms(2) by (auto simp: waits_def)
  have "ranges ?st" using assms by (simp add: inv_def ranges_def)
  moreover have "routes ?st" using assms(1) w by (simp add: inv_def routes_def)
  moreover have "called_right ?st c" if "c \<in> set (calls st)" for c
    by (rule called_right_later [of st]) (use that assms(1) in \<open>auto simp: inv_def\<close>)
  moreover have "located ?st t" if "t < length (reactions st)" "\<not> t_done (reactions st ! t)" "t \<notin> dispatched task" for t
    using that assms w unfolding inv_def located_def by (cases task rule: dispatched.cases) auto
  ultimately show ?thesis using assms(1) by (simp add: inv_def)
qed

lemma inv_run_task:
  assumes "inv {} st" "tasks st = task # rest" "resolved_exist (run_task task (st\<lparr>tasks := rest\<rparr>))"
  shows "inv {} (run_task task (st\<lparr>tasks := rest\<rparr>))"
proof -
  let ?st = "st\<lparr>tasks := rest\<rparr>"
  have i: "inv (dispatched task) ?st" by (rule inv_taken [OF assms(1,2)])
  have rg: "ranges st" and ok: "task_ok (length (promises st)) (length (reactions st)) task"
    using assms(1,2) by (simp_all add: inv_def ranges_def)
  have d: "t_self (reactions st ! t) < length (promises st)" "t_deferred (reactions st ! t) < length (promises st)"
    if "t < length (reactions st)" for t
    using rg nth_mem [OF that] by (auto simp: ranges_def)
  show ?thesis
  proof (cases task)
    case (Start t)
    then show ?thesis
      using i ok d inv_dispatch [of "When t" ?st "t_self (reactions st ! t)"] assms(3) by (simp add: run_task_def task_ok_def)
  next
    case (Dispatch p m)
    have "leads (promises st) (t_self (reactions st ! t)) p" if "m = When t" for t
      using assms(1,2) that Dispatch by (simp add: inv_def routes_def waits_def)
    then show ?thesis
      using i ok inv_dispatch [of m ?st p] assms(3) Dispatch by (simp add: run_task_def task_ok_def)
  next
    case (CallProgress t v)
    have "proceeds ?st (deferred_notify (t_deferred (reactions st ! t)) w ?st)" for w
      using ok d [of t] CallProgress by (simp add: proceeds_notify task_ok_def)
    then have "inv {} (deferred_notify (t_deferred (reactions st ! t)) w ?st)" for w
      using i CallProgress inv_grows by auto
    then show ?thesis using i CallProgress by (simp add: run_task_def split: outcome.split option.split)
  next
    case (Assimilate e thrown)
    then show ?thesis
      using i ok assms(3) proceeds_deferred(3) [of e ?st] inv_grows by (auto simp: run_task_def task_ok_def split: option.splits)
  qed
qed

lemma inv_flush_step:
  assumes "inv {} st" "resolved_exist (flush_step st)"
  shows "inv {} (flush_step st)"
proof (cases "tasks st")
  case Nil
  have "proceeds st (flush_step st)"
    using Nil by (intro proceeds_hidden) (simp_all add: flush_step_def run_late_def split: late.splits option.splits)
  then show ?thesis by (rule inv_grows [OF assms(1)])
next
  case (Cons task rest)
  then show ?thesis using inv_run_task [OF assms(1) Cons] assms(2) by (simp add: flush_step_Cons)
qed

lemma inv_then:
  assumes "inv {} st" "p < length (promises st)" "resolved_exist (snd (promise_then p f r g st))"
  shows "inv {} (snd (promise_then p f r g st))"
proof -
  let ?r = "\<lparr>t_self = p, t_fulfilled = f, t_rejected = r, t_progressed = g, t_deferred = length (promises st), t_done = False\<rparr>"
  let ?t = "length (reactions st)"
  define st1 where "st1 = st\<lparr>promises := promises st @ [Pending [] []]\<rparr>"
  define st2 where "st2 = st1\<lparr>reactions := reactions st @ [?r], tasks := tasks st @ [Start ?t]\<rparr>"
  have e: "snd (promise_then p f r g st) = promiseDispatch p (Watch ?t) st2"
    by (simp add: promise_then_def op_defs st2_def st1_def)
  have i1: "inv {} st1" unfolding st1_def by (rule inv_grows [OF assms(1) proceeds_make]) simp
  have rg1: "ranges st1" using i1 by (simp add: inv_def)
  have old: "t < ?t" if wt: "waits st1 t q" for t q
  proof -
    consider "Dispatch q (When t) \<in> set (tasks st1)"
      | ms ls where "q < length (promises st1)" "promises st1 ! q = Pending ms ls" "When t \<in> set ms"
      using wt by (cases "promises st1 ! q") (auto simp: waits_def)
    then show ?thesis
    proof cases
      case 1
      then show ?thesis using rg1 by (force simp: ranges_def task_ok_def st1_def)
    next
      case 2
      then show ?thesis using ranges_nth [OF rg1 2(1)] by (force simp: promise_ok_def st1_def)
    qed
  qed
  have w: "waits st2 t q \<longleftrightarrow> waits st1 t q" for t q by (auto simp: waits_def st2_def st1_def)
  have "ranges st2"
    using rg1 assms(2) ranges_mono [of _ "Suc (length (promises st))" ?t "Suc (length (promises st))" "Suc ?t"]
    by (auto simp: ranges_def st2_def st1_def task_ok_def promise_ok_def)
  moreover have "routes st2"
    using i1 old w by (simp add: inv_def routes_def) (simp add: st2_def st1_def nth_append)
  moreover have "called_right st2 c" if "c \<in> set (calls st1)" for c
    by (rule called_right_later [of st1]) (use that i1 in \<open>auto simp: inv_def st2_def st1_def nth_append\<close>)
  moreover have "located st2 t" if "t < Suc ?t" "\<not> t_done (reactions st2 ! t)" for t
  proof (cases "t = ?t")
    case False
    then have "located st1 t" using that i1 by (simp add: inv_def st2_def st1_def nth_append)
    then show ?thesis using w by (auto simp: located_def st2_def st1_def)
  qed (simp add: located_def st2_def)
  ultimately have "inv {} st2" using i1 by (simp add: inv_def) (simp add: st2_def st1_def)
  then show ?thesis
    using inv_dispatch [of "Watch ?t" st2 p] assms(2,3) by (simp add: e) (simp add: st2_def st1_def)
qed

section \<open>Every program\<close>

lemma allowed_ranges: "inv X st \<Longrightarrow> allowed a st \<Longrightarrow> resolved_exist (perform a st) \<Longrightarrow>
    (\<forall>p f r g. a \<noteq> Then p f r g) \<Longrightarrow> a \<noteq> Tick \<Longrightarrow> proceeds st (perform a st)"
  by (cases a) (auto simp: perform_def allowed_def proceeds_deferred proceeds_notify proceeds_created
      resetUnhandledRejections_def stopUnhandledRejectionTracking_def intro: proceeds_hidden)

lemma inv_step:
  assumes "inv {} st" "step st st'"
  shows "inv {} st'"
proof -
  obtain a where a: "allowed a st" "st' = perform a st" "resolved_exist st'" using assms(2) by (auto elim: step.cases)
  consider "a = Tick" | p f r g where "a = Then p f r g" | "a \<noteq> Tick" "\<forall>p f r g. a \<noteq> Then p f r g" by blast
  then show ?thesis
  proof cases
    case 1
    then show ?thesis using inv_flush_step [OF assms(1)] a by (simp add: perform_def)
  next
    case 2
    then show ?thesis using inv_then [OF assms(1)] a by (simp add: perform_def allowed_def)
  next
    case 3
    then show ?thesis using inv_grows [OF assms(1)] allowed_ranges [OF assms(1)] a by simp
  qed
qed

lemma inv_steps: "steps initial st \<Longrightarrow> inv {} st"
proof (induction rule: rtranclp_induct)
  case base
  show ?case by (simp add: inv_def initial_def ranges_def routes_def waits_def)
qed (rule inv_step)

lemma inspect_end:
  "ps ! p = Pending ms ls \<Longrightarrow> inspect ps p = Some IsPending" "ps ! p = Fulfilled v \<Longrightarrow> inspect ps p = Some (IsFulfilled v)"
  "ps ! p = Rejected v \<Longrightarrow> inspect ps p = Some (IsRejected v)"
  by (subst inspect.simps, simp)+

lemma inspect_leads: "leads ps p q \<Longrightarrow> inspect ps p = inspect ps q"
proof (induction rule: rtranclp_induct)
  case (step q r)
  then show ?case using inspect.simps [of ps q] by simp
qed simp

text \<open>
  C6. Each call of \<open>then\<close> calls at most one of its callbacks, and at most once; it is the one for
  what the promise has become, called with its value or its reason.
\<close>

theorem called_once:
  assumes "steps initial st"
  shows "distinct (map fst (calls st)) \<and> (\<forall>(t, ok, v) \<in> set (calls st). t < length (reactions st) \<and>
    inspect (promises st) (t_self (reactions st ! t)) = Some (if ok then IsFulfilled v else IsRejected v))"
proof -
  have i: "inv {} st" using assms by (rule inv_steps)
  have "t < length (reactions st) \<and>
      inspect (promises st) (t_self (reactions st ! t)) = Some (if ok then IsFulfilled v else IsRejected v)"
    if "(t, ok, v) \<in> set (calls st)" for t ok v
  proof -
    have "called_right st (t, ok, v)" using i that by (simp add: inv_def)
    then obtain p where "t < length (reactions st)" "leads (promises st) (t_self (reactions st ! t)) p"
      "promises st ! p = (if ok then Fulfilled v else Rejected v)" by (auto simp: called_right_def)
    then show ?thesis by (simp add: inspect_leads inspect_end)
  qed
  then show ?thesis using i by (auto simp: inv_def)
qed

lemma inv_stranded:
  assumes "inv {} st" "tasks st = []" "t < length (reactions st)" "\<not> t_done (reactions st ! t)"
  shows "inspect (promises st) (t_self (reactions st ! t)) = Some IsPending"
proof -
  obtain p where p: "waits st t p" using assms by (auto simp: inv_def located_def)
  then have "leads (promises st) (t_self (reactions st ! t)) p" using assms(1) by (simp add: inv_def routes_def)
  moreover have "inspect (promises st) p = Some IsPending"
    using p assms(2) by (auto simp: waits_def inspect_end split: promise.splits)
  ultimately show ?thesis by (simp add: inspect_leads)
qed

text \<open>
  No call of \<open>then\<close> is lost: once the queue is empty, the callbacks that were not called are
  those of promises that are still pending.
\<close>

theorem none_lost:
  assumes "steps initial st" "tasks st = []" "t < length (reactions st)" "\<not> t_done (reactions st ! t)"
  shows "inspect (promises st) (t_self (reactions st ! t)) = Some IsPending"
  using inv_steps [OF assms(1)] assms(2-4) by (rule inv_stranded)

text \<open>Calls in a later turn.\<close>

lemma deferred_by_calls:
  "calls (snd (c st)) = calls st \<Longrightarrow> calls (deferred_by c d st) = calls st"
  "reactions (snd (c st)) = reactions st \<Longrightarrow> reactions (deferred_by c d st) = reactions st"
  by (auto simp: deferred_by_def split: prod.splits)

lemma deferred_calls [simp]:
  "calls (deferred_resolve d v st) = calls st" "reactions (deferred_resolve d v st) = reactions st"
  "calls (deferred_fulfill d v st) = calls st" "reactions (deferred_fulfill d v st) = reactions st"
  "calls (deferred_reject d v st) = calls st" "reactions (deferred_reject d v st) = reactions st"
  unfolding deferred_resolve_def deferred_fulfill_def deferred_reject_def
  by (rule deferred_by_calls; simp only: create_simps Q_promises)+

lemma notify_calls [simp]:
  "calls (deferred_notify d v st) = calls st" "reactions (deferred_notify d v st) = reactions st"
  by (simp_all add: deferred_notify_def next_ticks_def split: promise.splits)

lemma watch_calls [simp]: "calls (promiseDispatch p (Watch t) st) = calls st"
  "reactions (promiseDispatch p (Watch t) st) = reactions st"
  by (simp_all add: promiseDispatch_def nextTick_def split: promise.splits)

lemma settle_calls [simp]: "calls (settle_with d outcome st) = calls st" "reactions (settle_with d outcome st) = reactions st"
proof -
  have "calls st1 = calls st \<and> reactions st1 = reactions st" if "reject e st = (p, st1)" for e p st1
    using create_simps(11,14) [of e st] that by simp
  then show "calls (settle_with d outcome st) = calls st" "reactions (settle_with d outcome st) = reactions st"
    by (simp_all add: settle_with_def split: outcome.splits prod.splits)
qed

definition calls_at_most_one :: "'a q \<Rightarrow> 'a q \<Rightarrow> bool" where
  "calls_at_most_one st st' \<longleftrightarrow> calls st' = calls st \<or> (\<exists>c. calls st' = calls st @ [c])"

lemma run_callback_calls: "calls_at_most_one st (run_callback ok t v st)"
  by (auto simp: calls_at_most_one_def run_callback_def Let_def split: option.splits)

lemma dispatch_calls: "calls_at_most_one st (promiseDispatch p m st)"
proof (cases m)
  case (When t)
  have "calls_at_most_one st (run_callback False t v (untrackRejection p st))" for v
    using run_callback_calls [of "untrackRejection p st"] by (simp add: calls_at_most_one_def)
  then show ?thesis
    using When by (simp add: run_callback_calls promiseDispatch_def nextTick_def calls_at_most_one_def [of st "_\<lparr>promises := _\<rparr>"]
        calls_at_most_one_def [of st "_\<lparr>tasks := _\<rparr>"] split: promise.split)
qed (simp add: calls_at_most_one_def)

lemma flush_step_calls: "calls_at_most_one st (flush_step st)"
proof (cases "tasks st")
  case (Cons x rest)
  have "calls_at_most_one (st\<lparr>tasks := rest\<rparr>) (run_task x (st\<lparr>tasks := rest\<rparr>))"
  proof (cases x)
    case (Assimilate d e)
    then show ?thesis by (simp add: run_task_def calls_at_most_one_def split: option.split)
  next
    case (CallProgress t v)
    then show ?thesis by (simp add: run_task_def calls_at_most_one_def split: option.split outcome.split)
  qed (simp_all add: run_task_def dispatch_calls)
  then show ?thesis by (simp add: flush_step_Cons [OF Cons] calls_at_most_one_def)
qed (simp add: flush_step_def run_late_def calls_at_most_one_def split: late.split option.split)

text \<open>
  C28. No call of a program, of \<open>then\<close> or to settle a promise, calls a callback before it returns, and
  each turn of the queue calls at most one.
\<close>

theorem later_turn:
  shows "if a = Tick then calls_at_most_one st (perform a st) else calls (perform a st) = calls st"
proof (cases "a = Tick")
  case True
  then show ?thesis by (simp add: perform_def flush_step_calls)
next
  case False
  then show ?thesis
    by (cases a) (simp_all add: perform_def create_simps promise_then_def op_defs resetUnhandledRejections_def
        stopUnhandledRejectionTracking_def)
qed

section \<open>Rejections that were not handled\<close>

definition rejections_ok :: "'a q \<Rightarrow> bool" where
  "rejections_ok st \<longleftrightarrow> distinct (unhandledRejections st) \<and>
     list_all2 (\<lambda>p v. p < length (promises st) \<and> promises st ! p = Rejected v) (unhandledRejections st) (unhandledReasons st)"

lemma rejections_same:
  assumes "rejections_ok st" "later (promises st) (promises st')"
    and "unhandledRejections st' = unhandledRejections st" "unhandledReasons st' = unhandledReasons st"
  shows "rejections_ok st'"
  using assms(1) unfolding rejections_ok_def assms(3,4)
  by (auto elim!: list_all2_mono dest: later_settled [OF assms(2)])

lemma rejections_reject:
  assumes "rejections_ok st"
  shows "rejections_ok (snd (reject v st))"
proof (cases "trackRejections st")
  case True
  have "length (promises st) \<notin> set (unhandledRejections st)"
    using assms by (auto simp: rejections_ok_def list_all2_conv_all_nth in_set_conv_nth)
  moreover have "list_all2 (\<lambda>p x. p < length (promises st @ [Rejected v]) \<and> (promises st @ [Rejected v]) ! p = Rejected x)
      (unhandledRejections st @ [length (promises st)]) (unhandledReasons st @ [v])"
    by (rule list_all2_appendI) (use assms in \<open>auto simp: rejections_ok_def nth_append elim!: list_all2_mono\<close>)
  ultimately show ?thesis using assms True by (simp add: rejections_ok_def op_defs)
qed (use assms in \<open>auto intro: rejections_same simp: op_defs\<close>)

lemma rejections_become [simp]:
  "unhandledRejections (become d p st) = unhandledRejections st" "unhandledReasons (become d p st) = unhandledReasons st"
  by (simp_all add: become_def next_ticks_def split: promise.split)

lemma rejections_deferred_by:
  assumes "rejections_ok (snd (create st))" "rejections_ok st"
  shows "rejections_ok (deferred_by create d st)"
proof -
  obtain p st1 where c: "create st = (p, st1)" by fastforce
  have "rejections_ok (become d p st1)" by (rule rejections_same [of st1]) (use assms c in \<open>simp_all add: become_later\<close>)
  then show ?thesis using c assms(2) by (simp add: deferred_by_def)
qed

lemma rejections_deferred:
  assumes "rejections_ok st"
  shows "rejections_ok (deferred_resolve d v st)" "rejections_ok (deferred_fulfill d v st)" "rejections_ok (deferred_reject d v st)"
    "rejections_ok (deferred_notify d v st)"
proof -
  have "rejections_ok (snd (Q v st))" "rejections_ok (snd (fulfill v st))" for v :: "'a val"
    by (rule rejections_same [OF assms]; cases v; simp add: op_defs)+
  then show "rejections_ok (deferred_resolve d v st)" "rejections_ok (deferred_fulfill d v st)" "rejections_ok (deferred_reject d v st)"
    by (simp_all add: deferred_resolve_def deferred_fulfill_def deferred_reject_def rejections_deferred_by rejections_reject assms)
  show "rejections_ok (deferred_notify d v st)"
    by (rule rejections_same [OF assms]) (simp_all add: deferred_notify_def next_ticks_def split: promise.split)
qed

lemma rejections_settle:
  assumes "rejections_ok st"
  shows "rejections_ok (settle_with d outcome st)"
proof (cases outcome)
  case (Throw e)
  obtain p st1 where c: "reject e st = (p, st1)" by fastforce
  then have "rejections_ok st1" using rejections_reject [OF assms, of e] by simp
  then show ?thesis using Throw c by (simp add: settle_with_def rejections_deferred)
qed (simp add: settle_with_def rejections_deferred assms)

lemma rejections_run_callback:
  assumes "rejections_ok st"
  shows "rejections_ok (run_callback ok t v st)"
proof (cases "t_done (reactions st ! t)")
  case False
  have r: "rejections_ok (st\<lparr>reactions := rs, calls := cs\<rparr>)" for rs cs
    by (rule rejections_same [OF assms]) simp_all
  show ?thesis by (rule run_callback_settles [OF False, of ok v]) (simp add: rejections_settle r)
qed (simp add: run_callback_def assms)

lemma rejections_untrack:
  assumes "rejections_ok st"
  shows "rejections_ok (untrackRejection p st)"
proof -
  have "list_all2 P (remove_at k xs) (remove_at k ys)" if "list_all2 P xs ys" for P k and xs :: "nat list" and ys :: "'a val list"
    using that by (auto simp: remove_at_def intro!: list_all2_appendI list_all2_takeI list_all2_dropI)
  moreover have "distinct (remove_at k xs)" if "distinct xs" for k and xs :: "nat list"
    using that set_take_disj_set_drop_if_distinct [of xs k "Suc k"] by (simp add: remove_at_def)
  ultimately show ?thesis using assms by (auto simp: rejections_ok_def untrackRejection_def split: option.split)
qed

lemma rejections_dispatch:
  assumes "rejections_ok st"
  shows "rejections_ok (promiseDispatch p m st)"
proof (cases "promises st ! p")
  case (Pending ms ls)
  show ?thesis
    by (rule rejections_same [OF assms dispatch_later]) (simp_all add: promiseDispatch_def Pending)
next
  case (Resolved q)
  show ?thesis
    by (rule rejections_same [OF assms dispatch_later]) (simp_all add: promiseDispatch_def nextTick_def Resolved)
qed (simp_all add: promiseDispatch_def rejections_run_callback rejections_untrack assms split: message.split)

lemma rejections_flush_step:
  assumes "rejections_ok st"
  shows "rejections_ok (flush_step st)"
proof (cases "tasks st")
  case (Cons x rest)
  have "rejections_ok (st\<lparr>tasks := rest\<rparr>)" by (rule rejections_same [OF assms]) simp_all
  then show ?thesis
    by (simp add: flush_step_Cons [OF Cons] run_task_def rejections_dispatch rejections_deferred split: task.split outcome.split option.split)
next
  case Nil
  show ?thesis
    by (rule rejections_same [OF assms flush_step_later]) (simp_all add: flush_step_def run_late_def Nil split: late.split option.split)
qed

lemma rejections_then:
  assumes "rejections_ok st"
  shows "rejections_ok (snd (promise_then p f r g st))"
proof -
  let ?r = "\<lparr>t_self = p, t_fulfilled = f, t_rejected = r, t_progressed = g, t_deferred = length (promises st), t_done = False\<rparr>"
  have "rejections_ok (st\<lparr>promises := promises st @ [Pending [] []], reactions := reactions st @ [?r],
      tasks := tasks st @ [Start (length (reactions st))]\<rparr>)"
    by (rule rejections_same [OF assms]) simp_all
  then show ?thesis by (simp add: promise_then_def op_defs rejections_dispatch)
qed

lemma rejections_reset:
  "rejections_ok (resetUnhandledRejections st)" "rejections_ok (stopUnhandledRejectionTracking st)"
  by (simp_all add: resetUnhandledRejections_def stopUnhandledRejectionTracking_def rejections_ok_def)

lemma rejections_ok_steps: "steps initial st \<Longrightarrow> rejections_ok st"
proof (induction rule: rtranclp_induct)
  case base
  show ?case by (simp add: rejections_ok_def initial_def)
next
  case (step st st')
  obtain a where "st' = perform a st" using step.hyps(2) by (auto elim: step.cases)
  moreover have "rejections_ok (snd (q_defer st))" by (rule rejections_same [OF step.IH]) (simp_all add: op_defs)
  ultimately show ?case
    using step.IH by (cases a) (simp_all add: perform_def rejections_deferred rejections_then rejections_flush_step rejections_reset)
qed

text \<open>
  Each promise is at most once among the rejections that were not handled, it is rejected, and
  the reason at its place is its own.
\<close>

theorem rejections_agree:
  assumes "steps initial st"
  shows "distinct (unhandledRejections st) \<and>
    list_all2 (\<lambda>p v. inspect (promises st) p = Some (IsRejected v)) (unhandledRejections st) (unhandledReasons st)"
  using rejections_ok_steps [OF assms] by (auto simp: rejections_ok_def inspect_end elim!: list_all2_mono)

text \<open>
  When a rejection that was reported is handled after all, the second report has the reason of the
  rejection after it, or none: it is looked up in the list from which it was taken out.
\<close>

theorem handled_with_another_reason:
  assumes "steps initial st" "trackRejections st" "index_in p (unhandledRejections st) = Some k"
    and "p \<in> set (reportedRejections st)"
  shows "emitted (run_late (last (laterQueue (untrackRejection p st))) (untrackRejection p st)) = emitted st @ [RejectionHandled
    (if Suc k < length (unhandledReasons st) then Some (unhandledReasons st ! Suc k) else None) p]"
proof -
  have "length (unhandledRejections st) = length (unhandledReasons st)"
    using rejections_ok_steps [OF assms(1)] by (auto simp: rejections_ok_def dest: list_all2_lengthD)
  moreover have "index_in p xs = Some k \<Longrightarrow> k < length xs" for xs :: "nat list"
    by (induction xs arbitrary: k) (auto split: if_splits)
  moreover have "p \<in> set xs \<Longrightarrow> \<exists>i. index_in p xs = Some i" for xs :: "nat list"
    by (induction xs) auto
  ultimately show ?thesis using assms(2-4)
    by (force simp: untrackRejection_def run_late_def remove_at_def nth_append split: option.split)
qed

section \<open>A program\<close>

primrec allowed_run :: "'a action list \<Rightarrow> 'a q \<Rightarrow> bool" where
  "allowed_run [] st \<longleftrightarrow> True"
| "allowed_run (a # as) st \<longleftrightarrow> allowed a st \<and> resolved_exist (perform a st) \<and> allowed_run as (perform a st)"

lemma run_steps: "allowed_run as st \<Longrightarrow> steps st (fold perform as st)"
proof (induction as arbitrary: st)
  case (Cons a as)
  then have "step st (perform a st)" by (intro step.intros) simp_all
  then show ?case using Cons by (auto intro: converse_rtranclp_into_rtranclp)
qed simp

text \<open>Two calls of \<open>then\<close> on a promise that is fulfilled, and one on a promise that is rejected.\<close>

definition program :: "nat action list" where
  "program = [Defer, Then 0 (Some (\<lambda>v. Return (Plain 8))) None None, Then 0 None (Some (\<lambda>v. Throw v)) None,
     Defer, Reject 3 (Plain 9), Resolve 0 (Plain 7), Then 3 (Some (\<lambda>v. Return (Plain 6))) None None, Tick, Tick, Tick, Tick, Tick, Tick, Tick, Tick, Tick]"

definition after :: "nat \<Rightarrow> nat q" where
  "after k = fold perform (take k program) initial"

lemma program_allowed: "allowed_run program initial"
  by code_simp

lemma take_allowed: "allowed_run (as @ bs) st \<Longrightarrow> allowed_run as st"
  by (induction as arbitrary: st) simp_all

lemma drop_allowed: "allowed_run (as @ bs) st \<Longrightarrow> allowed_run bs (fold perform as st)"
  by (induction as arbitrary: st) simp_all

lemma after_reached: "steps initial (after k)"
  unfolding after_def
  by (rule run_steps, rule take_allowed [of _ "drop k program"]) (simp add: program_allowed)

lemma after_steps: "steps (after k) (after (k + n))"
proof -
  have "allowed_run (drop k program) (after k)"
    unfolding after_def by (rule drop_allowed) (simp add: program_allowed)
  then have "allowed_run (take n (drop k program)) (after k)"
    using take_allowed [of "take n (drop k program)" "drop n (drop k program)" "after k"] by (simp only: append_take_drop_id)
  then show ?thesis using run_steps by (force simp: after_def take_add)
qed

theorem settled_for_ever_witness: "inspect (promises (after 16)) 0 = Some (IsFulfilled (Plain 7))"
proof (rule settled_for_ever)
  show "steps initial (after 7)" by (rule after_reached)
  show "steps (after 7) (after 16)" using after_steps [of 7 9] by simp
  have "promises (after 7) ! 0 = Resolved 5" "promises (after 7) ! 5 = Fulfilled (Plain 7)" by code_simp+
  then show "inspect (promises (after 7)) 0 = Some (IsFulfilled (Plain 7))"
    using inspect.simps [of "promises (after 7)" 0] by (simp add: inspect_end)
  show "0 < length (promises (after 7))" by code_simp
qed simp

theorem called_once_witness: "inspect (promises (after 16)) 0 = Some (IsFulfilled (Plain 7))"
proof -
  have "(0, True, Plain 7) \<in> set (calls (after 16))" "t_self (reactions (after 16) ! 0) = 0" by code_simp+
  then show ?thesis using called_once [OF after_reached, of 16] by fastforce
qed

theorem rejections_agree_witness: "inspect (promises (after 16)) 9 = Some (IsRejected (Plain 9))"
proof -
  have "unhandledRejections (after 16) = [9]" "unhandledReasons (after 16) = [Plain 9]" by code_simp+
  then show ?thesis using rejections_agree [OF after_reached, of 16] by simp
qed

end
