(* ===== verification/PromiseQueue.thy ===== *)
theory PromiseQueue
  imports PromiseLaws
begin

text \<open>
  The queue of \<open>Q\<close> empties: \<open>flush\<close> returns when the callbacks return plain values or throw, and no
  promise was resolved in a circle.  The measure is the way each task still has to go along the
  promises that were resolved with another.
\<close>

section \<open>Ranks\<close>

text \<open>\<open>hops ps k p\<close>: \<open>p\<close> was resolved \<open>k\<close> promises away.\<close>

primrec hops :: "'a promise list \<Rightarrow> nat \<Rightarrow> nat \<Rightarrow> bool" where
  "hops ps 0 p \<longleftrightarrow> (case ps ! p of Resolved q \<Rightarrow> False | _ \<Rightarrow> True)"
| "hops ps (Suc k) p \<longleftrightarrow> (case ps ! p of Resolved q \<Rightarrow> hops ps k q | _ \<Rightarrow> False)"

lemma hops_unique: "hops ps k p \<Longrightarrow> hops ps k' p \<Longrightarrow> k = k'"
proof (induction k arbitrary: p k')
  case 0
  then show ?case by (cases k') (auto split: promise.splits)
next
  case (Suc k)
  then show ?case by (cases k') (auto split: promise.splits)
qed

definition somewhere :: "'a promise list \<Rightarrow> nat \<Rightarrow> 'a inspection \<Rightarrow> bool" where
  "somewhere ps p i \<longleftrightarrow> (\<exists>k. hops ps k p)"

lemma inspect_hops: "inspect ps p = Some i \<Longrightarrow> somewhere ps p i"
proof (rule inspect.raw_induct [of somewhere], goal_cases)
  case (1 f ps p i)
  show ?case
  proof (cases "ps ! p")
    case (Resolved q)
    then obtain k where "hops ps k q" using 1(2) [of ps q i] 1(3) by (auto simp: somewhere_def)
    then have "hops ps (Suc k) p" using Resolved by simp
    then show ?thesis unfolding somewhere_def ..
  qed (auto simp: somewhere_def intro: exI [of _ 0])
qed

definition ranked :: "(nat \<Rightarrow> nat) \<Rightarrow> 'a promise list \<Rightarrow> bool" where
  "ranked H ps \<longleftrightarrow> (\<forall>p. length ps \<le> p \<longrightarrow> H p = 0) \<and> (\<forall>p < length ps. case ps ! p of
     Pending ms ls \<Rightarrow> 0 < H p | Resolved q \<Rightarrow> q < length ps \<and> H q < H p | _ \<Rightarrow> True)"

lemma ranked_update:
  assumes "ranked H ps" "p < length ps"
    and "case x of Pending ms ls \<Rightarrow> 0 < H p | Resolved q \<Rightarrow> q < length ps \<and> H q < H p | _ \<Rightarrow> True"
  shows "ranked H (ps[p := x])"
  unfolding ranked_def length_list_update
proof (intro conjI allI impI)
  fix r assume r: "r < length ps"
  show "case ps[p := x] ! r of Pending ms ls \<Rightarrow> 0 < H r | Resolved q \<Rightarrow> q < length ps \<and> H q < H r | _ \<Rightarrow> True"
    using assms r by (cases "r = p") (auto simp: ranked_def)
qed (use assms(1) in \<open>simp add: ranked_def\<close>)

lemma ranks_exist:
  assumes "\<And>p. p < length ps \<Longrightarrow> inspect ps p \<noteq> None" "\<And>p q. p < length ps \<Longrightarrow> ps ! p = Resolved q \<Longrightarrow> q < length ps"
  obtains H where "ranked H ps"
proof
  define H where "H p = (if p < length ps then Suc (THE k. hops ps k p) else 0)" for p
  have the: "hops ps k p \<Longrightarrow> (THE k. hops ps k p) = k" for k p
    by (rule the_equality) (auto intro: hops_unique)
  have "H q < H p" if "p < length ps" "ps ! p = Resolved q" for p q
  proof -
    have "q < length ps" using assms(2) that by blast
    then obtain k where k: "hops ps k q" using assms(1) inspect_hops unfolding somewhere_def by (metis not_None_eq)
    then have "(THE k. hops ps k p) = Suc k" using that by (intro the) simp
    then show ?thesis using the [OF k] \<open>q < length ps\<close> that(1) by (simp add: H_def)
  qed
  then show "ranked H ps" using assms(2) by (auto simp: ranked_def split: promise.splits) (auto simp: H_def)
qed

section \<open>Quiet programs\<close>

definition plain :: "'a val \<Rightarrow> bool" where
  "plain v \<longleftrightarrow> (case v of Plain a \<Rightarrow> True | _ \<Rightarrow> False)"

definition plain_callback :: "('a val \<Rightarrow> 'a outcome) option \<Rightarrow> bool" where
  "plain_callback c \<longleftrightarrow> (case c of None \<Rightarrow> True | Some f \<Rightarrow> \<forall>v. case f v of Return w \<Rightarrow> plain w | Throw e \<Rightarrow> True)"

definition plain_promise :: "'a promise \<Rightarrow> bool" where
  "plain_promise p \<longleftrightarrow> (case p of Fulfilled v \<Rightarrow> plain v | _ \<Rightarrow> True)"

definition no_progress :: "'a task \<Rightarrow> bool" where
  "no_progress x \<longleftrightarrow> (case x of CallProgress t v \<Rightarrow> False | _ \<Rightarrow> True)"

text \<open>The callbacks return plain values or throw, and no progress is on its way.\<close>

definition quiet :: "'a q \<Rightarrow> bool" where
  "quiet st \<longleftrightarrow> (\<forall>r \<in> set (reactions st). plain_callback (t_fulfilled r) \<and> plain_callback (t_rejected r)) \<and>
     (\<forall>p \<in> set (promises st). plain_promise p) \<and> (\<forall>x \<in> set (tasks st). no_progress x)"

definition calm :: "(nat \<Rightarrow> nat) \<Rightarrow> 'a q \<Rightarrow> bool" where
  "calm H st \<longleftrightarrow> quiet st \<and> ranked H (promises st)"

definition weight :: "(nat \<Rightarrow> nat) \<Rightarrow> 'a q \<Rightarrow> 'a task \<Rightarrow> nat" where
  "weight H st x = (case x of Start t \<Rightarrow> H (t_self (reactions st ! t)) + 2 | Dispatch p m \<Rightarrow> H p + 1 | _ \<Rightarrow> 1)"

definition stored :: "'a promise \<Rightarrow> nat" where
  "stored p = (case p of Pending ms ls \<Rightarrow> length ms | _ \<Rightarrow> 0)"

definition work :: "(nat \<Rightarrow> nat) \<Rightarrow> 'a q \<Rightarrow> nat" where
  "work H st = sum_list (map (weight H st) (tasks st)) + sum_list (map stored (promises st))"

lemma weight_cong: "reactions st' = reactions st \<Longrightarrow> weight H st' = weight H st"
  by (auto simp: weight_def fun_eq_iff split: task.splits)

lemma calm_hidden:
  assumes "promises st' = promises st" "tasks st' = tasks st" "reactions st' = reactions st"
  shows "calm H st' = calm H st" "work H st' = work H st"
proof -
  have "weight H st' = weight H st" using assms(3) by (rule weight_cong)
  then show "calm H st' = calm H st" "work H st' = work H st" using assms by (simp_all add: calm_def quiet_def work_def)
qed

lemma calm_made:
  assumes "calm H st" "plain_promise x" "case x of Fulfilled v \<Rightarrow> True | Rejected v \<Rightarrow> True | _ \<Rightarrow> False"
  shows "calm H (st\<lparr>promises := promises st @ [x]\<rparr>)" "work H (st\<lparr>promises := promises st @ [x]\<rparr>) = work H st"
proof -
  have "ranked H (promises st @ [x])"
    using assms(1,3) unfolding calm_def ranked_def
    by (auto simp: nth_append less_Suc_eq split: promise.splits)
  then show "calm H (st\<lparr>promises := promises st @ [x]\<rparr>)" using assms by (auto simp: calm_def quiet_def)
  have "weight H (st\<lparr>promises := promises st @ [x]\<rparr>) = weight H st" by (rule weight_cong) simp
  then show "work H (st\<lparr>promises := promises st @ [x]\<rparr>) = work H st"
    using assms(3) by (simp add: work_def stored_def split: promise.splits)
qed

lemma calm_become:
  assumes "calm H st" "d < length (promises st)" "p < length (promises st)" "H p = 0"
  shows "calm H (become d p st) \<and> work H (become d p st) = work H st"
proof (cases "promises st ! d")
  case (Pending ms ls)
  let ?st = "become d p st"
  have st: "promises ?st = (promises st)[d := Resolved p]" "tasks ?st = tasks st @ map (Dispatch p) ms" "reactions ?st = reactions st"
    by (simp_all add: become_def next_ticks_def Pending)
  have "0 < H d" using assms(1,2) Pending by (force simp: calm_def ranked_def)
  then have "ranked H (promises ?st)" using ranked_update [of H "promises st" d] assms by (simp add: st calm_def)
  moreover have "quiet ?st"
    using assms(1) set_update_subset_insert [of "promises st" d "Resolved p"]
    by (auto simp: calm_def quiet_def st plain_promise_def no_progress_def)
  moreover have "weight H ?st = weight H st" by (rule weight_cong) simp
  moreover have "sum_list (map (weight H st \<circ> Dispatch p) ms) = length ms"
    by (simp add: weight_def comp_def assms(4) sum_list_triv)
  moreover have "stored (promises st ! d) \<in> set (map stored (promises st))"
    using nth_mem [OF assms(2)] by simp
  then have "length ms \<le> sum_list (map stored (promises st))"
    using member_le_sum_list [of "stored (promises st ! d)" "map stored (promises st)"] Pending by (simp add: stored_def)
  moreover have "sum_list (map stored ((promises st)[d := Resolved p])) = sum_list (map stored (promises st)) - length ms"
    using assms(2) Pending by (simp add: map_update sum_list_update stored_def)
  ultimately show ?thesis by (simp add: calm_def work_def st)
qed (use assms(1) in \<open>simp_all add: become_def\<close>)

lemma calm_reject:
  assumes "calm H st" "reject e st = (p, st1)"
  shows "calm H st1 \<and> work H st1 = work H st \<and> p = length (promises st) \<and> H p = 0 \<and> promises st1 = promises st @ [Rejected e] \<and>
    reactions st1 = reactions st \<and> tasks st1 = tasks st"
proof -
  have st1: "promises st1 = promises st @ [Rejected e]" "tasks st1 = tasks st" "reactions st1 = reactions st" "p = length (promises st)"
    using create_simps(2,5,8,11) [of e st] assms(2) by simp_all
  have "H p = 0" using assms(1) st1(4) by (simp add: calm_def ranked_def)
  moreover have "calm H st1" "work H st1 = work H st"
    using calm_hidden [of st1 "st\<lparr>promises := promises st @ [Rejected e]\<rparr>" H] calm_made [OF assms(1), of "Rejected e"] st1
    by (simp_all add: plain_promise_def)
  ultimately show ?thesis using st1 by simp
qed

lemma calm_settle:
  assumes "calm H st" "d < length (promises st)" "case outcome of Return w \<Rightarrow> plain w | Throw e \<Rightarrow> True"
  shows "calm H (settle_with d outcome st) \<and> work H (settle_with d outcome st) = work H st"
proof (cases outcome)
  case (Return w)
  then obtain a where w: "w = Plain a" using assms(3) by (cases w) (auto simp: plain_def)
  let ?st = "st\<lparr>promises := promises st @ [Fulfilled w]\<rparr>"
  have c: "calm H ?st" "work H ?st = work H st" by (rule calm_made [OF assms(1)]; simp add: plain_promise_def plain_def w)+
  have "H (length (promises st)) = 0" using assms(1) by (simp add: calm_def ranked_def)
  then have "calm H (become d (length (promises st)) ?st) \<and> work H (become d (length (promises st)) ?st) = work H st"
    using calm_become [OF c(1), of d "length (promises st)"] assms(2) c(2) by simp
  then show ?thesis
    using Return assms(1) by (simp add: settle_with_def deferred_resolve_def deferred_by_def w Q_def fulfill_def make_promise_def)
next
  case (Throw e)
  obtain p st1 where r: "reject e st = (p, st1)" by fastforce
  note c = calm_reject [OF assms(1) r]
  have "calm H (become d p st1) \<and> work H (become d p st1) = work H st1" using calm_become [of H st1 d p] c assms(2) by auto
  then show ?thesis using Throw r c by (simp add: settle_with_def deferred_resolve_def deferred_by_def Q_def)
qed

lemma calm_marked:
  assumes "calm H st" "t < length (reactions st)"
  shows "calm H (st\<lparr>reactions := (reactions st)[t := (reactions st ! t)\<lparr>t_done := True\<rparr>], calls := cs\<rparr>)" (is "calm H ?st")
    "work H (st\<lparr>reactions := (reactions st)[t := (reactions st ! t)\<lparr>t_done := True\<rparr>], calls := cs\<rparr>) = work H st"
proof -
  have "t_self (reactions ?st ! s) = t_self (reactions st ! s)" for s by (cases "s = t") (simp_all add: assms(2))
  then have "weight H ?st = weight H st" unfolding weight_def fun_eq_iff by (auto split: task.splits)
  then show "work H ?st = work H st" by (simp add: work_def)
  show "calm H ?st"
    using assms set_update_subset_insert [of "reactions st" t "(reactions st ! t)\<lparr>t_done := True\<rparr>"]
    by (auto simp: calm_def quiet_def dest: nth_mem)
qed

lemma calm_run_callback:
  assumes "calm H st" "t < length (reactions st)" "t_deferred (reactions st ! t) < length (promises st)" "ok \<longrightarrow> plain v"
  shows "calm H (run_callback ok t v st) \<and> work H (run_callback ok t v st) = work H st"
proof (cases "t_done (reactions st ! t)")
  case False
  have q: "plain_callback (t_fulfilled (reactions st ! t))" "plain_callback (t_rejected (reactions st ! t))"
    using assms(1) nth_mem [OF assms(2)] by (auto simp: calm_def quiet_def)
  let ?st = "\<lambda>cs. st\<lparr>reactions := (reactions st)[t := (reactions st ! t)\<lparr>t_done := True\<rparr>], calls := cs\<rparr>"
  have m: "calm H (settle_with d outcome (?st cs)) \<and> work H (settle_with d outcome (?st cs)) = work H st"
    if "d < length (promises st)" "case outcome of Return w \<Rightarrow> plain w | Throw e \<Rightarrow> True" for d outcome cs
    using calm_settle [OF calm_marked(1) [OF assms(1,2)], where d = d and outcome = outcome] calm_marked(2) [OF assms(1,2)] that by simp
  show ?thesis
  proof (cases "if ok then t_fulfilled (reactions st ! t) else t_rejected (reactions st ! t)")
    case None
    then have "run_callback ok t v st = settle_with (t_deferred (reactions st ! t)) (if ok then Return v else Throw v) (?st (calls st))"
      using False by (simp add: run_callback_def Let_def split: if_splits)
    then show ?thesis using m [OF assms(3), of _ "calls st"] assms(4) by (cases ok) simp_all
  next
    case (Some f)
    then have "run_callback ok t v st = settle_with (t_deferred (reactions st ! t)) (f v) (?st (calls st @ [(t, ok, v)]))"
      using False by (simp add: run_callback_def Let_def split: if_splits)
    moreover have "case f v of Return w \<Rightarrow> plain w | Throw e \<Rightarrow> True"
      using q Some unfolding plain_callback_def by (auto split: if_splits)
    ultimately show ?thesis using m [OF assms(3)] by simp
  qed
qed (use assms(1) in \<open>simp add: run_callback_def\<close>)

lemma calm_dispatch:
  assumes "calm H st" "ranges st" "p < length (promises st)" "reaction_of m < length (reactions st)"
  shows "calm H (promiseDispatch p m st) \<and> work H (promiseDispatch p m st) \<le> work H st + H p"
proof -
  let ?st = "promiseDispatch p m st"
  have d: "t_deferred (reactions st ! reaction_of m) < length (promises st)"
    using assms(2) nth_mem [OF assms(4)] by (auto simp: ranges_def)
  have rk: "ranked H (promises st)" "plain_promise (promises st ! p)"
    using assms(1) nth_mem [OF assms(3)] by (simp_all add: calm_def quiet_def)
  show ?thesis
  proof (cases "promises st ! p")
    case (Pending ms ls)
    let ?x = "Pending (ms @ [m]) (case m of Watch t \<Rightarrow> ls @ [t] | When t \<Rightarrow> ls)"
    have st: "promises ?st = (promises st)[p := ?x]" "tasks ?st = tasks st" "reactions ?st = reactions st"
      by (simp_all add: promiseDispatch_def Pending)
    have h: "0 < H p" using rk(1) assms(3) Pending by (force simp: ranked_def)
    then have "ranked H (promises ?st)" using ranked_update [OF rk(1) assms(3)] by (simp add: st)
    moreover have "quiet ?st"
      using assms(1) set_update_subset_insert [of "promises st" p ?x]
      by (auto simp: calm_def quiet_def st plain_promise_def)
    moreover have "weight H ?st = weight H st" by (rule weight_cong) (rule st)
    moreover have "sum_list (map stored ((promises st)[p := ?x])) \<le> sum_list (map stored (promises st)) + 1"
      using assms(3) Pending by (simp add: map_update sum_list_update stored_def)
    ultimately show ?thesis using h by (simp add: calm_def work_def st)
  next
    case (Resolved q)
    have "?st = st\<lparr>tasks := tasks st @ [Dispatch q m]\<rparr>" by (simp add: promiseDispatch_def nextTick_def Resolved)
    moreover have "weight H (st\<lparr>tasks := tasks st @ [Dispatch q m]\<rparr>) = weight H st" by (rule weight_cong) simp
    moreover have "H q < H p" using rk(1) assms(3) Resolved by (force simp: ranked_def)
    ultimately show ?thesis using assms(1) by (simp add: calm_def quiet_def work_def no_progress_def weight_def)
  next
    case (Fulfilled v)
    then show ?thesis
      using calm_run_callback [OF assms(1), of _ True v] assms(1,4) d rk(2)
      by (cases m) (simp_all add: promiseDispatch_def plain_promise_def)
  next
    case (Rejected v)
    have "calm H (untrackRejection p st)" "work H (untrackRejection p st) = work H st"
      using calm_hidden [of "untrackRejection p st" st H] assms(1) by simp_all
    then show ?thesis
      using calm_run_callback [of H "untrackRejection p st" _ False v] assms(1,4) d Rejected
      by (cases m) (simp_all add: promiseDispatch_def)
  qed
qed

lemma calm_flush_step:
  assumes "calm H st" "ranges st" "tasks st = x # rest"
  shows "calm H (flush_step st) \<and> work H (flush_step st) < work H st"
proof -
  let ?st = "st\<lparr>tasks := rest\<rparr>"
  have st: "calm H ?st" "ranges ?st" "flush_step st = run_task x ?st"
    using assms by (simp_all add: calm_def quiet_def ranges_def flush_step_Cons)
  have "weight H ?st = weight H st" by (rule weight_cong) simp
  then have w: "work H st = weight H st x + work H ?st" using assms(3) by (simp add: work_def)
  have ok: "task_ok (length (promises st)) (length (reactions st)) x" using assms(2,3) by (simp add: ranges_def)
  show ?thesis
  proof (cases x)
    case (Start t)
    then have "t_self (reactions st ! t) < length (promises st)"
      using ok assms(2) by (force simp: ranges_def task_ok_def)
    then show ?thesis using calm_dispatch [OF st(1,2), of _ "When t"] ok Start w by (force simp: st(3) run_task_def task_ok_def weight_def)
  next
    case (Dispatch p m)
    then show ?thesis using calm_dispatch [OF st(1,2), of p m] ok w by (force simp: st(3) run_task_def task_ok_def weight_def)
  next
    case (CallProgress t v)
    then show ?thesis using assms(1,3) by (simp add: calm_def quiet_def no_progress_def)
  next
    case (Assimilate d thrown)
    show ?thesis
    proof (cases thrown)
      case (Some e)
      obtain p st1 where r: "reject (Plain e) ?st = (p, st1)" by fastforce
      note c = calm_reject [OF st(1) r]
      have "calm H (become d p st1) \<and> work H (become d p st1) = work H st1"
        using calm_become [of H st1 d p] c ok Assimilate by (auto simp: task_ok_def)
      then show ?thesis
        using Some r c w st(1) Assimilate by (simp add: st(3) run_task_def deferred_reject_def deferred_by_def weight_def)
    qed (use st w Assimilate in \<open>simp add: run_task_def weight_def\<close>)
  qed
qed

section \<open>The queue empties\<close>

lemma calm_exist: "calm H st \<Longrightarrow> resolved_exist st"
  unfolding resolved_exist_def
proof
  fix x assume "calm H st" "x \<in> set (promises st)"
  then obtain p where "p < length (promises st)" "promises st ! p = x" "ranked H (promises st)"
    by (auto simp: in_set_conv_nth calm_def)
  then show "case x of Resolved q \<Rightarrow> q < length (promises st) | _ \<Rightarrow> True" by (cases x) (force simp: ranked_def)+
qed

lemma run_late_same:
  "promises (run_late x st) = promises st" "tasks (run_late x st) = tasks st" "reactions (run_late x st) = reactions st"
  "laterQueue (run_late x st) = laterQueue st"
  by (simp_all add: run_late_def split: late.split option.split)

lemma flush_empties:
  assumes "calm H st" "steps initial st"
  shows "\<exists>st'. flush st = Some st' \<and> steps st st' \<and> tasks st' = [] \<and> laterQueue st' = []"
  using assms
proof (induction "(work H st, length (laterQueue st))" arbitrary: st rule: wf_induct_rule [OF wf_lex_prod [OF wf_less wf_less]])
  case (1 st)
  have rg: "ranges st" using inv_steps [OF 1(3)] by (simp add: inv_def)
  show ?case
  proof (cases "tasks st = [] \<and> laterQueue st = []")
    case True
    then show ?thesis by (subst flush.simps) auto
  next
    case False
    have c: "calm H (flush_step st)" and less: "((work H (flush_step st), length (laterQueue (flush_step st))),
        (work H st, length (laterQueue st))) \<in> {(x, y). x < y} <*lex*> {(x, y). x < y}"
    proof -
      show "calm H (flush_step st)"
        using calm_flush_step [OF 1(2) rg] False
          calm_hidden(1) [of "run_late (last (laterQueue st)) (st\<lparr>laterQueue := butlast (laterQueue st)\<rparr>)" st H] 1(2)
        by (cases "tasks st") (auto simp: flush_step_def run_late_same)
      show "((work H (flush_step st), length (laterQueue (flush_step st))),
        (work H st, length (laterQueue st))) \<in> {(x, y). x < y} <*lex*> {(x, y). x < y}"
        using calm_flush_step [OF 1(2) rg] False
          calm_hidden(2) [of "run_late (last (laterQueue st)) (st\<lparr>laterQueue := butlast (laterQueue st)\<rparr>)" st H]
        by (cases "tasks st") (auto simp: flush_step_def run_late_same)
    qed
    have "step st (perform Tick st)"
      by (rule step.intros) (use calm_exist [OF c] in \<open>simp_all add: allowed_def perform_def\<close>)
    then have s: "step st (flush_step st)" by (simp add: perform_def)
    obtain st' where "flush (flush_step st) = Some st'" "steps (flush_step st) st'" "tasks st' = []" "laterQueue st' = []"
      using 1(1) [OF less c] 1(3) s by (meson rtranclp.rtrancl_into_rtrancl)
    then show ?thesis using False s by (subst flush.simps) (auto intro: converse_rtranclp_into_rtranclp)
  qed
qed

text \<open>
  C5. \<open>flush\<close> returns with an empty queue, when the callbacks return plain values or throw and no
  promise is resolved in a circle; then each call of \<open>then\<close> has been served, except those of the
  promises that nobody has settled.
\<close>

theorem queue_empties:
  assumes "steps initial st" "quiet st" "\<forall>p < length (promises st). inspect (promises st) p \<noteq> None"
  shows "\<exists>st'. flush st = Some st' \<and> tasks st' = [] \<and> laterQueue st' = [] \<and>
    (\<forall>t < length (reactions st'). t_done (reactions st' ! t) \<or>
       inspect (promises st') (t_self (reactions st' ! t)) = Some IsPending)"
proof -
  have "q < length (promises st)" if "p < length (promises st)" "promises st ! p = Resolved q" for p q
    using reach_exist [OF assms(1)] nth_mem [OF that(1)] that(2) by (force simp: resolved_exist_def)
  then obtain H where "ranked H (promises st)" using ranks_exist [of "promises st"] assms(3) by blast
  then have "calm H st" using assms(2) by (simp add: calm_def)
  then obtain st' where st': "flush st = Some st'" "steps st st'" "tasks st' = []" "laterQueue st' = []"
    using flush_empties [OF _ assms(1)] by blast
  have i: "inv {} st'" using inv_steps [OF rtranclp_trans [OF assms(1) st'(2)]] .
  have "inspect (promises st') (t_self (reactions st' ! t)) = Some IsPending"
    if "t < length (reactions st')" "\<not> t_done (reactions st' ! t)" for t
    using inv_stranded [OF i st'(3) that] .
  then show ?thesis using st' by blast
qed

theorem queue_empties_witness: "\<exists>st'. flush (after 7) = Some st' \<and> tasks st' = [] \<and> laterQueue st' = []"
proof -
  have q: "quiet (after 7)"
    by (simp add: quiet_def after_def program_def perform_def promise_then_def deferred_resolve_def deferred_reject_def
        deferred_by_def become_def next_ticks_def op_defs promiseDispatch_def initial_def plain_callback_def plain_promise_def
        plain_def no_progress_def is_pending_def)
  have p: "promises (after 7) = [Resolved 5, Pending [] [], Pending [] [], Resolved 4, Rejected (Plain 9), Fulfilled (Plain 7), Pending [] []]"
    by code_simp
  have "inspect (promises (after 7)) p \<noteq> None" if "p \<in> {0, 1, 2, 3, 4, 5, 6}" for p
    using that inspect.simps [of "promises (after 7)" 0] inspect.simps [of "promises (after 7)" 3]
    by (auto simp: p inspect_end)
  then have "\<forall>p < length (promises (after 7)). inspect (promises (after 7)) p \<noteq> None"
    by (auto simp: p less_Suc_eq)
  then show ?thesis using queue_empties [OF after_reached q] by blast
qed

section \<open>A promise that waits for itself\<close>

definition circling :: "'a q \<Rightarrow> bool" where
  "circling st \<longleftrightarrow> (\<exists>d m. d < length (promises st) \<and> promises st ! d = Resolved d \<and> Dispatch d m \<in> set (tasks st))"

lemma tasks_become: "set (tasks st) \<subseteq> set (tasks (become d p st))"
  by (auto simp: become_def next_ticks_def split: promise.split)

lemma tasks_deferred_by:
  assumes "set (tasks st) \<subseteq> set (tasks (snd (create st)))"
  shows "set (tasks st) \<subseteq> set (tasks (deferred_by create d st))"
  using assms tasks_become by (fastforce simp: deferred_by_def split: prod.split)

lemma tasks_deferred:
  "set (tasks st) \<subseteq> set (tasks (deferred_resolve d v st))" "set (tasks st) \<subseteq> set (tasks (deferred_reject d v st))"
  "set (tasks st) \<subseteq> set (tasks (deferred_notify d v st))"
  unfolding deferred_resolve_def deferred_reject_def
  by (rule tasks_deferred_by, simp add: create_simps Q_promises)+ (auto simp: deferred_notify_def next_ticks_def split: promise.split)

lemma tasks_settle: "set (tasks st) \<subseteq> set (tasks (settle_with d outcome st))"
proof (cases outcome)
  case (Throw e)
  obtain p st1 where c: "reject e st = (p, st1)" by fastforce
  then have "tasks st1 = tasks st" using create_simps(8) [of e st] by simp
  then show ?thesis using tasks_deferred(1) [of st1 d "Promise p"] Throw c by (simp add: settle_with_def)
qed (simp add: settle_with_def tasks_deferred)

lemma tasks_run_callback: "set (tasks st) \<subseteq> set (tasks (run_callback ok t v st))"
proof (cases "t_done (reactions st ! t)")
  case False
  have s: "set (tasks st) \<subseteq> set (tasks (settle_with d outcome (st\<lparr>reactions := rs, calls := cs\<rparr>)))" for d outcome rs cs
    using tasks_settle [of "st\<lparr>reactions := rs, calls := cs\<rparr>"] by simp
  show ?thesis by (rule run_callback_settles [OF False, of ok v]) (simp add: s)
qed (simp add: run_callback_def)

lemma tasks_dispatch: "set (tasks st) \<subseteq> set (tasks (promiseDispatch p m st))"
proof (cases "promises st ! p")
  case (Rejected v)
  then show ?thesis
    using tasks_run_callback [of "untrackRejection p st"] by (simp add: promiseDispatch_def split: message.split)
qed (auto simp: promiseDispatch_def nextTick_def split: message.split intro: subsetD [OF tasks_run_callback])

lemma tasks_run_task: "set (tasks st) \<subseteq> set (tasks (run_task x st))"
  by (simp add: run_task_def tasks_dispatch tasks_deferred split: task.split outcome.split option.split)

lemma circling_flush_step:
  assumes "circling st"
  shows "circling (flush_step st)"
proof -
  obtain d m where d: "d < length (promises st)" "promises st ! d = Resolved d" "Dispatch d m \<in> set (tasks st)"
    using assms by (auto simp: circling_def)
  then obtain x rest where x: "tasks st = x # rest" by (cases "tasks st") auto
  have p: "d < length (promises (flush_step st)) \<and> promises (flush_step st) ! d = Resolved d"
    using later_settled [OF flush_step_later d(1)] d(2) by simp
  have "Dispatch d m \<in> set (tasks (flush_step st))"
  proof (cases "x = Dispatch d m")
    case True
    then show ?thesis using d(2) by (simp add: flush_step_Cons [OF x] run_task_def promiseDispatch_def nextTick_def)
  next
    case False
    then show ?thesis using d(3) x tasks_run_task [of "st\<lparr>tasks := rest\<rparr>" x] by (auto simp: flush_step_Cons [OF x])
  qed
  then show ?thesis using p unfolding circling_def by blast
qed

definition leaves :: "'a q \<Rightarrow> 'a q \<Rightarrow> bool" where
  "leaves st st' \<longleftrightarrow> \<not> circling st"

lemma flush_leaves: "flush st = Some st' \<Longrightarrow> leaves st st'"
proof (rule flush.raw_induct [of leaves], goal_cases)
  case (1 f st st')
  show ?case
  proof (cases "tasks st = [] \<and> laterQueue st = []")
    case True
    then show ?thesis by (simp add: leaves_def circling_def)
  next
    case False
    then have "f (flush_step st) = Some st'" using 1(3) by (simp split: if_splits)
    then have "leaves (flush_step st) st'" by (rule 1(2))
    then show ?thesis using circling_flush_step by (auto simp: leaves_def)
  qed
qed

text \<open>
  C30. When a promise that somebody waits for is resolved with itself, the queue never empties: the
  task that forwards the message to what the promise was resolved with enters itself again.
\<close>

theorem self_resolution_never_ends:
  assumes "d < length (promises st)" "promises st ! d = Pending (m # ms) ls"
  shows "flush (deferred_resolve d (Promise d) st) = None"
proof -
  have "circling (deferred_resolve d (Promise d) st)"
    unfolding circling_def using assms
    by (intro exI [of _ d] exI [of _ m]) (simp add: deferred_resolve_def deferred_by_def Q_def become_def next_ticks_def)
  then show ?thesis using flush_leaves unfolding leaves_def by (metis not_None_eq)
qed

theorem self_resolution_never_ends_witness: "flush (deferred_resolve 0 (Promise 0) (after 2)) = None"
  by (rule self_resolution_never_ends) code_simp+

end
