(* ===== verification/PromiseOrder.thy ===== *)
theory PromiseOrder
  imports PromiseLaws
begin

text \<open>
  The callbacks of a promise are called in the order in which they were given to \<open>then\<close>, although
  each of them travels alone, through the queue and along the promises that were resolved with
  another.
\<close>

section \<open>Being first\<close>

fun precedes :: "'b list \<Rightarrow> 'b \<Rightarrow> 'b \<Rightarrow> bool" where
  "precedes [] a b \<longleftrightarrow> True"
| "precedes (x # xs) a b \<longleftrightarrow> precedes xs a b \<and> (x = b \<longrightarrow> a \<notin> set xs)"

lemma precedes_append [simp]:
  "precedes (xs @ ys) a b \<longleftrightarrow> precedes xs a b \<and> precedes ys a b \<and> \<not> (b \<in> set xs \<and> a \<in> set ys)"
  by (induction xs) auto

lemma precedes_map: "inj f \<Longrightarrow> precedes (map f xs) (f a) (f b) \<longleftrightarrow> precedes xs a b"
  by (induction xs) (auto simp: inj_eq)

lemma precedes_dispatch: "precedes (map (Dispatch p) ms) (Dispatch p a) (Dispatch p b) \<longleftrightarrow> precedes ms a b"
  by (rule precedes_map) (simp add: inj_def)

lemma precedes_absent: "b \<notin> set xs \<or> a \<notin> set xs \<Longrightarrow> precedes xs a b"
  by (induction xs) auto

section \<open>Turning behind\<close>

abbreviation hop :: "'a promise list \<Rightarrow> nat \<Rightarrow> nat \<Rightarrow> bool" where
  "hop ps \<equiv> (\<lambda>p q. p < length ps \<and> ps ! p = Resolved q)"

lemma leads_end:
  assumes "leads ps p q" "\<And>r. ps ! p \<noteq> Resolved r"
  shows "q = p"
  using assms(1) by (rule converse_rtranclpE) (use assms(2) in auto)

lemma leads_tail:
  assumes "leads ps p q" "p \<noteq> q" "ps ! p = Resolved r"
  shows "leads ps r q"
  using assms(1) by (rule converse_rtranclpE) (use assms(2,3) in auto)

lemma hop_later: "hop ps p q \<Longrightarrow> later ps ps' \<Longrightarrow> hop ps' p q"
  using later_settled [of ps ps' p] by simp

lemma hops_later:
  assumes "(hop ps)\<^sup>+\<^sup>+ p q" "later ps ps'"
  shows "(hop ps')\<^sup>+\<^sup>+ p q"
  using assms(1)
proof (induction rule: tranclp_induct)
  case (base q)
  show ?case using hop_later [OF base assms(2)] by (rule tranclp.r_into_trancl)
next
  case (step q r)
  show ?case using step.IH hop_later [OF step.hyps(2) assms(2)] by (rule tranclp.trancl_into_trancl)
qed

lemma hops_start:
  assumes "(hop ps)\<^sup>+\<^sup>+ p q"
  shows "\<exists>r. ps ! p = Resolved r"
  using assms by (rule converse_tranclpE) auto

section \<open>The order\<close>

text \<open>
  \<open>ordered st t1 t2\<close>: of two calls of \<open>then\<close> for the same promise, wherever they both are, the first
  is not behind the second.
\<close>

definition kept_in :: "'a q \<Rightarrow> nat \<Rightarrow> nat \<Rightarrow> bool" where
  "kept_in st t p \<longleftrightarrow> p < length (promises st) \<and> (case promises st ! p of Pending ms ls \<Rightarrow> When t \<in> set ms | _ \<Rightarrow> False)"

lemma waits_split: "waits st t p \<longleftrightarrow> Dispatch p (When t) \<in> set (tasks st) \<or> kept_in st t p"
  by (auto simp: waits_def kept_in_def)

definition ordered :: "'a q \<Rightarrow> nat \<Rightarrow> nat \<Rightarrow> bool" where
  "ordered st t1 t2 \<longleftrightarrow>
     precedes (tasks st) (Start t1) (Start t2) \<and>
     (\<forall>p. waits st t2 p \<longrightarrow> Start t1 \<notin> set (tasks st)) \<and>
     (\<forall>p1 p2. waits st t1 p1 \<and> waits st t2 p2 \<longrightarrow> leads (promises st) p2 p1) \<and>
     (\<forall>p. \<not> (hop (promises st))\<^sup>+\<^sup>+ p p \<longrightarrow> precedes (tasks st) (Dispatch p (When t1)) (Dispatch p (When t2))) \<and>
     (\<forall>p. kept_in st t2 p \<longrightarrow> Dispatch p (When t1) \<notin> set (tasks st)) \<and>
     (\<forall>p ms ls. p < length (promises st) \<longrightarrow> promises st ! p = Pending ms ls \<longrightarrow> precedes ms (When t1) (When t2)) \<and>
     (t_done (reactions st ! t2) \<longrightarrow> t_done (reactions st ! t1))"

definition hopped :: "'a q \<Rightarrow> bool" where
  "hopped st \<longleftrightarrow> (\<forall>t p. Dispatch p (When t) \<in> set (tasks st) \<longrightarrow> (hop (promises st))\<^sup>+\<^sup>+ (t_self (reactions st ! t)) p)"

definition in_order :: "'a q \<Rightarrow> bool" where
  "in_order st \<longleftrightarrow> hopped st \<and> (\<forall>t1 t2. t1 < t2 \<and> t2 < length (reactions st) \<and>
     t_self (reactions st ! t1) = t_self (reactions st ! t2) \<longrightarrow> ordered st t1 t2)"

lemma orderedI:
  assumes "precedes (tasks st) (Start t1) (Start t2)" "\<And>p. waits st t2 p \<Longrightarrow> Start t1 \<notin> set (tasks st)"
    "\<And>p1 p2. waits st t1 p1 \<Longrightarrow> waits st t2 p2 \<Longrightarrow> leads (promises st) p2 p1"
    "\<And>p. \<not> (hop (promises st))\<^sup>+\<^sup>+ p p \<Longrightarrow> precedes (tasks st) (Dispatch p (When t1)) (Dispatch p (When t2))"
    "\<And>p. kept_in st t2 p \<Longrightarrow> Dispatch p (When t1) \<notin> set (tasks st)"
    "\<And>p ms ls. p < length (promises st) \<Longrightarrow> promises st ! p = Pending ms ls \<Longrightarrow> precedes ms (When t1) (When t2)"
    "t_done (reactions st ! t2) \<Longrightarrow> t_done (reactions st ! t1)"
  shows "ordered st t1 t2"
  using assms unfolding ordered_def by blast

lemma orderedD:
  assumes "ordered st t1 t2"
  shows "precedes (tasks st) (Start t1) (Start t2)" "\<And>p. waits st t2 p \<Longrightarrow> Start t1 \<notin> set (tasks st)"
    "\<And>p1 p2. waits st t1 p1 \<Longrightarrow> waits st t2 p2 \<Longrightarrow> leads (promises st) p2 p1"
    "\<And>p. \<not> (hop (promises st))\<^sup>+\<^sup>+ p p \<Longrightarrow> precedes (tasks st) (Dispatch p (When t1)) (Dispatch p (When t2))"
    "\<And>p. kept_in st t2 p \<Longrightarrow> Dispatch p (When t1) \<notin> set (tasks st)"
    "\<And>p ms ls. p < length (promises st) \<Longrightarrow> promises st ! p = Pending ms ls \<Longrightarrow> precedes ms (When t1) (When t2)"
    "t_done (reactions st ! t2) \<Longrightarrow> t_done (reactions st ! t1)"
  using assms unfolding ordered_def by blast+

fun travels :: "'a task \<Rightarrow> bool" where
  "travels (Start t) = True"
| "travels (Dispatch p (When t)) = True"
| "travels task = False"

text \<open>What leaves the calls where they are.\<close>

lemma ordered_same:
  assumes "ordered st t1 t2" "later (promises st) (promises st')" "tasks st' = tasks st @ xs" "\<forall>x \<in> set xs. \<not> travels x"
    and "\<And>t p. kept_in st' t p = kept_in st t p"
    and "\<And>p ms ls. p < length (promises st') \<Longrightarrow> promises st' ! p = Pending ms ls \<Longrightarrow>
      ms = [] \<or> p < length (promises st) \<and> (\<exists>ls. promises st ! p = Pending ms ls)"
    and "t_done (reactions st' ! t2) \<Longrightarrow> t_done (reactions st' ! t1)"
  shows "ordered st' t1 t2"
proof (rule orderedI)
  have n: "Start t \<notin> set xs" "Dispatch p (When t) \<notin> set xs" for t p using assms(4) by auto
  then have w: "waits st' t p = waits st t p" for t p by (auto simp: waits_split assms(3,5))
  show "precedes (tasks st') (Start t1) (Start t2)" using orderedD(1) [OF assms(1)] n by (simp add: assms(3) precedes_absent)
  show "Start t1 \<notin> set (tasks st')" if "waits st' t2 p" for p
    using orderedD(2) [OF assms(1)] that n by (simp add: assms(3) w)
  show "leads (promises st') p2 p1" if "waits st' t1 p1" "waits st' t2 p2" for p1 p2
    using orderedD(3) [OF assms(1)] that leads_later [OF _ assms(2)] by (simp add: w)
  show "precedes (tasks st') (Dispatch p (When t1)) (Dispatch p (When t2))" if "\<not> (hop (promises st'))\<^sup>+\<^sup>+ p p" for p
    using orderedD(4) [OF assms(1), of p] that hops_later [OF _ assms(2), of p p] n by (auto simp: assms(3) precedes_absent)
  show "Dispatch p (When t1) \<notin> set (tasks st')" if "kept_in st' t2 p" for p
    using orderedD(5) [OF assms(1)] that n by (simp add: assms(3,5))
  show "precedes ms (When t1) (When t2)" if "p < length (promises st')" "promises st' ! p = Pending ms ls" for p ms ls
    using assms(6) [OF that] orderedD(6) [OF assms(1)] by auto
qed (rule assms(7))

lemma hopped_same:
  assumes "hopped st" "later (promises st) (promises st')" "tasks st' = tasks st @ xs" "\<forall>x \<in> set xs. \<not> travels x"
    and "reactions st' = reactions st"
  shows "hopped st'"
  unfolding hopped_def
proof (intro allI impI)
  fix t p assume d: "Dispatch p (When t) \<in> set (tasks st')"
  have "Dispatch p (When t) \<notin> set xs" using assms(4) by auto
  then have "(hop (promises st))\<^sup>+\<^sup>+ (t_self (reactions st ! t)) p" using d assms(1,3) by (simp add: hopped_def)
  then show "(hop (promises st'))\<^sup>+\<^sup>+ (t_self (reactions st' ! t)) p" using hops_later [OF _ assms(2)] assms(5) by simp
qed

lemma in_order_same:
  assumes "in_order st" "later (promises st) (promises st')" "tasks st' = tasks st @ xs" "\<forall>x \<in> set xs. \<not> travels x"
    and "\<And>t p. kept_in st' t p = kept_in st t p"
    and "\<And>p ms ls. p < length (promises st') \<Longrightarrow> promises st' ! p = Pending ms ls \<Longrightarrow>
      ms = [] \<or> p < length (promises st) \<and> (\<exists>ls. promises st ! p = Pending ms ls)"
    and "reactions st' = reactions st"
  shows "in_order st'"
proof -
  have "ordered st' t1 t2" if "t1 < t2" "t2 < length (reactions st)" "t_self (reactions st ! t1) = t_self (reactions st ! t2)" for t1 t2
  proof -
    have o: "ordered st t1 t2" using assms(1) that by (simp add: in_order_def)
    show ?thesis by (rule ordered_same [OF o assms(2-6)]) (use orderedD(7) [OF o] assms(7) in simp_all)
  qed
  then show ?thesis using assms(1) hopped_same [OF _ assms(2-4,7)] by (simp add: in_order_def assms(7))
qed

lemma in_order_made:
  assumes "in_order st" "case x of Pending ms ls \<Rightarrow> ms = [] \<and> ls = [] | Resolved q \<Rightarrow> False | _ \<Rightarrow> True"
  shows "in_order (st\<lparr>promises := promises st @ [x]\<rparr>)"
proof (rule in_order_same [OF assms(1), of _ "[]"])
  show "kept_in (st\<lparr>promises := promises st @ [x]\<rparr>) t p = kept_in st t p" for t p
    using assms(2) by (auto simp: kept_in_def nth_append less_Suc_eq split: promise.splits)
  show "ms = [] \<or> p < length (promises st) \<and> (\<exists>ls. promises st ! p = Pending ms ls)"
    if "p < length (promises (st\<lparr>promises := promises st @ [x]\<rparr>))" "promises (st\<lparr>promises := promises st @ [x]\<rparr>) ! p = Pending ms ls"
    for p ms ls
    using that assms(2) by (auto simp: nth_append less_Suc_eq split: promise.splits if_splits)
qed simp_all

lemma in_order_tasks:
  assumes "in_order st" "\<forall>x \<in> set xs. \<not> travels x"
  shows "in_order (st\<lparr>tasks := tasks st @ xs\<rparr>)"
  by (rule in_order_same [OF assms(1) _ _ assms(2)]) (simp_all add: kept_in_def)

lemma in_order_hidden:
  assumes "in_order st" "promises st' = promises st" "tasks st' = tasks st" "reactions st' = reactions st"
  shows "in_order st'"
  by (rule in_order_same [OF assms(1), of _ "[]"]) (simp_all add: kept_in_def assms(2-4))

section \<open>Moves\<close>

lemma in_order_become:
  assumes o: "in_order st" and "routes st" and d: "d < length (promises st)"
  shows "in_order (become d p st)"
proof (cases "promises st ! d")
  case (Pending ms ls)
  let ?st = "become d p st"
  have st: "promises ?st = (promises st)[d := Resolved p]" "tasks ?st = tasks st @ map (Dispatch p) ms" "reactions ?st = reactions st"
    by (simp_all add: become_def next_ticks_def Pending)
  have l: "later (promises st) (promises ?st)" by (rule become_later)
  have k: "kept_in ?st t q \<longleftrightarrow> kept_in st t q \<and> q \<noteq> d" for t q
    by (cases "q = d") (simp_all add: kept_in_def st d)
  have kd: "kept_in st t d \<longleftrightarrow> When t \<in> set ms" for t by (simp add: kept_in_def Pending d)
  have h: "hop (promises ?st) d p" by (simp add: st d)
  have stay: "q = d" if "leads (promises st) d q" for q using leads_end [OF that] Pending by simp
  have pending: "r = q" if "kept_in st t q" "leads (promises st) q r" for t q r
    by (rule leads_end [OF that(2)]) (use that(1) in \<open>auto simp: kept_in_def\<close>)
  have w: "waits ?st t q \<longleftrightarrow> Dispatch q (When t) \<in> set (tasks st) \<or> kept_in st t q \<and> q \<noteq> d \<or> q = p \<and> kept_in st t d" for t q
    by (auto simp: waits_split k st kd)
  have "ordered ?st t1 t2" if "t1 < t2" "t2 < length (reactions st)" "t_self (reactions st ! t1) = t_self (reactions st ! t2)" for t1 t2
  proof -
    have o: "ordered st t1 t2" using o that by (simp add: in_order_def)
    show ?thesis
    proof (rule orderedI)
      show "precedes (tasks ?st) (Start t1) (Start t2)" 
      proof -
        have "precedes (map (Dispatch p) ms) (Start t1) (Start t2)" by (rule precedes_absent) auto
        then show ?thesis using orderedD(1) [OF o] by (auto simp: st)
      qed
      show "Start t1 \<notin> set (tasks ?st)" if "waits ?st t2 q" for q
      proof -
        have "waits st t2 q \<or> waits st t2 d" using that unfolding w by (auto simp: waits_split)
        then have "Start t1 \<notin> set (tasks st)" using orderedD(2) [OF o] by blast
        then show ?thesis by (auto simp: st)
      qed
      show "leads (promises ?st) p2 p1" if w1: "waits ?st t1 p1" and w2: "waits ?st t2 p2" for p1 p2
      proof (cases "p2 = p \<and> kept_in st t2 d")
        case True
        show ?thesis
        proof (cases "p1 = p \<and> kept_in st t1 d")
          case False
          then have x: "Dispatch p1 (When t1) \<in> set (tasks st) \<or> kept_in st t1 p1 \<and> p1 \<noteq> d" using w1 w by auto
          then have "p1 = d" using orderedD(3) [OF o, of p1 d] True stay by (auto simp: waits_split)
          then show ?thesis using x orderedD(5) [OF o, of d] True by simp
        qed (use True in simp)
      next
        case False
        then have w2': "waits st t2 p2" using w2 w by (auto simp: waits_split)
        show ?thesis
        proof (cases "p1 = p \<and> kept_in st t1 d")
          case True
          then have "leads (promises ?st) p2 d" using orderedD(3) [OF o, of d p2] w2' leads_later [OF _ l] by (simp add: waits_split)
          then show ?thesis using h True by (simp add: rtranclp.rtrancl_into_rtrancl)
        next
          case False
          then have "waits st t1 p1" using w1 w by (auto simp: waits_split)
          then show ?thesis using orderedD(3) [OF o _ w2'] leads_later [OF _ l] by simp
        qed
      qed
      show "precedes (tasks ?st) (Dispatch q (When t1)) (Dispatch q (When t2))" if c: "\<not> (hop (promises ?st))\<^sup>+\<^sup>+ q q" for q
      proof -
        have "precedes (tasks st) (Dispatch q (When t1)) (Dispatch q (When t2))"
          using orderedD(4) [OF o, of q] c hops_later [OF _ l, of q q] by blast
        moreover have "precedes (map (Dispatch p) ms) (Dispatch q (When t1)) (Dispatch q (When t2))"
        proof (cases "q = p")
          case True
          then show ?thesis using orderedD(6) [OF o d Pending] by (simp add: precedes_dispatch)
        qed (auto intro: precedes_absent)
        moreover have "False" if "Dispatch q (When t2) \<in> set (tasks st)" "Dispatch q (When t1) \<in> set (map (Dispatch p) ms)"
        proof -
          have q: "q = p" "kept_in st t1 d" using that(2) kd by auto
          then have "leads (promises ?st) p d" using that(1) orderedD(3) [OF o, of d p] leads_later [OF _ l] by (auto simp: waits_split)
          then have "(hop (promises ?st))\<^sup>+\<^sup>+ p p" using h by (rule rtranclp_into_tranclp1)
          then show False using c q(1) by simp
        qed
        ultimately show ?thesis by (auto simp: st)
      qed
      show "Dispatch q (When t1) \<notin> set (tasks ?st)" if "kept_in ?st t2 q" for q
      proof
        have q: "kept_in st t2 q" "q \<noteq> d" using that k by auto
        assume "Dispatch q (When t1) \<in> set (tasks ?st)"
        then have "kept_in st t1 d" using orderedD(5) [OF o q(1)] by (auto simp: st kd)
        then show False using orderedD(3) [OF o, of d q] q pending [OF q(1)] by (auto simp: waits_split)
      qed
      show "precedes ms' (When t1) (When t2)" if "q < length (promises ?st)" "promises ?st ! q = Pending ms' ls'" for q ms' ls'
        using that orderedD(6) [OF o, of q ms'] d by (cases "q = d") (simp_all add: st)
      show "t_done (reactions ?st ! t1)" if "t_done (reactions ?st ! t2)" using that orderedD(7) [OF o] by (simp add: st)
    qed
  qed
  moreover have "hopped ?st" unfolding hopped_def
  proof (intro allI impI)
    fix t q assume "Dispatch q (When t) \<in> set (tasks ?st)"
    then consider "Dispatch q (When t) \<in> set (tasks st)" | "q = p" "kept_in st t d" by (auto simp: st kd)
    then show "(hop (promises ?st))\<^sup>+\<^sup>+ (t_self (reactions ?st ! t)) q"
    proof cases
      case 1
      then show ?thesis using assms(1) hops_later [OF _ l] by (simp add: in_order_def hopped_def st)
    next
      case 2
      then have "leads (promises ?st) (t_self (reactions st ! t)) d"
        using assms(2) leads_later [OF _ l] by (simp add: routes_def waits_split)
      then show ?thesis using h 2(1) by (simp add: st(3) rtranclp_into_tranclp1)
    qed
  qed
  ultimately show ?thesis by (simp add: in_order_def st)
qed (use assms(1) in \<open>simp_all add: become_def\<close>)

lemma in_order_taken:
  assumes "in_order st" "tasks st = x # rest"
  shows "in_order (st\<lparr>tasks := rest\<rparr>)"
proof -
  let ?st = "st\<lparr>tasks := rest\<rparr>"
  have k: "kept_in ?st t p = kept_in st t p" for t p by (simp add: kept_in_def)
  have w: "waits ?st t p \<Longrightarrow> waits st t p" for t p by (auto simp: waits_split k assms(2))
  have "ordered ?st t1 t2" if "t1 < t2" "t2 < length (reactions st)" "t_self (reactions st ! t1) = t_self (reactions st ! t2)" for t1 t2
  proof -
    have o: "ordered st t1 t2" using assms(1) that by (simp add: in_order_def)
    show ?thesis
    proof (rule orderedI)
      show "Start t1 \<notin> set (tasks ?st)" if "waits ?st t2 p" for p
        using orderedD(2) [OF o w [OF that]] by (simp add: assms(2))
      show "leads (promises ?st) p2 p1" if "waits ?st t1 p1" "waits ?st t2 p2" for p1 p2
        using orderedD(3) [OF o w [OF that(1)] w [OF that(2)]] by simp
      show "Dispatch p (When t1) \<notin> set (tasks ?st)" if "kept_in ?st t2 p" for p
        using orderedD(5) [OF o, of p] that k by (simp add: assms(2))
    qed (use orderedD(1,4,6,7) [OF o] in \<open>simp_all add: assms(2)\<close>)
  qed
  then show ?thesis using assms by (simp add: in_order_def hopped_def)
qed

text \<open>
  The call \<open>t\<close> is dispatched to \<open>p\<close>: the earlier calls for its promise are further on, and the later
  ones are not.
\<close>

definition arrives :: "'a q \<Rightarrow> nat \<Rightarrow> nat \<Rightarrow> bool" where
  "arrives st t p \<longleftrightarrow> t < length (reactions st) \<and> p < length (promises st) \<and> leads (promises st) (t_self (reactions st ! t)) p \<and>
     (\<forall>t1 < t. t_self (reactions st ! t1) = t_self (reactions st ! t) \<longrightarrow> Start t1 \<notin> set (tasks st) \<and>
        (\<forall>q. waits st t1 q \<longrightarrow> leads (promises st) p q) \<and>
        (Dispatch p (When t1) \<in> set (tasks st) \<longrightarrow> (hop (promises st))\<^sup>+\<^sup>+ p p)) \<and>
     (\<forall>t2 > t. t2 < length (reactions st) \<longrightarrow> t_self (reactions st ! t2) = t_self (reactions st ! t) \<longrightarrow>
        (\<forall>q. waits st t2 q \<longrightarrow> leads (promises st) q p) \<and> \<not> kept_in st t2 p)"

lemma not_kept_twice: "kept_in st t p \<Longrightarrow> (hop (promises st))\<^sup>+\<^sup>+ p q \<Longrightarrow> False"
  by (drule hops_start) (auto simp: kept_in_def)

lemma taken_start:
  assumes "in_order st" "routes st" "ranges st" "tasks st = Start t # rest"
  shows "arrives (st\<lparr>tasks := rest\<rparr>) t (t_self (reactions st ! t))"
proof -
  let ?st = "st\<lparr>tasks := rest\<rparr>" and ?self = "t_self (reactions st ! t)"
  have k: "kept_in ?st t p = kept_in st t p" for t p by (simp add: kept_in_def)
  have w: "waits ?st t p \<Longrightarrow> waits st t p" for t p by (auto simp: waits_split k assms(4))
  have t: "t < length (reactions st)" using assms(3,4) by (simp add: ranges_def task_ok_def)
  then have p: "?self < length (promises st)" using assms(3) nth_mem [OF t] by (auto simp: ranges_def)
  have "Start t1 \<notin> set rest \<and> (\<forall>q. waits ?st t1 q \<longrightarrow> leads (promises st) ?self q) \<and>
      (Dispatch ?self (When t1) \<in> set rest \<longrightarrow> (hop (promises st))\<^sup>+\<^sup>+ ?self ?self)"
    if "t1 < t" "t_self (reactions st ! t1) = ?self" for t1
  proof -
    have o: "ordered st t1 t" using assms(1) that t by (simp add: in_order_def)
    have "leads (promises st) ?self q" if "waits ?st t1 q" for q
    proof -
      have "leads (promises st) (t_self (reactions st ! t1)) q" using assms(2) w [OF that] unfolding routes_def by blast
      then show ?thesis using \<open>t_self (reactions st ! t1) = ?self\<close> by simp
    qed
    moreover have "(hop (promises st))\<^sup>+\<^sup>+ ?self ?self" if "Dispatch ?self (When t1) \<in> set rest"
    proof -
      have "Dispatch ?self (When t1) \<in> set (tasks st)" using that assms(4) by simp
      then have "(hop (promises st))\<^sup>+\<^sup>+ (t_self (reactions st ! t1)) ?self"
        using assms(1) unfolding in_order_def hopped_def by blast
      then show ?thesis using \<open>t_self (reactions st ! t1) = ?self\<close> by simp
    qed
    ultimately show ?thesis using orderedD(1) [OF o] by (simp add: assms(4))
  qed
  moreover have "\<not> waits ?st t2 q" if "t2 > t" "t2 < length (reactions st)" "t_self (reactions st ! t2) = ?self" for t2 q
  proof
    assume "waits ?st t2 q"
    then have "waits st t2 q" by (rule w)
    moreover have "ordered st t t2" using assms(1) that by (simp add: in_order_def)
    ultimately have "Start t \<notin> set (tasks st)" by (rule orderedD(2) [rotated])
    then show False using assms(4) by simp
  qed
  then have "(\<forall>q. waits ?st t2 q \<longrightarrow> leads (promises st) q ?self) \<and> \<not> kept_in ?st t2 ?self"
    if "t2 > t" "t2 < length (reactions st)" "t_self (reactions st ! t2) = ?self" for t2
    using that waits_split by blast
  ultimately show ?thesis using t p unfolding arrives_def by simp
qed

lemma taken_dispatch:
  assumes "in_order st" "routes st" "ranges st" "tasks st = Dispatch p (When t) # rest"
  shows "arrives (st\<lparr>tasks := rest\<rparr>) t p"
proof -
  let ?st = "st\<lparr>tasks := rest\<rparr>" and ?self = "t_self (reactions st ! t)"
  have k: "kept_in ?st t p = kept_in st t p" for t p by (simp add: kept_in_def)
  have w: "waits ?st t p \<Longrightarrow> waits st t p" for t p by (auto simp: waits_split k assms(4))
  have t: "t < length (reactions st)" "p < length (promises st)" using assms(3,4) by (simp_all add: ranges_def task_ok_def)
  have here: "waits st t p" by (simp add: waits_split assms(4))
  have "Start t1 \<notin> set rest \<and> (\<forall>q. waits ?st t1 q \<longrightarrow> leads (promises st) p q) \<and>
      (Dispatch p (When t1) \<in> set rest \<longrightarrow> (hop (promises st))\<^sup>+\<^sup>+ p p)"
    if "t1 < t" "t_self (reactions st ! t1) = ?self" for t1
  proof -
    have o: "ordered st t1 t" using assms(1) that t by (simp add: in_order_def)
    show ?thesis using orderedD(2) [OF o here] orderedD(3) [OF o _ here] orderedD(4) [OF o, of p] w assms(4) by auto
  qed
  moreover have "(\<forall>q. waits ?st t2 q \<longrightarrow> leads (promises st) q p) \<and> \<not> kept_in ?st t2 p"
    if "t2 > t" "t2 < length (reactions st)" "t_self (reactions st ! t2) = ?self" for t2
  proof -
    have o: "ordered st t t2" using assms(1) that by (simp add: in_order_def)
    show ?thesis using orderedD(3) [OF o here] orderedD(5) [OF o, of p] w k assms(4) by auto
  qed
  ultimately show ?thesis using t assms(2) here by (auto simp: arrives_def routes_def)
qed

lemma arrivesD:
  assumes "arrives st t p"
  shows "t < length (reactions st)" "p < length (promises st)" "leads (promises st) (t_self (reactions st ! t)) p"
    "\<And>t1. t1 < t \<Longrightarrow> t_self (reactions st ! t1) = t_self (reactions st ! t) \<Longrightarrow> Start t1 \<notin> set (tasks st)"
    "\<And>t1 q. t1 < t \<Longrightarrow> t_self (reactions st ! t1) = t_self (reactions st ! t) \<Longrightarrow> waits st t1 q \<Longrightarrow> leads (promises st) p q"
    "\<And>t1. t1 < t \<Longrightarrow> t_self (reactions st ! t1) = t_self (reactions st ! t) \<Longrightarrow> Dispatch p (When t1) \<in> set (tasks st) \<Longrightarrow>
      (hop (promises st))\<^sup>+\<^sup>+ p p"
    "\<And>t2 q. t2 > t \<Longrightarrow> t2 < length (reactions st) \<Longrightarrow> t_self (reactions st ! t2) = t_self (reactions st ! t) \<Longrightarrow>
      waits st t2 q \<Longrightarrow> leads (promises st) q p"
    "\<And>t2. t2 > t \<Longrightarrow> t2 < length (reactions st) \<Longrightarrow> t_self (reactions st ! t2) = t_self (reactions st ! t) \<Longrightarrow> \<not> kept_in st t2 p"
  using assms unfolding arrives_def by blast+

lemma in_order_stored:
  assumes o: "in_order st" and a: "arrives st t p" and Pending: "promises st ! p = Pending ms ls"
  shows "in_order (promiseDispatch p (When t) st)"
proof -
  let ?st = "promiseDispatch p (When t) st"
  have st: "promises ?st = (promises st)[p := Pending (ms @ [When t]) ls]" "tasks ?st = tasks st" "reactions ?st = reactions st"
    by (simp_all add: promiseDispatch_def Pending)
  note p = arrivesD(2) [OF a]
  have l: "later (promises st) (promises ?st)" by (rule dispatch_later)
  have k: "kept_in ?st s q \<longleftrightarrow> kept_in st s q \<or> q = p \<and> s = t" for s q
    by (cases "q = p") (auto simp: kept_in_def st p Pending)
  have w: "waits ?st s q \<longleftrightarrow> waits st s q \<or> q = p \<and> s = t" for s q by (auto simp: waits_split k st(2))
  have no_cycle: "\<not> (hop (promises st))\<^sup>+\<^sup>+ p p" using hops_start [of "promises st" p p] Pending by auto
  have "ordered ?st t1 t2" if t12: "t1 < t2" "t2 < length (reactions st)" "t_self (reactions st ! t1) = t_self (reactions st ! t2)" for t1 t2
  proof -
    have o: "ordered st t1 t2" using o t12 by (simp add: in_order_def)
    show ?thesis
    proof (rule orderedI)
      show "precedes (tasks ?st) (Start t1) (Start t2)" using orderedD(1) [OF o] by (simp add: st)
      show "Start t1 \<notin> set (tasks ?st)" if "waits ?st t2 q" for q
        using that orderedD(2) [OF o, of q] arrivesD(4) [OF a] t12 unfolding w by (auto simp: st)
      show "leads (promises ?st) p2 p1" if "waits ?st t1 p1" "waits ?st t2 p2" for p1 p2
        using that orderedD(3) [OF o, of p1 p2] arrivesD(5) [OF a, of t1 p1] arrivesD(7) [OF a, of t2 p2] t12 leads_later [OF _ l]
        unfolding w by auto
      show "precedes (tasks ?st) (Dispatch q (When t1)) (Dispatch q (When t2))" if "\<not> (hop (promises ?st))\<^sup>+\<^sup>+ q q" for q
        using orderedD(4) [OF o, of q] that hops_later [OF _ l, of q q] by (auto simp: st(2))
      show "Dispatch q (When t1) \<notin> set (tasks ?st)" if "kept_in ?st t2 q" for q
        using that orderedD(5) [OF o, of q] arrivesD(6) [OF a, of t1] t12 no_cycle unfolding k by (auto simp: st(2))
      show "precedes ms' (When t1) (When t2)" if "q < length (promises ?st)" "promises ?st ! q = Pending ms' ls'" for q ms' ls'
      proof (cases "q = p")
        case True
        then have "ms' = ms @ [When t]" using that p by (simp add: st)
        moreover have "\<not> (t1 = t \<and> When t2 \<in> set ms)" using arrivesD(8) [OF a, of t2] t12 p Pending by (auto simp: kept_in_def)
        ultimately show ?thesis using orderedD(6) [OF o p Pending] by auto
      next
        case False
        then show ?thesis using that orderedD(6) [OF o, of q ms' ls'] by (simp add: st)
      qed
      show "t_done (reactions ?st ! t1)" if "t_done (reactions ?st ! t2)" using that orderedD(7) [OF o] by (simp add: st)
    qed
  qed
  moreover have "hopped ?st"
    using o hops_later [OF _ l] by (simp add: in_order_def hopped_def st)
  ultimately show ?thesis by (simp add: in_order_def st)
qed

lemma in_order_forwarded:
  assumes o: "in_order st" and a: "arrives st t p" and Resolved: "promises st ! p = Resolved q"
  shows "in_order (promiseDispatch p (When t) st)"
proof -
  let ?st = "promiseDispatch p (When t) st"
  have st: "?st = st\<lparr>tasks := tasks st @ [Dispatch q (When t)]\<rparr>"
    by (simp add: promiseDispatch_def nextTick_def Resolved)
  note p = arrivesD(2) [OF a]
  have h: "hop (promises st) p q" using p Resolved by simp
  have k: "kept_in ?st s r \<longleftrightarrow> kept_in st s r" for s r by (simp add: kept_in_def st)
  have w: "waits ?st s r \<longleftrightarrow> waits st s r \<or> r = q \<and> s = t" for s r by (auto simp: waits_split k) (auto simp: st)
  have on: "leads (promises st) q r" if "t1 < t" "t_self (reactions st ! t1) = t_self (reactions st ! t)" "waits st t1 r" for t1 r
  proof (cases "p = r")
    case True
    then have "Dispatch p (When t1) \<in> set (tasks st)" using that(3) Resolved by (simp add: waits_split kept_in_def)
    then have "(hop (promises st))\<^sup>+\<^sup>+ p p" using arrivesD(6) [OF a that(1,2)] by simp
    then show ?thesis using True Resolved by (auto dest!: tranclpD)
  qed (use leads_tail [OF arrivesD(5) [OF a that] _ Resolved] in simp)
  have cycle: "(hop (promises st))\<^sup>+\<^sup>+ q q" if "leads (promises st) q p" using that h by (rule rtranclp_into_tranclp1)
  have "ordered ?st t1 t2" if t12: "t1 < t2" "t2 < length (reactions st)" "t_self (reactions st ! t1) = t_self (reactions st ! t2)" for t1 t2
  proof -
    have o: "ordered st t1 t2" using o t12 by (simp add: in_order_def)
    have behind: "leads (promises st) r p" if "t1 = t" "waits st t2 r" for r
      using arrivesD(7) [OF a, of t2 r] that t12 by simp
    show ?thesis
    proof (rule orderedI)
      show "precedes (tasks ?st) (Start t1) (Start t2)" using orderedD(1) [OF o] by (simp add: st)
      show "Start t1 \<notin> set (tasks ?st)" if "waits ?st t2 r" for r
        using that orderedD(2) [OF o, of r] arrivesD(4) [OF a, of t1] t12 unfolding w by (auto simp: st)
      show "leads (promises ?st) p2 p1" if w1: "waits ?st t1 p1" and w2: "waits ?st t2 p2" for p1 p2
      proof -
        consider "waits st t1 p1" "waits st t2 p2" | "t1 = t" "p1 = q" "waits st t2 p2" | "t2 = t" "p2 = q" "waits st t1 p1"
          using w1 w2 t12(1) unfolding w by auto
        then have "leads (promises st) p2 p1"
        proof cases
          case 2
          then show ?thesis using rtranclp.rtrancl_into_rtrancl [OF behind [OF 2(1,3)] h] by simp
        qed (use orderedD(3) [OF o, of p1 p2] on t12 in simp_all)
        then show ?thesis by (simp add: st)
      qed
      show "precedes (tasks ?st) (Dispatch r (When t1)) (Dispatch r (When t2))" if c: "\<not> (hop (promises ?st))\<^sup>+\<^sup>+ r r" for r
      proof -
        have "precedes (tasks st) (Dispatch r (When t1)) (Dispatch r (When t2))" using orderedD(4) [OF o, of r] c by (simp add: st)
        moreover have "False" if "r = q" "t1 = t" "Dispatch r (When t2) \<in> set (tasks st)"
          using behind [of q] cycle that c by (simp add: waits_split st)
        ultimately show ?thesis using t12(1) by (auto simp: st)
      qed
      show "Dispatch r (When t1) \<notin> set (tasks ?st)" if kr: "kept_in ?st t2 r" for r
      proof -
        have "False" if "r = q" "t1 = t"
        proof -
          have "leads (promises st) q p" using behind [of q] kr that k by (simp add: waits_split)
          then have "(hop (promises st))\<^sup>+\<^sup>+ q q" by (rule cycle)
          then show False using not_kept_twice [of st t2 r] kr k that by simp
        qed
        then show ?thesis using orderedD(5) [OF o, of r] kr k by (auto simp: st)
      qed
      show "precedes kept (When t1) (When t2)" if "r < length (promises ?st)" "promises ?st ! r = Pending kept ls" for r kept ls
        using that orderedD(6) [OF o, of r kept ls] by (simp add: st)
      show "t_done (reactions ?st ! t1)" if "t_done (reactions ?st ! t2)" using that orderedD(7) [OF o] by (simp add: st)
    qed
  qed
  moreover have "hopped ?st" unfolding hopped_def
  proof (intro allI impI)
    fix s r assume "Dispatch r (When s) \<in> set (tasks ?st)"
    then consider "Dispatch r (When s) \<in> set (tasks st)" | "r = q" "s = t" by (auto simp: st)
    then show "(hop (promises ?st))\<^sup>+\<^sup>+ (t_self (reactions ?st ! s)) r"
    proof cases
      case 1
      then show ?thesis using assms(1) by (simp add: in_order_def hopped_def st)
    next
      case 2
      then show ?thesis using rtranclp_into_tranclp1 [OF arrivesD(3) [OF a] h] by (simp add: st)
    qed
  qed
  ultimately show ?thesis by (simp add: in_order_def st)
qed

text \<open>Where the promise is settled, all earlier calls have been served.\<close>

lemma earlier_done:
  assumes "in_order st" "arrives st t p" "inv {t} st" "\<And>q. promises st ! p \<noteq> Resolved q" "\<not> is_pending (promises st ! p)"
    and "t1 < t" "t_self (reactions st ! t1) = t_self (reactions st ! t)"
  shows "t_done (reactions st ! t1)"
proof (rule ccontr)
  assume "\<not> t_done (reactions st ! t1)"
  then have "located st t1" using assms(3,6) arrivesD(1) [OF assms(2)] by (simp add: inv_def)
  then obtain q where q: "waits st t1 q" using arrivesD(4) [OF assms(2,6,7)] by (auto simp: located_def)
  have "q = p" by (rule leads_end [OF arrivesD(5) [OF assms(2,6,7) q] assms(4)])
  then have "Dispatch p (When t1) \<in> set (tasks st)" using q assms(5) by (auto simp: waits_split kept_in_def split: promise.splits)
  then obtain r where "promises st ! p = Resolved r" using hops_start [OF arrivesD(6) [OF assms(2,6,7)]] by blast
  then show False using assms(4) by simp
qed

lemma in_order_marked:
  assumes "in_order st" "\<And>t1. t1 < t \<Longrightarrow> t_self (reactions st ! t1) = t_self (reactions st ! t) \<Longrightarrow> t_done (reactions st ! t1)"
    and "t < length (reactions st)"
  shows "in_order (st\<lparr>reactions := (reactions st)[t := (reactions st ! t)\<lparr>t_done := True\<rparr>], calls := cs\<rparr>)" (is "in_order ?st")
proof -
  have self: "t_self (reactions ?st ! s) = t_self (reactions st ! s)" for s by (cases "s = t") (simp_all add: assms(3))
  have k: "kept_in ?st s q = kept_in st s q" for s q by (simp add: kept_in_def)
  have "ordered ?st t1 t2" if t12: "t1 < t2" "t2 < length (reactions st)" "t_self (reactions st ! t1) = t_self (reactions st ! t2)" for t1 t2
  proof -
    have o: "ordered st t1 t2" using assms(1) t12 by (simp add: in_order_def)
    show ?thesis
    proof (rule ordered_same [OF o, of _ "[]"])
      show "t_done (reactions ?st ! t1)" if "t_done (reactions ?st ! t2)"
        using that assms(2) [of t1] t12 orderedD(7) [OF o] assms(3) by (cases "t1 = t"; cases "t2 = t") simp_all
    qed (simp_all add: k)
  qed
  then show ?thesis using assms(1) self by (simp add: in_order_def hopped_def)
qed

section \<open>Every program\<close>

lemma in_order_created:
  assumes "in_order st"
  shows "in_order (snd (fulfill v st))" "in_order (snd (reject v st))" "in_order (snd (q_defer st))" "in_order (snd (Q v st))"
proof -
  show f: "in_order (snd (fulfill v st))" for v :: "'a val" by (simp add: fulfill_def make_promise_def in_order_made assms)
  show d: "in_order (snd (q_defer st))" by (simp add: q_defer_def make_promise_def in_order_made assms)
  have "in_order (st\<lparr>promises := promises st @ [Rejected v]\<rparr>)" by (simp add: in_order_made assms)
  then show "in_order (snd (reject v st))" by (rule in_order_hidden) (simp_all add: op_defs)
  show "in_order (snd (Q v st))"
  proof (cases v)
    case (Thenable e)
    then have "snd (Q v st) = (snd (q_defer st))\<lparr>tasks := tasks (snd (q_defer st)) @ [Assimilate (length (promises st)) e]\<rparr>"
      by (simp add: op_defs)
    then show ?thesis using in_order_tasks [OF d, of "[Assimilate (length (promises st)) e]"] by simp
  qed (simp_all add: Q_def f assms)
qed

lemma in_order_deferred_by:
  assumes "in_order (snd (create st))" "in_order st" "routes st" "proceeds st (snd (create st))" "d < length (promises st)"
  shows "in_order (deferred_by create d st)"
proof (cases "is_pending (promises st ! d)")
  case True
  obtain p st1 where c: "create st = (p, st1)" by fastforce
  have "d < length (promises st1)" "routes st1" using assms(3-5) c by (auto simp: proceeds_def later_def)
  then show ?thesis using in_order_become [of st1 d p] assms(1) c True by (simp add: deferred_by_def)
qed (simp add: deferred_by_def assms(2))

lemma in_order_deferred:
  assumes "in_order st" "routes st" "d < length (promises st)"
  shows "in_order (deferred_resolve d v st)" "in_order (deferred_fulfill d v st)" "in_order (deferred_reject d v st)"
  unfolding deferred_resolve_def deferred_fulfill_def deferred_reject_def
  by (rule in_order_deferred_by; simp add: in_order_created proceeds_created assms)+

lemma in_order_settle:
  assumes "in_order st" "routes st" "d < length (promises st)"
  shows "in_order (settle_with d outcome st)"
proof (cases outcome)
  case (Throw e)
  obtain p st1 where c: "reject e st = (p, st1)" by fastforce
  then have g: "proceeds st st1" and "in_order st1" using proceeds_created(2) [of st e] in_order_created(2) [OF assms(1), of e] by simp_all
  then show ?thesis using in_order_deferred(1) [of st1 d] assms Throw c by (auto simp: settle_with_def proceeds_def later_def)
qed (simp add: settle_with_def in_order_deferred assms)

lemma in_order_notify: "in_order st \<Longrightarrow> in_order (deferred_notify d v st)"
  by (simp add: deferred_notify_def next_ticks_def in_order_tasks split: promise.split)

lemma in_order_run_callback:
  assumes "in_order st" "inv {t} st" "t < length (reactions st)"
    and "\<And>t1. t1 < t \<Longrightarrow> t_self (reactions st ! t1) = t_self (reactions st ! t) \<Longrightarrow> t_done (reactions st ! t1)"
  shows "in_order (run_callback ok t v st)"
proof (cases "t_done (reactions st ! t)")
  case False
  let ?st = "\<lambda>cs. st\<lparr>reactions := (reactions st)[t := (reactions st ! t)\<lparr>t_done := True\<rparr>], calls := cs\<rparr>"
  have d: "t_deferred (reactions st ! t) < length (promises st)"
    using assms(2) nth_mem [OF assms(3)] by (auto simp: inv_def ranges_def)
  have o: "in_order (?st cs)" for cs by (rule in_order_marked [OF assms(1,4,3)])
  have w: "waits (?st cs) = waits st" for cs by (simp add: waits_def fun_eq_iff)
  have self: "t_self (reactions (?st cs) ! s) = t_self (reactions st ! s)" for s cs by (cases "s = t") (simp_all add: assms(3))
  have r: "routes (?st cs)" for cs using assms(2) self w by (simp add: routes_def inv_def)
  have s: "in_order (settle_with (t_deferred (reactions st ! t)) outcome (?st cs))" for outcome cs
    by (rule in_order_settle [OF o r]) (simp add: d)
  show ?thesis by (rule run_callback_settles [OF False, of ok v]) (simp add: s)
qed (simp add: run_callback_def assms(1))

lemma in_order_dispatch:
  assumes "in_order st" "arrives st t p" "inv {t} st"
  shows "in_order (promiseDispatch p (When t) st)"
proof (cases "promises st ! p")
  case (Fulfilled v)
  have "in_order (run_callback True t v st)"
    by (rule in_order_run_callback [OF assms(1,3) arrivesD(1) [OF assms(2)]], rule earlier_done [OF assms]) (simp_all add: Fulfilled)
  then show ?thesis by (simp add: promiseDispatch_def Fulfilled)
next
  case (Rejected v)
  let ?st = "untrackRejection p st"
  have "in_order ?st" using assms(1) by (rule in_order_hidden) simp_all
  moreover have "inv {t} ?st" using assms(3) by (rule inv_grows) (rule proceeds_hidden; simp)
  moreover have "t_done (reactions st ! t1)" if "t1 < t" "t_self (reactions st ! t1) = t_self (reactions st ! t)" for t1
    by (rule earlier_done [OF assms]) (use that in \<open>simp_all add: Rejected\<close>)
  ultimately have "in_order (run_callback False t v ?st)"
    by (intro in_order_run_callback) (simp_all add: arrivesD(1) [OF assms(2)])
  then show ?thesis by (simp add: promiseDispatch_def Rejected)
qed (rule in_order_stored [OF assms(1,2)] in_order_forwarded [OF assms(1,2)]; assumption)+

lemma in_order_watch:
  assumes "in_order st"
  shows "in_order (promiseDispatch p (Watch t) st)"
proof (cases "promises st ! p")
  case (Pending ms ls)
  let ?st = "promiseDispatch p (Watch t) st"
  have st: "promises ?st = (promises st)[p := Pending (ms @ [Watch t]) (ls @ [t])]" "tasks ?st = tasks st" "reactions ?st = reactions st"
    by (simp_all add: promiseDispatch_def Pending)
  have l: "later (promises st) (promises ?st)" by (rule dispatch_later)
  have k: "kept_in ?st s q = kept_in st s q" for s q
    by (cases "q = p") (auto simp: kept_in_def st Pending)
  have "ordered ?st t1 t2" if "t1 < t2" "t2 < length (reactions st)" "t_self (reactions st ! t1) = t_self (reactions st ! t2)" for t1 t2
  proof -
    have o: "ordered st t1 t2" using assms that by (simp add: in_order_def)
    show ?thesis
    proof (rule orderedI)
      show "precedes ms' (When t1) (When t2)" if "q < length (promises ?st)" "promises ?st ! q = Pending ms' ls'" for q ms' ls'
        using that orderedD(6) [OF o, of q] Pending by (cases "q = p") (auto simp: st)
      show "precedes (tasks ?st) (Dispatch q (When t1)) (Dispatch q (When t2))" if "\<not> (hop (promises ?st))\<^sup>+\<^sup>+ q q" for q
        using orderedD(4) [OF o, of q] that hops_later [OF _ l, of q q] by (auto simp: st(2))
      show "leads (promises ?st) p2 p1" if "waits ?st t1 p1" "waits ?st t2 p2" for p1 p2
        using that orderedD(3) [OF o, of p1 p2] leads_later [OF _ l] by (simp add: waits_split k st(2))
    qed (use orderedD(1,2,5,7) [OF o] k in \<open>auto simp: st(2,3) waits_split\<close>)
  qed
  moreover have "hopped ?st" using assms hops_later [OF _ l] by (simp add: in_order_def hopped_def st)
  ultimately show ?thesis by (simp add: in_order_def st)
next
  case (Resolved q)
  then show ?thesis using in_order_tasks [OF assms, of "[Dispatch q (Watch t)]"] by (simp add: promiseDispatch_def nextTick_def)
qed (simp_all add: promiseDispatch_def assms)

lemma in_order_flush_step:
  assumes "in_order st" "inv {} st"
  shows "in_order (flush_step st)"
proof (cases "tasks st")
  case Nil
  then show ?thesis
    by (intro in_order_hidden [OF assms(1)]) (simp_all add: flush_step_def run_late_def split: late.split option.split)
next
  case (Cons x rest)
  let ?st = "st\<lparr>tasks := rest\<rparr>"
  have t: "in_order ?st" by (rule in_order_taken [OF assms(1) Cons])
  have i: "inv (dispatched x) ?st" by (rule inv_taken [OF assms(2) Cons])
  have rg: "ranges st" "routes st" using assms(2) by (simp_all add: inv_def)
  have "in_order (run_task x ?st)"
  proof (cases x)
    case (Start t)
    then show ?thesis
      using in_order_dispatch [OF t] taken_start [OF assms(1) rg(2,1)] i Cons by (simp add: run_task_def)
  next
    case (Dispatch p m)
    then show ?thesis
      using in_order_dispatch [OF t] taken_dispatch [OF assms(1) rg(2,1)] i Cons in_order_watch [OF t]
      by (cases m) (simp_all add: run_task_def)
  next
    case (CallProgress s v)
    then show ?thesis by (simp add: run_task_def in_order_notify t split: outcome.split)
  next
    case (Assimilate d thrown)
    have "routes ?st" "d < length (promises st)"
      using i rg(1) Cons Assimilate by (simp_all add: inv_def ranges_def task_ok_def)
    then show ?thesis using Assimilate by (simp add: run_task_def in_order_deferred t split: option.split)
  qed
  then show ?thesis by (simp add: flush_step_Cons [OF Cons])
qed

lemma in_order_then:
  assumes "in_order st" "inv {} st"
  shows "in_order (snd (promise_then p f r g st))"
proof -
  let ?r = "\<lparr>t_self = p, t_fulfilled = f, t_rejected = r, t_progressed = g, t_deferred = length (promises st), t_done = False\<rparr>"
  let ?t = "length (reactions st)"
  define st1 where "st1 = st\<lparr>promises := promises st @ [Pending [] []]\<rparr>"
  define st2 where "st2 = st1\<lparr>reactions := reactions st @ [?r], tasks := tasks st @ [Start ?t]\<rparr>"
  have e: "snd (promise_then p f r g st) = promiseDispatch p (Watch ?t) st2"
    by (simp add: promise_then_def op_defs st2_def st1_def)
  have o1: "in_order st1" unfolding st1_def by (rule in_order_made [OF assms(1)]) simp
  have "inv {} st1" unfolding st1_def by (rule inv_grows [OF assms(2) proceeds_make]) simp
  then have rg: "ranges st1" by (simp add: inv_def)
  have k: "kept_in st2 t q = kept_in st1 t q" for t q by (simp add: kept_in_def st2_def)
  have w: "waits st2 t q = waits st1 t q" for t q by (auto simp: waits_split k) (auto simp: st2_def st1_def)
  have small: "t < ?t" if "waits st1 t q" for t q
    using that unfolding waits_split
  proof
    assume "Dispatch q (When t) \<in> set (tasks st1)"
    then show ?thesis using rg by (force simp: ranges_def task_ok_def st1_def)
  next
    assume "kept_in st1 t q"
    then have "q < length (promises st1)" "\<exists>ms ls. promises st1 ! q = Pending ms ls \<and> When t \<in> set ms"
      by (auto simp: kept_in_def split: promise.splits)
    then show ?thesis using ranges_nth [OF rg, of q] by (force simp: promise_ok_def st1_def)
  qed
  have small_start: "t < ?t" if "Start t \<in> set (tasks st)" for t
    using that rg by (force simp: ranges_def task_ok_def st1_def)
  have "ordered st2 t1 t2" if t12: "t1 < t2" "t2 < Suc ?t" "t_self (reactions st2 ! t1) = t_self (reactions st2 ! t2)" for t1 t2
  proof (cases "t2 = ?t")
    case True
    have "\<not> waits st2 t2 q" for q using small [of t2 q] w True by auto
    moreover have "When t2 \<notin> set ms" if "q < length (promises st2)" "promises st2 ! q = Pending ms ls" for q ms ls
      using small [of t2 q] that True by (force simp: waits_split kept_in_def st2_def)
    ultimately show ?thesis
    proof (intro orderedI, goal_cases)
      case 1
      show ?case using small_start [of t2] True precedes_absent [of "Start t2" "tasks st" "Start t1"] t12(1) by (auto simp: st2_def)
    next
      case (4 q)
      then show ?case by (intro precedes_absent) (auto simp: waits_split)
    next
      case 7
      then show ?case by (simp add: st2_def True)
    qed (auto simp: waits_split intro: precedes_absent)
  next
    case False
    then have old: "t2 < ?t" "t1 < ?t" using t12 by auto
    then have o: "ordered st1 t1 t2" using o1 t12 by (simp add: in_order_def st2_def st1_def nth_append)
    show ?thesis
    proof (rule orderedI)
      show "precedes (tasks st2) (Start t1) (Start t2)" using orderedD(1) [OF o] old by (auto simp: st2_def st1_def)
      show "Start t1 \<notin> set (tasks st2)" if "waits st2 t2 q" for q
        using orderedD(2) [OF o, of q] that w old by (auto simp: st2_def st1_def)
      show "leads (promises st2) p2 p1" if "waits st2 t1 p1" "waits st2 t2 p2" for p1 p2
        using orderedD(3) [OF o, of p1 p2] that w by (simp add: st2_def)
      show "precedes (tasks st2) (Dispatch q (When t1)) (Dispatch q (When t2))" if "\<not> (hop (promises st2))\<^sup>+\<^sup>+ q q" for q
        using orderedD(4) [OF o, of q] that by (auto simp: st2_def st1_def)
      show "Dispatch q (When t1) \<notin> set (tasks st2)" if "kept_in st2 t2 q" for q
        using orderedD(5) [OF o, of q] that k by (auto simp: st2_def st1_def)
      show "precedes ms (When t1) (When t2)" if "q < length (promises st2)" "promises st2 ! q = Pending ms ls" for q ms ls
        using orderedD(6) [OF o, of q] that by (simp add: st2_def)
      show "t_done (reactions st2 ! t1)" if "t_done (reactions st2 ! t2)"
        using orderedD(7) [OF o] that old by (simp add: st2_def st1_def nth_append)
    qed
  qed
  moreover have "hopped st2" unfolding hopped_def
  proof (intro allI impI)
    fix t q assume "Dispatch q (When t) \<in> set (tasks st2)"
    then have d: "Dispatch q (When t) \<in> set (tasks st1)" by (auto simp: st2_def st1_def)
    then have "t < ?t" using small [of t q] by (simp add: waits_split)
    then show "(hop (promises st2))\<^sup>+\<^sup>+ (t_self (reactions st2 ! t)) q"
      using d o1 by (simp add: in_order_def hopped_def st2_def st1_def nth_append)
  qed
  ultimately have "in_order st2" by (simp add: in_order_def) (simp add: st2_def st1_def)
  then show ?thesis by (simp add: e in_order_watch)
qed

lemma in_order_step:
  assumes "in_order st" "inv {} st" "step st st'"
  shows "in_order st'"
proof -
  obtain a where a: "allowed a st" "st' = perform a st" using assms(3) by (auto elim: step.cases)
  have r: "routes st" using assms(2) by (simp add: inv_def)
  show ?thesis
    using a assms(1)
    by (cases a) (auto simp: perform_def allowed_def in_order_created in_order_deferred r in_order_notify in_order_then assms(2)
        in_order_flush_step resetUnhandledRejections_def stopUnhandledRejectionTracking_def intro: in_order_hidden)
qed

lemma in_order_steps: "steps initial st \<Longrightarrow> in_order st"
proof (induction rule: rtranclp_induct)
  case base
  show ?case by (simp add: in_order_def hopped_def initial_def)
next
  case (step st st')
  then show ?case using in_order_step inv_steps by blast
qed

text \<open>
  C4. The calls of \<open>then\<close> on one promise are served in the order in which they were made.
\<close>

theorem served_in_order:
  assumes "steps initial st" "t1 < t2" "t2 < length (reactions st)" "t_self (reactions st ! t1) = t_self (reactions st ! t2)"
    and "t_done (reactions st ! t2)"
  shows "t_done (reactions st ! t1)"
proof -
  have "ordered st t1 t2" using in_order_steps [OF assms(1)] assms(2-4) by (simp add: in_order_def)
  then show ?thesis using assms(5) by (rule orderedD(7))
qed

theorem served_in_order_witness: "t_done (reactions (after 15) ! 0)"
  by (rule served_in_order [OF after_reached, of 0 1]) code_simp+

end
