(* ===== verification/UrlJoin.thy ===== *)
theory UrlJoin
  imports JsValue
begin

text \<open>
  The addresses of references, in \<open>lib/resolver.js\<close>: an address is split into protocol, domain, path
  and fragment, put together again, and a reference is joined to the address of its document.
\<close>

section \<open>Splitting\<close>

record url =
  proto :: "jstr option"
  domain :: "jstr option"
  path :: "jstr option"
  fragment :: "jstr option"

text \<open>The first match of \<open>/[a-z]+:\/\//i\<close> anywhere in a text, without the colon and the slashes.\<close>

definition is_letter :: "16 word \<Rightarrow> bool" where
  "is_letter c \<longleftrightarrow> (65 \<le> code c \<and> code c \<le> 90) \<or> (97 \<le> code c \<and> code c \<le> 122)"

fun exec_proto :: "jstr \<Rightarrow> jstr option" where
  "exec_proto [] = None"
| "exec_proto (c # s) =
    (let w = takeWhile is_letter (c # s) in
     if w \<noteq> [] \<and> starts_with (js ''://'') (drop (length w) (c # s)) then Some w else exec_proto s)"

definition splitUrl :: "jstr \<Rightarrow> url" where
  "splitUrl url =
    (let prot = exec_proto url;
         url = (case prot of Some p \<Rightarrow> drop (length p + 1) url | None \<Rightarrow> url);
         dom = (if take 2 url = js ''//'' then Some (hd (split_at 47 (drop 2 url))) else None);
         url = (case dom of Some d \<Rightarrow> drop (2 + length d) url | None \<Rightarrow> url);
         p = split_at 35 url
     in \<lparr>proto = prot, domain = dom, path = (if hd p \<noteq> [] then Some (hd p) else None),
         fragment = (if 1 < length p then Some (join (js ''#'') (tl p)) else None)\<rparr>)"

section \<open>Joining\<close>

definition unsplitUrl :: "url \<Rightarrow> jstr" where
  "unsplitUrl url =
    (let result = (case path url of Some p \<Rightarrow> p | None \<Rightarrow> []);
         result = (case fragment url of Some f \<Rightarrow> result @ js ''#'' @ f | None \<Rightarrow> result)
     in case domain url of
          None \<Rightarrow> result
        | Some d \<Rightarrow>
            let result = (if take 1 result = js ''/'' then drop 1 result else result);
                result = js ''//'' @ d @ js ''/'' @ result
            in (case proto url of Some p \<Rightarrow> p @ js '':'' @ result | None \<Rightarrow> result))"

text \<open>The loop over the leading \<open>..\<close> and \<open>.\<close> of a relative path.\<close>

fun climb :: "jstr list \<Rightarrow> jstr list \<Rightarrow> jstr list \<times> jstr list" where
  "climb here (r # relpath) =
    (if r = js ''..'' then climb (butlast here) relpath
     else if r = js ''.'' then climb here relpath else (here, r # relpath))"
| "climb here [] = (here, [])"

definition joinUrl :: "jstr \<Rightarrow> jstr \<Rightarrow> jstr" where
  "joinUrl base rel =
    (let relsp = splitUrl rel; result = splitUrl base in
     if domain relsp \<noteq> None then rel
     else case path relsp of
       None \<Rightarrow> unsplitUrl (result\<lparr>fragment := fragment relsp\<rparr>)
     | Some relpath \<Rightarrow>
         if take 1 relpath = js ''/'' then unsplitUrl (result\<lparr>path := Some relpath, fragment := fragment relsp\<rparr>)
         else
           let here = (case path result of None \<Rightarrow> [] | Some p \<Rightarrow> split_at 47 p);
               (here, there) = climb (butlast here) (split_at 47 relpath)
           in unsplitUrl (result\<lparr>path := Some (join (js ''/'') (here @ there)), fragment := fragment relsp\<rparr>))"

section \<open>Absolute addresses\<close>

text \<open>\<open>p://d\<close> and a rest that is empty or goes on after the domain.\<close>

definition absolute :: "jstr \<Rightarrow> bool" where
  "absolute u \<longleftrightarrow> (\<exists>p d rest. p \<noteq> [] \<and> (\<forall>c \<in> set p. is_letter c) \<and> 47 \<notin> set d \<and> (rest = [] \<or> hd rest = 47) \<and>
     u = p @ js ''://'' @ d @ rest)"

lemma not_letter [simp]: "\<not> is_letter 58" "\<not> is_letter 47" "\<not> is_letter 35" "\<not> is_letter 46"
  by (simp_all add: is_letter_def)

lemma js_slash [simp]: "js ''/'' = [47]" "js '':'' = [58]" "js ''//'' = [47, 47]" "js ''://'' = [58, 47, 47]" "js ''#'' = [35]"
  "js ''..'' = [46, 46]" "js ''.'' = [46]"
  by (simp_all add: js_def)

lemma takeWhile_letters: "\<forall>c \<in> set p. is_letter c \<Longrightarrow> \<not> is_letter c \<Longrightarrow> takeWhile is_letter (p @ c # s) = p"
  by (induction p) auto

lemma exec_proto_absolute:
  assumes "p \<noteq> []" "\<forall>c \<in> set p. is_letter c"
  shows "exec_proto (p @ 58 # 47 # 47 # s) = Some p"
proof -
  obtain c q where p: "p = c # q" using assms(1) by (cases p) auto
  have "takeWhile is_letter (p @ 58 # 47 # 47 # s) = p" by (rule takeWhile_letters) (use assms in auto)
  then show ?thesis using p by (simp add: Let_def starts_with_def)
qed

lemma split_first: "hd (split_at c s) = takeWhile (\<lambda>x. x \<noteq> c) s"
proof (induction s)
  case (Cons x s)
  then show ?case using split_not_Nil [of c s] by (auto split: list.splits)
qed simp

lemma splitUrl_absolute:
  assumes "p \<noteq> []" "\<forall>c \<in> set p. is_letter c" "47 \<notin> set d" "rest = [] \<or> hd rest = 47"
  shows "splitUrl (p @ 58 # 47 # 47 # d @ rest) = \<lparr>proto = Some p, domain = Some d,
    path = (if hd (split_at 35 rest) \<noteq> [] then Some (hd (split_at 35 rest)) else None),
    fragment = (if 1 < length (split_at 35 rest) then Some (join [35] (tl (split_at 35 rest))) else None)\<rparr>"
proof -
  have "takeWhile (\<lambda>x. x \<noteq> 47) (d @ rest) = d" using assms(3,4) by (cases rest) (auto simp: takeWhile_append)
  then show ?thesis
    using assms(1,2) by (simp add: splitUrl_def exec_proto_absolute Let_def split_first del: split_at.simps)
qed

lemma unsplit_absolute:
  "\<exists>r. unsplitUrl \<lparr>proto = Some p, domain = Some d, path = pa, fragment = f\<rparr> = p @ 58 # 47 # 47 # d @ 47 # r"
  by (simp add: unsplitUrl_def Let_def)

lemma absolute_domain: "absolute u \<Longrightarrow> domain (splitUrl u) \<noteq> None"
proof -
  assume "absolute u"
  then obtain p d rest where b: "p \<noteq> []" "\<forall>c \<in> set p. is_letter c" "47 \<notin> set d" "rest = [] \<or> hd rest = 47" "u = p @ 58 # 47 # 47 # d @ rest"
    by (auto simp: absolute_def)
  show "domain (splitUrl u) \<noteq> None" using splitUrl_absolute [OF b(1-4)] b(5) by simp
qed

lemma absolute_joinUrl: "domain (splitUrl u) \<noteq> None \<Longrightarrow> joinUrl base u = u"
  by (simp add: joinUrl_def Let_def)

lemma joinUrl_cases:
  assumes "absolute base"
  shows "domain (splitUrl (joinUrl base rel)) \<noteq> None"
proof (cases "domain (splitUrl rel) = None")
  case True
  obtain p d rest where b: "p \<noteq> []" "\<forall>c \<in> set p. is_letter c" "47 \<notin> set d" "rest = [] \<or> hd rest = 47" "base = p @ 58 # 47 # 47 # d @ rest"
    using assms by (auto simp: absolute_def)
  have s: "proto (splitUrl base) = Some p" "domain (splitUrl base) = Some d" using splitUrl_absolute [OF b(1-4)] b(5) by simp_all
  have "\<exists>pa f. joinUrl base rel = unsplitUrl \<lparr>proto = Some p, domain = Some d, path = pa, fragment = f\<rparr>"
  proof -
    have u: "(splitUrl base)\<lparr>path := pa, fragment := f\<rparr> = \<lparr>proto = Some p, domain = Some d, path = pa, fragment = f\<rparr>"
      "(splitUrl base)\<lparr>fragment := f\<rparr> = \<lparr>proto = Some p, domain = Some d, path = path (splitUrl base), fragment = f\<rparr>" for pa f
      using s by simp_all
    show ?thesis using True by (auto simp: joinUrl_def Let_def u split: option.split prod.split)
  qed
  then obtain r where "joinUrl base rel = p @ 58 # 47 # 47 # d @ 47 # r" using unsplit_absolute by metis
  then show ?thesis using splitUrl_absolute [OF b(1-3), of "47 # r"] by simp
qed (simp add: joinUrl_def Let_def)

lemma joinUrl_again: "absolute base \<Longrightarrow> joinUrl other (joinUrl base rel) = joinUrl base rel"
  by (rule absolute_joinUrl [OF joinUrl_cases])

text \<open>
  Joining a reference to the address of a document settles it: joined again, to any other
  address, the result stays as it is.
\<close>

theorem join_settles:
  assumes "absolute base"
  shows "joinUrl other (joinUrl base rel) = joinUrl base rel"
  using assms by (rule joinUrl_again)

theorem join_settles_witness:
  "joinUrl (js ''http://other/x'') (joinUrl (js ''http://host/dir/a.json'') (js ''b.json#/Pet'')) =
     joinUrl (js ''http://host/dir/a.json'') (js ''b.json#/Pet'')"
proof (rule join_settles)
  show "absolute (js ''http://host/dir/a.json'')"
    unfolding absolute_def
    by (rule exI [of _ "js ''http''"], rule exI [of _ "js ''host''"], rule exI [of _ "js ''/dir/a.json''"]) (simp add: js_def is_letter_def)
qed

section \<open>Relative references\<close>

lemma climb_up:
  assumes "segs \<noteq> []" "hd segs \<noteq> [46, 46]" "hd segs \<noteq> [46]"
  shows "climb here (replicate n [46, 46] @ segs) = (take (length here - n) here, segs)"
proof (induction n arbitrary: here)
  case 0
  then show ?case using assms by (cases segs) simp_all
next
  case (Suc n)
  then show ?case by (simp add: butlast_conv_take min_def)
qed

lemma join_parts: "xs \<noteq> [] \<Longrightarrow> ys \<noteq> [] \<Longrightarrow> join c (xs @ ys) = join c xs @ c @ join c ys"
proof (induction c xs rule: join.induct)
  case (2 sep x)
  then show ?case by (cases ys) auto
qed auto

lemma set_joined: "set (join c xs) \<subseteq> set c \<union> \<Union> (set ` set xs)"
  by (induction c xs rule: join.induct) auto

lemma no_proto: "58 \<notin> set s \<Longrightarrow> exec_proto s = None"
proof (induction s)
  case (Cons c s)
  have "\<not> starts_with [58, 47, 47] (drop n (c # s))" for n
  proof
    assume "starts_with [58, 47, 47] (drop n (c # s))"
    then have "58 \<in> set (drop n (c # s))" by (auto simp: starts_with_iff)
    then show False using Cons.prems in_set_dropD by fast
  qed
  then show ?case using Cons by (simp add: Let_def)
qed simp

lemma splitUrl_relative:
  assumes "58 \<notin> set r" "take 2 r \<noteq> [47, 47]" "35 \<notin> set r" "r \<noteq> []" "f = [] \<or> hd f = 35" "58 \<notin> set f"
  shows "splitUrl (r @ f) = \<lparr>proto = None, domain = None, path = Some r, fragment = (if f = [] then None else Some (tl f))\<rparr>"
proof -
  have "exec_proto (r @ f) = None" by (rule no_proto) (use assms in simp)
  moreover have "take 2 (r @ f) \<noteq> [47, 47]"
  proof (cases "length r < 2")
    case True
    then obtain c where "r = [c]" using assms(4) by (cases r) auto
    then show ?thesis using assms(5) by (cases f) auto
  qed (use assms(2) in simp)
  moreover have "split_at 35 (r @ f) = (if f = [] then [r] else r # split_at 35 (tl f))"
    using assms(3,5) split_append [of 35 r "tl f"] by (cases f) (auto simp: split_plain)
  ultimately show ?thesis using assms(2,4) by (cases "f = []") (simp_all add: splitUrl_def Let_def split_join del: split_at.simps take_append)
qed

text \<open>
  C0. A relative reference is resolved against the directory of its document: each leading \<open>..\<close>
  goes one directory up, and the fragment is that of the reference.
\<close>

theorem join_relative:
  assumes "p \<noteq> []" "\<forall>c \<in> set p. is_letter c" "47 \<notin> set d"
    and "\<forall>s \<in> set (dirs @ [file] @ segs). 47 \<notin> set s \<and> 35 \<notin> set s" "\<forall>s \<in> set segs. 58 \<notin> set s"
    and "n \<le> length dirs" "segs \<noteq> []" "hd segs \<notin> {[], [46], [46, 46]}" "f = [] \<or> hd f = 35" "58 \<notin> set f"
  shows "joinUrl (p @ js ''://'' @ d @ js ''/'' @ join (js ''/'') (dirs @ [file])) (join (js ''/'') (replicate n (js ''..'') @ segs) @ f) =
    p @ js ''://'' @ d @ js ''/'' @ join (js ''/'') (take (length dirs - n) dirs @ segs) @ f"
proof -
  let ?base = "p @ 58 # 47 # 47 # d @ 47 # join [47] (dirs @ [file])"
  let ?rel = "join [47] (replicate n [46, 46] @ segs)"
  have path: "47 # join [47] (dirs @ [file]) = join [47] ([] # dirs @ [file])" by (cases dirs) simp_all
  have "35 \<notin> set (47 # join [47] (dirs @ [file]))"
    using set_joined [of "[47]" "dirs @ [file]"] assms(4) by auto
  then have "split_at 35 (47 # join [47] (dirs @ [file])) = [47 # join [47] (dirs @ [file])]" by (rule split_plain)
  then have b: "splitUrl ?base = \<lparr>proto = Some p, domain = Some d, path = Some (47 # join [47] (dirs @ [file])), fragment = None\<rparr>"
    using splitUrl_absolute [OF assms(1-3), of "47 # join [47] (dirs @ [file])"] by (simp del: split_at.simps)
  have sp: "split_at 47 (47 # join [47] (dirs @ [file])) = [] # dirs @ [file]"
    unfolding path by (rule split_join_plain) (use assms(4) in auto)
  have sr: "split_at 47 ?rel = replicate n [46, 46] @ segs"
    by (rule split_join_plain) (use assms(4,7) in auto)
  have "?rel \<noteq> []" "take 1 ?rel \<noteq> [47]"
  proof -
    have "\<exists>s ss. replicate n [46, 46] @ segs = s # ss \<and> s \<noteq> [] \<and> hd s \<noteq> 47"
      using assms(4,7,8) by (cases n; cases segs; cases "hd segs") auto
    then obtain s ss where "replicate n [46, 46] @ segs = s # ss" "s \<noteq> []" "hd s \<noteq> 47" by blast
    then show "?rel \<noteq> []" "take 1 ?rel \<noteq> [47]" by (cases ss; cases s; simp)+
  qed
  moreover have "58 \<notin> set ?rel" "35 \<notin> set ?rel"
    using set_joined [of "[47]" "replicate n [46, 46] @ segs"] assms(4,5) by (auto split: if_splits)
  moreover have "take 2 ?rel \<noteq> [47, 47]" using \<open>take 1 ?rel \<noteq> [47]\<close> by (cases ?rel) auto
  ultimately have r: "splitUrl (?rel @ f) = \<lparr>proto = None, domain = None, path = Some ?rel, fragment = (if f = [] then None else Some (tl f))\<rparr>"
    using assms(9,10) by (intro splitUrl_relative) auto
  have "climb ([] # dirs) (replicate n [46, 46] @ segs) = ([] # take (length dirs - n) dirs, segs)"
    using climb_up [of segs "[] # dirs" n] assms(6-8) by (simp add: Suc_diff_le)
  moreover have "butlast ([] # dirs @ [file]) = [] # dirs" by (cases dirs) simp_all
  moreover have "join [47] ([] # take (length dirs - n) dirs @ segs) = 47 # join [47] (take (length dirs - n) dirs @ segs)"
    using assms(7) by (cases "take (length dirs - n) dirs @ segs") simp_all
  ultimately show ?thesis
    using b r sp sr \<open>take 1 ?rel \<noteq> [47]\<close> assms(9)
    by (cases f) (auto simp: joinUrl_def unsplitUrl_def Let_def simp del: split_at.simps)
qed

theorem join_relative_witness:
  "joinUrl (js ''http://host/v1/pets/list.json'') (js ''../models/pet.json#/Pet'') = js ''http://host/v1/models/pet.json#/Pet''"
  using join_relative [of "js ''http''" "js ''host''" "[js ''v1'', js ''pets'']" "js ''list.json''" "[js ''models'', js ''pet.json'']" 1 "js ''#/Pet''"]
  by (simp add: js_def is_letter_def)

text \<open>The expression for a protocol is not anchored: one inside a reference spoils it.\<close>

theorem protocol_inside_reference:
  "joinUrl (js ''http://host/api.json'') (js ''pet.json?from=http://other'') = js ''http://host/son?from=http://other''"
  by (simp add: joinUrl_def splitUrl_def unsplitUrl_def js_def Let_def starts_with_def is_letter_def)

end
