(* ===== verification/Resolver.thy ===== *)
theory Resolver
  imports UrlJoin SwaggerClient
begin

text \<open>
  \<open>lib/resolver.js\<close>: the references of a specification, the entries of the table of those that are
  to be resolved, what an entry points at, and the composition of \<open>allOf\<close>.  A document is a tree,
  and the object of an entry is given by its path in the document.  The order of \<open>resolve\<close>, its
  requests, and the writing of the results into the document by \<open>finish\<close>, where objects come to be
  shared, are not modelled.
\<close>

section \<open>References\<close>

text \<open>\<open>v[k]\<close> for the keys a path has; members that come from a prototype are left out.\<close>

fun member :: "json \<Rightarrow> jstr \<Rightarrow> jserr + json" where
  "member VUndef k = Inl not_object"
| "member VNull k = Inl not_object"
| "member (VObj m) k = Inr (lookup_field m k)"
| "member (VArr vs) k = Inr (if k = js ''length'' then VNum (int (length vs)) else lookup_field (for_in (VArr vs)) k)"
| "member (VStr s) k = Inr (if k = js ''length'' then VNum (int (length s)) else lookup_field (for_in (VStr s)) k)"
| "member v k = Inr VUndef"

abbreviation enter :: "jstr \<Rightarrow> jstr list \<Rightarrow> jstr list" where
  "enter x xs \<equiv> (if x \<in> set xs then xs else xs @ [x])"

text \<open>The keys of the object \<open>getRefs\<close> makes.\<close>

fun getRefs :: "json \<Rightarrow> jstr list" where
  "getRefs (VObj m) = fold (\<lambda>(k, item) output.
     if k = js ''$ref'' \<and> is_string item then enter (to_str item) output
     else if is_object item then fold enter (getRefs item) output else output) m []"
| "getRefs (VArr vs) = fold (\<lambda>item output. if is_object item then fold enter (getRefs item) output else output) vs []"
| "getRefs v = []"

fun path_leads :: "json \<Rightarrow> jstr list \<Rightarrow> jserr + bool" where
  "path_leads obj [] = Inr True"
| "path_leads obj (key # parts) =
    (if key = [] then path_leads obj parts
     else bindE (member obj key) (\<lambda>v. if v = VUndef then Inr False else path_leads v parts))"

definition countUnresolvedRefs :: "json \<Rightarrow> jserr + nat" where
  "countUnresolvedRefs spec =
    (let refs = getRefs spec;
         keys = map (drop 1) (filter (starts_with (js ''#'')) refs);
         unresolved = filter (\<lambda>r. \<not> starts_with (js ''#'') r) refs
     in bindE (map_until (\<lambda>part. path_leads spec (split_at 47 part)) keys) (\<lambda>found.
          Inr (length unresolved + length (filter Not found))))"

fun retainRoot :: "jstr \<Rightarrow> jstr \<Rightarrow> json \<Rightarrow> json" where
  "retainRoot base origKey (VObj m) = VObj (map (\<lambda>(key, item). (key,
     if key = js ''$ref'' \<and> is_string item then VStr (joinUrl base (to_str item))
     else if is_object item then retainRoot base key item else item)) m)"
| "retainRoot base origKey (VArr vs) = VArr (map (\<lambda>item. if is_object item then retainRoot base [] item else item) vs)"
| "retainRoot base origKey (VStr s) = (if origKey = js ''$ref'' then VStr (joinUrl base s) else VStr s)"
| "retainRoot base origKey v = v"

section \<open>What an entry points at\<close>

datatype resolve_as = AsRef | AsInline

record ref_entry =
  e_obj :: "jstr list"
  e_resolveAs :: resolve_as
  e_root :: json
  e_key :: jstr
  e_location :: json

record resolved =
  r_name :: jstr
  r_obj :: json
  r_key :: jstr
  r_root :: json

fun replace_all :: "jstr \<Rightarrow> jstr \<Rightarrow> jstr \<Rightarrow> jstr" where
  "replace_all p r [] = []"
| "replace_all p r (c # s) =
    (if p \<noteq> [] \<and> starts_with p (c # s) then r @ replace_all p r (drop (length p - 1) s) else c # replace_all p r s)"

definition unescape_segment :: "jstr \<Rightarrow> jstr" where
  "unescape_segment part =
    (if has_infix (js ''~1'') part then
       let segment = replace_all (js ''~1'') (js ''/'') (replace_all (js ''~0'') (js ''~'') part)
       in if char_at segment 0 \<noteq> js ''/'' then js ''/'' @ segment else segment
     else part)"

text \<open>The loop over the segments; it ends early with the value it is at, or with \<open>null\<close>.\<close>

fun walk :: "json \<Rightarrow> nat \<Rightarrow> jstr list \<Rightarrow> jserr + json" where
  "walk location n [] = Inr location"
| "walk location n (part # parts) =
    (let segment = unescape_segment part in
     if location = VUndef \<or> location = VNull then Inr location
     else if segment = [] \<and> parts = [] \<and> 1 < n then Inr VNull
     else if segment \<noteq> [] then bindE (member location segment) (\<lambda>v. walk v n parts)
     else walk location n parts)"

definition resolved_name :: "jstr \<Rightarrow> jstr" where
  "resolved_name key =
    (let name = last (split_at 47 key) in if 35 \<in> set name then split_at 35 name ! 1 else name)"

type_synonym resolved_refs = "(jstr \<times> resolved) list"
type_synonym unresolved_refs = "(jstr \<times> json \<times> json) list"

definition resolveItem ::
  "json \<Rightarrow> resolved_refs \<Rightarrow> unresolved_refs \<Rightarrow> ref_entry \<Rightarrow> jserr + resolved_refs \<times> unresolved_refs" where
  "resolveItem spec resolvedRefs unresolvedRefs item =
    bindE (as_string (e_location item)) (\<lambda>path.
    bindE (if path \<noteq> [] then let parts = split_at 47 path in walk spec (length parts) parts else Inr spec) (\<lambda>location.
      if location \<noteq> VNull \<and> location \<noteq> VUndef
      then Inr (AList.update (e_key item) \<lparr>r_name = resolved_name (e_key item), r_obj = location, r_key = e_key item,
             r_root = e_root item\<rparr> resolvedRefs, unresolvedRefs)
      else Inr (resolvedRefs, AList.update (e_key item) (e_root item, e_location item) unresolvedRefs)))"

section \<open>Entries\<close>

text \<open>The loop that puts a relative file behind the directory of the root.\<close>

definition dir_of :: "jstr \<Rightarrow> jstr" where
  "dir_of base = concat (map (\<lambda>s. s @ js ''/'') (butlast (split_at 47 base)))"

definition is_http :: "jstr \<Rightarrow> bool" where
  "is_http s \<longleftrightarrow> starts_with (js ''http:'') s \<or> starts_with (js ''https:'') s"

text \<open>Root, key and location of the entry \<open>resolveTo\<close> makes for a reference.\<close>

definition ref_target :: "json \<Rightarrow> jstr \<Rightarrow> jserr + json \<times> jstr \<times> json" where
  "ref_target base ref =
    (if 35 \<in> set ref then
       let parts = split_at 35 ref; location = VStr (parts ! 1) in
       if hd parts \<noteq> [] \<and> starts_with (js ''/'') ref then Inr (base, ref, location)
       else if hd parts \<noteq> [] \<and> is_http (hd parts) then Inr (VStr (hd parts), parts ! 1, location)
       else if hd parts \<noteq> [] then bindE (as_string base) (\<lambda>r. Inr (VStr (dir_of r @ hd parts), ref, location))
       else Inr (base, ref, location)
     else if is_http ref then Inr (VStr ref, ref, VStr [])
     else bindE (as_string base) (\<lambda>r. Inr (VStr (dir_of r @ ref), ref, VStr [])))"

text \<open>The value at a path, and a change of it.\<close>

fun update_at :: "jstr list \<Rightarrow> (json \<Rightarrow> json) \<Rightarrow> json \<Rightarrow> json" where
  "update_at [] f v = f v"
| "update_at (k # ks) f (VObj m) = VObj (map (\<lambda>(k', v). (k', if k' = k then update_at ks f v else v)) m)"
| "update_at (k # ks) f (VArr vs) = VArr (map (\<lambda>(i, v). if nat_digits i = k then update_at ks f v else v) (enumerate 0 vs))"
| "update_at (k # ks) f v = v"

text \<open>\<open>uniqueName\<close> counts like \<open>makeUniqueOperationId\<close>, past the names of definitions that are objects.\<close>

definition uniqueName :: "json \<Rightarrow> jstr \<Rightarrow> jstr" where
  "uniqueName spec name =
    makeUniqueOperationId name (map fst (filter (\<lambda>(k, v). is_object v) (fields_of (fld spec ''definitions''))))"

text \<open>An inline object becomes a definition, and its place a reference to it.\<close>

definition extract_model :: "json \<Rightarrow> jstr list \<Rightarrow> json \<Rightarrow> json" where
  "extract_model spec obj property =
    (let name = uniqueName spec (js ''inline_model'');
         name = (if truthy (fld property ''title'') then uniqueName spec (to_str (fld property ''title'')) else name);
         property = VObj (delete_field (fields_of property) (js ''title''));
         spec = put spec (js ''definitions'') (put (fld spec ''definitions'') name property);
         property = put property (js ''$ref'') (VStr (js ''#/definitions/'' @ name))
     in update_at obj (\<lambda>_. VObj (delete_field (delete_field (fields_of property) (js ''type'')) (js ''properties''))) spec)"

lemma map_of_smaller: "map_of m k = Some v \<Longrightarrow> size v < size (VObj m)"
  by (induction m) (auto split: if_splits)

function resolveTo :: "json \<Rightarrow> jstr list \<Rightarrow> json \<Rightarrow> json \<times> ref_entry list \<Rightarrow> json \<Rightarrow> jserr + json \<times> ref_entry list" where
  "resolveTo base obj property (spec, table) location =
    (case property of
       VUndef \<Rightarrow> Inl not_object
     | VNull \<Rightarrow> Inl not_object
     | VObj m \<Rightarrow>
         (let ref = lookup_field m (js ''$ref'') in
          if ref \<noteq> VUndef \<and> ref \<noteq> VNull then
            bindE (as_string ref) (\<lambda>r. bindE (ref_target base r) (\<lambda>(lroot, key, loc).
              Inr (spec, table @ [\<lparr>e_obj = obj, e_resolveAs = AsRef, e_root = lroot, e_key = key, e_location = loc\<rparr>])))
          else if lookup_field m (js ''type'') = VStr (js ''array'') then
            (case map_of m (js ''items'') of
               None \<Rightarrow> Inl not_object
             | Some items \<Rightarrow> resolveTo base (obj @ [js ''items'']) items (spec, table) location)
          else if truthy (lookup_field m (js ''properties'')) \<or> truthy (lookup_field m (js ''additionalProperties''))
          then Inr (extract_model spec obj property, table)
          else Inr (spec, table))
     | _ \<Rightarrow> Inr (spec, table))"

  by pat_completeness auto
termination
  by (relation "measure (\<lambda>(base, obj, property, st, location). size property)") (auto dest: map_of_smaller)

declare resolveTo.simps [simp del]

text \<open>\<open>s.split(sep)\<close> with a separator of several code units; \<open>part\<close> is the part so far.\<close>

function split_on :: "jstr \<Rightarrow> jstr \<Rightarrow> jstr \<Rightarrow> jstr list" where
  "split_on sep part s =
    (if sep \<noteq> [] \<and> starts_with sep s then part # split_on sep [] (drop (length sep) s)
     else case s of [] \<Rightarrow> [part] | c # s' \<Rightarrow> split_on sep (part @ [c]) s')"
  by auto
termination
  by (relation "measure (\<lambda>(sep, part, s). length s)") (auto simp: starts_with_iff)

declare split_on.simps [simp del]

text \<open>
  A reference that begins with \<open>../\<close>: each empty part takes a segment from the root, and the
  others are put together; then the root loses another segment.
\<close>

definition reset_root :: "jstr \<Rightarrow> jstr \<Rightarrow> jstr \<times> jstr" where
  "reset_root ref base =
    (let p = split_on (js ''../'') [] ref; p2 = split_at 47 base;
         p2 = take (length p2 - length (filter (\<lambda>x. x = []) p)) p2
     in (concat p, join (js ''/'') (butlast p2)))"

text \<open>What a match of \<open>/^https?\:\/\/([^\/?#]+)(?:[\/?#]|$)/i\<close> gives, if there is one.\<close>

definition match_origin :: "jstr \<Rightarrow> jstr option" where
  "match_origin base =
    (let lower = to_lower base;
         n = (if starts_with (js ''http://'') lower then 7 else if starts_with (js ''https://'') lower then 8 else 0);
         host = takeWhile (\<lambda>c. c \<notin> {47, 63, 35}) (drop n base)
     in if n = 0 \<or> host = [] then None else Some (take (n + length host + 1) base))"

text \<open>Root and location of the entry \<open>resolveInline\<close> makes for a reference.\<close>

definition inline_target :: "jstr \<Rightarrow> jstr \<Rightarrow> json \<Rightarrow> jserr + jstr \<times> json" where
  "inline_target base0 key location0 =
    (let trimmed = starts_with (js ''../'') key;
         (ref, base) = (if trimmed then reset_root key base0 else (key, base0));
         rs = split_at 35 ref
     in bindE (if 35 \<in> set ref then
            (if starts_with (js ''/'') ref then
               (case split_on (js ''//'') [] base of
                  p0 # p1 # ps \<Rightarrow> Inr (p0 @ js ''//'' @ hd (split_at 47 p1) @ hd rs, VStr (rs ! 1))
                | _ \<Rightarrow> Inl not_object)
             else if hd rs \<noteq> [] then
               Inr ((if trimmed then base else join (js ''/'') (butlast (split_at 47 base))) @ js ''/'' @ hd rs, VStr (rs ! 1))
             else Inr (base, VStr (rs ! 1)))
          else Inr (base, location0)) (\<lambda>(base, location).
        if is_http ref then
          (if 35 \<in> set ref then Inr (hd rs, VStr (rs ! 1)) else Inr (ref, VStr []))
        else if starts_with (js ''#'') ref then Inr (base, VStr (rs ! 1))
        else if starts_with (js ''/'') ref \<and> 35 \<notin> set ref then
          (case match_origin base of
             Some m \<Rightarrow> Inr (m @ drop 1 ref, VStr [])
           | None \<Rightarrow> Inr (base, VStr ref))
        else Inr (base, location)))"

definition resolveInline ::
  "json \<Rightarrow> jstr list \<Rightarrow> json \<Rightarrow> json \<times> ref_entry list \<Rightarrow> json \<Rightarrow> jserr + json \<times> ref_entry list" where
  "resolveInline base obj property st location =
    (let base = (if truthy base then base else VStr []) in
     bindE (present_value property) (\<lambda>property.
     if truthy (fld property ''$ref'') then
       bindE (as_string (fld property ''$ref'')) (\<lambda>key. bindE (as_string base) (\<lambda>r.
       bindE (inline_target r key location) (\<lambda>(base, loc).
       Inr (fst st, snd st @ [\<lparr>e_obj = obj, e_resolveAs = AsInline, e_root = VStr base, e_key = key, e_location = loc\<rparr>]))))
     else if fld property ''type'' = VStr (js ''array'') then
       resolveTo base (obj @ [js ''items'']) (fld property ''items'') st location
     else Inr st))"

section \<open>Composition\<close>

text \<open>A property is set on an object; the properties of a schema are taken to be no list.\<close>

definition assign :: "json \<Rightarrow> jstr \<Rightarrow> json \<Rightarrow> jserr + json" where
  "assign v k x = (case v of VObj m \<Rightarrow> Inr (VObj (set_field m k x)) | VUndef \<Rightarrow> Inl not_object | VNull \<Rightarrow> Inl not_object
     | _ \<Rightarrow> Inl (TypeError ''Cannot create property''))"

definition resolved_from :: jstr where
  "resolved_from = js ''x-resolved-from''"

text \<open>Each property of a component gets its source; one that has another source already keeps it.\<close>

definition mark_new :: "json \<Rightarrow> json \<Rightarrow> jserr + json" where
  "mark_new source properties = (case properties of
      VObj m \<Rightarrow> bindE (map_until (\<lambda>(name, v). bindE (assign v resolved_from source) (\<lambda>v. Inr (name, v))) m) (\<lambda>m. Inr (VObj m))
    | v \<Rightarrow> if for_in v = [] then Inr v else Inl (TypeError ''Cannot create property''))"

fun add_properties :: "json \<Rightarrow> fields \<Rightarrow> json \<Rightarrow> jserr + json" where
  "add_properties source [] out = Inr out"
| "add_properties source ((name, v) # rest) out =
    bindE (present_value v) (\<lambda>v.
      let from = get v resolved_from; from = (if from = VUndef \<or> from = VStr (js ''self'') then source else from)
      in bindE (assign v resolved_from from) (\<lambda>v. bindE (assign out name v) (add_properties source rest)))"

text \<open>
  \<open>concat\<close>, and the double loop that takes out later duplicates.  A string has a \<open>concat\<close> too, but no
  \<open>splice\<close>, which is called at the first duplicate.
\<close>

function dedup :: "json list \<Rightarrow> json list" where
  "dedup [] = []"
| "dedup (x # xs) = x # dedup (filter (\<lambda>y. \<not> strict_eq x y) xs)"
  by pat_completeness auto
termination
  by (relation "measure length") (simp_all add: le_imp_less_Suc)

definition merge_required :: "json \<Rightarrow> json \<Rightarrow> jserr + json" where
  "merge_required v w = (case v of
      VArr vs \<Rightarrow> Inr (VArr (dedup (vs @ (case w of VArr ws \<Rightarrow> ws | _ \<Rightarrow> [w]))))
    | VStr s \<Rightarrow> if distinct (s @ to_str w) then Inr (VStr (s @ to_str w)) else Inl not_function
    | VUndef \<Rightarrow> Inl not_object | VNull \<Rightarrow> Inl not_object | _ \<Rightarrow> Inl not_function)"

definition merge_part :: "json \<Rightarrow> jstr \<times> json \<Rightarrow> json \<Rightarrow> jserr + json" where
  "merge_part source p out =
    (let (part, v) = p in
     if part \<notin> fst ` set (fields_of out) then
       bindE (if part = js ''properties'' then mark_new source v else Inr v) (assign out part)
     else if part = js ''properties'' then
       bindE (add_properties source (for_in v) (fld out ''properties'')) (assign out (js ''properties''))
     else if part = js ''required'' then
       bindE (merge_required (fld out ''required'') v) (assign out (js ''required''))
     else if part = resolved_from then
       (case get out resolved_from of
          VArr vs \<Rightarrow> assign out resolved_from (VArr (vs @ [source]))
        | VUndef \<Rightarrow> Inl not_object | VNull \<Rightarrow> Inl not_object | _ \<Rightarrow> Inl not_function)
     else Inr out)"

fun foldE :: "('b \<Rightarrow> 'a \<Rightarrow> 'e + 'a) \<Rightarrow> 'b list \<Rightarrow> 'a \<Rightarrow> 'e + 'a" where
  "foldE f [] a = Inr a"
| "foldE f (x # xs) a = bindE (f x a) (foldE f xs)"

definition merge_component :: "json \<Rightarrow> json \<Rightarrow> jserr + json" where
  "merge_component component out =
    bindE (present_value component) (\<lambda>component.
    bindE (if get component resolved_from = VUndef then Inr (VStr (js ''self''))
           else member (get component resolved_from) (js ''0'')) (\<lambda>source.
      foldE (merge_part source) (for_in component) out))"

definition compose_item :: "json \<Rightarrow> jserr + json" where
  "compose_item item =
    (let out = VObj (set_field (delete_field (fields_of item) (js ''allOf'')) (js ''x-composed'') (VBool True))
     in foldE merge_component (items_of (fld item ''allOf'')) out)"

text \<open>An item is resolved inside first, and then composed if it has a list \<open>allOf\<close>.\<close>

definition null_type :: jserr where
  "null_type = TypeError ''Swagger 2.0 does not support null types''"

fun resolveAllOf :: "json \<Rightarrow> jserr + json" where
  "resolveAllOf (VObj m) =
    bindE (map_until (\<lambda>(key, item).
      if item = VNull then Inl null_type
      else bindE (resolveAllOf item) (\<lambda>item.
        bindE (if is_array (fld item ''allOf'') then compose_item item else Inr item) (\<lambda>item. Inr (key, item)))) m) (\<lambda>m. Inr (VObj m))"
| "resolveAllOf (VArr vs) =
    bindE (map_until (\<lambda>item.
      if item = VNull then Inl null_type
      else bindE (resolveAllOf item) (\<lambda>item.
        if is_array (fld item ''allOf'') then compose_item item else Inr item)) vs) (\<lambda>vs. Inr (VArr vs))"
| "resolveAllOf v = Inr v"

end
