(* ===== verification/ResolverLaws.thy ===== *)
theory ResolverLaws
  imports Resolver
begin

text \<open>
  What the parts of \<open>lib/resolver.js\<close> do: which references a document has, what becomes of them when
  they are given the address of their document, when none counts as unresolved, and what a
  composed schema is made of.
\<close>

section \<open>References\<close>

fun refs_in :: "json \<Rightarrow> jstr set" where
  "refs_in (VObj m) = (\<Union>(k, v) \<in> set m. if k = js ''$ref'' \<and> is_string v then {to_str v} else refs_in v)"
| "refs_in (VArr vs) = (\<Union>v \<in> set vs. refs_in v)"
| "refs_in v = {}"

lemma set_enter: "set (fold enter xs ys) = set xs \<union> set ys"
  by (induction xs arbitrary: ys) auto

lemma refs_in_no_object: "\<not> is_object v \<Longrightarrow> refs_in v = {}"
  by (cases v) simp_all

definition collect_field :: "jstr \<times> json \<Rightarrow> jstr list \<Rightarrow> jstr list" where
  "collect_field p out = (case p of (k, item) \<Rightarrow>
     if k = js ''$ref'' \<and> is_string item then enter (to_str item) out
     else if is_object item then fold enter (getRefs item) out else out)"

definition collect_item :: "json \<Rightarrow> jstr list \<Rightarrow> jstr list" where
  "collect_item item out = (if is_object item then fold enter (getRefs item) out else out)"

lemma getRefs_fold: "getRefs (VObj m) = fold collect_field m []" "getRefs (VArr vs) = fold collect_item vs []"
  by (simp_all add: collect_field_def [abs_def] collect_item_def [abs_def] case_prod_beta')

declare getRefs.simps [simp del]

lemma getRefs_no_object [simp]: "\<not> is_object v \<Longrightarrow> getRefs v = []"
  by (cases v) (simp_all add: getRefs.simps)

lemma set_getRefs: "set (getRefs v) = refs_in v"
proof (induction v rule: refs_in.induct)
  case (1 m)
  have v: "set (getRefs v) = refs_in v" if "(k, v) \<in> set m" "\<not> (k = js ''$ref'' \<and> is_string v)" for k v
    using 1 that by auto
  then have "set (fold collect_field m out) =
      set out \<union> (\<Union>(k, v) \<in> set m. if k = js ''$ref'' \<and> is_string v then {to_str v} else refs_in v)" for out
  proof (induction m arbitrary: out)
    case (Cons p m)
    obtain k v where p: "p = (k, v)" by fastforce
    have "set (collect_field p out) = set out \<union> (if k = js ''$ref'' \<and> is_string v then {to_str v} else refs_in v)"
      using Cons.prems [of k v] refs_in_no_object [of v] by (auto simp: p collect_field_def set_enter)
    moreover have "set (fold collect_field m out) =
      set out \<union> (\<Union>(k, v) \<in> set m. if k = js ''$ref'' \<and> is_string v then {to_str v} else refs_in v)" for out
      by (rule Cons.IH, rule Cons.prems) simp_all
    ultimately show ?case by (simp add: p Un_assoc)
  qed simp
  then show ?case by (simp add: getRefs_fold)
next
  case (2 vs)
  then have "set (fold collect_item vs out) = set out \<union> (\<Union>v \<in> set vs. refs_in v)" for out
  proof (induction vs arbitrary: out)
    case (Cons v vs)
    have "set (collect_item v out) = set out \<union> refs_in v"
      using Cons.prems [of v] refs_in_no_object [of v] by (simp add: collect_item_def set_enter Un_commute)
    moreover have "set (fold collect_item vs out) = set out \<union> (\<Union>v \<in> set vs. refs_in v)" for out
      by (rule Cons.IH) (use Cons.prems in simp)
    ultimately show ?case by (simp add: Un_assoc)
  qed simp
  then show ?case by (simp add: getRefs_fold)
qed (simp_all add: getRefs.simps)

lemma distinct_getRefs: "distinct (getRefs v)"
proof -
  have e: "distinct out \<Longrightarrow> distinct (fold enter xs out)" for xs out :: "jstr list" by (induction xs arbitrary: out) auto
  have "distinct out \<Longrightarrow> distinct (fold collect_field m out)" for m out
    by (induction m arbitrary: out) (auto simp: e collect_field_def split: prod.split)
  moreover have "distinct out \<Longrightarrow> distinct (fold collect_item vs out)" for vs out
    by (induction vs arbitrary: out) (auto simp: e collect_item_def)
  ultimately show ?thesis by (cases v) (simp_all add: getRefs_fold getRefs.simps)
qed

section \<open>Absolute references\<close>

lemma is_object_retain [simp]: "is_object (retainRoot base k v) = is_object v" "is_string (retainRoot base k v) = is_string v"
  by (cases v; simp)+

definition field_refs :: "jstr \<times> json \<Rightarrow> jstr set" where
  "field_refs p = (case p of (k, v) \<Rightarrow> if k = js ''$ref'' \<and> is_string v then {to_str v} else refs_in v)"

definition retain_field :: "jstr \<Rightarrow> jstr \<times> json \<Rightarrow> jstr \<times> json" where
  "retain_field base p = (case p of (key, item) \<Rightarrow> (key,
     if key = js ''$ref'' \<and> is_string item then VStr (joinUrl base (to_str item))
     else if is_object item then retainRoot base key item else item))"

lemma object_parts: "refs_in (VObj m) = \<Union> (field_refs ` set m)" "retainRoot base k (VObj m) = VObj (map (retain_field base) m)"
  by (simp_all add: field_refs_def [abs_def] retain_field_def [abs_def])

lemma refs_retain: "is_object v \<Longrightarrow> refs_in (retainRoot base k v) = joinUrl base ` refs_in v"
proof (induction base k v rule: retainRoot.induct)
  case (1 base k m)
  have "field_refs (retain_field base (k, v)) = joinUrl base ` field_refs (k, v)" if "(k, v) \<in> set m" for k v
  proof (cases "k = js ''$ref'' \<and> is_string v")
    case True
    then show ?thesis by (simp add: field_refs_def retain_field_def)
  next
    case False
    then show ?thesis
      using 1(1) [OF that refl] refs_in_no_object [of v] by (cases "is_object v") (auto simp: field_refs_def retain_field_def)
  qed
  then have "field_refs ` retain_field base ` set m = (`) (joinUrl base) ` field_refs ` set m"
    unfolding image_image by (intro image_cong) auto
  then show ?case by (simp add: object_parts image_UN del: refs_in.simps retainRoot.simps)
next
  case (2 base k vs)
  have "refs_in (if is_object v then retainRoot base [] v else v) = joinUrl base ` refs_in v" if "v \<in> set vs" for v
    using 2(1) [OF that] by (cases "is_object v") (simp_all add: refs_in_no_object)
  then have "(\<lambda>v. refs_in (if is_object v then retainRoot base [] v else v)) ` set vs = (\<lambda>v. joinUrl base ` refs_in v) ` set vs"
    by (intro image_cong) simp_all
  then show ?case by (simp only: retainRoot.simps refs_in.simps set_map image_image image_UN)
qed simp_all

lemma retain_settled:
  "is_object v \<Longrightarrow> absolute base \<Longrightarrow> retainRoot other k' (retainRoot base k v) = retainRoot base k v"
proof (induction base k v arbitrary: k' rule: retainRoot.induct)
  case (1 base k m)
  have "retain_field other (retain_field base (k, v)) = retain_field base (k, v)" if "(k, v) \<in> set m" for k v
    using 1(1) [OF that refl] 1(3) joinUrl_again [of base] by (auto simp: retain_field_def)
  then show ?case by (auto simp: object_parts simp del: retainRoot.simps)
qed auto

text \<open>
  C12. A document that is brought into another keeps what it refers to: \<open>retainRoot\<close> joins each of its
  references to the address of the document, and does nothing when it is applied again.
\<close>

theorem references_kept:
  assumes "is_object v" "absolute base"
  shows "set (getRefs (retainRoot base k v)) = joinUrl base ` set (getRefs v) \<and>
    retainRoot other k' (retainRoot base k v) = retainRoot base k v"
  using refs_retain [OF assms(1)] retain_settled [OF assms] by (simp add: set_getRefs)

theorem references_kept_witness:
  "set (getRefs (retainRoot (js ''http://host/api/pets.json'') [] (VObj [(js ''schema'', VObj [(js ''$ref'', VStr (js ''#/Pet''))])]))) =
     joinUrl (js ''http://host/api/pets.json'') ` set (getRefs (VObj [(js ''schema'', VObj [(js ''$ref'', VStr (js ''#/Pet''))])]))"
proof -
  have "absolute (js ''http://host/api/pets.json'')"
    unfolding absolute_def
    by (rule exI [of _ "js ''http''"], rule exI [of _ "js ''host''"], rule exI [of _ "js ''/api/pets.json''"]) (simp add: js_def is_letter_def)
  then show ?thesis
    using references_kept [of "VObj [(js ''schema'', VObj [(js ''$ref'', VStr (js ''#/Pet''))])]" "js ''http://host/api/pets.json''" "[]"] by simp
qed

section \<open>Unresolved references\<close>

lemma all_found:
  "(\<exists>found. list_all2 (\<lambda>x y. f x = Inr y) xs found \<and> filter Not found = []) \<longleftrightarrow> (\<forall>x \<in> set xs. f x = Inr True)"
proof (induction xs)
  case (Cons x xs)
  have "(\<exists>found. list_all2 (\<lambda>x y. f x = Inr y) (x # xs) found \<and> filter Not found = []) \<longleftrightarrow>
      f x = Inr True \<and> (\<exists>found. list_all2 (\<lambda>x y. f x = Inr y) xs found \<and> filter Not found = [])"
    by (auto simp: list_all2_Cons1 split: if_splits) (force intro: exI [of _ "True # _"])
  then show ?case using Cons.IH by simp
qed simp

lemma none_unresolved_iff:
  "countUnresolvedRefs spec = Inr 0 \<longleftrightarrow>
    (\<forall>r \<in> set (getRefs spec). \<exists>part. r = js ''#'' @ part \<and> path_leads spec (split_at 47 part) = Inr True)"
proof -
  let ?refs = "getRefs spec" and ?leads = "\<lambda>part. path_leads spec (split_at 47 part)"
  let ?keys = "map (drop 1) (filter (starts_with (js ''#'')) ?refs)"
  have hash: "starts_with [35] r \<longleftrightarrow> (\<exists>part. r = 35 # part)" for r by (simp add: starts_with_iff)
  have "countUnresolvedRefs spec = Inr 0 \<longleftrightarrow>
      (\<exists>found. list_all2 (\<lambda>x y. ?leads x = Inr y) ?keys found \<and> filter Not found = []) \<and> filter (\<lambda>r. \<not> starts_with (js ''#'') r) ?refs = []"
    by (auto simp: countUnresolvedRefs_def Let_def bindE_eq_Inr map_until_Inr)
  also have "(\<exists>found. list_all2 (\<lambda>x y. ?leads x = Inr y) ?keys found \<and> filter Not found = []) \<longleftrightarrow> (\<forall>k \<in> set ?keys. ?leads k = Inr True)"
    by (rule all_found)
  also have "(\<forall>k \<in> set ?keys. ?leads k = Inr True) \<and> filter (\<lambda>r. \<not> starts_with (js ''#'') r) ?refs = [] \<longleftrightarrow>
      (\<forall>r \<in> set ?refs. \<exists>part. r = js ''#'' @ part \<and> ?leads part = Inr True)"
    by (force simp: filter_empty_conv hash)
  finally show ?thesis .
qed

text \<open>
  The count of unresolved references is zero exactly if each reference of the document is local
  and its path leads to something in the document.
\<close>

theorem none_unresolved:
  "countUnresolvedRefs spec = Inr 0 \<longleftrightarrow>
    (\<forall>r \<in> set (getRefs spec). \<exists>part. r = js ''#'' @ part \<and> path_leads spec (split_at 47 part) = Inr True)"
  by (rule none_unresolved_iff)

definition pet_spec :: json where
  "pet_spec = VObj [(js ''definitions'', VObj [(js ''Pet'', VObj [])]), (js ''schema'', VObj [(js ''$ref'', VStr (js ''#/definitions/Pet''))])]"

lemma pet_spec_refs: "getRefs pet_spec = [js ''#/definitions/Pet'']" "countUnresolvedRefs pet_spec = Inr 0"
  by code_simp+

theorem none_unresolved_witness:
  "\<exists>part. js ''#/definitions/Pet'' = js ''#'' @ part \<and> path_leads pet_spec (split_at 47 part) = Inr True"
  using none_unresolved [of pet_spec] pet_spec_refs by simp

lemma has_infix_append: "has_infix p s \<Longrightarrow> has_infix p (t @ s)"
  by (induction t) auto

lemma starts_with_longer: "starts_with p s \<Longrightarrow> starts_with p (s @ t)"
  by (auto simp: starts_with_iff)

lemma has_infix_longer: "has_infix p s \<Longrightarrow> has_infix p (s @ t)"
proof (induction s)
  case Nil
  then show ?case by (cases t) (simp_all add: starts_with_def)
qed (auto dest: starts_with_longer [of p _ t])

lemma infix_of_part: "part \<in> set (split_at c s) \<Longrightarrow> has_infix p part \<Longrightarrow> has_infix p s"
proof -
  assume "part \<in> set (split_at c s)" "has_infix p part"
  then obtain xs ys where "split_at c s = xs @ part # ys" by (auto simp: in_set_conv_decomp)
  then have s: "s = join [c] (xs @ part # ys)" by (metis split_join)
  have "has_infix p (join [c] (part # ys))" using \<open>has_infix p part\<close> by (cases ys) (simp_all add: has_infix_longer)
  then show "has_infix p s" unfolding s using join_parts [of xs "part # ys" "[c]"]
    by (cases "xs = []") (simp_all add: has_infix_append del: join.simps)
qed

lemma lookup_in: "lookup_field m k = VUndef \<or> (k, lookup_field m k) \<in> set m"
  by (cases "map_of m k") (auto simp: lookup_field_def dest: map_of_SomeD)

text \<open>
  The value at a path: a blank segment stays where it is, a name leads to the field of an object, a
  number to an element of a list or to a character, and \<open>length\<close> to how many there are.
\<close>

inductive at_path :: "json \<Rightarrow> jstr list \<Rightarrow> json \<Rightarrow> bool" where
  here: "at_path v [] v"
| blank: "at_path v parts w \<Longrightarrow> at_path v ([] # parts) w"
| field: "k \<noteq> [] \<Longrightarrow> map_of m k = Some v \<Longrightarrow> at_path v parts w \<Longrightarrow> at_path (VObj m) (k # parts) w"
| element: "i < length vs \<Longrightarrow> at_path (vs ! i) parts w \<Longrightarrow> at_path (VArr vs) (nat_digits i # parts) w"
| elements: "at_path (VNum (int (length vs))) parts w \<Longrightarrow> at_path (VArr vs) (js ''length'' # parts) w"
| unit: "i < length s \<Longrightarrow> at_path (VStr [s ! i]) parts w \<Longrightarrow> at_path (VStr s) (nat_digits i # parts) w"
| units: "at_path (VNum (int (length s))) parts w \<Longrightarrow> at_path (VStr s) (js ''length'' # parts) w"

lemma nat_digits_inj: "nat_digits i = nat_digits k \<longleftrightarrow> i = k"
  by (metis digits_value_digits)

lemma nat_digits_no_name [simp]:
  "nat_digits i \<noteq> []" "[] \<noteq> nat_digits i" "nat_digits i \<noteq> js ''length''" "js ''length'' \<noteq> nat_digits i"
proof -
  have "\<not> list_all is_digit (js ''length'')" by (simp add: js_def is_digit_def)
  then show "nat_digits i \<noteq> []" "[] \<noteq> nat_digits i" "nat_digits i \<noteq> js ''length''" "js ''length'' \<noteq> nat_digits i"
    using nat_digits_digits [of i] by metis+
qed

inductive_cases at_path_NilE: "at_path v [] w"
inductive_cases at_path_ConsE: "at_path v (k # parts) w"

lemma at_path_unique: "at_path v parts w \<Longrightarrow> at_path v parts w' \<Longrightarrow> w' = w"
proof (induction arbitrary: w' rule: at_path.induct)
  case (here v)
  then show ?case by (rule at_path_NilE) simp
next
  case (blank v parts w)
  from blank.prems show ?case by (rule at_path_ConsE) (simp_all add: blank.IH js_def)
next
  case (field k m v parts w)
  from field.prems obtain v' where "map_of m k = Some v'" "at_path v' parts w'"
    by (rule at_path_ConsE) (use field.hyps in auto)
  then show ?case using field.IH field.hyps by simp
next
  case (element i vs parts w)
  from element.prems show ?case by (rule at_path_ConsE) (simp_all add: element.IH nat_digits_inj)
next
  case (elements vs parts w)
  from elements.prems show ?case by (rule at_path_ConsE) (simp_all add: elements.IH)
next
  case (unit i s parts w)
  from unit.prems show ?case by (rule at_path_ConsE) (simp_all add: unit.IH nat_digits_inj)
next
  case (units s parts w)
  from units.prems show ?case by (rule at_path_ConsE) (simp_all add: units.IH)
qed

lemma member_at_path:
  assumes "member v k = Inr u" "u \<noteq> VUndef" "k \<noteq> []" "at_path u parts w"
  shows "at_path v (k # parts) w"
proof (cases v)
  case (VObj m)
  then show ?thesis using assms by (auto simp: lookup_field_def split: option.splits intro: field)
next
  case (VArr vs)
  show ?thesis
  proof (cases "k = js ''length''")
    case False
    then obtain i where "k = nat_digits i" "i < length vs" "u = vs ! i"
      using assms(1,2) lookup_in [of "for_in (VArr vs)" k] by (auto simp: VArr in_set_enumerate_eq)
    then show ?thesis using assms(4) by (simp add: VArr element)
  qed (use assms VArr elements in simp)
next
  case (VStr s)
  show ?thesis
  proof (cases "k = js ''length''")
    case False
    then obtain i where "k = nat_digits i" "i < length s" "u = VStr [s ! i]"
      using assms(1,2) lookup_in [of "for_in (VStr s)" k] by (auto simp: VStr in_set_enumerate_eq)
    then show ?thesis using assms(4) by (simp add: VStr unit)
  qed (use assms VStr units in simp)
qed (use assms in simp_all)

lemma walk_leads:
  assumes "path_leads obj parts = Inr True" "\<forall>part \<in> set parts. unescape_segment part = part" "parts = [] \<or> last parts \<noteq> [] \<or> n \<le> 1"
    and "obj \<noteq> VUndef"
  shows "\<exists>v. walk obj n parts = Inr v \<and> at_path obj parts v \<and> v \<noteq> VUndef"
  using assms
proof (induction parts arbitrary: obj)
  case Nil
  then show ?case by (simp add: here)
next
  case (Cons part parts)
  have u: "unescape_segment part = part" using Cons.prems(2) by simp
  show ?case
  proof (cases "part = []")
    case True
    have last: "\<not> (parts = [] \<and> 1 < n)" using Cons.prems(3) True by auto
    obtain v where v: "walk obj n parts = Inr v" "at_path obj parts v" "v \<noteq> VUndef"
      using Cons.IH [of obj] Cons.prems True by (auto split: if_splits)
    moreover have "walk obj n (part # parts) = walk obj n parts"
    proof (cases "obj = VNull")
      case True
      then show ?thesis using v(1) u \<open>part = []\<close> by (cases parts) (simp_all add: Let_def)
    qed (use Cons.prems(4) True u last in \<open>auto simp: Let_def\<close>)
    ultimately show ?thesis using True blank by auto
  next
    case False
    then obtain w where w: "member obj part = Inr w" "w \<noteq> VUndef" "path_leads w parts = Inr True"
      using Cons.prems(1) by (cases "member obj part") (auto split: if_splits)
    then have "obj \<noteq> VNull" by auto
    moreover obtain v where "walk w n parts = Inr v" "at_path w parts v" "v \<noteq> VUndef"
      using Cons.IH [of w] Cons.prems w by (auto split: if_splits)
    ultimately show ?thesis using Cons.prems(4) False u w member_at_path by (auto simp: Let_def)
  qed
qed

text \<open>
  C13. What counts as resolved is found: if no reference of the document counts as unresolved, then
  for each local reference whose path is not blank and has no escape (\<open>~1\<close>) and no slash at its end,
  the path leads to exactly one value of the document, and not to \<open>undefined\<close>; the item that has this
  path as its location is entered as resolved with that value as its object, under its key and with
  the name and root it has, and nothing else changes.  Only where the value is \<open>null\<close> the item is
  filed as unresolved.
\<close>

theorem counted_is_found:
  assumes "countUnresolvedRefs spec = Inr 0" "js ''#'' @ p \<in> set (getRefs spec)"
    and "e_location item = VStr p" "p \<noteq> []" "last (split_at 47 p) \<noteq> []" "\<not> has_infix (js ''~1'') p"
  shows "\<exists>v. (\<forall>w. at_path spec (split_at 47 p) w \<longleftrightarrow> w = v) \<and> v \<noteq> VUndef \<and>
    resolveItem spec resolvedRefs unresolvedRefs item = (if v = VNull
    then Inr (resolvedRefs, AList.update (e_key item) (e_root item, e_location item) unresolvedRefs)
    else Inr (AList.update (e_key item) \<lparr>r_name = resolved_name (e_key item), r_obj = v, r_key = e_key item, r_root = e_root item\<rparr>
      resolvedRefs, unresolvedRefs))"
proof -
  let ?parts = "split_at 47 p"
  have "path_leads spec ?parts = Inr True" using assms(1,2) by (auto simp: none_unresolved_iff)
  moreover have "unescape_segment part = part" if "part \<in> set ?parts" for part
    using assms(6) infix_of_part [OF that] by (auto simp: unescape_segment_def)
  moreover have "spec \<noteq> VUndef" using assms(2) by (cases spec) (simp_all add: getRefs.simps)
  ultimately obtain v where v: "walk spec (length ?parts) ?parts = Inr v" "at_path spec ?parts v" "v \<noteq> VUndef"
    using walk_leads [of spec ?parts] assms(5) by blast
  have "at_path spec ?parts w \<longleftrightarrow> w = v" for w using v(2) at_path_unique by blast
  then show ?thesis using v assms(3,4) by (intro exI [of _ v]) (simp add: resolveItem_def as_string_def Let_def)
qed

definition pet_item :: ref_entry where
  "pet_item = \<lparr>e_obj = [js ''schema''], e_resolveAs = AsRef, e_root = VNull, e_key = js ''#/definitions/Pet'',
     e_location = VStr (js ''/definitions/Pet'')\<rparr>"

lemma pet_at_path: "at_path pet_spec (split_at 47 (js ''/definitions/Pet'')) (VObj [])"
proof -
  have s: "split_at 47 (js ''/definitions/Pet'') = [[], js ''definitions'', js ''Pet'']" by code_simp
  have "at_path (VObj [(js ''Pet'', VObj [])]) [js ''Pet''] (VObj [])"
    by (rule field [OF _ _ here]) (simp_all add: js_def)
  then show ?thesis unfolding s pet_spec_def by (intro blank field [of "js ''definitions''"]) (simp_all add: js_def)
qed

theorem counted_is_found_witness:
  "resolveItem pet_spec [] [] pet_item =
     Inr ([(e_key pet_item, \<lparr>r_name = resolved_name (e_key pet_item), r_obj = VObj [], r_key = e_key pet_item, r_root = VNull\<rparr>)], [])"
proof -
  have "js ''#'' @ js ''/definitions/Pet'' \<in> set (getRefs pet_spec)" by (simp add: pet_spec_refs js_def)
  moreover have "e_location pet_item = VStr (js ''/definitions/Pet'')" "e_root pet_item = VNull" by (simp_all add: pet_item_def)
  moreover have "last (split_at 47 (js ''/definitions/Pet'')) \<noteq> []" "\<not> has_infix (js ''~1'') (js ''/definitions/Pet'')" by code_simp+
  ultimately show ?thesis
    using counted_is_found [of pet_spec "js ''/definitions/Pet''" pet_item "[]" "[]"] pet_spec_refs(2) pet_at_path by auto
qed

text \<open>
  Escapes are undone only where there is a \<open>~1\<close>, and then a slash is put in front: the reference to
  a path is found, but it counts as unresolved; one to a definition with a slash is not found.
\<close>

definition pets_spec :: json where
  "pets_spec = VObj [(js ''paths'', VObj [(js ''/pets'', VObj [(js ''$ref'', VStr (js ''#/paths/~1pets''))])]),
     (js ''definitions'', VObj [(js ''a/b'', VObj [])])]"

theorem escaped_reference:
  "walk pets_spec 3 (split_at 47 (js ''/paths/~1pets'')) = Inr (VObj [(js ''$ref'', VStr (js ''#/paths/~1pets''))]) \<and>
   countUnresolvedRefs pets_spec = Inr 1 \<and>
   walk pets_spec 3 (split_at 47 (js ''/definitions/a~1b'')) = Inr VUndef"
  by code_simp

section \<open>Inlined references\<close>

lemma split_on_absent: "sep \<noteq> [] \<Longrightarrow> \<not> has_infix sep s \<Longrightarrow> split_on sep part s = [part @ s]"
proof (induction s arbitrary: part)
  case Nil
  then show ?case by (simp add: split_on.simps starts_with_def)
next
  case (Cons c s)
  then show ?case by (simp add: split_on.simps [of _ _ "c # s"])
qed

lemma split_on_ups:
  assumes "\<not> has_infix [46, 46, 47] s"
  shows "split_on [46, 46, 47] [] (concat (replicate n [46, 46, 47]) @ s) = replicate n [] @ [s]"
proof (induction n)
  case 0
  then show ?case using split_on_absent [OF _ assms, of "[]"] by simp
next
  case (Suc n)
  have "split_on [46, 46, 47] [] (concat (replicate (Suc n) [46, 46, 47]) @ s) =
      [] # split_on [46, 46, 47] [] (concat (replicate n [46, 46, 47]) @ s)"
    by (subst split_on.simps) (simp add: starts_with_def)
  then show ?case using Suc by simp
qed

lemma join_ups: "segs \<noteq> [] \<Longrightarrow> join [47] (replicate n [46, 46] @ segs) = concat (replicate n [46, 46, 47]) @ join [47] segs"
proof (induction n)
  case (Suc n)
  then have "replicate n [46, 46] @ segs \<noteq> []" by simp
  then obtain y ys where "replicate n [46, 46] @ segs = y # ys" by (cases "replicate n [46, 46] @ segs") auto
  then show ?case using Suc by simp
qed simp

lemma not_http: "58 \<notin> set s \<Longrightarrow> \<not> is_http s"
  by (auto simp: is_http_def starts_with_iff js_def)

text \<open>
  C11. An inlined reference to a part of another file is looked up where \<open>joinUrl\<close> finds it: root and
  location of its entry are the joined address, cut at the \<open>#\<close>.  The reference has the form
  \<open>../../dir/file#fragment\<close>: no more leading \<open>..\<close> than the address of the document has directories,
  no other \<open>../\<close>, no colon, no second \<open>#\<close>, and a path that does not begin with a slash or a dot
  segment; it has a fragment, without which the file is lost (\<open>parent_file_lost\<close>).  The document's
  address is absolute, with letters for its protocol.
\<close>

theorem inline_agrees_with_join:
  assumes "p \<noteq> []" "\<forall>c \<in> set p. is_letter c" "47 \<notin> set d"
    and "\<forall>s \<in> set (dirs @ [file] @ segs). 47 \<notin> set s \<and> 35 \<notin> set s" "\<forall>s \<in> set segs. 58 \<notin> set s"
    and "n \<le> length dirs" "segs \<noteq> []" "hd segs \<notin> {[], [46], [46, 46]}" "58 \<notin> set f" "35 \<notin> set f"
    and "\<not> has_infix (js ''../'') (join (js ''/'') segs @ js ''#'' @ f)"
    and "base = p @ js ''://'' @ d @ js ''/'' @ join (js ''/'') (dirs @ [file])"
    and "key = join (js ''/'') (replicate n (js ''..'') @ segs) @ js ''#'' @ f"
  shows "\<exists>root0 place. inline_target base key location = Inr (root0, VStr place) \<and> root0 @ js ''#'' @ place = joinUrl base key"
proof -
  let ?name = "join [47] segs" and ?head = "[p @ [58], [], d]"
  have key: "key = concat (replicate n [46, 46, 47]) @ ?name @ 35 # f"
    using assms(13) join_ups [OF assms(7), of n] by simp
  have base: "base = join [47] (?head @ dirs @ [file])" using assms(12) by (cases dirs) simp_all
  have sb: "split_at 47 base = ?head @ dirs @ [file]"
    unfolding base by (rule split_join_plain) (use assms(2,3,4) in auto)
  have join: "joinUrl base key = p @ js ''://'' @ d @ js ''/'' @ join (js ''/'') (take (length dirs - n) dirs @ segs) @ js ''#'' @ f"
    unfolding assms(12,13) by (rule join_relative [OF assms(1-8)]) (use assms(9) in simp_all)
  have target: "joinUrl base key = join [47] (?head @ take (length dirs - n) dirs) @ [47] @ ?name @ [35] @ f"
    using join join_parts [of "take (length dirs - n) dirs" segs "[47]"] assms(7)
    by (cases "take (length dirs - n) dirs") auto
  have plain: "35 \<notin> set ?name" "58 \<notin> set ?name" "?name \<noteq> []" "take 1 ?name \<noteq> [47]"
  proof -
    show "35 \<notin> set ?name" "58 \<notin> set ?name" using set_joined [of "[47]" segs] assms(4,5) by auto
    obtain s ss where "segs = s # ss" "s \<noteq> []" "hd s \<noteq> 47" using assms(4,7,8) by (cases segs; cases "hd segs") auto
    then show "?name \<noteq> []" "take 1 ?name \<noteq> [47]" by (cases ss; cases s; simp)+
  qed
  define ref where "ref = ?name @ 35 # f"
  have rs: "split_at 35 ref = [?name, f]" unfolding ref_def using split_append [OF plain(1)] assms(10) by (simp add: split_plain)
  have head: "starts_with [47] ref = False" "is_http ref = False" "starts_with [35] ref = False" "35 \<in> set ref"
    using plain assms(9) not_http [of ref] by (cases ?name; auto simp: ref_def starts_with_def)+
  have e: "inline_target base key location = Inr (join [47] (?head @ take (length dirs - n) dirs) @ [47] @ ?name, VStr f)"
  proof (cases n)
    case 0
    have "\<not> starts_with [46, 46, 47] key" using assms(11) key 0 by (cases "?name @ 35 # f") (auto simp: js_def)
    moreover have "butlast (split_at 47 base) = ?head @ dirs" unfolding sb by (simp add: butlast_append)
    moreover have "key = ref" using key 0 by (simp add: ref_def)
    ultimately show ?thesis using rs head plain(3) 0 by (simp add: inline_target_def js_def Let_def)
  next
    case (Suc k)
    have up: "starts_with [46, 46, 47] key" using key Suc by (simp add: starts_with_def)
    have "\<not> has_infix [46, 46, 47] ref" using assms(11) by (simp add: ref_def js_def)
    then have s: "split_on [46, 46, 47] [] key = replicate n [] @ [ref]" using split_on_ups key by (simp add: ref_def)
    have f: "length (filter (\<lambda>x. x = []) (replicate n [] @ [ref])) = n" by (simp add: ref_def filter_replicate)
    have "butlast (take (length (?head @ dirs @ [file]) - n) (?head @ dirs @ [file])) = ?head @ take (length dirs - n) dirs"
      using assms(6) Suc by (auto simp: butlast_append butlast_take take_Cons' min_def split: nat.split)
    then have "reset_root key base = (ref, join [47] (?head @ take (length dirs - n) dirs))"
      using s f sb by (simp add: reset_root_def js_def Let_def)
    then show ?thesis using rs head plain(3) up by (simp add: inline_target_def js_def Let_def)
  qed
  then show ?thesis using target by auto
qed

theorem inline_agrees_with_join_witness:
  "\<exists>root0 place. inline_target (js ''http://host/v1/list.json'') (js ''../pets.json#/Pet'') VUndef = Inr (root0, VStr place) \<and>
     root0 @ js ''#'' @ place = joinUrl (js ''http://host/v1/list.json'') (js ''../pets.json#/Pet'')"
proof (rule inline_agrees_with_join)
  let ?segs = "[js ''pets.json'']"
  show "js ''http'' \<noteq> []" "\<forall>c \<in> set (js ''http''). is_letter c" "47 \<notin> set (js ''host'')"
    by (simp_all add: js_def is_letter_def)
  show "\<forall>s \<in> set ([js ''v1''] @ [js ''list.json''] @ ?segs). 47 \<notin> set s \<and> 35 \<notin> set s" "\<forall>s \<in> set ?segs. 58 \<notin> set s"
    by (simp_all add: js_def)
  show "1 \<le> length [js ''v1'']" "?segs \<noteq> []" "hd ?segs \<notin> {[], [46], [46, 46]}" by (simp_all add: js_def)
  show "58 \<notin> set (js ''/Pet'')" "35 \<notin> set (js ''/Pet'')" by (simp_all add: js_def)
  show "\<not> has_infix (js ''../'') (join (js ''/'') ?segs @ js ''#'' @ js ''/Pet'')" by code_simp
  show "js ''http://host/v1/list.json'' = js ''http'' @ js ''://'' @ js ''host'' @ js ''/'' @ join (js ''/'') ([js ''v1''] @ [js ''list.json''])"
    "js ''../pets.json#/Pet'' = join (js ''/'') (replicate 1 (js ''..'') @ ?segs) @ js ''#'' @ js ''/Pet''"
    by (simp_all add: js_def)
qed

text \<open>Without a fragment, a reference to a file in a parent directory loses the file.\<close>

theorem parent_file_lost:
  "inline_target (js ''http://host/v1/pets/list.json'') (js ''../pet.json'') (VStr (js ''/'')) = Inr (js ''http://host/v1'', VStr (js ''/''))"
  by (simp add: inline_target_def reset_root_def split_on.simps starts_with_def js_def is_http_def Let_def)

section \<open>Composition\<close>

text \<open>No list \<open>allOf\<close> is left anywhere.\<close>

fun no_allOf :: "json \<Rightarrow> bool" where
  "no_allOf (VObj m) \<longleftrightarrow> \<not> is_array (lookup_field m (js ''allOf'')) \<and> (\<forall>(k, v) \<in> set m. no_allOf v)"
| "no_allOf (VArr vs) \<longleftrightarrow> (\<forall>v \<in> set vs. no_allOf v)"
| "no_allOf v \<longleftrightarrow> True"

lemma no_allOf_lookup:
  assumes "\<forall>(k, v) \<in> set m. no_allOf v"
  shows "no_allOf (lookup_field m k)"
proof (cases "map_of m k")
  case (Some v)
  then have "(k, v) \<in> set m" by (rule map_of_SomeD)
  then show ?thesis using assms Some by (auto simp: lookup_field_def)
qed (simp add: lookup_field_def)

lemma no_allOf_get: "no_allOf v \<Longrightarrow> no_allOf (get v k)"
  by (cases v) (simp_all add: no_allOf_lookup)

lemma set_update: "set (AList.update k v m) \<subseteq> insert (k, v) (set m)"
  by (induction m) auto

lemma set_delete: "p \<in> set (AList.delete k m) \<Longrightarrow> p \<in> set m"
  by (induction m) (auto split: if_splits)

lemma no_allOf_set:
  "no_allOf (VObj m) \<Longrightarrow> no_allOf v \<Longrightarrow> k = js ''allOf'' \<longrightarrow> \<not> is_array v \<Longrightarrow> no_allOf (VObj (set_field m k v))"
  using set_update [of k v m] by fastforce

lemma no_allOf_assign:
  assumes "assign w k v = Inr w'" "no_allOf w" "no_allOf v" "k = js ''allOf'' \<longrightarrow> \<not> is_array v"
  shows "no_allOf w'"
proof -
  obtain m where "w = VObj m" "w' = VObj (set_field m k v)" using assms(1) by (cases w) (auto simp: assign_def)
  then show ?thesis using no_allOf_set [of m v k] assms(2-4) by blast
qed

lemma no_allOf_for_in: "no_allOf v \<Longrightarrow> (k, w) \<in> set (for_in v) \<Longrightarrow> no_allOf w"
  by (cases v) (auto simp: in_set_enumerate_eq)

lemma map_until_set: "map_until f xs = Inr ys \<Longrightarrow> y \<in> set ys \<Longrightarrow> \<exists>x \<in> set xs. f x = Inr y"
  by (induction xs arbitrary: ys) (auto simp: bindE_eq_Inr)

lemma resolved_from_key [simp]: "resolved_from \<noteq> js ''allOf''" "resolved_from \<noteq> js ''properties''" "resolved_from \<noteq> js ''required''"
  "js ''allOf'' \<noteq> resolved_from" "js ''properties'' \<noteq> resolved_from" "js ''required'' \<noteq> resolved_from"
  by (simp_all add: resolved_from_def)

lemma mark_new_ok:
  assumes "mark_new source v = Inr w" "no_allOf v" "no_allOf source"
  shows "no_allOf w" "is_array w \<longrightarrow> is_array v"
proof -
  have "no_allOf w \<and> (is_array w \<longrightarrow> is_array v)"
  proof (cases v)
    case (VObj m)
    then obtain m' where m': "map_until (\<lambda>(name, v). bindE (assign v resolved_from source) (\<lambda>v. Inr (name, v))) m = Inr m'" "w = VObj m'"
      using assms(1) by (auto simp: mark_new_def bindE_eq_Inr)
    have "no_allOf u \<and> \<not> is_array u" if u: "(k, u) \<in> set m'" for k u
    proof -
      obtain u0 where "(k, u0) \<in> set m" and a: "assign u0 resolved_from source = Inr u"
        using map_until_set [OF m'(1) u] by (auto simp: bindE_eq_Inr)
      then have "no_allOf u0" using assms(2) VObj by auto
      then have "no_allOf u" using no_allOf_assign [OF a] assms(3) by simp
      then show ?thesis using a by (cases u0) (auto simp: assign_def)
    qed
    then show ?thesis using m'(2) lookup_in [of m' "js ''allOf''"] by auto
  qed (use assms in \<open>auto simp: mark_new_def split: if_splits\<close>)
  then show "no_allOf w" "is_array w \<longrightarrow> is_array v" by blast+
qed

lemma add_properties_ok:
  assumes "add_properties source ps out = Inr w" "no_allOf source" "\<forall>(k, v) \<in> set ps. no_allOf v" "no_allOf out"
  shows "no_allOf w"
  using assms
proof (induction ps arbitrary: out)
  case (Cons p ps)
  obtain name v where p: "p = (name, v)" by fastforce
  have v: "no_allOf v" using Cons.prems(3) p by simp
  obtain from1 v1 out1 where 1: "from1 = get v resolved_from \<or> from1 = source" "assign v resolved_from from1 = Inr v1"
      "assign out name v1 = Inr out1" "add_properties source ps out1 = Inr w"
    using Cons.prems(1) by (auto simp: p Let_def bindE_eq_Inr present_value_def split: if_splits)
  have "no_allOf from1" using 1(1) v Cons.prems(2) no_allOf_get by blast
  then have "no_allOf v1" using no_allOf_assign [OF 1(2) v] by simp
  moreover have "\<not> is_array v1" using 1(2) by (cases v) (auto simp: assign_def)
  ultimately have "no_allOf out1" using no_allOf_assign [OF 1(3) Cons.prems(4)] by simp
  then show ?case using Cons.IH [OF 1(4)] Cons.prems(2,3) by simp
qed simp

lemma set_dedup: "set (dedup xs) \<subseteq> set xs"
  by (induction xs rule: dedup.induct) auto

lemma no_allOf_required:
  assumes "merge_required v w = Inr a" "no_allOf v" "no_allOf w"
  shows "no_allOf a"
proof (cases v)
  case (VArr vs)
  let ?all = "vs @ (case w of VArr ws \<Rightarrow> ws | _ \<Rightarrow> [w])"
  have "\<forall>x \<in> set ?all. no_allOf x" using assms(2,3) VArr by (cases w) auto
  then have "\<forall>x \<in> set (dedup ?all). no_allOf x" using set_dedup [of ?all] by blast
  then show ?thesis using assms(1) VArr by (simp add: merge_required_def) (metis no_allOf.simps(2))
qed (use assms in \<open>auto simp: merge_required_def split: if_splits\<close>)

lemma merge_part_ok:
  assumes "merge_part source (part, v) out = Inr w" "no_allOf source" "no_allOf v" "no_allOf out"
    and "part = js ''allOf'' \<and> part \<notin> fst ` set (fields_of out) \<longrightarrow> \<not> is_array v"
  shows "no_allOf w"
proof -
  consider (new) "part \<notin> fst ` set (fields_of out)" | (properties) "part \<in> fst ` set (fields_of out)" "part = js ''properties''"
    | (required) "part \<in> fst ` set (fields_of out)" "part = js ''required''"
    | (from1) "part \<in> fst ` set (fields_of out)" "part = resolved_from"
    | (other) "w = out"
    using assms(1) by (auto simp: merge_part_def split: if_splits)
  then show ?thesis
  proof cases
    case new
    obtain v1 where v1: "(if part = js ''properties'' then mark_new source v else Inr v) = Inr v1" "assign out part v1 = Inr w"
      using assms(1) new by (auto simp: merge_part_def bindE_eq_Inr)
    have "no_allOf v1" "is_array v1 \<longrightarrow> is_array v" using v1(1) mark_new_ok [of source v v1] assms(2,3) by (auto split: if_splits)
    then show ?thesis using no_allOf_assign [OF v1(2) assms(4)] assms(5) new by blast
  next
    case properties
    obtain ps where ps: "add_properties source (for_in v) (fld out ''properties'') = Inr ps" "assign out (js ''properties'') ps = Inr w"
      using assms(1) properties by (auto simp: merge_part_def bindE_eq_Inr)
    have "\<forall>(k, u) \<in> set (for_in v). no_allOf u" using no_allOf_for_in [OF assms(3)] by blast
    then have "no_allOf ps" using add_properties_ok [OF ps(1) assms(2)] no_allOf_get [OF assms(4)] by blast
    then show ?thesis using no_allOf_assign [OF ps(2) assms(4)] by simp
  next
    case required
    obtain a where a: "merge_required (fld out ''required'') v = Inr a" "assign out (js ''required'') a = Inr w"
      using assms(1) required by (auto simp: merge_part_def bindE_eq_Inr)
    have "no_allOf a" using no_allOf_required [OF a(1) no_allOf_get [OF assms(4)] assms(3)] .
    then show ?thesis using no_allOf_assign [OF a(2) assms(4)] by simp
  next
    case from1
    have g: "no_allOf (get out resolved_from)" using no_allOf_get [OF assms(4)] .
    obtain vs where vs: "get out resolved_from = VArr vs" "assign out resolved_from (VArr (vs @ [source])) = Inr w"
      using assms(1) from1 by (auto simp: merge_part_def split: json.splits if_splits)
    then have "no_allOf (VArr (vs @ [source]))" using g assms(2) by auto
    then show ?thesis using no_allOf_assign [OF vs(2) assms(4)] by simp
  qed (use assms(4) in simp)
qed

lemma keys_set: "fst ` set (set_field m k v) = insert k (fst ` set m)"
  by (simp add: dom_update)

lemma keys_assign:
  assumes "assign w k v = Inr w'"
  shows "fst ` set (fields_of w') = insert k (fst ` set (fields_of w))"
proof -
  obtain m where m: "w = VObj m" "w' = VObj (set_field m k v)" using assms by (cases w) (auto simp: assign_def)
  show ?thesis unfolding m fields_of.simps by (rule keys_set)
qed

lemma merge_part_keys:
  "merge_part source (part, v) out = Inr w \<Longrightarrow> fst ` set (fields_of w) = insert part (fst ` set (fields_of out))"
  by (auto simp: merge_part_def bindE_eq_Inr dest!: keys_assign split: if_splits json.splits)

lemma merge_parts_ok:
  assumes "foldE (merge_part source) ps out = Inr w" "no_allOf source" "\<forall>(k, v) \<in> set ps. no_allOf v" "no_allOf out"
    and "js ''allOf'' \<in> fst ` set (fields_of out) \<or> \<not> is_array (lookup_field ps (js ''allOf''))"
  shows "no_allOf w"
  using assms
proof (induction ps arbitrary: out)
  case (Cons p ps)
  obtain part v where p: "p = (part, v)" by fastforce
  obtain out1 where 1: "merge_part source (part, v) out = Inr out1" "foldE (merge_part source) ps out1 = Inr w"
    using Cons.prems(1) by (auto simp: p bindE_eq_Inr)
  have v: "no_allOf v" "\<forall>(k, v) \<in> set ps. no_allOf v" using Cons.prems(3) p by auto
  have "lookup_field ((part, v) # ps) (js ''allOf'') = v" if "part = js ''allOf''" using that by (simp add: lookup_field_def)
  then have "part = js ''allOf'' \<and> part \<notin> fst ` set (fields_of out) \<longrightarrow> \<not> is_array v" using Cons.prems(5) p by auto
  then have out1: "no_allOf out1" by (rule merge_part_ok [OF 1(1) Cons.prems(2) v(1) Cons.prems(4)])
  have "lookup_field ((part, v) # ps) (js ''allOf'') = lookup_field ps (js ''allOf'')" if "part \<noteq> js ''allOf''"
    using that by (simp add: lookup_field_def)
  then have "js ''allOf'' \<in> fst ` set (fields_of out1) \<or> \<not> is_array (lookup_field ps (js ''allOf''))"
    unfolding merge_part_keys [OF 1(1)] using Cons.prems(5) p by (cases "part = js ''allOf''") auto
  then show ?case by (rule Cons.IH [OF 1(2) Cons.prems(2) v(2) out1])
qed simp

lemma allOf_no_index: "is_array v \<or> is_string v \<Longrightarrow> \<not> is_array (lookup_field (for_in v) (js ''allOf''))"
proof -
  have n0: "js ''allOf'' \<noteq> nat_digits n" for n
  proof
    assume n: "js ''allOf'' = nat_digits n"
    have "list_all is_digit (js ''allOf'')" unfolding n using nat_digits_digits by blast
    then show False by (simp add: js_def is_digit_def)
  qed
  have k: "js ''allOf'' \<notin> fst ` set (for_in v)" if "is_array v \<or> is_string v"
    using that by (cases v) (auto simp: image_iff n0)
  assume "is_array v \<or> is_string v"
  then show ?thesis using k lookup_in [of "for_in v" "js ''allOf''"] by force
qed

lemma member_ok: "member v k = Inr w \<Longrightarrow> no_allOf v \<Longrightarrow> no_allOf w"
proof (cases v)
  case (VArr vs)
  assume "member v k = Inr w" "no_allOf v"
  moreover have "\<forall>(k, u) \<in> set (for_in v). no_allOf u" using no_allOf_for_in [OF \<open>no_allOf v\<close>] by blast
  ultimately show ?thesis using VArr no_allOf_lookup by (auto split: if_splits simp del: for_in.simps)
next
  case (VStr s)
  assume "member v k = Inr w" "no_allOf v"
  moreover have "\<forall>(k, u) \<in> set (for_in v). no_allOf u" using no_allOf_for_in [OF \<open>no_allOf v\<close>] by blast
  ultimately show ?thesis using VStr no_allOf_lookup by (auto split: if_splits simp del: for_in.simps)
qed (auto simp: no_allOf_lookup)

lemma merge_component_ok:
  assumes "merge_component c out = Inr w" "no_allOf c" "no_allOf out"
  shows "no_allOf w"
proof -
  obtain source where s: "(if get c resolved_from = VUndef then Inr (VStr (js ''self''))
           else member (get c resolved_from) (js ''0'')) = Inr source" "foldE (merge_part source) (for_in c) out = Inr w"
    using assms(1) by (auto simp: merge_component_def bindE_eq_Inr present_value_def split: if_splits)
  have "no_allOf source" using s(1) member_ok [of "get c resolved_from"] no_allOf_get [OF assms(2)] by (auto split: if_splits)
  moreover have "\<not> is_array (lookup_field (for_in c) (js ''allOf''))"
  proof (cases "is_array c \<or> is_string c")
    case False
    then show ?thesis using assms(2) by (cases c) simp_all
  qed (rule allOf_no_index)
  ultimately show ?thesis using merge_parts_ok [OF s(2)] no_allOf_for_in [OF assms(2)] assms(3) by blast
qed

lemma foldE_inv: "foldE f xs a = Inr b \<Longrightarrow> P a \<Longrightarrow> (\<And>x a b. x \<in> set xs \<Longrightarrow> f x a = Inr b \<Longrightarrow> P a \<Longrightarrow> P b) \<Longrightarrow> P b"
  by (induction xs arbitrary: a) (auto simp: bindE_eq_Inr)

lemma compose_item_ok:
  assumes "compose_item (VObj m) = Inr w" "\<forall>(k, v) \<in> set m. no_allOf v" "is_array (lookup_field m (js ''allOf''))"
  shows "no_allOf w"
proof -
  let ?out = "VObj (set_field (delete_field m (js ''allOf'')) (js ''x-composed'') (VBool True))"
  obtain cs where cs: "lookup_field m (js ''allOf'') = VArr cs" using assms(3) by (cases "lookup_field m (js ''allOf'')") auto
  have "no_allOf (VArr cs)" using no_allOf_lookup [OF assms(2), of "js ''allOf''"] cs by simp
  moreover have "no_allOf ?out"
  proof (rule no_allOf_set)
    show "no_allOf (VObj (delete_field m (js ''allOf'')))" using assms(2) by (auto dest: set_delete)
  qed simp_all
  moreover have "foldE merge_component cs ?out = Inr w" using assms(1) cs by (simp add: compose_item_def)
  ultimately show ?thesis using foldE_inv [of merge_component cs ?out w no_allOf] merge_component_ok by auto
qed

fun inner_ok :: "json \<Rightarrow> bool" where
  "inner_ok (VObj m) \<longleftrightarrow> (\<forall>(k, v) \<in> set m. no_allOf v)"
| "inner_ok (VArr vs) \<longleftrightarrow> (\<forall>v \<in> set vs. no_allOf v)"
| "inner_ok v \<longleftrightarrow> True"

lemma inner_composed:
  assumes "inner_ok item" "(if is_array (fld item ''allOf'') then compose_item item else Inr item) = Inr w"
  shows "no_allOf w"
proof (cases item)
  case (VObj m)
  then show ?thesis using assms compose_item_ok [of m w] by (cases "is_array (fld item ''allOf'')") auto
qed (use assms in auto)

lemma resolveAllOf_ok: "resolveAllOf v = Inr w \<Longrightarrow> inner_ok w"
proof (induction v arbitrary: w rule: resolveAllOf.induct)
  case (1 m)
  then obtain m' where m': "map_until (\<lambda>(key, item). if item = VNull then Inl null_type
      else bindE (resolveAllOf item) (\<lambda>item.
        bindE (if is_array (fld item ''allOf'') then compose_item item else Inr item) (\<lambda>item. Inr (key, item)))) m = Inr m'" "w = VObj m'"
    by (auto simp: bindE_eq_Inr)
  have "no_allOf u" if "(k, u) \<in> set m'" for k u
  proof -
    have "\<exists>x \<in> set m. (case x of (key, item) \<Rightarrow> if item = VNull then Inl null_type
      else bindE (resolveAllOf item) (\<lambda>item.
        bindE (if is_array (fld item ''allOf'') then compose_item item else Inr item) (\<lambda>item. Inr (key, item)))) = Inr (k, u)"
      by (rule map_until_set [OF m'(1) that])
    then obtain item item1 where "(k, item) \<in> set m" "item \<noteq> VNull" "resolveAllOf item = Inr item1"
      "(if is_array (fld item1 ''allOf'') then compose_item item1 else Inr item1) = Inr u"
      by (auto simp: bindE_eq_Inr split: if_splits)
    then show ?thesis using 1(1) inner_composed by blast
  qed
  then show ?case using m'(2) by auto
next
  case (2 vs)
  then obtain vs' where vs': "map_until (\<lambda>item. if item = VNull then Inl null_type
      else bindE (resolveAllOf item) (\<lambda>item.
        if is_array (fld item ''allOf'') then compose_item item else Inr item)) vs = Inr vs'" "w = VArr vs'"
    by (auto simp: bindE_eq_Inr)
  have "no_allOf u" if u: "u \<in> set vs'" for u
  proof -
    obtain item item1 where "item \<in> set vs" "item \<noteq> VNull" "resolveAllOf item = Inr item1"
      "(if is_array (fld item1 ''allOf'') then compose_item item1 else Inr item1) = Inr u"
      using map_until_set [OF vs'(1) u] by (auto simp: bindE_eq_Inr split: if_splits)
    then show ?thesis using 2(1) inner_composed by blast
  qed
  then show ?case using vs'(2) by auto
qed auto

text \<open>
  C9. Composition leaves no \<open>allOf\<close>: when \<open>resolveAllOf\<close> ends without an exception, no schema of a
  definition has a list \<open>allOf\<close> any more, however deep, also in what the components brought along.
\<close>

theorem composed_everywhere:
  assumes "resolveAllOf (VObj definitions) = Inr (VObj out)"
  shows "list_all (\<lambda>(name, schema). no_allOf schema) out"
  using resolveAllOf_ok [OF assms] by (simp add: list_all_iff)

definition pet_schema :: json where
  "pet_schema = VObj [(js ''required'', VArr [VStr (js ''name'')]), (js ''properties'', VObj [(js ''name'', VObj [])])]"

definition dog_schema :: fields where
  "dog_schema = [(js ''type'', VStr (js ''object'')), (js ''allOf'', VArr [pet_schema]), (js ''required'', VArr [VStr (js ''bark'')]),
     (js ''properties'', VObj [(js ''bark'', VObj [])])]"

theorem composed_everywhere_witness:
  "\<exists>out. resolveAllOf (VObj [(js ''Dog'', VObj dog_schema)]) = Inr (VObj out) \<and> list_all (\<lambda>(name, schema). no_allOf schema) out"
proof -
  have "(case resolveAllOf (VObj [(js ''Dog'', VObj dog_schema)]) of Inr (VObj out) \<Rightarrow> True | _ \<Rightarrow> False)" by code_simp
  then obtain out where out: "resolveAllOf (VObj [(js ''Dog'', VObj dog_schema)]) = Inr (VObj out)"
    by (auto split: sum.splits json.splits)
  then show ?thesis using composed_everywhere [OF out] by blast
qed

section \<open>What a composed schema is made of\<close>

text \<open>A schema as composition expects it: each property once, \<open>properties\<close> an object, \<open>required\<close> a list of names.\<close>

fun is_map :: "json \<Rightarrow> bool" where
  "is_map (VObj m) = True"
| "is_map v = False"

fun is_props :: "json \<Rightarrow> bool" where
  "is_props (VObj m) = list_all (\<lambda>(name, v). is_map v) m"
| "is_props v = False"

fun is_names :: "json \<Rightarrow> bool" where
  "is_names (VArr vs) = list_all is_string vs"
| "is_names v = False"

lemma is_map_iff: "is_map v \<longleftrightarrow> (\<exists>ps. v = VObj ps)"
  by (cases v) simp_all

lemma is_props_iff: "is_props v \<longleftrightarrow> (\<exists>ps. v = VObj ps \<and> list_all (\<lambda>(name, v). is_map v) ps)"
  by (cases v) simp_all

lemma strings_map: "list_all is_string vs \<longleftrightarrow> (\<exists>ns. vs = map VStr ns)"
proof (induction vs)
  case (Cons v vs)
  have "is_string v \<longleftrightarrow> (\<exists>s. v = VStr s)" by (cases v) simp_all
  then show ?case using Cons by (auto simp: Cons_eq_map_conv)
qed simp

lemma is_names_iff: "is_names v \<longleftrightarrow> (\<exists>ns. v = VArr (map VStr ns))"
  by (cases v) (simp_all add: strings_map)

text \<open>A property of a schema that composition can handle, and a schema with such properties.\<close>

definition part_ok :: "jstr \<times> json \<Rightarrow> bool" where
  "part_ok p \<longleftrightarrow> (fst p = js ''properties'' \<longrightarrow> is_props (snd p)) \<and> (fst p = js ''required'' \<longrightarrow> is_names (snd p)) \<and>
     (fst p = resolved_from \<longrightarrow> is_array (snd p))"

fun schema_like :: "json \<Rightarrow> bool" where
  "schema_like (VObj m) \<longleftrightarrow> distinct (map fst m) \<and> list_all part_ok m"
| "schema_like v \<longleftrightarrow> False"

definition prop_names :: "json \<Rightarrow> jstr set" where
  "prop_names v = fst ` set (fields_of (fld v ''properties''))"

definition required_names :: "json \<Rightarrow> json set" where
  "required_names v = set (items_of (fld v ''required''))"

abbreviation own_keys :: "json \<Rightarrow> jstr set" where
  "own_keys v \<equiv> fst ` set (fields_of v)"

lemma lookup_no_key: "k \<notin> fst ` set m \<Longrightarrow> lookup_field m k = VUndef"
  using lookup_in [of m k] by (metis fst_conv image_eqI)

lemma get_assign: "assign w k v = Inr w' \<Longrightarrow> get w' k' = (if k' = k then v else get w k')"
  by (cases w) (auto simp: assign_def)

lemma schema_like_assign:
  assumes "schema_like w" "assign w k v = Inr w'" "part_ok (k, v)"
  shows "schema_like w'"
proof -
  obtain m where m: "w = VObj m" "w' = VObj (set_field m k v)" using assms(2) by (cases w) (auto simp: assign_def)
  then have "distinct (map fst (set_field m k v))" using assms(1) by (simp add: distinct_update)
  then show ?thesis using assms(1,3) m set_update [of k v m] by (auto simp: list_all_iff)
qed

lemma schema_like_part: "schema_like v \<Longrightarrow> k \<in> own_keys v \<Longrightarrow> part_ok (k, get v k)"
proof -
  assume v: "schema_like v" "k \<in> own_keys v"
  obtain m where m: "v = VObj m" using v(1) by (cases v) auto
  have "lookup_field m k \<noteq> VUndef \<Longrightarrow> (k, lookup_field m k) \<in> set m" using lookup_in by metis
  moreover have "(k, lookup_field m k) \<in> set m"
    using v m by (auto simp: lookup_field_def dest!: map_of_is_SomeI)
  ultimately show ?thesis using v(1) m by (auto simp: list_all_iff)
qed

lemma mark_new_total:
  assumes "is_props v"
  shows "\<exists>w. mark_new source v = Inr w \<and> is_props w \<and> fst ` set (fields_of w) = fst ` set (fields_of v)"
proof -
  obtain ps where ps: "v = VObj ps" "list_all (\<lambda>(name, v). is_map v) ps" using assms by (auto simp: is_props_iff)
  from ps(2) have "\<exists>ps'. map_until (\<lambda>(name, v). bindE (assign v resolved_from source) (\<lambda>v. Inr (name, v))) ps = Inr ps' \<and>
      list_all (\<lambda>(name, v). is_map v) ps' \<and> map fst ps' = map fst ps"
  proof (induction ps)
    case (Cons p ps)
    then obtain ps' where ps': "map_until (\<lambda>(name, v). bindE (assign v resolved_from source) (\<lambda>v. Inr (name, v))) ps = Inr ps'"
      "list_all (\<lambda>(name, v). is_map v) ps'" "map fst ps' = map fst ps" by auto
    obtain name m where "p = (name, VObj m)" using Cons.prems by (cases p) (auto simp: is_map_iff)
    then show ?case using ps' by (simp add: assign_def)
  qed simp
  then show ?thesis using ps(1) by (auto simp: mark_new_def simp flip: set_map)
qed

lemma add_properties_total:
  assumes "list_all (\<lambda>(name, v). is_map v) ps" "is_props out"
  shows "\<exists>w. add_properties source ps out = Inr w \<and> is_props w \<and> own_keys w = own_keys out \<union> fst ` set ps"
  using assms
proof (induction ps arbitrary: out)
  case (Cons p ps)
  obtain name m where p: "p = (name, VObj m)" using Cons.prems by (cases p) (auto simp: is_map_iff)
  obtain qs where qs: "out = VObj qs" "list_all (\<lambda>(name, v). is_map v) qs" using Cons.prems by (auto simp: is_props_iff)
  have "\<exists>v. add_properties source (p # ps) out = add_properties source ps (VObj (set_field qs name (VObj v)))"
    by (auto simp: p qs Let_def present_value_def assign_def)
  then obtain v where v: "add_properties source (p # ps) out = add_properties source ps (VObj (set_field qs name (VObj v)))" ..
  have "is_props (VObj (set_field qs name (VObj v)))"
    using qs(2) set_update [of name "VObj v" qs] by (auto simp: list_all_iff)
  then obtain w where "add_properties source ps (VObj (set_field qs name (VObj v))) = Inr w" "is_props w"
      "own_keys w = own_keys (VObj (set_field qs name (VObj v))) \<union> fst ` set ps"
    using Cons.IH Cons.prems(1) by fastforce
  then show ?case unfolding v by (auto simp: p qs keys_set)
qed simp

lemma dedup_names: "\<exists>ms. dedup (map VStr ns) = map VStr ms \<and> set ms = set ns \<and> distinct ms"
proof (induction "map VStr ns" arbitrary: ns rule: dedup.induct)
  case (2 x xs)
  then obtain n ns' where n: "ns = n # ns'" "x = VStr n" "xs = map VStr ns'" by (cases ns) auto
  have f: "filter (\<lambda>y. \<not> strict_eq x y) xs = map VStr (filter (\<lambda>y. y \<noteq> n) ns')"
    unfolding n by (induction ns') (auto simp: strict_eq_def)
  obtain ms where ms: "dedup (map VStr (filter (\<lambda>y. y \<noteq> n) ns')) = map VStr ms" "set ms = set (filter (\<lambda>y. y \<noteq> n) ns')" "distinct ms"
    using 2(1) [OF f] by blast
  have "dedup (map VStr ns) = map VStr (n # ms)" using ms(1) f n by simp
  then show ?case using ms(2,3) n(1) by (intro exI [of _ "n # ms"]) auto
qed simp

lemma merge_required_total:
  assumes "is_names v" "is_names w"
  shows "\<exists>a. merge_required v w = Inr a \<and> is_names a \<and> set (items_of a) = set (items_of v) \<union> set (items_of w)"
proof -
  obtain ns ks where "v = VArr (map VStr ns)" "w = VArr (map VStr ks)" using assms by (auto simp: is_names_iff)
  moreover obtain ms where "dedup (map VStr (ns @ ks)) = map VStr ms" "set ms = set (ns @ ks)" using dedup_names by metis
  ultimately show ?thesis by (auto simp: merge_required_def is_names_iff)
qed

text \<open>What one property of a component adds.\<close>

definition adds :: "jstr \<Rightarrow> 'a set \<Rightarrow> jstr \<Rightarrow> 'a set" where
  "adds key xs part = (if part = key then xs else {})"

abbreviation untouched :: "jstr \<Rightarrow> bool" where
  "untouched k \<equiv> k \<notin> {js ''properties'', js ''required'', resolved_from}"

definition merged :: "json \<Rightarrow> json \<Rightarrow> jstr set \<Rightarrow> json set \<Rightarrow> jstr set \<Rightarrow> bool" where
  "merged out w names reqs keys \<longleftrightarrow> schema_like w \<and> prop_names w = prop_names out \<union> names \<and> required_names w = required_names out \<union> reqs \<and>
     own_keys w = own_keys out \<union> keys \<and> (\<forall>k. k \<in> own_keys out \<longrightarrow> untouched k \<longrightarrow> get w k = get out k)"

lemma own_keys_assign: "assign w k v = Inr w' \<Longrightarrow> own_keys w' = insert k (own_keys w)"
  by (rule keys_assign)

lemma merged_assign:
  assumes "schema_like out" "part_ok (part, v)"
    and "if part = js ''properties'' then own_keys v = prop_names out \<union> names else names = {}"
    and "if part = js ''required'' then set (items_of v) = required_names out \<union> reqs else reqs = {}"
    and "part \<in> own_keys out \<longrightarrow> \<not> untouched part"
  shows "\<exists>w. assign out part v = Inr w \<and> merged out w names reqs {part}"
proof -
  obtain m where "out = VObj m" using assms(1) by (cases out) auto
  then obtain w where w: "assign out part v = Inr w" by (simp add: assign_def)
  have "schema_like w" by (rule schema_like_assign [OF assms(1) w assms(2)])
  moreover have "prop_names w = prop_names out \<union> names" "required_names w = required_names out \<union> reqs"
    using assms(3,4) by (auto simp: prop_names_def required_names_def get_assign [OF w] split: if_splits)
  moreover have "get w k = get out k" if "k \<in> own_keys out" "untouched k" for k
    using that assms(5) by (auto simp: get_assign [OF w])
  ultimately show ?thesis using w own_keys_assign [OF w] by (auto simp: merged_def)
qed

lemma merge_part_total:
  assumes "schema_like out" "part_ok (part, v)"
  shows "\<exists>w. merge_part source (part, v) out = Inr w \<and>
    merged out w (adds (js ''properties'') (own_keys v) part) (adds (js ''required'') (set (items_of v)) part) {part}"
proof (cases "part \<in> own_keys out")
  case False
  obtain m where out: "out = VObj m" using assms(1) by (cases out) auto
  have old: "get out part = VUndef" using False lookup_no_key by (simp add: out)
  obtain v1 where v1: "(if part = js ''properties'' then mark_new source v else Inr v) = Inr v1" "part_ok (part, v1)"
      "if part = js ''properties'' then own_keys v1 = own_keys v else v1 = v"
    using assms(2) mark_new_total [of v source] by (cases "part = js ''properties''") (auto simp: part_ok_def)
  have "\<exists>w. assign out part v1 = Inr w \<and>
    merged out w (adds (js ''properties'') (own_keys v) part) (adds (js ''required'') (set (items_of v)) part) {part}"
    by (rule merged_assign [OF assms(1) v1(2)])
      (use False v1(3) old in \<open>auto simp: adds_def prop_names_def required_names_def split: if_splits\<close>)
  then show ?thesis using False v1(1) by (simp add: merge_part_def)
next
  case True
  have old: "part_ok (part, get out part)" by (rule schema_like_part [OF assms(1) True])
  consider (properties) "part = js ''properties''" | (required) "part = js ''required''" | (from1) "part = resolved_from" | (other) "untouched part" by auto
  then show ?thesis
  proof cases
    case properties
    obtain qs rs where qs: "v = VObj qs" "list_all (\<lambda>(name, v). is_map v) qs" "is_props (get out part)"
      using assms(2) old properties by (auto simp: part_ok_def is_props_iff)
    then obtain w where w: "add_properties source qs (get out part) = Inr w" "is_props w" "own_keys w = own_keys (get out part) \<union> fst ` set qs"
      using add_properties_total by blast
    have "\<exists>w'. assign out part w = Inr w' \<and>
      merged out w' (adds (js ''properties'') (own_keys v) part) (adds (js ''required'') (set (items_of v)) part) {part}"
      by (rule merged_assign [OF assms(1)]) (use w qs(1) properties in \<open>auto simp: part_ok_def adds_def prop_names_def\<close>)
    then show ?thesis using True w(1) qs(1) properties by (simp add: merge_part_def)
  next
    case required
    then have "is_names (get out part)" "is_names v" using assms(2) old by (simp_all add: part_ok_def)
    then obtain w where w: "merge_required (get out part) v = Inr w" "is_names w"
        "set (items_of w) = set (items_of (get out part)) \<union> set (items_of v)"
      using merge_required_total by blast
    have "\<exists>w'. assign out part w = Inr w' \<and>
      merged out w' (adds (js ''properties'') (own_keys v) part) (adds (js ''required'') (set (items_of v)) part) {part}"
      by (rule merged_assign [OF assms(1)]) (use w required in \<open>auto simp: part_ok_def adds_def required_names_def\<close>)
    then show ?thesis using True w(1) required by (simp add: merge_part_def)
  next
    case from1
    then obtain vs where vs: "get out resolved_from = VArr vs" using old by (cases "get out resolved_from") (auto simp: part_ok_def)
    have "\<exists>w'. assign out part (VArr (vs @ [source])) = Inr w' \<and>
      merged out w' (adds (js ''properties'') (own_keys v) part) (adds (js ''required'') (set (items_of v)) part) {part}"
      by (rule merged_assign [OF assms(1)]) (use from1 in \<open>auto simp: part_ok_def adds_def\<close>)
    then show ?thesis using True vs from1 by (simp add: merge_part_def)
  next
    case other
    then have "merged out out (adds (js ''properties'') (own_keys v) part) (adds (js ''required'') (set (items_of v)) part) {part}"
      using assms(1) True by (auto simp: merged_def adds_def)
    then show ?thesis using other True by (simp add: merge_part_def)
  qed
qed

lemma merged_refl: "schema_like out \<Longrightarrow> merged out out {} {} {}"
  by (simp add: merged_def)

lemma merged_trans:
  "merged out v names reqs ks \<Longrightarrow> merged v w names' reqs' ks' \<Longrightarrow> merged out w (names \<union> names') (reqs \<union> reqs') (ks \<union> ks')"
  by (auto simp: merged_def)

lemma merge_parts_total:
  assumes "schema_like out" "schema_like (VObj ps)"
  shows "\<exists>w. foldE (merge_part source) ps out = Inr w \<and> merged out w (prop_names (VObj ps)) (required_names (VObj ps)) (fst ` set ps)"
  using assms
proof (induction ps arbitrary: out)
  case Nil
  then show ?case using merged_refl by (simp add: prop_names_def required_names_def)
next
  case (Cons p ps)
  obtain part v where p: "p = (part, v)" by fastforce
  have ps: "part_ok (part, v)" "schema_like (VObj ps)" "part \<notin> fst ` set ps" using Cons.prems(2) by (auto simp: p)
  obtain v1 where v1: "merge_part source (part, v) out = Inr v1"
      "merged out v1 (adds (js ''properties'') (own_keys v) part) (adds (js ''required'') (set (items_of v)) part) {part}"
    using merge_part_total [OF Cons.prems(1) ps(1)] by blast
  then have "schema_like v1" by (simp add: merged_def)
  then obtain w where w: "foldE (merge_part source) ps v1 = Inr w" "merged v1 w (prop_names (VObj ps)) (required_names (VObj ps)) (fst ` set ps)"
    using Cons.IH ps(2) by blast
  have "lookup_field ps part = VUndef" using ps(3) by (rule lookup_no_key)
  then have "prop_names (VObj (p # ps)) = adds (js ''properties'') (own_keys v) part \<union> prop_names (VObj ps)"
    "required_names (VObj (p # ps)) = adds (js ''required'') (set (items_of v)) part \<union> required_names (VObj ps)"
    by (auto simp: p prop_names_def required_names_def adds_def)
  then show ?case using merged_trans [OF v1(2) w(2)] v1(1) w(1) by (simp add: p)
qed

lemma merge_component_total:
  assumes "schema_like out" "schema_like c"
  shows "\<exists>w. merge_component c out = Inr w \<and> merged out w (prop_names c) (required_names c) (own_keys c)"
proof -
  obtain ps where c: "c = VObj ps" using assms(2) by (cases c) auto
  have "\<exists>source. (if get c resolved_from = VUndef then Inr (VStr (js ''self'')) else member (get c resolved_from) (js ''0'')) = Inr source"
  proof (cases "resolved_from \<in> own_keys c")
    case True
    then have "is_array (get c resolved_from)" using schema_like_part [OF assms(2)] by (simp add: part_ok_def)
    then show ?thesis by (cases "get c resolved_from") auto
  next
    case False
    then show ?thesis using lookup_no_key by (simp add: c)
  qed
  then obtain source where s: "(if get c resolved_from = VUndef then Inr (VStr (js ''self'')) else member (get c resolved_from) (js ''0'')) = Inr source" ..
  have "merge_component c out = foldE (merge_part source) ps out"
    using s by (simp add: merge_component_def c present_value_def split: if_splits)
  then show ?thesis using merge_parts_total [of out ps source] assms by (simp add: c)
qed

lemma merge_components_total:
  assumes "schema_like out" "\<forall>c \<in> set cs. schema_like c"
  shows "\<exists>w. foldE merge_component cs out = Inr w \<and>
    merged out w (\<Union> (prop_names ` set cs)) (\<Union> (required_names ` set cs)) (\<Union> (own_keys ` set cs))"
  using assms
proof (induction cs arbitrary: out)
  case Nil
  then show ?case using merged_refl by simp
next
  case (Cons c cs)
  obtain v where v: "merge_component c out = Inr v" "merged out v (prop_names c) (required_names c) (own_keys c)"
    using merge_component_total [of out c] Cons.prems by auto
  then have "schema_like v" by (simp add: merged_def)
  then obtain w where w: "foldE merge_component cs v = Inr w"
      "merged v w (\<Union> (prop_names ` set cs)) (\<Union> (required_names ` set cs)) (\<Union> (own_keys ` set cs))"
    using Cons.IH Cons.prems(2) by auto
  then show ?case using merged_trans [OF v(2) w(2)] v(1) by simp
qed

lemma own_keys_start: "fst ` set (set_field (delete_field m k) k' v) = insert k' (fst ` set m - {k})"
proof -
  have "fst ` set (delete_field m k) = fst ` set m - {k}" by (induction m) auto
  then show ?thesis by (simp add: keys_set)
qed

text \<open>
  C8. Composition brings the parts of a schema together: it succeeds on schemas whose \<open>properties\<close> are
  objects and whose \<open>required\<close> are lists of names; the result has the properties and the required names
  of the schema and of each component, has every other field one of them has, and keeps those of
  the schema itself as they were.
\<close>

theorem composition_total:
  assumes "schema_like (VObj m)" "lookup_field m (js ''allOf'') = VArr cs" "\<forall>c \<in> set cs. schema_like c"
  shows "\<exists>out. compose_item (VObj m) = Inr out \<and>
    prop_names out = prop_names (VObj m) \<union> \<Union> (prop_names ` set cs) \<and>
    required_names out = required_names (VObj m) \<union> \<Union> (required_names ` set cs) \<and>
    own_keys out = insert (js ''x-composed'') (fst ` set m - {js ''allOf''}) \<union> \<Union> (own_keys ` set cs) \<and>
    (\<forall>k. k \<in> fst ` set m - {js ''allOf'', js ''x-composed'', js ''properties'', js ''required'', resolved_from}
       \<longrightarrow> get out k = lookup_field m k)"
proof -
  let ?m = "set_field (delete_field m (js ''allOf'')) (js ''x-composed'') (VBool True)"
  have r: "resolved_from = js ''x-resolved-from''" by (rule resolved_from_def)
  have "distinct (map fst ?m)" using assms(1) by (simp add: distinct_update distinct_delete)
  moreover have "list_all part_ok ?m"
    using assms(1) set_update [of "js ''x-composed''" "VBool True" "delete_field m (js ''allOf'')"] set_delete [of _ "js ''allOf''" m]
    by (fastforce simp: list_all_iff part_ok_def r)
  ultimately have "schema_like (VObj ?m)" by simp
  then obtain w where w: "foldE merge_component cs (VObj ?m) = Inr w"
      "merged (VObj ?m) w (\<Union> (prop_names ` set cs)) (\<Union> (required_names ` set cs)) (\<Union> (own_keys ` set cs))"
    using merge_components_total assms(3) by blast
  have "prop_names (VObj ?m) = prop_names (VObj m)" "required_names (VObj ?m) = required_names (VObj m)"
    by (simp_all add: prop_names_def required_names_def)
  moreover have "get w k = lookup_field m k"
    if "k \<in> fst ` set m - {js ''allOf'', js ''x-composed'', js ''properties'', js ''required'', resolved_from}" for k
  proof -
    have "k \<in> own_keys (VObj ?m)" "untouched k" using that by (auto simp: own_keys_start)
    then have "get w k = get (VObj ?m) k" using w(2) by (simp add: merged_def)
    then show ?thesis using that by simp
  qed
  ultimately show ?thesis
    using w by (intro exI [of _ w]) (auto simp: compose_item_def assms(2) merged_def own_keys_start)
qed

theorem composition_total_witness:
  "\<exists>out. compose_item (VObj dog_schema) = Inr out \<and> prop_names out = {js ''name'', js ''bark''} \<and>
     required_names out = {VStr (js ''name''), VStr (js ''bark'')}"
proof -
  have p: "list_all part_ok dog_schema" "distinct (map fst dog_schema)" "schema_like pet_schema"
    by (simp_all add: dog_schema_def pet_schema_def part_ok_def resolved_from_def)
  have c: "lookup_field dog_schema (js ''allOf'') = VArr [pet_schema]" by (simp add: dog_schema_def)
  have n: "prop_names pet_schema = {js ''name''}" "required_names pet_schema = {VStr (js ''name'')}"
    "prop_names (VObj dog_schema) = {js ''bark''}" "required_names (VObj dog_schema) = {VStr (js ''bark'')}"
    by (simp_all add: prop_names_def required_names_def pet_schema_def dog_schema_def)
  show ?thesis using composition_total [OF _ c] p n by (auto simp: insert_commute)
qed

end
