(* ===== verification/ResolverTable.thy ===== *)
theory ResolverTable
  imports ResolverLaws
begin

text \<open>
  The loop of \<open>resolve\<close> in \<open>lib/resolver.js\<close> that goes over the table of references and chooses the
  entries that have to be resolved.  The loop that puts a relative file behind the directory of the
  root counts with the variable of the outer loop.
\<close>

section \<open>One entry\<close>

text \<open>
  The table, the positions in it of the entries chosen so far (\<open>toResolve\<close>), and \<open>r\<close>, which keeps
  its value from one entry to the next.
\<close>

record selection =
  s_table :: "ref_entry list"
  s_chosen :: "nat list"
  s_r :: json

fun find_local :: "json \<Rightarrow> jstr list \<Rightarrow> json \<Rightarrow> jserr + json" where
  "find_local s [] r = Inr r"
| "find_local s (part # parts) r =
    (if part = [] then find_local s parts r
     else bindE (member s part) (\<lambda>s. if s = VUndef then Inr VNull else find_local s parts s))"

text \<open>\<open>((a.root || '') + '/' + a.key)\<close>, where each \<open>..\<close> takes back the segment before it.\<close>

definition normalized_url :: "json \<Rightarrow> jstr \<Rightarrow> jstr" where
  "normalized_url base key =
    join (js ''/'') (fold (\<lambda>seg out. if seg = js ''..'' then butlast out else out @ [seg])
      (split_at 47 ((if truthy base then to_str base else []) @ js ''/'' @ key)) [])"

definition enlist :: "nat \<Rightarrow> ref_entry \<Rightarrow> selection \<Rightarrow> selection" where
  "enlist i a st = st\<lparr>s_table := (s_table st)[i := a], s_chosen := s_chosen st @ [i]\<rparr>"

text \<open>The body of the loop; the number is the loop variable at its end.\<close>

definition select_entry :: "json \<Rightarrow> json \<Rightarrow> nat \<Rightarrow> selection \<Rightarrow> jserr + nat \<times> selection" where
  "select_entry spec base i st =
    (let a = s_table st ! i; key = e_key a in
     if e_root a \<noteq> base then Inr (i, enlist i a st)
     else case e_resolveAs a of
       AsRef \<Rightarrow>
         if has_infix (js ''../'') key then Inr (i, enlist i (a\<lparr>e_root := VStr (normalized_url (e_root a) key)\<rparr>) st)
         else
           let parts = split_at 35 key in
           if length parts = 2 then
             let a = (if is_http (hd parts) then a\<lparr>e_root := VStr (hd parts)\<rparr> else a);
                 st = st\<lparr>s_table := (s_table st)[i := a]\<rparr>
             in bindE (find_local spec (split_at 47 (parts ! 1)) (s_r st)) (\<lambda>r.
                  let st = st\<lparr>s_r := r\<rparr> in Inr (i, if r = VNull then enlist i a st else st))
           else Inr (i, st)
     | AsInline \<Rightarrow>
         if key \<noteq> [] \<and> 35 \<notin> set key \<and> \<not> starts_with (js ''/'') key then
           bindE (as_string (e_root a)) (\<lambda>r.
             Inr (length (split_at 47 r) - 1, enlist i (a\<lparr>e_root := VStr (dir_of r @ key), e_location := VStr []\<rparr>) st))
         else Inr (i, enlist i a st))"

section \<open>The loop\<close>

partial_function (option) select :: "json \<Rightarrow> json \<Rightarrow> nat \<Rightarrow> selection \<Rightarrow> (jserr + selection) option" where
  "select spec base i st =
    (if i < length (s_table st) then
       (case select_entry spec base i st of
          Inl e \<Rightarrow> Some (Inl e)
        | Inr (i', st') \<Rightarrow> select spec base (Suc i') st')
     else Some (Inr st))"

definition toResolve :: "json \<Rightarrow> json \<Rightarrow> ref_entry list \<Rightarrow> (jserr + selection) option" where
  "toResolve spec base resolutionTable = select spec base 0 \<lparr>s_table = resolutionTable, s_chosen = [], s_r = VUndef\<rparr>"

section \<open>Entries of other documents\<close>

text \<open>An entry at which the inner loop runs.\<close>

definition whole_file :: "json \<Rightarrow> ref_entry \<Rightarrow> bool" where
  "whole_file base a \<longleftrightarrow> e_resolveAs a = AsInline \<and> e_root a = base \<and> e_key a \<noteq> [] \<and> 35 \<notin> set (e_key a) \<and> \<not> starts_with (js ''/'') (e_key a)"

lemma enlist_parts [simp]: "length (s_table (enlist i a st)) = length (s_table st)" "s_chosen (enlist i a st) = s_chosen st @ [i]"
  "s_table (enlist i a st) = (s_table st)[i := a]"
  by (simp_all add: enlist_def)

lemma select_entry_steady:
  assumes "select_entry spec base i st = Inr (i', st')" "\<not> whole_file base (s_table st ! i)"
  shows "i' = i" "length (s_table st') = length (s_table st)" "s_chosen st' = s_chosen st \<or> s_chosen st' = s_chosen st @ [i]"
    and "j \<noteq> i \<Longrightarrow> s_table st' ! j = s_table st ! j" "e_root (s_table st ! i) \<noteq> base \<Longrightarrow> s_chosen st' = s_chosen st @ [i]"
  using assms by (auto simp: select_entry_def whole_file_def Let_def bindE_eq_Inr enlist_def split: if_splits resolve_as.splits)

text \<open>Each position from \<open>i\<close> on is looked at once, in order.\<close>

lemma select_steady:
  assumes "\<forall>j. i \<le> j \<and> j < length (s_table st) \<longrightarrow> \<not> whole_file base (s_table st ! j)"
  shows "\<exists>res. select spec base i st = Some res \<and> (\<forall>st'. res = Inr st' \<longrightarrow> (\<exists>new. s_chosen st' = s_chosen st @ new \<and>
    sorted_wrt (<) new \<and> set new \<subseteq> {i..<length (s_table st)} \<and>
    (\<forall>j. i \<le> j \<and> j < length (s_table st) \<and> e_root (s_table st ! j) \<noteq> base \<longrightarrow> j \<in> set new)))"
  using assms
proof (induction "length (s_table st) - i" arbitrary: i st)
  case 0
  then show ?case by (subst select.simps) auto
next
  case (Suc n)
  have i: "i < length (s_table st)" using Suc.hyps(2) by simp
  show ?case
  proof (cases "select_entry spec base i st")
    case (Inl e)
    then show ?thesis using i by (subst select.simps) simp
  next
    case (Inr p)
    then obtain i' st1 where e: "select_entry spec base i st = Inr (i', st1)" by (cases p) simp
    have nw: "\<not> whole_file base (s_table st ! i)" using Suc.prems i by blast
    note s = select_entry_steady [OF e nw]
    have "\<forall>j. Suc i \<le> j \<and> j < length (s_table st1) \<longrightarrow> \<not> whole_file base (s_table st1 ! j)" using s Suc.prems by simp
    moreover have n: "n = length (s_table st1) - Suc i" using Suc.hyps(2) s(2) by simp
    ultimately obtain res where res: "select spec base (Suc i) st1 = Some res"
      "\<And>st'. res = Inr st' \<Longrightarrow> \<exists>new. s_chosen st' = s_chosen st1 @ new \<and> sorted_wrt (<) new \<and> set new \<subseteq> {Suc i..<length (s_table st1)} \<and>
        (\<forall>j. Suc i \<le> j \<and> j < length (s_table st1) \<and> e_root (s_table st1 ! j) \<noteq> base \<longrightarrow> j \<in> set new)"
      using Suc.hyps(1) [OF n] by blast
    have "select spec base i st = Some res" using i e s(1) res(1) by (subst select.simps) simp
    moreover have "\<exists>new. s_chosen st' = s_chosen st @ new \<and> sorted_wrt (<) new \<and> set new \<subseteq> {i..<length (s_table st)} \<and>
        (\<forall>j. i \<le> j \<and> j < length (s_table st) \<and> e_root (s_table st ! j) \<noteq> base \<longrightarrow> j \<in> set new)" if r: "res = Inr st'" for st'
    proof -
      obtain new where new: "s_chosen st' = s_chosen st1 @ new" "sorted_wrt (<) new" "set new \<subseteq> {Suc i..<length (s_table st)}"
        "\<forall>j. Suc i \<le> j \<and> j < length (s_table st) \<and> e_root (s_table st1 ! j) \<noteq> base \<longrightarrow> j \<in> set new"
        using res(2) [OF r] unfolding s(2) by blast
      have rest: "j \<in> set new" if "i < j" "j < length (s_table st)" "e_root (s_table st ! j) \<noteq> base" for j
        using new(4) s(4) [of j] that by simp
      show ?thesis
      proof (cases "s_chosen st1 = s_chosen st")
        case True
        then have "e_root (s_table st ! i) = base" using s(5) by auto
        have "j \<in> set new" if "i \<le> j" "j < length (s_table st)" "e_root (s_table st ! j) \<noteq> base" for j
          using rest [of j] that \<open>e_root (s_table st ! i) = base\<close> by (cases "i = j") auto
        moreover have "set new \<subseteq> {i..<length (s_table st)}" using new(3) by auto
        ultimately show ?thesis using True new(1,2) by metis
      next
        case False
        then have "s_chosen st1 = s_chosen st @ [i]" using s(3) by simp
        then have "s_chosen st' = s_chosen st @ (i # new)" using new(1) by simp
        moreover have "sorted_wrt (<) (i # new)" "set (i # new) \<subseteq> {i..<length (s_table st)}" using new(2,3) i by auto
        moreover have "j \<in> set (i # new)" if "i \<le> j" "j < length (s_table st)" "e_root (s_table st ! j) \<noteq> base" for j
          using rest [of j] that by (cases "i = j") auto
        ultimately show ?thesis by metis
      qed
    qed
    ultimately show ?thesis by blast
  qed
qed

text \<open>
  C10. The choice of the entries to resolve ends if no entry inlines a whole file: it takes the
  entries in the order of the table, none twice, and each that belongs to another document.
\<close>

theorem choice_in_order:
  assumes "list_all (\<lambda>a. \<not> whole_file base a) resolutionTable"
  shows "\<exists>res. toResolve spec base resolutionTable = Some res \<and> (\<forall>st. res = Inr st \<longrightarrow>
    sorted_wrt (<) (s_chosen st) \<and> (\<forall>i \<in> set (s_chosen st). i < length resolutionTable) \<and>
    (\<forall>i < length resolutionTable. e_root (resolutionTable ! i) \<noteq> base \<longrightarrow> i \<in> set (s_chosen st)))"
proof -
  let ?st = "\<lparr>s_table = resolutionTable, s_chosen = [], s_r = VUndef\<rparr>"
  have "\<forall>j. 0 \<le> j \<and> j < length (s_table ?st) \<longrightarrow> \<not> whole_file base (s_table ?st ! j)"
    using assms by (simp add: list_all_length)
  from select_steady [OF this, of spec] show ?thesis by (fastforce simp: toResolve_def)
qed

section \<open>Local entries\<close>

lemma find_local_leads: "path_leads s parts = Inr False \<Longrightarrow> find_local s parts r = Inr VNull"
  by (induction s parts r rule: find_local.induct) (auto simp: bindE_eq_Inr split: if_splits)

text \<open>
  A local reference that counts as unresolved is chosen: the entry of a \<open>$ref\<close> to a path of the
  document itself goes to the entries to resolve if the path leads nowhere.
\<close>

theorem unresolved_chosen:
  assumes "s_table st ! i = \<lparr>e_obj = obj, e_resolveAs = AsRef, e_root = base, e_key = js ''#'' @ p, e_location = loc\<rparr>"
    and "35 \<notin> set p" "\<not> has_infix (js ''../'') p" "path_leads spec (split_at 47 p) = Inr False"
  shows "\<exists>st'. select_entry spec base i st = Inr (i, st') \<and> s_chosen st' = s_chosen st @ [i]"
proof -
  have "split_at 35 (js ''#'' @ p) = [[], p]" using assms(2) by (simp add: split_plain)
  moreover have "\<not> has_infix (js ''../'') (js ''#'' @ p)" using assms(3) by (simp add: js_def starts_with_def)
  moreover have "find_local spec (split_at 47 p) r = Inr VNull" for r by (rule find_local_leads [OF assms(4)])
  ultimately show ?thesis by (simp add: select_entry_def assms(1) is_http_def starts_with_def Let_def enlist_def)
qed

section \<open>Whole files\<close>

lemma select_entry_file:
  assumes "s_table st ! i = a" "whole_file (VStr b) a"
  shows "select_entry spec (VStr b) i st =
    Inr (length (split_at 47 b) - 1, enlist i (a\<lparr>e_root := VStr (dir_of b @ e_key a), e_location := VStr []\<rparr>) st)"
  using assms by (simp add: select_entry_def whole_file_def as_string_def Let_def)

lemma split_positive: "0 < length (split_at c s)"
  using split_not_Nil [of c s] by simp

text \<open>
  An entry that inlines a whole file hides others: the entries after it, up to as many as the
  address of the document has segments, are not looked at and none of them is chosen.
\<close>

theorem entries_skipped:
  assumes "whole_file (VStr b) a" "length (a # rest) \<le> length (split_at 47 b)"
  shows "\<exists>st. toResolve spec (VStr b) (a # rest) = Some (Inr st) \<and> s_chosen st = [0]"
proof -
  let ?st = "\<lparr>s_table = a # rest, s_chosen = [], s_r = VUndef\<rparr>"
  have e: "select_entry spec (VStr b) 0 ?st =
      Inr (length (split_at 47 b) - 1, enlist 0 (a\<lparr>e_root := VStr (dir_of b @ e_key a), e_location := VStr []\<rparr>) ?st)"
    by (rule select_entry_file [OF _ assms(1)]) simp
  have "select spec (VStr b) 0 ?st = select spec (VStr b) (length (split_at 47 b))
      (enlist 0 (a\<lparr>e_root := VStr (dir_of b @ e_key a), e_location := VStr []\<rparr>) ?st)"
    using split_positive [of 47 b] by (subst select.simps) (simp only: e, simp)
  also have "\<dots> = Some (Inr (enlist 0 (a\<lparr>e_root := VStr (dir_of b @ e_key a), e_location := VStr []\<rparr>) ?st))"
    using assms(2) by (subst select.simps) simp
  finally show ?thesis by (simp add: toResolve_def)
qed

definition api :: jstr where
  "api = js ''http://host/api/swagger.json''"

definition file_entry :: "string \<Rightarrow> ref_entry" where
  "file_entry file = \<lparr>e_obj = [], e_resolveAs = AsInline, e_root = VStr api, e_key = js file, e_location = VUndef\<rparr>"

definition remote_entry :: ref_entry where
  "remote_entry = \<lparr>e_obj = [], e_resolveAs = AsRef, e_root = VStr (js ''http://host/pets.json''), e_key = js ''/Pet'', e_location = VStr (js ''/Pet'')\<rparr>"

theorem entries_skipped_witness:
  "\<exists>st. toResolve (VObj []) (VStr api) [file_entry ''pet.json'', remote_entry, remote_entry] = Some (Inr st) \<and> s_chosen st = [0]"
proof (rule entries_skipped)
  show "whole_file (VStr api) (file_entry ''pet.json'')"
    by (simp add: whole_file_def file_entry_def js_def starts_with_def)
  show "length [file_entry ''pet.json'', remote_entry, remote_entry] \<le> length (split_at 47 api)" by code_simp
qed

text \<open>An entry of the document itself at the position the inner loop leads back to.\<close>

definition own_file :: "jstr \<Rightarrow> ref_entry \<Rightarrow> bool" where
  "own_file b a \<longleftrightarrow> whole_file (VStr b) a \<and> dir_of b @ e_key a = b"

definition stuck :: "json \<Rightarrow> json \<Rightarrow> nat \<Rightarrow> selection \<Rightarrow> jserr + selection \<Rightarrow> bool" where
  "stuck spec base i st res \<longleftrightarrow> (\<forall>b. base = VStr b \<and> i = length (split_at 47 b) \<and> i < length (s_table st) \<longrightarrow> \<not> own_file b (s_table st ! i))"

lemma select_stuck: "select spec base i st = Some res \<Longrightarrow> stuck spec base i st res"
proof (rule select.raw_induct [of stuck], goal_cases)
  case (1 f spec base i st res)
  show ?case unfolding stuck_def
  proof (intro allI impI notI)
    fix b assume b: "base = VStr b \<and> i = length (split_at 47 b) \<and> i < length (s_table st)" "own_file b (s_table st ! i)"
    let ?a = "s_table st ! i"
    let ?st = "enlist i (?a\<lparr>e_root := VStr (dir_of b @ e_key ?a), e_location := VStr []\<rparr>) st"
    have e: "select_entry spec base i st = Inr (i - 1, ?st)" using select_entry_file [of st i ?a b spec] b by (simp add: own_file_def)
    have "Suc (i - 1) = i" using b(1) split_positive [of 47 b] by simp
    then have "f spec base i ?st = Some res" using 1(3) b(1) e by simp
    then have "stuck spec base i ?st res" by (rule 1(2))
    moreover have "own_file b (s_table ?st ! i)" using b by (simp add: own_file_def whole_file_def)
    ultimately show False using b(1) by (simp add: stuck_def)
  qed
qed

lemma select_reaches:
  assumes "i \<le> n" "n \<le> length (s_table st)" "\<forall>j < n. e_root (s_table st ! j) \<noteq> base"
  shows "\<exists>st'. select spec base i st = select spec base n st' \<and> s_table st' = s_table st"
  using assms
proof (induction "n - i" arbitrary: i st)
  case (Suc k)
  have i: "i < n" "i < length (s_table st)" using Suc.hyps(2) Suc.prems(2) by simp_all
  have "select_entry spec base i st = Inr (i, enlist i (s_table st ! i) st)"
    using Suc.prems(3) i(1) by (simp add: select_entry_def Let_def)
  then have "select spec base i st = select spec base (Suc i) (enlist i (s_table st ! i) st)"
    using i(2) by (subst select.simps) simp
  moreover have "\<exists>st'. select spec base (Suc i) (enlist i (s_table st ! i) st) = select spec base n st' \<and>
      s_table st' = s_table (enlist i (s_table st ! i) st)"
    by (rule Suc.hyps(1)) (use Suc.hyps(2) Suc.prems i in simp_all)
  ultimately show ?case by simp
qed auto

text \<open>
  C14. A document that inlines itself stops the program: if the entry for it is at the position given
  by the number of segments of its address, behind entries of other documents, the loop looks at
  that entry again and again.
\<close>

theorem own_file_never_ends:
  assumes "length (split_at 47 b) < length resolutionTable" "own_file b (resolutionTable ! length (split_at 47 b))"
    and "list_all (\<lambda>a. e_root a \<noteq> VStr b) (take (length (split_at 47 b)) resolutionTable)"
  shows "toResolve spec (VStr b) resolutionTable = None"
proof -
  let ?n = "length (split_at 47 b)" and ?st = "\<lparr>s_table = resolutionTable, s_chosen = [], s_r = VUndef\<rparr>"
  have "\<forall>j < ?n. e_root (s_table ?st ! j) \<noteq> VStr b" using assms(1,3) by (simp add: list_all_length)
  then obtain st where st: "select spec (VStr b) 0 ?st = select spec (VStr b) ?n st" "s_table st = resolutionTable"
    using select_reaches [of 0 ?n ?st "VStr b" spec] assms(1) by auto
  have "select spec (VStr b) ?n st \<noteq> Some res" for res
    using select_stuck [of spec "VStr b" ?n st res] st(2) assms(1,2) by (auto simp: stuck_def)
  then show ?thesis using st(1) by (auto simp: toResolve_def)
qed

theorem own_file_never_ends_witness:
  "toResolve (VObj []) (VStr api) (replicate 5 remote_entry @ [file_entry ''swagger.json'']) = None"
proof (rule own_file_never_ends)
  have n: "length (split_at 47 api) = 5" by code_simp
  have remote: "e_root remote_entry \<noteq> VStr api" by (simp add: remote_entry_def api_def)
  show "length (split_at 47 api) < length (replicate 5 remote_entry @ [file_entry ''swagger.json''])" by (simp add: n)
  have "dir_of api @ js ''swagger.json'' = api" by code_simp
  moreover have "whole_file (VStr api) (file_entry ''swagger.json'')"
    by (simp add: whole_file_def file_entry_def js_def starts_with_def)
  ultimately show "own_file api ((replicate 5 remote_entry @ [file_entry ''swagger.json'']) ! length (split_at 47 api))"
    by (simp add: n nth_append own_file_def file_entry_def)
  show "list_all (\<lambda>a. e_root a \<noteq> VStr api) (take (length (split_at 47 api)) (replicate 5 remote_entry @ [file_entry ''swagger.json'']))"
    using remote by (simp add: n list_all_iff)
qed

theorem choice_in_order_witness:
  "\<exists>res. toResolve (VObj []) (VStr api) (replicate 2 remote_entry) = Some res \<and> (case res of Inr st \<Rightarrow> {0, 1} \<subseteq> set (s_chosen st) | Inl e \<Rightarrow> True)"
proof -
  have "list_all (\<lambda>a. \<not> whole_file (VStr api) a) (replicate 2 remote_entry)"
    by (simp add: list_all_iff remote_entry_def whole_file_def)
  from choice_in_order [OF this, of "VObj []"] obtain res where "toResolve (VObj []) (VStr api) (replicate 2 remote_entry) = Some res"
    "\<And>st i. res = Inr st \<Longrightarrow> i < 2 \<Longrightarrow> e_root ((replicate 2 remote_entry) ! i) \<noteq> VStr api \<Longrightarrow> i \<in> set (s_chosen st)" by auto
  then show ?thesis by (intro exI [of _ res]) (auto simp: remote_entry_def api_def split: sum.split)
qed

theorem unresolved_chosen_witness:
  "\<exists>st'. select_entry pet_spec VNull 0 \<lparr>s_table = [pet_item\<lparr>e_key := js ''#/definitions/Cat''\<rparr>], s_chosen = [], s_r = VUndef\<rparr> = Inr (0, st') \<and>
     s_chosen st' = [0]"
proof -
  let ?st = "\<lparr>s_table = [pet_item\<lparr>e_key := js ''#/definitions/Cat''\<rparr>], s_chosen = [], s_r = VUndef\<rparr>"
  have "s_table ?st ! 0 = \<lparr>e_obj = [js ''schema''], e_resolveAs = AsRef, e_root = VNull, e_key = js ''#'' @ js ''/definitions/Cat'',
      e_location = VStr (js ''/definitions/Pet'')\<rparr>" by (simp add: pet_item_def js_def)
  moreover have "35 \<notin> set (js ''/definitions/Cat'')" by (simp add: js_def)
  moreover have "\<not> has_infix (js ''../'') (js ''/definitions/Cat'')" "path_leads pet_spec (split_at 47 (js ''/definitions/Cat'')) = Inr False"
    by code_simp+
  ultimately show ?thesis using unresolved_chosen [of ?st 0] by fastforce
qed

end
