(* ===== verification/XmlSample.thy ===== *)
theory XmlSample
  imports SwaggerAuth
begin

text \<open>
  The XML sample of a schema, in \<open>SwaggerUi.partials.signature\<close>.  The calls share one object
  \<open>config\<close>, which is the state here.  A call gives text, or the name and the value of an
  attribute.  A recursive call takes fuel, and without it the answer is \<open>None\<close>; \<open>XmlLaws\<close> shows how
  much is enough.  Keys of a property are the own properties of objects, and numbers are those of
  \<open>JsValue\<close>: the sample 1.1 of a number is kept as its text.
\<close>

section \<open>State and results\<close>

record config =
  c_isParam :: json
  c_modelsToIgnore :: "jstr list"
  c_loopTo :: json

type_synonym 'a xml = "config \<Rightarrow> (jserr + 'a \<times> config) option"

datatype xml_out = XText jstr | XAttr json json

definition returnX :: "'a \<Rightarrow> 'a xml" where
  "returnX a c = Some (Inr (a, c))"

definition liftE :: "jserr + 'a \<Rightarrow> 'a xml" where
  "liftE m c = (case m of Inl e \<Rightarrow> Some (Inl e) | Inr a \<Rightarrow> Some (Inr (a, c)))"

definition bindX :: "'a xml \<Rightarrow> ('a \<Rightarrow> 'b xml) \<Rightarrow> 'b xml" where
  "bindX m f c = (case m c of None \<Rightarrow> None | Some (Inl e) \<Rightarrow> Some (Inl e) | Some (Inr (a, c')) \<Rightarrow> f a c')"

fun map_x :: "('a \<Rightarrow> 'b xml) \<Rightarrow> 'a list \<Rightarrow> 'b list xml" where
  "map_x f [] = returnX []"
| "map_x f (x # xs) = bindX (f x) (\<lambda>y. bindX (map_x f xs) (\<lambda>ys. returnX (y # ys)))"

section \<open>Tags\<close>

text \<open>An element of \<open>[...].join('')\<close>, and the text of a result.\<close>

definition join_text :: "json \<Rightarrow> jstr" where
  "join_text v = (if v = VUndef \<or> v = VNull then [] else to_str v)"

fun out_text :: "xml_out \<Rightarrow> jstr" where
  "out_text (XText s) = s"
| "out_text (XAttr name v) = js ''[object Object]''"

definition getErrorMessage :: "jstr \<Rightarrow> jstr" where
  "getErrorMessage details =
    js ''<!-- invalid XML'' @ (if details \<noteq> [] then js '': '' @ details else []) @ js '' -->''"

text \<open>\<open>attr.name\<close> and \<open>attr.value\<close> of a text are \<open>undefined\<close>.\<close>

fun attribute :: "xml_out \<Rightarrow> jstr" where
  "attribute (XAttr name v) = js '' '' @ to_str name @ js ''=\"'' @ to_str v @ js ''\"''"
| "attribute (XText s) = js '' undefined=\"undefined\"''"

definition wrapTag :: "json \<Rightarrow> jstr \<Rightarrow> xml_out list \<Rightarrow> jstr" where
  "wrapTag name value attrs =
    (if \<not> truthy name then getErrorMessage (js ''Node name is not provided'')
     else js ''<'' @ join_text name @ concat (map attribute attrs) @ js ''>'' @ value @ js ''</'' @ join_text name @ js ''>'')"

definition getPrefix :: "json \<Rightarrow> json \<Rightarrow> json" where
  "getPrefix name xml =
    (let result = orElse name (VStr []) in
     if truthy (fld xml ''prefix'') then VStr (to_str (fld xml ''prefix'') @ js '':'' @ to_str result) else result)"

definition getNamespace :: "json \<Rightarrow> xml_out list" where
  "getNamespace xml =
    (if truthy (fld xml ''namespace'') then
       [XAttr (VStr (js ''xmlns'' @ (if truthy (fld xml ''prefix'') then js '':'' @ to_str (fld xml ''prefix'') else [])))
         (fld xml ''namespace'')]
     else [])"

section \<open>Descriptors\<close>

record descriptor =
  d_name :: json
  d_type :: json
  d_definition :: json

definition Descriptor :: "json \<Rightarrow> json \<Rightarrow> json \<Rightarrow> descriptor" where
  "Descriptor name type definition1 =
    \<lparr>d_name = getPrefix name (fld definition1 ''xml''), d_type = type, d_definition = definition1\<rparr>"

definition getDescriptorByRef :: "jstr \<Rightarrow> json \<Rightarrow> fields \<Rightarrow> descriptor option xml" where
  "getDescriptorByRef ref name models c =
    (let modelType = simpleRef (VStr ref); model = lookup_field models (to_str modelType); def = fld model ''definition'';
         type = (if truthy (fld def ''type'') then fld def ''type'' else VStr (js ''object''));
         name = (if truthy (fld (fld def ''xml'') ''name'') then orElse name (fld (fld def ''xml'') ''name'')
                 else orElse name (fld model ''name''));
         (type, c) = (if ref \<in> set (c_modelsToIgnore c) then (VStr (js ''loop''), c\<lparr>c_loopTo := modelType\<rparr>)
                      else (type, c\<lparr>c_modelsToIgnore := c_modelsToIgnore c @ [ref]\<rparr>))
     in returnX (if truthy def then Some (Descriptor name type def) else None) c)"

definition getDescriptor :: "json \<Rightarrow> json \<Rightarrow> descriptor option xml" where
  "getDescriptor name definition1 =
    liftE (bindE (present_value definition1) (\<lambda>def.
      let type = orElse (fld def ''type'') (VStr (js ''object''));
          name = (if truthy (fld (fld def ''xml'') ''name'') then fld (fld def ''xml'') ''name'' else name)
      in Inr (if truthy def then Some (Descriptor name type def) else None)))"

section \<open>Primitives, arrays and objects\<close>

definition primitive_sample :: "json \<Rightarrow> json \<Rightarrow> json" where
  "primitive_sample type format =
    (if type = VStr (js ''string'') then
       (if to_str format = js ''date'' then VStr (js ''1970-01-01'')
        else if to_str format = js ''date-time'' then VStr (js ''1970-01-01T00:00:00.001Z'') else VStr (js ''string''))
     else if type = VStr (js ''integer'') then VNum 1
     else if type = VStr (js ''number'') then VStr (js ''1.1'') else VBool True)"

definition createPrimitiveXML :: "descriptor \<Rightarrow> xml_out" where
  "createPrimitiveXML d =
    (let def = d_definition d; type = fld def ''type''; xml = fld def ''xml'' in
     if type \<notin> {VStr (js ''string''), VStr (js ''integer''), VStr (js ''number''), VStr (js ''boolean'')}
     then XText (getErrorMessage [])
     else
       let value = (case fld def ''enum'' of
           VArr vs \<Rightarrow> (if vs = [] then VUndef else hd vs)
         | _ \<Rightarrow> orElse (fld def ''example'') (primitive_sample type (fld def ''format'')))
       in if truthy (fld xml ''attribute'') then XAttr (d_name d) value
          else XText (wrapTag (d_name d) (join_text value) (getNamespace xml)))"

text \<open>The recursive call is an argument of the next two.\<close>

definition createArrayXML :: "(json \<Rightarrow> json \<Rightarrow> xml_out xml) \<Rightarrow> descriptor \<Rightarrow> xml_out xml" where
  "createArrayXML schemaXML d =
    (let def = d_definition d; items = fld def ''items''; xml = fld def ''xml'' in
     if \<not> truthy items then returnX (XText (getErrorMessage []))
     else
       let key = (if truthy (fld (fld items ''xml'') ''name'') then fld (fld items ''xml'') ''name'' else d_name d)
       in bindX (schemaXML key items) (\<lambda>value. returnX
            (if truthy (fld xml ''wrapped'') then XText (wrapTag (d_name d) (out_text value) (getNamespace xml)) else value)))"

text \<open>What \<open>_.map\<close> visits; the index of a list is a number.\<close>

fun entries :: "json \<Rightarrow> (json \<times> json) list" where
  "entries (VObj m) = map (\<lambda>(k, v). (VStr k, v)) m"
| "entries (VArr vs) = map (\<lambda>(i, v). (VNum (int i), v)) (enumerate 0 vs)"
| "entries (VStr s) = map (\<lambda>(i, c). (VNum (int i), VStr [c])) (enumerate 0 s)"
| "entries v = []"

text \<open>The text of a property and what it adds to the attributes.\<close>

definition property_xml :: "(json \<Rightarrow> json \<Rightarrow> xml_out xml) \<Rightarrow> json \<times> json \<Rightarrow> (jstr \<times> xml_out list) xml" where
  "property_xml schemaXML p c =
    (let (key, prop) = p in
     bindX (liftE (present_value prop)) (\<lambda>prop.
       if truthy (c_isParam c) \<and> truthy (fld prop ''readOnly'') then returnX ([], [])
       else bindX (schemaXML key prop) (\<lambda>result. returnX
              (if truthy (fld (fld prop ''xml'') ''attribute'') then ([], [result]) else (out_text result, [])))) c)"

definition createObjectXML :: "(json \<Rightarrow> json \<Rightarrow> xml_out xml) \<Rightarrow> descriptor \<Rightarrow> xml_out xml" where
  "createObjectXML schemaXML d =
    (let def = d_definition d; properties = fld def ''properties''; additionalProperties = fld def ''additionalProperties'' in
     if \<not> truthy properties \<and> \<not> truthy additionalProperties then returnX (XText (getErrorMessage []))
     else bindX (map_x (property_xml schemaXML) (entries properties)) (\<lambda>parts.
       let serialized = concat (map fst parts) @
             (if truthy additionalProperties then js ''<!-- additional elements allowed -->'' else [])
       in returnX (XText (wrapTag (d_name d) serialized (getNamespace (fld def ''xml'') @ concat (map snd parts))))))"

definition getInfiniteLoopMessage :: "json \<Rightarrow> json \<Rightarrow> jstr" where
  "getInfiniteLoopMessage name loopTo = wrapTag name (js ''<!-- Infinite loop $ref:'' @ to_str loopTo @ js '' -->'') []"

section \<open>Schemas\<close>

definition by_type :: "(json \<Rightarrow> json \<Rightarrow> xml_out xml) \<Rightarrow> descriptor \<Rightarrow> xml_out xml" where
  "by_type schemaXML d c =
    (if d_type d = VStr (js ''array'') then createArrayXML schemaXML d c
     else if d_type d = VStr (js ''object'') then createObjectXML schemaXML d c
     else if d_type d = VStr (js ''loop'') then returnX (XText (getInfiniteLoopMessage (d_name d) (c_loopTo c))) c
     else returnX (createPrimitiveXML d) c)"

text \<open>The reference is taken out of the models to ignore.\<close>

definition leave_model :: "json \<Rightarrow> descriptor \<Rightarrow> config \<Rightarrow> config" where
  "leave_model ref d c =
    (case ref of
       VStr r \<Rightarrow> if r \<noteq> [] \<and> d_type d \<noteq> VStr (js ''loop'') then c\<lparr>c_modelsToIgnore := remove1 r (c_modelsToIgnore c)\<rparr> else c
     | _ \<Rightarrow> c)"

primrec createSchemaXML :: "nat \<Rightarrow> fields \<Rightarrow> json \<Rightarrow> json \<Rightarrow> xml_out xml" where
  "createSchemaXML 0 models name definition1 = (\<lambda>c. None)"
| "createSchemaXML (Suc n) models name definition1 =
    (let ref = (if is_object definition1 then fld definition1 ''$ref'' else VNull) in
     bindX (case ref of VStr r \<Rightarrow> getDescriptorByRef r name models | _ \<Rightarrow> getDescriptor name definition1) (\<lambda>d.
       case d of
         None \<Rightarrow> returnX (XText (getErrorMessage []))
       | Some d \<Rightarrow> bindX (by_type (createSchemaXML n models) d) (\<lambda>output c. returnX output (leave_model ref d c))))"

section \<open>Indentation\<close>

text \<open>
  \<open>formatXml\<close> puts the tags on lines of their own and indents them.  A dot of a regular expression
  stands for any code unit that does not end a line.
\<close>

definition in_line :: "16 word \<Rightarrow> bool" where
  "in_line c \<longleftrightarrow> c \<notin> {10, 13, 8232, 8233}"

text \<open>\<open>/(>)(<)(\/*)/g\<close>.\<close>

fun break_tags :: "jstr \<Rightarrow> jstr" where
  "break_tags (c # d # s) = (if c = 62 \<and> d = 60 then c # 10 # break_tags (d # s) else c # break_tags (d # s))"
| "break_tags s = s"

text \<open>
  The other two expressions end with \<open>\n\<close>; what they match begins behind the last unit of a line that
  ends lines too.
\<close>

definition change_line :: "(jstr \<Rightarrow> jstr) \<Rightarrow> jstr \<Rightarrow> jstr" where
  "change_line f l = (let n = length l - length (takeWhile in_line (rev l)) in take n l @ f (drop n l))"

definition each_line :: "(jstr \<Rightarrow> jstr) \<Rightarrow> jstr \<Rightarrow> jstr" where
  "each_line f s = (let ls = split_at 10 s in join [10] (map (change_line f) (butlast ls) @ [last ls]))"

text \<open>\<open>/[ ]*(.*)[ ]+\n/g\<close> and \<open>/(<.+>)(.+\n)/g\<close>.\<close>

definition trim_line :: "jstr \<Rightarrow> jstr" where
  "trim_line l = (if l \<noteq> [] \<and> last l = 32 then butlast (dropWhile (\<lambda>c. c = 32) l) else l)"

definition break_text :: "jstr \<Rightarrow> jstr" where
  "break_text l =
    (let n = length (dropWhile (\<lambda>c. c \<noteq> 62) (rev (butlast l))); i = length (takeWhile (\<lambda>c. c \<noteq> 60) l)
     in if i + 2 < n then take n l @ [10] @ drop n l else l)"

datatype line_type = Single | Closing | Opening | Other

text \<open>\<open>/<.+\/>/\<close>, \<open>/<\/.+>/\<close> and \<open>/<[^!?].*>/\<close>.\<close>

fun single_match :: "jstr \<Rightarrow> bool" where
  "single_match [] = False"
| "single_match (c # s) = (c = 60 \<and> (case takeWhile in_line s of [] \<Rightarrow> False | d # r \<Rightarrow> has_infix (js ''/>'') r) \<or> single_match s)"

fun closing_match :: "jstr \<Rightarrow> bool" where
  "closing_match [] = False"
| "closing_match (c # s) =
    (c = 60 \<and> take 1 s = [47] \<and> (case takeWhile in_line (drop 1 s) of [] \<Rightarrow> False | d # r \<Rightarrow> 62 \<in> set r) \<or> closing_match s)"

fun opening_match :: "jstr \<Rightarrow> bool" where
  "opening_match [] = False"
| "opening_match (c # s) =
    (c = 60 \<and> (case s of [] \<Rightarrow> False | d # r \<Rightarrow> d \<noteq> 33 \<and> d \<noteq> 63 \<and> 62 \<in> set (takeWhile in_line r)) \<or> opening_match s)"

definition type_of_line :: "jstr \<Rightarrow> line_type" where
  "type_of_line line = (if single_match line then Single else if closing_match line then Closing else if opening_match line then Opening else Other)"

fun transition :: "line_type \<Rightarrow> line_type \<Rightarrow> int" where
  "transition Opening Closing = 0"
| "transition Opening _ = 1"
| "transition _ Closing = - 1"
| "transition _ _ = 0"

record formatting =
  f_formatted :: jstr
  f_indent :: int
  f_lastType :: line_type

text \<open>The loop that makes the padding counts down from 0 if the indentation is negative.\<close>

definition padding :: "int \<Rightarrow> jstr" where
  "padding indent = replicate (2 * nat \<bar>indent\<bar>) 32"

definition format_line :: "jstr \<Rightarrow> formatting \<Rightarrow> formatting" where
  "format_line line st =
    (let type = type_of_line line; from1 = f_lastType st; indent = f_indent st + transition from1 type in
     \<lparr>f_formatted = (if from1 = Opening \<and> type = Closing then butlast (f_formatted st) @ line @ [10]
        else f_formatted st @ padding indent @ line @ [10]),
      f_indent = indent, f_lastType = type\<rparr>)"

definition formatXml :: "jstr \<Rightarrow> jstr" where
  "formatXml xml =
    (let xml = each_line break_text (each_line trim_line (break_tags xml))
     in f_formatted (fold format_line (split_at 10 xml) \<lparr>f_formatted = [], f_indent = 0, f_lastType = Other\<rparr>))"

definition createXMLSample :: "nat \<Rightarrow> json \<Rightarrow> json \<Rightarrow> fields \<Rightarrow> json \<Rightarrow> (jserr + jstr) option" where
  "createXMLSample n name definition1 models isParam =
    (case createSchemaXML n models name definition1 \<lparr>c_isParam = isParam, c_modelsToIgnore = [], c_loopTo = VUndef\<rparr> of
       None \<Rightarrow> None
     | Some (Inl e) \<Rightarrow> Some (Inl e)
     | Some (Inr (output, c)) \<Rightarrow> Some (Inr (formatXml (js ''<?xml version=\"1.0\"?>'' @ out_text output))))"

end
