(* ===== verification/XmlLaws.thy ===== *)
theory XmlLaws
  imports XmlSample ResolverLaws
begin

text \<open>
  The XML sample: it can always be made, the list of models to ignore is as before after each call,
  and the tags of the sample are balanced.
\<close>

section \<open>Sequences\<close>

text \<open>What a call leaves of the shared object: references are only added, and only \<open>dead\<close> ones.\<close>

definition keeps :: "jstr set \<Rightarrow> config \<Rightarrow> config \<Rightarrow> bool" where
  "keeps dead c c' \<longleftrightarrow> c_isParam c' = c_isParam c \<and>
     (\<exists>extra. c_modelsToIgnore c' = c_modelsToIgnore c @ extra \<and> set extra \<subseteq> dead)"

lemma keeps_refl [simp]: "keeps dead c c"
  by (simp add: keeps_def)

lemma keeps_trans: "keeps dead a b \<Longrightarrow> keeps dead b c \<Longrightarrow> keeps dead a c"
  by (fastforce simp: keeps_def)

text \<open>A call that ends, with a value or an exception, and keeps the list.\<close>

definition ends :: "jstr set \<Rightarrow> 'a xml \<Rightarrow> config \<Rightarrow> bool" where
  "ends dead m c \<longleftrightarrow> (\<exists>res. m c = Some res \<and> (\<forall>a c'. res = Inr (a, c') \<longrightarrow> keeps dead c c'))"

lemma ends_return [simp]: "ends dead (returnX a) c"
  by (simp add: ends_def returnX_def)

lemma ends_lift [simp]: "ends dead (liftE m) c"
  by (cases m) (simp_all add: ends_def liftE_def)

lemma ends_bind:
  assumes "ends dead m c" "\<And>a c'. m c = Some (Inr (a, c')) \<Longrightarrow> keeps dead c c' \<Longrightarrow> ends dead (f a) c'"
  shows "ends dead (bindX m f) c"
proof -
  obtain res where res: "m c = Some res" "\<And>a c'. res = Inr (a, c') \<Longrightarrow> keeps dead c c'" using assms(1) by (auto simp: ends_def)
  show ?thesis
  proof (cases res)
    case (Inl e)
    then show ?thesis using res(1) by (simp add: ends_def bindX_def)
  next
    case (Inr p)
    then obtain a c1 where p: "m c = Some (Inr (a, c1))" "keeps dead c c1" using res by (cases p) auto
    then have "ends dead (f a) c1" by (rule assms(2))
    then show ?thesis using p keeps_trans by (fastforce simp: ends_def bindX_def)
  qed
qed

lemma ends_map:
  assumes "\<And>x c'. x \<in> set xs \<Longrightarrow> keeps dead c c' \<Longrightarrow> ends dead (f x) c'"
  shows "ends dead (map_x f xs) c"
  using assms
proof (induction xs arbitrary: c)
  case (Cons x xs)
  have "ends dead (map_x f xs) c'" if "keeps dead c c'" for c'
    by (rule Cons.IH) (use Cons.prems that keeps_trans in auto)
  then show ?case using Cons.prems [of x c] by (auto intro!: ends_bind)
qed simp

section \<open>The end\<close>

text \<open>References that are not taken out again: without a model, or of a model of the type \<open>loop\<close>.\<close>

definition model_definition :: "fields \<Rightarrow> jstr \<Rightarrow> json" where
  "model_definition models r = fld (lookup_field models (to_str (simpleRef (VStr r)))) ''definition''"

definition left_over :: "fields \<Rightarrow> jstr set" where
  "left_over models = {r. r = [] \<or> \<not> truthy (model_definition models r) \<or> fld (model_definition models r) ''type'' = VStr (js ''loop'')}"

text \<open>The schemas a call may go into.\<close>

definition sub_schema :: "json \<Rightarrow> json \<Rightarrow> bool" where
  "sub_schema def s \<longleftrightarrow> s = fld def ''items'' \<and> truthy s \<or> (\<exists>k. (k, s) \<in> set (entries (fld def ''properties'')))"

lemma ends_by_type:
  assumes "\<And>name s c'. sub_schema (d_definition d) s \<Longrightarrow> keeps dead c c' \<Longrightarrow> ends dead (schemaXML name s) c'"
  shows "ends dead (by_type schemaXML d) c"
proof -
  have "ends dead (createArrayXML schemaXML d) c"
    using assms [of "fld (d_definition d) ''items''" c] by (auto simp: createArrayXML_def Let_def sub_schema_def intro!: ends_bind)
  moreover have "ends dead (createObjectXML schemaXML d) c"
  proof -
    have "ends dead (property_xml schemaXML p) c'"
      if p: "p \<in> set (entries (fld (d_definition d) ''properties''))" and "keeps dead c c'" for p c'
    proof -
      obtain key q where kp: "p = (key, q)" by fastforce
      have "sub_schema (d_definition d) q" using p kp by (auto simp: sub_schema_def)
      then have q: "ends dead (schemaXML key q) c'" using that(2) by (rule assms)
      have "ends dead (\<lambda>c. bindX (liftE (present_value q)) (\<lambda>prop.
         if truthy b \<and> truthy (fld prop ''readOnly'') then returnX ([], [])
         else bindX (schemaXML key prop) (\<lambda>result. returnX
              (if truthy (fld (fld prop ''xml'') ''attribute'') then ([], [result]) else (out_text result, [])))) c) c'" for b
        using q by (auto simp: present_value_def liftE_def intro!: ends_bind split: if_splits)
      then show ?thesis by (auto simp: ends_def property_xml_def kp)
    qed
    then show ?thesis by (auto simp: createObjectXML_def Let_def intro!: ends_bind ends_map)
  qed
  ultimately show ?thesis by (auto simp: ends_def by_type_def returnX_def)
qed

lemma leave_entered:
  assumes "keeps dead (c\<lparr>c_modelsToIgnore := c_modelsToIgnore c @ [r]\<rparr>) c'" "r \<notin> set (c_modelsToIgnore c)"
  shows "c_isParam c' = c_isParam c \<and> (\<exists>extra. set extra \<subseteq> dead \<and> c_modelsToIgnore c' = c_modelsToIgnore c @ r # extra)"
  using assms by (auto simp: keeps_def)

text \<open>How deep a schema can lead.\<close>

fun weight_of :: "json \<Rightarrow> nat" where
  "weight_of (VObj m) = Suc (\<Sum>(k, v) \<leftarrow> m. weight_of v)"
| "weight_of (VArr vs) = Suc (\<Sum>v \<leftarrow> vs. weight_of v)"
| "weight_of (VStr s) = 1"
| "weight_of (VFile n) = 2"
| "weight_of v = 0"

lemma weight_of_field: "(k, v) \<in> set m \<Longrightarrow> weight_of v < weight_of (VObj m)"
  by (induction m) auto

lemma get_weight: "get v k \<noteq> VUndef \<Longrightarrow> weight_of (get v k) < weight_of v"
proof (cases v)
  case (VObj m)
  assume "get v k \<noteq> VUndef"
  then show ?thesis using VObj lookup_in [of m k] weight_of_field [of k] by fastforce
qed (auto split: if_splits)

lemma entries_weight: "(k, s) \<in> set (entries v) \<Longrightarrow> weight_of s \<le> weight_of v"
proof (cases v)
  case (VObj m)
  assume "(k, s) \<in> set (entries v)"
  then obtain j where "(j, s) \<in> set m" using VObj by auto
  then show ?thesis using weight_of_field [of j s m] VObj by simp
next
  case (VArr vs)
  assume "(k, s) \<in> set (entries v)"
  then have "s \<in> set vs" using VArr by (auto simp: in_set_enumerate_eq)
  then have "weight_of s < weight_of (VArr vs)" by (induction vs) auto
  then show ?thesis using VArr by simp
qed auto

lemma sub_schema_weight:
  assumes "sub_schema def s" shows "weight_of s < weight_of def"
proof (cases "s = fld def ''items'' \<and> truthy s")
  case True
  then have "fld def ''items'' \<noteq> VUndef" by (metis truthy.simps(1))
  then show ?thesis using True get_weight by simp
next
  case False
  then obtain k where k: "(k, s) \<in> set (entries (fld def ''properties''))" using assms by (auto simp: sub_schema_def)
  then have "fld def ''properties'' \<noteq> VUndef" by (cases "fld def ''properties''") auto
  then show ?thesis using entries_weight [OF k] get_weight [of def "js ''properties''"] by simp
qed

lemma refs_get: "k \<noteq> js ''$ref'' \<Longrightarrow> refs_in (get v k) \<subseteq> refs_in v"
proof (cases v)
  case (VObj m)
  assume "k \<noteq> js ''$ref''"
  then show ?thesis using VObj lookup_in [of m k] by fastforce
qed auto

lemma refs_entries: "(k, s) \<in> set (entries v) \<Longrightarrow> refs_in s \<subseteq> refs_in v"
proof (cases v)
  case (VObj m)
  assume "(k, s) \<in> set (entries v)"
  then obtain j where j: "(j, s) \<in> set m" using VObj by auto
  have "is_string s \<Longrightarrow> refs_in s = {}" by (cases s) auto
  then show ?thesis using VObj j by (cases "is_string s") auto
next
  case (VArr vs)
  assume "(k, s) \<in> set (entries v)"
  then have "s \<in> set vs" using VArr by (auto simp: in_set_enumerate_eq)
  then show ?thesis using VArr by auto
qed auto

lemma sub_schema_refs: "sub_schema def s \<Longrightarrow> refs_in s \<subseteq> refs_in def"
  using refs_get [of "js ''items''" def] refs_get [of "js ''properties''" def] refs_entries by (auto simp: sub_schema_def) blast

text \<open>The models of the references of \<open>R\<close> are bounded and lead to references of \<open>R\<close>.\<close>

definition bounded :: "fields \<Rightarrow> jstr set \<Rightarrow> nat \<Rightarrow> bool" where
  "bounded models R k \<longleftrightarrow> finite R \<and>
     (\<forall>r \<in> R. refs_in (model_definition models r) \<subseteq> R \<and> weight_of (model_definition models r) \<le> k)"

lemma own_ref: "fld def ''$ref'' = VStr r \<Longrightarrow> r \<in> refs_in def"
proof -
  assume r: "fld def ''$ref'' = VStr r"
  then obtain m where m: "def = VObj m" by (cases def) auto
  then have "(js ''$ref'', VStr r) \<in> set m" using r lookup_in [of m "js ''$ref''"] by simp
  then show ?thesis unfolding m refs_in.simps by (rule UN_I) simp
qed

text \<open>The two outcomes of \<open>getDescriptorByRef\<close>.\<close>

definition model_type :: "fields \<Rightarrow> jstr \<Rightarrow> json" where
  "model_type models r = (let def = model_definition models r in if truthy (fld def ''type'') then fld def ''type'' else VStr (js ''object''))"

lemma descriptor_of_ref:
  "\<exists>nm. getDescriptorByRef r name models c =
    (if r \<in> set (c_modelsToIgnore c)
     then Some (Inr (if truthy (model_definition models r) then Some (Descriptor nm (VStr (js ''loop'')) (model_definition models r)) else None,
            c\<lparr>c_loopTo := simpleRef (VStr r)\<rparr>))
     else Some (Inr (if truthy (model_definition models r) then Some (Descriptor nm (model_type models r) (model_definition models r)) else None,
            c\<lparr>c_modelsToIgnore := c_modelsToIgnore c @ [r]\<rparr>)))"
proof -
  let ?model = "lookup_field models (to_str (simpleRef (VStr r)))"
  let ?n = "fld (fld (fld ?model ''definition'') ''xml'') ''name''"
  show ?thesis
    by (rule exI [of _ "if truthy ?n then orElse name ?n else orElse name (fld ?model ''name'')"])
      (simp add: getDescriptorByRef_def model_definition_def model_type_def returnX_def Let_def)
qed

abbreviation leaving :: "json \<Rightarrow> descriptor \<Rightarrow> xml_out \<Rightarrow> xml_out xml" where
  "leaving ref d \<equiv> (\<lambda>output c. returnX output (leave_model ref d c))"

lemma schema_known:
  assumes "fld def ''$ref'' = VStr r" "r \<in> set (c_modelsToIgnore c)"
  shows "\<exists>out. createSchemaXML (Suc n) models name def c = Some (Inr (XText out, c\<lparr>c_loopTo := simpleRef (VStr r)\<rparr>))"
proof -
  have "is_object def" using assms(1) by (cases def) auto
  moreover obtain nm where "getDescriptorByRef r name models c =
      Some (Inr (if truthy (model_definition models r) then Some (Descriptor nm (VStr (js ''loop'')) (model_definition models r)) else None,
        c\<lparr>c_loopTo := simpleRef (VStr r)\<rparr>))"
    using descriptor_of_ref [of r name models c] assms(2) by auto
  ultimately show ?thesis
    using assms(1) by (simp add: bindX_def returnX_def by_type_def Descriptor_def leave_model_def)
qed

lemma schema_new:
  assumes "fld def ''$ref'' = VStr r" "r \<notin> set (c_modelsToIgnore c)"
  shows "\<exists>nm. createSchemaXML (Suc n) models name def c =
    (let d = Descriptor nm (model_type models r) (model_definition models r); c1 = c\<lparr>c_modelsToIgnore := c_modelsToIgnore c @ [r]\<rparr> in
     if truthy (model_definition models r) then bindX (by_type (createSchemaXML n models) d) (leaving (VStr r) d) c1
     else Some (Inr (XText (getErrorMessage []), c1)))"
proof -
  have "is_object def" using assms(1) by (cases def) auto
  moreover obtain nm where "getDescriptorByRef r name models c =
      Some (Inr (if truthy (model_definition models r) then Some (Descriptor nm (model_type models r) (model_definition models r)) else None,
        c\<lparr>c_modelsToIgnore := c_modelsToIgnore c @ [r]\<rparr>))"
    using descriptor_of_ref [of r name models c] assms(2) by auto
  ultimately show ?thesis
    using assms(1) by (intro exI [of _ nm]) (simp add: bindX_def returnX_def Let_def)
qed

lemma schema_inline:
  assumes "\<nexists>r. is_object def \<and> fld def ''$ref'' = VStr r"
  shows "createSchemaXML (Suc n) models name def c = bindX (getDescriptor name def)
    (\<lambda>d. case d of None \<Rightarrow> returnX (XText (getErrorMessage [])) | Some d \<Rightarrow> by_type (createSchemaXML n models) d) c"
proof -
  have r: "leave_model ref d c = c" if "\<nexists>r. ref = VStr r" for ref d c using that by (cases ref) (simp_all add: leave_model_def)
  have b: "bindX m (\<lambda>a. returnX a) = m" for m :: "'a xml"
    by (rule ext) (auto simp: bindX_def returnX_def split: option.split sum.split)
  show ?thesis using assms r by (cases "is_object def"; cases "fld def ''$ref''") (simp_all add: b)
qed

lemma getDescriptor_definition: "getDescriptor name def c = Some (Inr (Some d, c1)) \<Longrightarrow> d_definition d = def \<and> c1 = c"
  by (auto simp: getDescriptor_def liftE_def present_value_def Descriptor_def Let_def split: if_splits)

lemma ends_left:
  assumes "ends dead m c1" "\<And>c'. keeps dead c1 c' \<Longrightarrow> keeps dead c (leave_model ref d c')" "M c = bindX m (leaving ref d) c1"
  shows "ends dead M c"
  using assms by (fastforce simp: ends_def bindX_def returnX_def split: sum.splits)

lemma entered_ends:
  assumes "fld def ''$ref'' = VStr r" "r \<notin> set (c_modelsToIgnore c)"
    and "\<And>name s c'. sub_schema (model_definition models r) s \<Longrightarrow> keeps (left_over models) (c\<lparr>c_modelsToIgnore := c_modelsToIgnore c @ [r]\<rparr>) c' \<Longrightarrow>
      ends (left_over models) (createSchemaXML n models name s) c'"
  shows "ends (left_over models) (createSchemaXML (Suc n) models name def) c"
proof -
  let ?c1 = "c\<lparr>c_modelsToIgnore := c_modelsToIgnore c @ [r]\<rparr>" and ?def = "model_definition models r" and ?dead = "left_over models"
  obtain nm where nm: "createSchemaXML (Suc n) models name def c = (let d = Descriptor nm (model_type models r) ?def in
      if truthy ?def then bindX (by_type (createSchemaXML n models) d) (leaving (VStr r) d) ?c1
      else Some (Inr (XText (getErrorMessage []), ?c1)))"
    using schema_new [OF assms(1,2), of n models name] by (auto simp: Let_def)
  let ?d = "Descriptor nm (model_type models r) ?def"
  have body: "ends ?dead (by_type (createSchemaXML n models) ?d) ?c1"
    by (rule ends_by_type) (use assms(3) in \<open>simp add: Descriptor_def\<close>)
  have left: "keeps ?dead c (leave_model (VStr r) ?d c')" if c': "keeps ?dead ?c1 c'" for c'
  proof -
    obtain extra where e: "c_isParam c' = c_isParam c" "set extra \<subseteq> ?dead" "c_modelsToIgnore c' = c_modelsToIgnore c @ r # extra"
      using leave_entered [OF c' assms(2)] by blast
    have "r \<in> ?dead" if "r = [] \<or> model_type models r = VStr (js ''loop'')"
      using that by (auto simp: model_type_def left_over_def Let_def split: if_splits)
    then show ?thesis using e assms(2) by (auto simp: leave_model_def keeps_def Descriptor_def remove1_append)
  qed
  show ?thesis
  proof (cases "truthy ?def")
    case True
    then show ?thesis using ends_left [OF body left] nm by (simp add: Let_def)
  next
    case False
    then have "r \<in> ?dead" by (simp add: left_over_def)
    then show ?thesis using nm False by (auto simp: ends_def keeps_def Let_def)
  qed
qed

lemma schema_xml_ends:
  assumes "bounded models R k" "refs_in def \<subseteq> R" "card (R - set (c_modelsToIgnore c)) * (k + 1) + weight_of def < n"
  shows "ends (left_over models) (createSchemaXML n models name def) c"
  using assms(2,3)
proof (induction n arbitrary: name def c)
  case (Suc n)
  let ?dead = "left_over models"
  let ?left = "\<lambda>c. card (R - set (c_modelsToIgnore c))"
  have fin: "finite R" using assms(1) by (simp add: bounded_def)
  have fewer: "?left c' \<le> ?left c" if "keeps ?dead c c'" for c c'
    using that fin by (auto simp: keeps_def intro!: card_mono)
  have sub: "ends ?dead (createSchemaXML n models name s) c2"
    if d: "sub_schema e s" "refs_in e \<subseteq> R" "?left c1 * (k + 1) + weight_of e \<le> n" "keeps ?dead c1 c2" for name s e c1 c2
  proof (rule Suc.IH)
    show "refs_in s \<subseteq> R" using sub_schema_refs [OF d(1)] d(2) by blast
    show "?left c2 * (k + 1) + weight_of s < n"
      using sub_schema_weight [OF d(1)] mult_le_mono1 [OF fewer [OF d(4)], of "k + 1"] d(3) by linarith
  qed
  consider (known) r where "fld def ''$ref'' = VStr r" "r \<in> set (c_modelsToIgnore c)"
    | (new) r where "fld def ''$ref'' = VStr r" "r \<notin> set (c_modelsToIgnore c)"
    | (inline) "\<nexists>r. is_object def \<and> fld def ''$ref'' = VStr r" by blast
  then show ?case
  proof cases
    case known
    then show ?thesis using schema_known [OF known, of n models name] by (auto simp: ends_def keeps_def)
  next
    case (new r)
    let ?c1 = "c\<lparr>c_modelsToIgnore := c_modelsToIgnore c @ [r]\<rparr>" and ?def = "model_definition models r"
    have R: "r \<in> R" using own_ref [OF new(1)] Suc.prems(1) by blast
    have m: "refs_in ?def \<subseteq> R" "weight_of ?def \<le> k" using assms(1) R by (auto simp: bounded_def)
    have "R - set (c_modelsToIgnore ?c1) = (R - set (c_modelsToIgnore c)) - {r}" by auto
    then have "?left ?c1 = ?left c - 1" "0 < ?left c" using R new(2) fin by (auto simp: card_gt_0_iff)
    then have "?left ?c1 * (k + 1) + (k + 1) = ?left c * (k + 1)" by (cases "?left c") simp_all
    then have n: "?left ?c1 * (k + 1) + weight_of ?def \<le> n" using Suc.prems(2) m(2) by linarith
    show ?thesis by (rule entered_ends [OF new]) (use sub [OF _ m(1) n] in simp)
  next
    case inline
    have "ends ?dead (bindX (getDescriptor name def)
        (\<lambda>d. case d of None \<Rightarrow> returnX (XText (getErrorMessage [])) | Some d \<Rightarrow> by_type (createSchemaXML n models) d)) c"
    proof (rule ends_bind)
      show "ends ?dead (getDescriptor name def) c" by (simp add: getDescriptor_def)
      fix d c1 assume d: "getDescriptor name def c = Some (Inr (d, c1))" "keeps ?dead c c1"
      show "ends ?dead (case d of None \<Rightarrow> returnX (XText (getErrorMessage [])) | Some d \<Rightarrow> by_type (createSchemaXML n models) d) c1"
      proof (cases d)
        case (Some d1)
        then have d1: "d_definition d1 = def" "c1 = c" using getDescriptor_definition d(1) by auto
        have "ends ?dead (by_type (createSchemaXML n models) d1) c"
        proof (rule ends_by_type)
          fix nm s c' assume s: "sub_schema (d_definition d1) s" "keeps ?dead c c'"
          show "ends ?dead (createSchemaXML n models nm s) c'"
            by (rule sub [OF _ Suc.prems(1) _ s(2)]) (use s(1) Suc.prems(2) d1(1) in simp_all)
        qed
        then show ?thesis using Some d1(2) by simp
      qed simp
    qed
    then show ?thesis unfolding ends_def schema_inline [OF inline] .
  qed
qed simp

section \<open>Fuel\<close>

text \<open>More fuel does not change a result.\<close>

definition below :: "'a xml \<Rightarrow> 'a xml \<Rightarrow> bool" where
  "below m m' \<longleftrightarrow> (\<forall>c. m c = None \<or> m' c = m c)"

lemma below_refl [simp]: "below m m"
  by (simp add: below_def)

lemma below_trans: "below a b \<Longrightarrow> below b c \<Longrightarrow> below a c"
  unfolding below_def by metis

lemma below_bind: "below m m' \<Longrightarrow> (\<And>a. below (f a) (f' a)) \<Longrightarrow> below (bindX m f) (bindX m' f')"
  unfolding below_def bindX_def
  by (intro allI) (smt (verit) option.case_eq_if option.distinct(1) option.split_sel prod.case_eq_if sum.case_eq_if)

lemma below_map: "(\<And>x. below (f x) (g x)) \<Longrightarrow> below (map_x f xs) (map_x g xs)"
  by (induction xs) (auto intro!: below_bind)

lemma below_by_type:
  assumes "\<And>name s. below (f name s) (g name s)"
  shows "below (by_type f d) (by_type g d)"
proof -
  have "below (createArrayXML f d) (createArrayXML g d)"
    using assms by (auto simp: createArrayXML_def Let_def intro!: below_bind)
  moreover have "below (property_xml f p) (property_xml g p)" for p
  proof -
    obtain key q where "p = (key, q)" by fastforce
    moreover have "below (bindX (liftE (present_value q)) (\<lambda>q. if b \<and> truthy (fld q ''readOnly'') then returnX ([], [])
        else bindX (f key q) (\<lambda>r. returnX (if truthy (fld (fld q ''xml'') ''attribute'') then ([], [r]) else (out_text r, [])))))
      (bindX (liftE (present_value q)) (\<lambda>q. if b \<and> truthy (fld q ''readOnly'') then returnX ([], [])
        else bindX (g key q) (\<lambda>r. returnX (if truthy (fld (fld q ''xml'') ''attribute'') then ([], [r]) else (out_text r, [])))))" for b
      using assms by (auto intro!: below_bind)
    ultimately show ?thesis by (simp add: below_def property_xml_def)
  qed
  then have "below (createObjectXML f d) (createObjectXML g d)"
    by (auto simp: createObjectXML_def Let_def intro!: below_bind below_map)
  ultimately show ?thesis by (simp add: below_def by_type_def)
qed

lemma more_fuel: "below (createSchemaXML n models name def) (createSchemaXML (Suc n) models name def)"
proof (induction n arbitrary: name def)
  case 0
  show ?case by (simp add: below_def)
next
  case (Suc n)
  show ?case
    unfolding createSchemaXML.simps(2) [of n models name def] createSchemaXML.simps(2) [of "Suc n" models name def] Let_def
    by (rule below_bind) (auto simp del: createSchemaXML.simps intro!: below_bind below_by_type Suc.IH split: option.split)
qed

lemma enough_fuel:
  assumes "createSchemaXML n models name def c = Some res" "n \<le> k"
  shows "createSchemaXML k models name def c = Some res"
proof -
  have "below (createSchemaXML n models name def) (createSchemaXML k models name def)"
    using assms(2) by (induction rule: dec_induct) (auto simp del: createSchemaXML.simps intro: below_trans more_fuel)
  then show ?thesis using assms(1) unfolding below_def by (metis option.distinct(1))
qed

definition fuel_for :: "fields \<Rightarrow> json \<Rightarrow> nat" where
  "fuel_for models def = card (refs_in def \<union> refs_in (VObj models)) * (weight_of (VObj models) + 1) + weight_of def + 1"

lemma finite_refs: "finite (refs_in v)"
  by (simp flip: set_getRefs)

lemma all_bounded: "bounded models (refs_in def \<union> refs_in (VObj models)) (weight_of (VObj models))"
proof -
  have "refs_in (model_definition models r) \<subseteq> refs_in (VObj models) \<and> weight_of (model_definition models r) \<le> weight_of (VObj models)" for r
  proof -
    let ?m = "lookup_field models (to_str (simpleRef (VStr r)))"
    have d: "refs_in (model_definition models r) \<subseteq> refs_in ?m" unfolding model_definition_def by (rule refs_get) simp
    have w: "weight_of (model_definition models r) \<le> weight_of ?m"
      unfolding model_definition_def using get_weight [of ?m "js ''definition''"] by (cases "fld ?m ''definition'' = VUndef") auto
    show ?thesis
    proof (cases "?m = VUndef")
      case True
      then show ?thesis by (simp add: model_definition_def)
    next
      case False
      then have m: "(to_str (simpleRef (VStr r)), ?m) \<in> set models" using lookup_in by metis
      have "is_string ?m \<Longrightarrow> refs_in ?m = {}" by (cases ?m) auto
      then have "refs_in ?m \<subseteq> refs_in (VObj models)" using m by (cases "is_string ?m") auto
      then show ?thesis using d w weight_of_field [OF m] by auto
    qed
  qed
  then show ?thesis by (auto simp: bounded_def finite_refs simp del: refs_in.simps weight_of.simps)
qed

lemma sample_call_ends:
  assumes "fuel_for models def \<le> n"
  shows "ends (left_over models) (createSchemaXML n models name def) c"
proof (rule schema_xml_ends [OF all_bounded])
  let ?R = "refs_in def \<union> refs_in (VObj models)"
  have "card (?R - set (c_modelsToIgnore c)) \<le> card ?R" by (simp add: card_mono finite_refs del: refs_in.simps)
  then have "card (?R - set (c_modelsToIgnore c)) * (weight_of (VObj models) + 1) \<le> card ?R * (weight_of (VObj models) + 1)"
    by (rule mult_le_mono1)
  then show "card (?R - set (c_modelsToIgnore c)) * (weight_of (VObj models) + 1) + weight_of def < n"
    using assms unfolding fuel_for_def by linarith
qed simp

text \<open>
  C20. Making an XML sample always ends: for every schema and all models, also those that refer to
  each other in circles, there is one text or exception with which \<open>createXMLSample\<close> ends, whatever
  the fuel from the given bound on.
\<close>

theorem xml_sample_ends:
  "\<exists>res. \<forall>n. fuel_for models def \<le> n \<longrightarrow> createXMLSample n name def models isParam = Some res"
proof -
  let ?c = "\<lparr>c_isParam = isParam, c_modelsToIgnore = [], c_loopTo = VUndef\<rparr>"
  obtain res where res: "createSchemaXML (fuel_for models def) models name def ?c = Some res"
    using sample_call_ends [of models def "fuel_for models def" name ?c] by (auto simp: ends_def)
  have "createSchemaXML n models name def ?c = Some res" if "fuel_for models def \<le> n" for n
    using enough_fuel [OF res that] .
  then show ?thesis by (cases res) (auto simp: createXMLSample_def)
qed

text \<open>
  The models to ignore are those of the surrounding schemas: after the sample of a schema the list
  is as it was before, followed by references that are never shown in full: blank ones and those
  without a model or with one of the type \<open>loop\<close>.  So any other model is shown in full at each of
  several places that are not inside it.
\<close>

theorem models_restored:
  assumes "createSchemaXML n models name def c = Some (Inr (out, c'))"
  shows "\<exists>extra. c_modelsToIgnore c' = c_modelsToIgnore c @ extra \<and> set extra \<subseteq> left_over models"
proof -
  have "createSchemaXML (max n (fuel_for models def)) models name def c = Some (Inr (out, c'))"
    using enough_fuel [OF assms] by simp
  then show ?thesis using sample_call_ends [of models def "max n (fuel_for models def)" name c] by (auto simp: ends_def keeps_def)
qed

section \<open>Indentation\<close>

definition dense :: "jstr \<Rightarrow> jstr" where
  "dense s = filter (\<lambda>c. c \<noteq> 32 \<and> c \<noteq> 10) s"

lemma dense_simps [simp]: "dense [] = []" "dense (s @ t) = dense s @ dense t" "dense (c # s) = (if c = 32 \<or> c = 10 then dense s else c # dense s)"
  by (auto simp: dense_def)

lemma dense_split: "dense (take n l) @ dense (drop n l) = dense l"
  by (simp flip: dense_simps(2))

lemma dense_break_tags: "dense (break_tags s) = dense s"
  by (induction s rule: break_tags.induct) auto

lemma dense_join: "dense (join [10] ls) = concat (map dense ls)"
  by (induction "[10] :: jstr" ls rule: join.induct) auto

lemma dense_lines: "dense s = concat (map dense (split_at 10 s))"
  using dense_join [of "split_at 10 s"] by (simp add: split_join)

lemma dense_each_line:
  assumes "\<And>l. dense (f l) = dense l"
  shows "dense (each_line f s) = dense s"
proof -
  have c: "dense (change_line f l) = dense l" for l
    using assms by (simp add: change_line_def Let_def dense_split)
  have "dense (each_line f s) = concat (map dense (map (change_line f) (butlast (split_at 10 s)) @ [last (split_at 10 s)]))"
    by (simp only: each_line_def Let_def dense_join)
  also have "\<dots> = concat (map dense (butlast (split_at 10 s) @ [last (split_at 10 s)]))"
    by (simp only: map_append map_map comp_def c)
  also have "\<dots> = dense s" using dense_lines [of s] by (simp only: append_butlast_last_id split_not_Nil not_False_eq_True)
  finally show ?thesis .
qed

lemma dense_trim: "dense (trim_line l) = dense l"
proof (cases "l \<noteq> [] \<and> last l = 32")
  case True
  have d: "dense (dropWhile (\<lambda>c. c = 32) l) = dense l" for l by (induction l) auto
  have "dense (butlast m) = dense m" if "m = [] \<or> last m = 32" for m :: jstr
    using that by (cases m rule: rev_cases) auto
  moreover have "dropWhile (\<lambda>c. c = 32) l = [] \<or> last (dropWhile (\<lambda>c. c = 32) l) = 32"
    using True by (metis last_appendR takeWhile_dropWhile_id)
  ultimately show ?thesis using True d by (simp add: trim_line_def)
qed (auto simp: trim_line_def)

lemma dense_break_text: "dense (break_text l) = dense l"
  by (simp add: break_text_def Let_def dense_split)

lemma dense_format_line:
  assumes "f_formatted st = [] \<or> last (f_formatted st) = 10"
  shows "dense (f_formatted (format_line line st)) = dense (f_formatted st) @ dense line" "last (f_formatted (format_line line st)) = 10"
proof -
  have p: "dense (padding i) = []" for i by (simp add: padding_def dense_def)
  have "dense (butlast m) = dense m" if "m = [] \<or> last m = 10" for m :: jstr
    using that by (cases m rule: rev_cases) auto
  then show "dense (f_formatted (format_line line st)) = dense (f_formatted st) @ dense line"
    using assms by (simp add: format_line_def Let_def p)
  show "last (f_formatted (format_line line st)) = 10" by (simp add: format_line_def Let_def)
qed

lemma dense_format_lines:
  "f_formatted st = [] \<or> last (f_formatted st) = 10 \<Longrightarrow>
     dense (f_formatted (fold format_line ls st)) = dense (f_formatted st) @ concat (map dense ls)"
  by (induction ls arbitrary: st) (simp_all add: dense_format_line)

lemma dense_formatXml: "dense (formatXml xml) = dense xml"
  by (simp add: formatXml_def Let_def dense_format_lines dense_each_line dense_break_text dense_trim dense_break_tags flip: dense_lines)

text \<open>
  Indentation changes nothing but blanks and line ends: without them, the text \<open>formatXml\<close> makes is
  the one it was given.
\<close>

theorem indentation_only:
  "filter (\<lambda>c. c \<noteq> 32 \<and> c \<noteq> 10) (formatXml xml) = filter (\<lambda>c. c \<noteq> 32 \<and> c \<noteq> 10) xml"
  using dense_formatXml [of xml] by (simp add: dense_def)

section \<open>Tags\<close>

text \<open>Text without \<open><\<close> and \<open>>\<close>, comments and elements.\<close>

definition plain :: "jstr \<Rightarrow> bool" where
  "plain s \<longleftrightarrow> 60 \<notin> set s \<and> 62 \<notin> set s"

inductive balanced :: "jstr \<Rightarrow> bool" where
  balanced_text: "plain s \<Longrightarrow> balanced s"
| balanced_comment: "plain s \<Longrightarrow> balanced (js ''<!-- '' @ s @ js '' -->'')"
| balanced_append: "balanced s \<Longrightarrow> balanced t \<Longrightarrow> balanced (s @ t)"
| balanced_element: "plain name \<Longrightarrow> plain attrs \<Longrightarrow> attrs = [] \<or> hd attrs = 32 \<Longrightarrow> balanced s \<Longrightarrow>
    balanced (js ''<'' @ name @ attrs @ js ''>'' @ s @ js ''</'' @ name @ js ''>'')"

text \<open>A value whose texts, also those of its keys, are plain.\<close>

fun plain_json :: "json \<Rightarrow> bool" where
  "plain_json (VStr s) \<longleftrightarrow> plain s"
| "plain_json (VFile s) \<longleftrightarrow> plain s"
| "plain_json (VArr vs) \<longleftrightarrow> (\<forall>v \<in> set vs. plain_json v)"
| "plain_json (VObj m) \<longleftrightarrow> (\<forall>(k, v) \<in> set m. plain k \<and> plain_json v)"
| "plain_json v \<longleftrightarrow> True"

lemma plain_simps [simp]: "plain []" "plain (s @ t) \<longleftrightarrow> plain s \<and> plain t" "plain (c # s) \<longleftrightarrow> c \<noteq> 60 \<and> c \<noteq> 62 \<and> plain s"
  by (auto simp: plain_def)

lemma plain_concat: "plain (concat ss) \<longleftrightarrow> (\<forall>s \<in> set ss. plain s)"
  by (induction ss) auto

lemma plain_digits: "plain (nat_digits n)"
proof -
  have "list_all is_digit s \<Longrightarrow> plain s" for s by (induction s) (auto simp: is_digit_def)
  then show ?thesis using nat_digits_digits by blast
qed

lemma plain_join: "plain sep \<Longrightarrow> \<forall>s \<in> set ss. plain s \<Longrightarrow> plain (join sep ss)"
  by (induction sep ss rule: join.induct) auto

lemma plain_to_str: "plain_json v \<Longrightarrow> plain (to_str v)"
proof (induction v rule: to_str.induct)
  case (6 vs)
  then have "\<forall>s \<in> set (map (\<lambda>v. if v = VUndef \<or> v = VNull then [] else to_str v) vs). plain s" by auto
  then show ?case unfolding to_str.simps by (rule plain_join [rotated]) (simp add: js_def)
qed (auto simp: js_def int_digits_def plain_digits)

lemma plain_get: "plain_json v \<Longrightarrow> plain_json (get v k)"
proof (cases v)
  case (VObj m)
  assume "plain_json v"
  then show ?thesis using VObj lookup_in [of m k] by force
qed auto

lemma plain_orElse: "plain_json a \<Longrightarrow> plain_json b \<Longrightarrow> plain_json (orElse a b)"
  by (simp add: orElse_def)

lemma plain_prefix: "plain_json name \<Longrightarrow> plain_json xml \<Longrightarrow> plain_json (getPrefix name xml)"
  by (auto simp: getPrefix_def Let_def plain_orElse plain_get js_def intro!: plain_to_str)

lemma plain_entries: "plain_json v \<Longrightarrow> (k, s) \<in> set (entries v) \<Longrightarrow> plain_json k \<and> plain_json s"
proof (cases v)
  case (VStr t)
  assume "plain_json v" "(k, s) \<in> set (entries v)"
  then obtain c where "k = VNum (int c)" "s = VStr [t ! c]" "c < length t" using VStr by (auto simp: in_set_enumerate_eq)
  then show ?thesis using \<open>plain_json v\<close> VStr nth_mem [of c t] by (auto simp: plain_def simp del: nth_mem)
qed (auto simp: in_set_enumerate_eq)

lemma plain_def_of_model: "plain_json (VObj models) \<Longrightarrow> plain_json (model_definition models r)"
  unfolding model_definition_def using plain_get [of "VObj models"] plain_get by simp

text \<open>One comment, or one element with balanced content.\<close>

definition one_node :: "jstr \<Rightarrow> bool" where
  "one_node s \<longleftrightarrow> (\<exists>t. plain t \<and> s = js ''<!-- '' @ t @ js '' -->'') \<or>
     (\<exists>name attrs content. plain name \<and> plain attrs \<and> (attrs = [] \<or> hd attrs = 32) \<and> balanced content \<and>
       s = js ''<'' @ name @ attrs @ js ''>'' @ content @ js ''</'' @ name @ js ''>'')"

lemma one_node_balanced: "one_node s \<Longrightarrow> balanced s"
  unfolding one_node_def using balanced_comment balanced_element by blast

text \<open>Results that are one node or an attribute, and calls that give such results.\<close>

fun good :: "xml_out \<Rightarrow> bool" where
  "good (XText s) \<longleftrightarrow> one_node s"
| "good (XAttr name v) \<longleftrightarrow> plain_json name \<and> plain_json v"

lemma good_error: "plain s \<Longrightarrow> one_node (getErrorMessage s)"
proof -
  assume s: "plain s"
  have "getErrorMessage s = js ''<!-- '' @ (js ''invalid XML'' @ (if s \<noteq> [] then js '': '' @ s else [])) @ js '' -->''"
    by (simp add: getErrorMessage_def js_def)
  moreover have "plain (js ''invalid XML'' @ (if s \<noteq> [] then js '': '' @ s else []))" using s by (simp add: js_def)
  ultimately show ?thesis unfolding one_node_def by blast
qed

lemma plain_attribute: "good a \<Longrightarrow> plain (attribute a) \<and> hd (attribute a) = 32"
  by (cases a) (auto simp: js_def plain_to_str)

lemma good_wrapTag:
  assumes "plain_json name" "balanced value" "\<forall>a \<in> set attrs. good a"
  shows "one_node (wrapTag name value attrs)"
proof (cases "truthy name")
  case False
  have "plain (js ''Node name is not provided'')" by (simp add: js_def)
  then show ?thesis using good_error False by (simp add: wrapTag_def)
next
  case True
  let ?attrs = "concat (map attribute attrs)"
  have "plain (join_text name)" using assms(1) plain_to_str by (simp add: join_text_def)
  moreover have "plain ?attrs" using assms(3) plain_attribute by (simp add: plain_concat)
  moreover have "?attrs = [] \<or> hd ?attrs = 32"
  proof (cases attrs)
    case (Cons a as)
    then have "attribute a \<noteq> []" by (cases a) (simp_all add: js_def)
    then show ?thesis using Cons assms(3) plain_attribute by simp
  qed simp
  moreover have "wrapTag name value attrs = js ''<'' @ join_text name @ ?attrs @ js ''>'' @ value @ js ''</'' @ join_text name @ js ''>''"
    using True by (simp add: wrapTag_def)
  ultimately show ?thesis unfolding one_node_def using assms(2) by blast
qed

lemma good_namespace: "plain_json xml \<Longrightarrow> \<forall>a \<in> set (getNamespace xml). good a"
  using plain_get [of xml] plain_to_str by (auto simp: getNamespace_def) (simp_all add: js_def)

lemma good_text: "good out \<Longrightarrow> balanced (out_text out)"
  by (cases out) (auto intro: balanced_text one_node_balanced simp: js_def)

definition safe :: "'a xml \<Rightarrow> ('a \<Rightarrow> bool) \<Rightarrow> bool" where
  "safe m P \<longleftrightarrow> (\<forall>c a c'. plain_json (c_loopTo c) \<longrightarrow> m c = Some (Inr (a, c')) \<longrightarrow> P a \<and> plain_json (c_loopTo c'))"

lemma safe_return: "P a \<Longrightarrow> safe (returnX a) P"
  by (simp add: safe_def returnX_def)

lemma safe_bind: "safe m P \<Longrightarrow> (\<And>a. P a \<Longrightarrow> safe (f a) Q) \<Longrightarrow> safe (bindX m f) Q"
proof (unfold safe_def, intro allI impI)
  fix c b c'
  assume m: "\<forall>c a c'. plain_json (c_loopTo c) \<longrightarrow> m c = Some (Inr (a, c')) \<longrightarrow> P a \<and> plain_json (c_loopTo c')"
    and f: "\<And>a. P a \<Longrightarrow> \<forall>c b c'. plain_json (c_loopTo c) \<longrightarrow> f a c = Some (Inr (b, c')) \<longrightarrow> Q b \<and> plain_json (c_loopTo c')"
    and c: "plain_json (c_loopTo c)" "bindX m f c = Some (Inr (b, c'))"
  obtain a c1 where "m c = Some (Inr (a, c1))" "f a c1 = Some (Inr (b, c'))"
    using c(2) by (auto simp: bindX_def split: option.splits sum.splits)
  then show "Q b \<and> plain_json (c_loopTo c')" using m f c(1) by blast
qed

lemma safe_map: "(\<And>x. x \<in> set xs \<Longrightarrow> safe (f x) P) \<Longrightarrow> safe (map_x f xs) (\<lambda>ys. \<forall>y \<in> set ys. P y)"
proof (induction xs)
  case (Cons x xs)
  have "safe (map_x f xs) (\<lambda>ys. \<forall>y \<in> set ys. P y)" by (rule Cons.IH) (use Cons.prems in simp)
  then show ?case using Cons.prems [of x] by (auto intro!: safe_bind safe_return)
qed (simp add: safe_return)


lemma safe_cong: "(\<And>c. m c = m' (b c) c) \<Longrightarrow> (\<And>b. safe (m' b) P) \<Longrightarrow> safe m P"
  by (auto simp: safe_def)

lemma safe_array:
  assumes "\<And>name s. plain_json name \<Longrightarrow> plain_json s \<Longrightarrow> safe (schemaXML name s) good"
    and "plain_json (d_name d)" "plain_json (d_definition d)"
  shows "safe (createArrayXML schemaXML d) good"
proof -
  let ?def = "d_definition d"
  have xml: "plain_json (fld (d_definition d) k)" for k using assms(3) by (rule plain_get)
  have error: "one_node (getErrorMessage [])" by (rule good_error) simp
  show ?thesis
  proof (cases "truthy (fld ?def ''items'')")
    case True
    let ?key = "if truthy (fld (fld (fld ?def ''items'') ''xml'') ''name'') then fld (fld (fld ?def ''items'') ''xml'') ''name'' else d_name d"
    have call: "safe (schemaXML ?key (fld ?def ''items'')) good" by (rule assms(1)) (simp_all add: plain_get assms(2) xml)
    have wrap: "one_node (wrapTag (d_name d) (out_text v) (getNamespace (fld ?def ''xml'')))" if "good v" for v
      by (rule good_wrapTag [OF assms(2) good_text [OF that] good_namespace [OF xml]])
    have "\<not> \<not> truthy (fld ?def ''items'')" using True by simp
    then show ?thesis
      unfolding createArrayXML_def Let_def if_not_P [OF \<open>\<not> \<not> truthy (fld ?def ''items'')\<close>]
      by (intro safe_bind [OF call] safe_return) (use wrap in auto)
  qed (simp add: createArrayXML_def Let_def safe_return error)
qed

lemma safe_property:
  assumes "\<And>name s. plain_json name \<Longrightarrow> plain_json s \<Longrightarrow> safe (schemaXML name s) good"
    and "plain_json (d_definition d)" "p \<in> set (entries (fld (d_definition d) ''properties''))"
  shows "safe (property_xml schemaXML p) (\<lambda>p. balanced (fst p) \<and> (\<forall>a \<in> set (snd p). good a))"
proof -
  let ?def = "d_definition d"
  have xml: "plain_json (fld (d_definition d) k)" for k using assms(2) by (rule plain_get)
  obtain key q where kq: "p = (key, q)" by fastforce
  then have q: "plain_json key" "plain_json q" using plain_entries [OF xml] assms(3) by blast+
  have call: "safe (schemaXML key q) good" by (rule assms(1) [OF q])
  have "safe (liftE (present_value q)) (\<lambda>v. v = q)" by (auto simp: safe_def liftE_def present_value_def split: if_splits)
  then have "safe (bindX (liftE (present_value q)) (\<lambda>q. if b \<and> truthy (fld q ''readOnly'') then returnX ([], [])
      else bindX (schemaXML key q) (\<lambda>r. returnX (if truthy (fld (fld q ''xml'') ''attribute'') then ([], [r]) else (out_text r, [])))))
    (\<lambda>p. balanced (fst p) \<and> (\<forall>a \<in> set (snd p). good a))" for b
    by (rule safe_bind) (use call good_text in \<open>auto simp: balanced_text intro!: safe_bind [of "schemaXML key q" good] safe_return split: if_splits\<close>)
  then show ?thesis by (auto simp: property_xml_def kq safe_def)
qed

lemma safe_object:
  assumes "\<And>name s. plain_json name \<Longrightarrow> plain_json s \<Longrightarrow> safe (schemaXML name s) good"
    and "plain_json (d_name d)" "plain_json (d_definition d)"
  shows "safe (createObjectXML schemaXML d) good"
proof -
  let ?def = "d_definition d"
  have xml: "plain_json (fld (d_definition d) k)" for k using assms(3) by (rule plain_get)
  have error: "one_node (getErrorMessage [])" by (rule good_error) simp
  show ?thesis
  proof (cases "\<not> truthy (fld ?def ''properties'') \<and> \<not> truthy (fld ?def ''additionalProperties'')")
    case False
    have c: "balanced (concat (map fst ps))" if "\<forall>p \<in> set ps. balanced (fst p)" for ps :: "(jstr \<times> xml_out list) list"
      using that by (induction ps) (auto intro: balanced_text balanced_append)
    have more: "balanced (js ''<!-- additional elements allowed -->'')"
      using balanced_comment [of "js ''additional elements allowed''"] by (simp add: js_def)
    have w: "one_node (wrapTag (d_name d) (concat (map fst ps) @ (if b then js ''<!-- additional elements allowed -->'' else []))
        (getNamespace (fld ?def ''xml'') @ concat (map snd ps)))"
      if ps: "\<forall>p \<in> set ps. balanced (fst p) \<and> (\<forall>a \<in> set (snd p). good a)" for ps b
    proof (rule good_wrapTag [OF assms(2)])
      show "balanced (concat (map fst ps) @ (if b then js ''<!-- additional elements allowed -->'' else []))"
        using c ps more by (cases b) (simp_all add: balanced_append)
      show "\<forall>a \<in> set (getNamespace (fld ?def ''xml'') @ concat (map snd ps)). good a"
        using ps good_namespace [OF xml] by auto
    qed
    have "safe (map_x (property_xml schemaXML) (entries (fld ?def ''properties'')))
        (\<lambda>ps. \<forall>p \<in> set ps. balanced (fst p) \<and> (\<forall>a \<in> set (snd p). good a))"
      by (rule safe_map) (rule safe_property [OF assms(1,3)])
    then show ?thesis
      unfolding createObjectXML_def Let_def if_not_P [OF False]
      by (rule safe_bind) (rule safe_return, use w in auto)
  qed (simp add: createObjectXML_def Let_def safe_return error)
qed

lemma good_loop:
  assumes "plain_json (d_name d)" "plain_json loopTo"
  shows "one_node (getInfiniteLoopMessage (d_name d) loopTo)"
proof -
  have "balanced (js ''<!-- '' @ (js ''Infinite loop $ref:'' @ to_str loopTo) @ js '' -->'')"
    by (rule balanced_comment) (simp add: js_def plain_to_str assms(2))
  then have "balanced (js ''<!-- Infinite loop $ref:'' @ to_str loopTo @ js '' -->'')" by (simp add: js_def)
  then show ?thesis unfolding getInfiniteLoopMessage_def by (rule good_wrapTag [OF assms(1)]) simp
qed

lemma good_primitive:
  assumes "plain_json (d_name d)" "plain_json (d_definition d)"
  shows "good (createPrimitiveXML d)"
proof -
  let ?def = "d_definition d"
  have xml: "plain_json (fld (d_definition d) k)" for k using assms(2) by (rule plain_get)
  have error: "one_node (getErrorMessage [])" by (rule good_error) simp
  have "plain_json (primitive_sample type format)" for type format by (simp add: primitive_sample_def js_def)
  then have other: "plain_json (orElse (fld ?def ''example'') (primitive_sample (fld ?def ''type'') (fld ?def ''format'')))"
    using xml by (simp add: plain_orElse)
  have "plain_json (if vs = [] then VUndef else hd vs)" if "fld ?def ''enum'' = VArr vs" for vs
    using xml [of "''enum''"] that by (cases vs) simp_all
  then have "plain_json (case fld ?def ''enum'' of VArr vs \<Rightarrow> (if vs = [] then VUndef else hd vs)
       | _ \<Rightarrow> orElse (fld ?def ''example'') (primitive_sample (fld ?def ''type'') (fld ?def ''format'')))"
    using other by (cases "fld ?def ''enum''") simp_all
  moreover have "plain_json v \<Longrightarrow> balanced (join_text v)" for v by (auto simp: join_text_def plain_to_str intro!: balanced_text)
  ultimately show ?thesis
    using error good_wrapTag [OF assms(1) _ good_namespace [OF xml]] assms(1)
    unfolding createPrimitiveXML_def Let_def by (simp only: if_split good.simps) blast
qed

lemma safe_by_type:
  assumes "\<And>name s. plain_json name \<Longrightarrow> plain_json s \<Longrightarrow> safe (schemaXML name s) good"
    and "plain_json (d_name d)" "plain_json (d_definition d)"
  shows "safe (by_type schemaXML d) good"
proof -
  have message: "safe (\<lambda>c. returnX (XText (getInfiniteLoopMessage (d_name d) (c_loopTo c))) c) good"
    using good_loop [OF assms(2)] by (simp add: safe_def returnX_def)
  have "by_type schemaXML d = (if d_type d = VStr (js ''array'') then createArrayXML schemaXML d
      else if d_type d = VStr (js ''object'') then createObjectXML schemaXML d
      else if d_type d = VStr (js ''loop'') then (\<lambda>c. returnX (XText (getInfiniteLoopMessage (d_name d) (c_loopTo c))) c)
      else returnX (createPrimitiveXML d))"
    by (rule ext) (simp add: by_type_def)
  then show ?thesis 
    using safe_array [OF assms] safe_object [OF assms] message safe_return [of good, OF good_primitive [OF assms(2,3)]] by simp
qed

lemma safe_by_ref:
  assumes "plain r" "plain_json name" "plain_json (VObj models)"
  shows "safe (getDescriptorByRef r name models) (\<lambda>d. \<forall>d'. d = Some d' \<longrightarrow> plain_json (d_name d') \<and> plain_json (d_definition d'))"
proof -
  let ?model = "lookup_field models (to_str (simpleRef (VStr r)))"
  have m: "plain_json ?model" using plain_get [OF assms(3), of "to_str (simpleRef (VStr r))"] by simp
  have "plain_json (simpleRef (VStr r))"
    using assms(1) by (auto simp: simpleRef_def plain_def dest: in_set_dropD)
  then show ?thesis
    using assms(2) m unfolding safe_def getDescriptorByRef_def Let_def returnX_def Descriptor_def
    by (auto intro!: plain_prefix plain_orElse plain_get)
qed

lemma safe_inline:
  assumes "plain_json name" "plain_json def"
  shows "safe (getDescriptor name def) (\<lambda>d. \<forall>d'. d = Some d' \<longrightarrow> plain_json (d_name d') \<and> plain_json (d_definition d'))"
  using assms unfolding safe_def getDescriptor_def liftE_def present_value_def Let_def Descriptor_def
  by (auto intro!: plain_prefix plain_orElse plain_get)

lemma schema_xml_good:
  assumes "plain_json name" "plain_json def" "plain_json (VObj models)"
  shows "safe (createSchemaXML n models name def) good"
  using assms(1,2)
proof (induction n arbitrary: name def)
  case 0
  show ?case by (simp add: safe_def)
next
  case (Suc n)
  let ?ref = "if is_object def then fld def ''$ref'' else VNull"
  let ?plain = "\<lambda>d. \<forall>d'. d = Some d' \<longrightarrow> plain_json (d_name d') \<and> plain_json (d_definition d')"
  have "safe (case ?ref of VStr r \<Rightarrow> getDescriptorByRef r name models | _ \<Rightarrow> getDescriptor name def) ?plain"
  proof (cases ?ref)
    case (VStr r)
    have "plain_json ?ref" using plain_get [OF Suc.prems(2)] by simp
    then have "plain r" using VStr by simp
    then show ?thesis using VStr safe_by_ref [OF _ Suc.prems(1) assms(3)] by simp
  qed (use safe_inline [OF Suc.prems] in simp_all)
  moreover have "safe (case d of None \<Rightarrow> returnX (XText (getErrorMessage []))
      | Some d \<Rightarrow> bindX (by_type (createSchemaXML n models) d) (leaving ?ref d)) good" if "?plain d" for d
  proof (cases d)
    case None
    have "one_node (getErrorMessage [])" by (rule good_error) simp
    then show ?thesis using None by (simp add: safe_return)
  next
    case (Some d1)
    have body: "safe (by_type (createSchemaXML n models) d1) good"
      by (rule safe_by_type [OF Suc.IH]) (use that Some in simp_all)
    have "safe (leaving ?ref d1 out) good" if "good out" for out
      using that by (auto simp: safe_def returnX_def leave_model_def split: json.splits)
    then show ?thesis unfolding Some option.case by (rule safe_bind [OF body])
  qed
  ultimately show ?case unfolding createSchemaXML.simps Let_def by (rule safe_bind)
qed

lemma sample_of:
  assumes "createXMLSample n name def models isParam = Some (Inr doc)"
  shows "\<exists>out c'. createSchemaXML n models name def \<lparr>c_isParam = isParam, c_modelsToIgnore = [], c_loopTo = VUndef\<rparr> = Some (Inr (out, c')) \<and>
    doc = formatXml (js ''<?xml version=\"1.0\"?>'' @ out_text out)"
  using assms by (auto simp: createXMLSample_def split: option.splits sum.splits)

text \<open>
  C29. A sample is one node whose tags are balanced: if no text of the schema and of the models has a
  \<open><\<close> or \<open>>\<close>, then, but for the blanks and line ends of the indentation, the sample is the prolog
  followed by one comment or one element, whose content is text, comments and elements that are
  closed in the reverse order, or by \<open>[object Object]\<close>, which is what an attribute shows as.
\<close>

theorem tags_balanced:
  assumes "createXMLSample n name def models isParam = Some (Inr doc)"
    and "plain_json name" "plain_json def" "plain_json (VObj models)"
  shows "\<exists>s. dense doc = dense (js ''<?xml version=\"1.0\"?>'' @ s) \<and> (one_node s \<or> s = js ''[object Object]'')"
proof -
  let ?c = "\<lparr>c_isParam = isParam, c_modelsToIgnore = [], c_loopTo = VUndef\<rparr>"
  obtain out c' where out: "createSchemaXML n models name def ?c = Some (Inr (out, c'))" "doc = formatXml (js ''<?xml version=\"1.0\"?>'' @ out_text out)"
    using sample_of [OF assms(1)] by blast
  have "good out" using schema_xml_good [OF assms(2-4), of n, unfolded safe_def, rule_format, OF _ out(1)] by simp
  then have "one_node (out_text out) \<or> out_text out = js ''[object Object]''" by (cases out) simp_all
  then show ?thesis using out(2) dense_formatXml by metis
qed

section \<open>Examples\<close>

definition node_ref :: json where
  "node_ref = VObj [(js ''$ref'', VStr (js ''#/definitions/Node''))]"

definition node_models :: fields where
  "node_models = [(js ''Node'', VObj [(js ''name'', VStr (js ''Node'')), (js ''definition'', VObj [(js ''type'', VStr (js ''object'')),
     (js ''properties'', VObj [(js ''size'', VObj [(js ''type'', VStr (js ''integer''))]), (js ''next'', node_ref)])])])]"

definition new_config :: config where
  "new_config = \<lparr>c_isParam = VUndef, c_modelsToIgnore = [], c_loopTo = VUndef\<rparr>"

definition node_document :: jstr where
  "node_document = js ''<?xml version=\"1.0\"?>'' @ [10] @ js ''<Node>'' @ [10] @ js ''  <size>1</size>'' @ [10] @ js ''  <next>'' @ [10] @
     js ''    <!-- Infinite loop $ref:Node -->'' @ [10] @ js ''  </next>'' @ [10] @ js ''</Node>'' @ [10]"

lemma node_sample: "createXMLSample 3 VUndef node_ref node_models VUndef = Some (Inr node_document)"
  by code_simp

theorem xml_sample_ends_witness:
  "\<exists>res. createXMLSample (fuel_for node_models node_ref) VUndef node_ref node_models VUndef = Some res"
  using xml_sample_ends [of node_models node_ref VUndef VUndef] by blast

theorem models_restored_witness:
  "\<exists>out c'. createSchemaXML 3 node_models VUndef node_ref new_config = Some (Inr (out, c')) \<and>
     (\<exists>extra. c_modelsToIgnore c' = c_modelsToIgnore new_config @ extra \<and> set extra \<subseteq> left_over node_models)"
proof -
  obtain out c' where "createSchemaXML 3 node_models VUndef node_ref new_config = Some (Inr (out, c'))"
    using sample_of [OF node_sample] unfolding new_config_def by blast
  note call = this
  show ?thesis by (rule exI, rule exI, rule conjI [OF call models_restored [OF call]])
qed

theorem tags_balanced_witness:
  "\<exists>s. dense node_document = dense (js ''<?xml version=\"1.0\"?>'' @ s) \<and> (one_node s \<or> s = js ''[object Object]'')"
proof (rule tags_balanced [OF node_sample])
  show "plain_json VUndef" by simp
  show "plain_json node_ref" by (simp add: node_ref_def js_def)
  show "plain_json (VObj node_models)" by (simp add: node_models_def node_ref_def js_def)
qed

text \<open>
  A property that is to be an attribute and refers to a model that is an object becomes an attribute
  without name and value; a reference to a primitive model that is an attribute becomes
  \<open>[object Object]\<close>.
\<close>

definition tag_models :: fields where
  "tag_models = [(js ''Tag'', VObj [(js ''definition'', VObj [(js ''properties'', VObj [(js ''id'', VObj [(js ''type'', VStr (js ''integer''))])])])]),
     (js ''Id'', VObj [(js ''definition'', VObj [(js ''type'', VStr (js ''integer'')), (js ''xml'', VObj [(js ''attribute'', VBool True)])])])]"

theorem attributes_lost:
  "createXMLSample 4 (VStr (js ''pet'')) (VObj [(js ''properties'', VObj [(js ''tag'', VObj [(js ''$ref'', VStr (js ''Tag'')),
       (js ''xml'', VObj [(js ''attribute'', VBool True)])])])]) tag_models VUndef =
     Some (Inr (js ''<?xml version=\"1.0\"?>'' @ [10] @ js ''<pet undefined=\"undefined\"></pet>'' @ [10])) \<and>
   createXMLSample 4 (VStr (js ''pet'')) (VObj [(js ''properties'', VObj [(js ''id'', VObj [(js ''$ref'', VStr (js ''Id''))])])]) tag_models VUndef =
     Some (Inr (js ''<?xml version=\"1.0\"?>'' @ [10] @ js ''  <pet>[object Object]</pet>'' @ [10]))"
  by code_simp

end
