(* ===== verification/Spec2Isabelle.thy ===== *)
theory Spec2Isabelle
  imports BufferText SwaggerCall SchemaTermination ClientBuild SpecDocument Translator PromiseQueue PromiseOrder ResolverTable XmlLaws
begin

text \<open>
  A verification development for the documentation page of the Waves node's API, the JavaScript
  program of this repository (\<open>node/src/main/resources/swagger-ui\<close>).  Names like
  \<open>urlify\<close> below are those of \<open>swagger-ui.js\<close>, a bundle of modules, unless another file is
  named; line numbers are lines of that file.

  \<^bold>\<open>The program.\<close>  The page loads a specification of the API, prepares its operations for
  display, takes arguments from forms, turns a call of an operation into an HTTP request, and
  shows the request as a curl command.  \<open>swagger-client\<close> does the work: an \<open>Operation\<close>
  (6692--7928) checks and encodes the arguments, chooses content types, builds URL, headers and
  body, has the authorizations (\<open>lib/auth.js\<close>, 3227--3378) add credentials, and hands the request
  to \<open>lib/http.js\<close>.  The operations are made and grouped by the client (\<open>lib/client.js\<close>, 3378--4101),
  from a specification that the converter (5991--6644) has brought to version 2.0 if it was older.
  A cookie authorization parses with \<open>cookiejar\<close> (9811--10073); a password
  goes through \<open>btoa\<close>, which uses \<open>buffer\<close> (8029--9562), which uses \<open>base64-js\<close> (9564--9688).  The
  translator (\<open>lang/translator.js\<close>) replaces the phrases of the page by those of a language file.

  \<^bold>\<open>Foundations.\<close>
  \<^item> \<open>Prelude\<close>: exceptions as values on the left of a sum, sequencing (\<open>bindE\<close>), shared lemmas.
  \<^item> \<open>JsNumber\<close>, \<open>JsString\<close>, \<open>JsValue\<close>: numbers with the operators the code uses, strings
    as lists of 16-bit code units, objects as lists of properties in the order of insertion.
  \<^item> \<open>Codec\<close>, \<open>OctetStore\<close>: the two interfaces.  A codec is a pair of functions that undo each
    other on valid inputs; base64, Latin-1, ASCII, UTF-16LE and percent-encoding are
    interpretations.  An octet store is memory assigned octet by octet; the buffers are one.

  \<^bold>\<open>Components.\<close>
  \<^item> \<open>Base64\<close>: \<open>base64-js\<close>; its round trip.
  \<^item> \<open>BufferStore\<close>, \<open>BufferViews\<close>: array buffers in a store and \<open>Buffer\<close> objects as views on
    them.  A slice shares memory with its source, a copy is a \<open>memmove\<close> unless two views of
    one buffer overlap, an allocated buffer is new and zeroed.
  \<^item> \<open>BufferNum\<close>: the readers and writers of integers against two's complement; round trips, the
    values and offsets refused, the two implementations of the writers compared.
  \<^item> \<open>Utf8\<close>, \<open>BufferText\<close>: the encodings against the UTF-8 and UTF-16 forms of a scalar value,
    the dispatch on their names, \<open>indexOf\<close>, \<open>fill\<close>, \<open>inspect\<close>.
  \<^item> \<open>UrlEncode\<close>: \<open>encodeURIComponent\<close> and the encoders of \<open>operation.js\<close>, against a percent
    decoder that stands for the server.
  \<^item> \<open>CookieJar\<close>: cookies and the jar, with the jars reachable by \<open>setCookie\<close> as an inductive
    predicate and their invariant.
  \<^item> \<open>SwaggerAuth\<close>: \<open>lib/helpers.js\<close>, \<open>btoa\<close>, \<open>lib/auth.js\<close>; a request is only ever extended.
  \<^item> \<open>SwaggerOperation\<close>: the methods of \<open>Operation\<close> that build a request: \<open>setContentTypes\<close>,
    \<open>getHeaderParams\<close>, \<open>urlify\<close>, \<open>getMissingParams\<close>, \<open>getBody\<close>, \<open>execute\<close> up to the request it
    sends, and \<open>asCurl\<close>.  \<open>SwaggerRequest\<close> shows what the URL carries and hides, \<open>SwaggerCall\<close>
    when a call is stopped, and its headers and bodies.
  \<^item> \<open>SwaggerTypes\<close>: the constructor of \<open>Operation\<close> and the models it makes.
  \<^item> \<open>SchemaMarkup\<close>: \<open>getStringSignature\<close>, \<open>schemaToJSON\<close> and the model methods on them; samples
    end, also for models that refer to each other in circles.  \<open>SchemaHtml\<close>: \<open>schemaToHTML\<close>,
    whose closure is a record; \<open>SchemaTermination\<close>: when its loop ends, and when it does not.
  \<^item> \<open>SwaggerClient\<close>: \<open>lib/client.js\<close>: the options, the address, \<open>buildFromSpec\<close> with its groups and
    operations, which are shared and therefore kept in lists and referred to by position.
    \<open>ClientBuild\<close>: the list of groups is complete, the tables fit together, identifiers are
    unique, tags that are entered and tags that end the construction.
  \<^item> \<open>SpecConverter\<close>: \<open>lib/spec-converter.js\<close>, from Swagger 1.x to 2.0, with the answers to its
    requests as steps in any order; \<open>SpecDocument\<close>: what the document it makes looks like.
  \<^item> \<open>UrlJoin\<close>, \<open>Resolver\<close>: the parts of \<open>lib/resolver.js\<close> (4552--5464) that look at a document: its references,
    the addresses they are joined to, the entries of the table of references and what they point at,
    the composition of \<open>allOf\<close>.  \<open>ResolverLaws\<close>: references stay what they were when a document is
    brought into another, what counts as resolved is found, the entry of an inlined reference agrees
    with \<open>joinUrl\<close>, and a composed schema has the parts of all its components.  \<open>ResolverTable\<close>: the
    loop that chooses the entries to resolve, which shares its counter with an inner loop; when it
    goes through the table in order, and when it skips entries or never ends.
  \<^item> \<open>QPromise\<close>: the promises of \<open>Q\<close> (18109--20162) the client waits with: \<open>defer\<close>, \<open>then\<close>, the queue of
    \<open>nextTick\<close>, the tracking of rejections.  Promises and calls of \<open>then\<close> are kept in lists; a program
    is a sequence of actions (\<open>perform\<close>), and a step relation gives the states it can reach.
    \<open>PromiseLaws\<close>: a settled promise stays so, each callback is called once, in a later turn and
    with the right value; \<open>PromiseOrder\<close>: in the order of the calls of \<open>then\<close>; \<open>PromiseQueue\<close>: the
    queue empties if no promise waits for itself, and never if one does.
  \<^item> \<open>XmlSample\<close>: the XML sample of a schema the page shows (\<open>SwaggerUi.partials.signature\<close>, 24157--25098),
    with the object \<open>config\<close> its calls share as the state, and \<open>formatXml\<close>, whose regular expressions are
    written as functions.  \<open>XmlLaws\<close>: making a sample ends, models are noted only while they are
    described, the tags are balanced, indentation changes nothing but blanks and line ends.
  \<^item> \<open>LangTables\<close>, \<open>Translator\<close>: the language files and the translator.

  \<^bold>\<open>Arguments of the model.\<close>  \<open>Date.parse\<close>, \<open>Date.now\<close>, \<open>toGMTString\<close>, the presence of
  \<open>FormData\<close> and the effect of a regular expression made from a parameter's name that is not plain
  text are arguments (\<open>env\<close> in \<open>SwaggerOperation\<close>), as are the texts of \<open>lib/schema-markup.js\<close>
  and the two macro callbacks (\<open>SwaggerTypes\<close>).  \<open>execute\<close> ends with a value that says
  what is sent: a rejected promise, a call of the error callback, a mocked request, or a request
  for \<open>lib/http.js\<close>.

  \<^bold>\<open>Bounds.\<close>  One operation runs on fuel, the XML sample (\<open>createSchemaXML\<close>), which goes from a
  reference to its model; \<open>fuel_for\<close>, the number of references times the size of the models, is enough
  (\<open>xml_sample_ends\<close>).  All other loops are recursions over the list or the count of the
  loop, with measures where they are not structural, but for the loop of \<open>schemaToHTML\<close>, which need
  not end and is a partial function (\<open>html_loop\<close>), the queue of \<open>Q\<close> (\<open>flush\<close>, \<open>inspect\<close>)
  and the loop over the table of references (\<open>select\<close>).  Numbers are exact rationals; the theorems on
  integers of variable width stay below six octets or hold for the arithmetic as written, and
  lengths below \<open>2 ^ 31\<close> are a hypothesis where the code checks them.

  \<^bold>\<open>Not modelled.\<close>  Of \<open>lib/resolver.js\<close>, the walk over the document that enters references in the
  table, the requests, and \<open>finish\<close>, which writes the results into the document: afterwards its objects
  are shared, and it is no longer the tree the model has.  Of \<open>Q\<close>, the combinators, generators, timers and
  adapters, and the operations on objects.  \<open>js-yaml\<close> is a third-party library the client calls once.
  \<open>lib/http.js\<close> and \<open>superagent\<close> are input and output; \<open>lodash\<close> is a general library, whose few
  functions are written out where the modelled code calls them; \<open>ieee754\<close> rests on floating-point
  logarithms; the templates are generated, and the views act on the page.  Of \<open>buffer\<close>, the
  constructor's dispatch on the kind of its argument and the readers and writers of floating-point
  numbers are left out.
\<close>

end
